(* ===== verification/Prelude.thy ===== *)
theory Prelude
  imports Main "HOL-Library.Char_ord" "HOL-Library.List_Lexorder" "HOL-Library.Multiset"
    "HOL-Library.Word"
begin

text \<open>
  Shared vocabulary of the development: the fact collections, the error-as-value
  combinators that mirror Go's \<open>if err != nil { return err }\<close>, and generic lemmas on
  lists, options and sums. Nothing here is specific to one component.

  A Go function that returns \<open>error\<close> is a function into \<open>'e option\<close> (\<open>None\<close> is
  \<open>nil\<close>); one that returns \<open>(T, error)\<close> is a function into \<open>'e + 'a\<close>, the
  error on the left. A Go \<open>map[string]bool\<close> that only ever stores \<open>true\<close> is a
  set; an order-dependent Go map is an association list.
\<close>

named_theorems go_std \<open>evaluation rules of the modelled standard library\<close>
named_theorems chk \<open>inversion of validation routines: what an accepted input satisfies\<close>
named_theorems render \<open>membership of a line in a rendered document\<close>

section \<open>Errors as values\<close>

text \<open>The first check of a sequence that reports an error decides.\<close>

definition err_then :: "'e option \<Rightarrow> 'e option \<Rightarrow> 'e option" where
  "err_then a b = (case a of None \<Rightarrow> b | Some e \<Rightarrow> Some e)"

text \<open>A loop whose body may return an error: the first element that fails decides.\<close>

fun first_err :: "('a \<Rightarrow> 'e option) \<Rightarrow> 'a list \<Rightarrow> 'e option" where
  "first_err f [] = None"
| "first_err f (x # xs) = (case f x of None \<Rightarrow> first_err f xs | Some e \<Rightarrow> Some e)"

lemma err_then_None [simp, chk]: "err_then a b = None \<longleftrightarrow> a = None \<and> b = None"
  by (simp add: err_then_def split: option.split)

lemma err_then_simps [simp]: "err_then None b = b" "err_then (Some e) b = Some e"
  by (simp_all add: err_then_def)

lemma first_err_None [simp, chk]: "first_err f xs = None \<longleftrightarrow> (\<forall>x \<in> set xs. f x = None)"
  by (induction xs) (auto split: option.split)

lemma first_err_SomeD: "first_err f xs = Some e \<Longrightarrow> \<exists>x \<in> set xs. f x = Some e"
  by (induction xs) (auto split: option.splits)

text \<open>The check of a condition: \<open>if c then return e\<close>.\<close>

definition fail_if :: "bool \<Rightarrow> 'e \<Rightarrow> 'e option" where
  "fail_if c e = (if c then Some e else None)"

lemma fail_if_None [simp, chk]: "fail_if c e = None \<longleftrightarrow> \<not> c"
  by (simp add: fail_if_def)

lemma fail_if_simps [simp]: "fail_if True e = Some e" "fail_if False e = None"
  by (simp_all add: fail_if_def)

lemma map_sum_Inr_iff: "map_sum id f r = Inr y \<longleftrightarrow> (\<exists>x. r = Inr x \<and> y = f x)"
  by (cases r) auto

lemma map_sum_Inl_iff [simp]: "map_sum id f r = Inl e \<longleftrightarrow> r = Inl e"
  by (cases r) auto

text \<open>\<open>v, err := f(); if err != nil { return err }\<close> followed by the rest.\<close>

definition try_then :: "'e + 'a \<Rightarrow> ('a \<Rightarrow> 'e + 'b) \<Rightarrow> 'e + 'b" where
  "try_then r f = (case r of Inl e \<Rightarrow> Inl e | Inr x \<Rightarrow> f x)"

lemma try_then_simps [simp]: "try_then (Inl e) f = Inl e" "try_then (Inr x) f = f x"
  by (simp_all add: try_then_def)

lemma try_then_Inr_iff: "try_then r f = Inr y \<longleftrightarrow> (\<exists>x. r = Inr x \<and> f x = Inr y)"
  by (cases r) auto

text \<open>A Go call that may also panic (an index out of range, a nil dereference).\<close>

datatype ('e, 'a) outcome = Return 'a | Error 'e | Panic

section \<open>Loops that remember what they have seen\<close>

text \<open>
  The validators walk a list with a \<open>seen\<close> map: the body checks one element against the
  keys met so far and may return an error; otherwise the element's key is stored.
\<close>

fun seen_err :: "('k set \<Rightarrow> 'a \<Rightarrow> 'e option) \<Rightarrow> ('a \<Rightarrow> 'k) \<Rightarrow> 'k set \<Rightarrow> 'a list \<Rightarrow> 'e option" where
  "seen_err f key seen [] = None"
| "seen_err f key seen (x # xs) =
     (case f seen x of
        None \<Rightarrow> seen_err f key (insert (key x) seen) xs
      | Some e \<Rightarrow> Some e)"

lemma seen_err_elem:
  "seen_err f key seen xs = None \<Longrightarrow> x \<in> set xs \<Longrightarrow> \<exists>S. f S x = None"
  by (induction xs arbitrary: seen) (auto split: option.splits)

lemma seen_err_nth:
  "seen_err f key seen xs = None \<longleftrightarrow>
     (\<forall>i < length xs. f (seen \<union> key ` set (take i xs)) (xs ! i) = None)"
proof (induction xs arbitrary: seen)
  case (Cons x xs)
  have "seen_err f key seen (x # xs) = None \<longleftrightarrow>
      f seen x = None \<and> seen_err f key (insert (key x) seen) xs = None"
    by (simp split: option.split)
  also have "\<dots> \<longleftrightarrow> (\<forall>i < length (x # xs). f (seen \<union> key ` set (take i (x # xs))) ((x # xs) ! i) = None)"
    by (auto simp: Cons.IH less_Suc_eq_0_disj)
  finally show ?case .
qed simp

text \<open>
  The contract of such a body: it accepts an element exactly when the element is good by
  itself and two projections of its key are new. Then the loop accepts exactly the lists of
  good elements on which both projections are distinct.
\<close>

locale seen_loop =
  fixes body :: "'k set \<Rightarrow> 'a \<Rightarrow> 'e option"
    and key :: "'a \<Rightarrow> 'k"
    and p1 :: "'k \<Rightarrow> 'p"
    and p2 :: "'k \<Rightarrow> 'q"
    and good :: "'a \<Rightarrow> bool"
  assumes body_iff:
    "body S x = None \<longleftrightarrow> good x \<and> p1 (key x) \<notin> p1 ` S \<and> p2 (key x) \<notin> p2 ` S"
begin

lemma loop_iff:
  "seen_err body key S xs = None \<longleftrightarrow>
     (\<forall>x \<in> set xs. good x)
   \<and> distinct (map (\<lambda>x. p1 (key x)) xs) \<and> distinct (map (\<lambda>x. p2 (key x)) xs)
   \<and> (\<forall>x \<in> set xs. p1 (key x) \<notin> p1 ` S \<and> p2 (key x) \<notin> p2 ` S)"
proof (induction xs arbitrary: S)
  case (Cons x xs)
  have "seen_err body key S (x # xs) = None \<longleftrightarrow>
      body S x = None \<and> seen_err body key (insert (key x) S) xs = None"
    by (simp split: option.split)
  also have "\<dots> \<longleftrightarrow> (\<forall>y \<in> set (x # xs). good y)
     \<and> distinct (map (\<lambda>x. p1 (key x)) (x # xs)) \<and> distinct (map (\<lambda>x. p2 (key x)) (x # xs))
     \<and> (\<forall>y \<in> set (x # xs). p1 (key y) \<notin> p1 ` S \<and> p2 (key y) \<notin> p2 ` S)"
    by (auto simp: Cons.IH body_iff image_iff)
  finally show ?case .
qed simp

lemma loop_from_empty:
  "seen_err body key {} xs = None \<longleftrightarrow>
     (\<forall>x \<in> set xs. good x)
   \<and> distinct (map (\<lambda>x. p1 (key x)) xs) \<and> distinct (map (\<lambda>x. p2 (key x)) xs)"
  by (simp add: loop_iff)

end

section \<open>Lists\<close>

text \<open>
  The \<open>seen\<close> idiom of the source: keep the elements not met before, in order of their
  first occurrence.
\<close>

fun dedup :: "'a set \<Rightarrow> 'a list \<Rightarrow> 'a list" where
  "dedup seen [] = []"
| "dedup seen (x # xs) =
     (if x \<in> seen then dedup seen xs else x # dedup (insert x seen) xs)"

lemma set_dedup [simp]: "set (dedup seen xs) = set xs - seen"
  by (induction xs arbitrary: seen) auto

lemma distinct_dedup [simp]: "distinct (dedup seen xs)"
  by (induction xs arbitrary: seen) auto

lemma dedup_distinct_id: "distinct xs \<Longrightarrow> set xs \<inter> seen = {} \<Longrightarrow> dedup seen xs = xs"
  by (induction xs arbitrary: seen) auto

text \<open>The first duplicate of a list, as the \<open>seen\<close> maps of the validators find it.\<close>

fun has_dup :: "'a set \<Rightarrow> 'a list \<Rightarrow> bool" where
  "has_dup seen [] = False"
| "has_dup seen (x # xs) = (x \<in> seen \<or> has_dup (insert x seen) xs)"

lemma has_dup_iff: "has_dup seen xs \<longleftrightarrow> \<not> (distinct xs \<and> set xs \<inter> seen = {})"
  by (induction xs arbitrary: seen) auto

lemma distinct_map_inj:
  "distinct (map f xs) \<Longrightarrow> x \<in> set xs \<Longrightarrow> y \<in> set xs \<Longrightarrow> f x = f y \<Longrightarrow> x = y"
  by (simp add: distinct_map inj_on_def)

lemma nth_length_filter:
  assumes "xs = ys @ x # zs" and "P x"
  shows "filter P xs ! length (filter P ys) = x"
    and "length (filter P ys) < length (filter P xs)"
  using assms by (simp_all add: nth_append)

section \<open>Sorted output\<close>

text \<open>\<open>sort.Strings\<close> and the key-sorted copies the generators make before rendering.\<close>

lemma sort_strict:
  fixes xs :: "'a::linorder list"
  shows "distinct xs \<Longrightarrow> sorted_wrt (<) (sort xs)"
  by (simp add: strict_sorted_iff)

lemma sort_key_nth_mem: "i < length xs \<Longrightarrow> sort_key f xs ! i \<in> set xs"
  by (metis length_sort nth_mem set_sort)

end
