(* ===== verification/GoStrings.thy ===== *)
theory GoStrings
  imports Prelude
begin

text \<open>
  The part of Go's \<open>strings\<close>, \<open>strconv\<close>, \<open>sort\<close> and \<open>fmt\<close> that the program
  uses. A Go string is a sequence of bytes, which is exactly HOL's \<open>string\<close>; \<open>len\<close> is
  \<open>length\<close> and \<open><\<close> is the bytewise lexicographic order of \<open>List_Lexorder\<close>.

  Character classes of the source's regular expressions are ASCII only. A regular
  expression over runes with ASCII classes accepts a byte string exactly when the bytewise
  check does, because a rune above 127 is encoded by bytes above 127 only.
\<close>

section \<open>Character classes\<close>

definition is_digit :: "char \<Rightarrow> bool" where
  "is_digit c \<longleftrightarrow> CHR ''0'' \<le> c \<and> c \<le> CHR ''9''"

definition is_lower :: "char \<Rightarrow> bool" where
  "is_lower c \<longleftrightarrow> CHR ''a'' \<le> c \<and> c \<le> CHR ''z''"

definition is_upper :: "char \<Rightarrow> bool" where
  "is_upper c \<longleftrightarrow> CHR ''A'' \<le> c \<and> c \<le> CHR ''Z''"

definition is_ascii :: "char \<Rightarrow> bool" where
  "is_ascii c \<longleftrightarrow> c < CHR 0x80"

text \<open>Printable ASCII without the space: a byte no trimming and no quoting ever touches.\<close>

definition is_graph :: "char \<Rightarrow> bool" where
  "is_graph c \<longleftrightarrow> CHR 0x21 \<le> c \<and> c \<le> CHR 0x7E"

lemmas char_class_defs = is_digit_def is_lower_def is_upper_def is_ascii_def is_graph_def

lemma char_le_of_char: "(c :: char) \<le> d \<longleftrightarrow> (of_char c :: nat) \<le> of_char d"
  by (simp add: less_eq_char_def)

lemma char_less_of_char: "(c :: char) < d \<longleftrightarrow> (of_char c :: nat) < of_char d"
  by (simp add: less_char_def)

lemma is_graph_dot: "is_graph (CHR ''.'')"
  by (simp add: is_graph_def)

lemma is_graph_digit: "is_digit c \<Longrightarrow> is_graph c"
  by (simp add: is_digit_def is_graph_def char_le_of_char)

lemma is_graph_lower: "is_lower c \<Longrightarrow> is_graph c"
  by (simp add: is_lower_def is_graph_def char_le_of_char)

lemma is_graph_upper: "is_upper c \<Longrightarrow> is_graph c"
  by (simp add: is_upper_def is_graph_def char_le_of_char)

text \<open>The regular expression \<open>^[P][Q]{lo,hi}$\<close> and the expression \<open>^[Q]{lo,hi}$\<close>.\<close>

definition re_head_tail :: "(char \<Rightarrow> bool) \<Rightarrow> (char \<Rightarrow> bool) \<Rightarrow> nat \<Rightarrow> nat \<Rightarrow> string \<Rightarrow> bool" where
  "re_head_tail P Q lo hi s \<longleftrightarrow>
     (case s of [] \<Rightarrow> False
      | c # cs \<Rightarrow> P c \<and> lo \<le> length cs \<and> length cs \<le> hi \<and> list_all Q cs)"

definition re_rep :: "(char \<Rightarrow> bool) \<Rightarrow> nat \<Rightarrow> nat \<Rightarrow> string \<Rightarrow> bool" where
  "re_rep Q lo hi s \<longleftrightarrow> lo \<le> length s \<and> length s \<le> hi \<and> list_all Q s"

text \<open>
  The expression \<open>^[P]([Q]{0,n}[P])?$\<close> with \<open>P\<close> inside \<open>Q\<close>: a name of at most \<open>n + 2\<close>
  characters that starts and ends in \<open>P\<close>.
\<close>

definition re_ends :: "(char \<Rightarrow> bool) \<Rightarrow> (char \<Rightarrow> bool) \<Rightarrow> nat \<Rightarrow> string \<Rightarrow> bool" where
  "re_ends P Q n s \<longleftrightarrow> s \<noteq> [] \<and> P (hd s) \<and> P (last s) \<and> list_all Q s \<and> length s \<le> n + 2"

text \<open>The characters of interface names, shared by every adapter.\<close>

definition iface_char :: "char \<Rightarrow> bool" where
  "iface_char c \<longleftrightarrow> is_lower c \<or> is_upper c \<or> is_digit c
     \<or> c = CHR ''.'' \<or> c = CHR ''_'' \<or> c = CHR ''-''"

lemma iface_char_graph: "iface_char c \<Longrightarrow> is_graph c"
  by (auto simp: iface_char_def is_graph_lower is_graph_upper is_graph_digit)
     (simp_all add: is_graph_def)

section \<open>strings.TrimSpace\<close>

text \<open>
  The number of bytes of the white-space rune a string starts with, 0 when it starts with
  none: the six ASCII ones, and the UTF-8 encodings of U+0085, U+00A0, U+1680,
  U+2000 to U+200A, U+2028, U+2029, U+202F, U+205F and U+3000.
\<close>

definition ascii_space :: "char \<Rightarrow> bool" where
  "ascii_space c \<longleftrightarrow> c = CHR 0x20 \<or> (CHR 0x09 \<le> c \<and> c \<le> CHR 0x0D)"

definition space3 :: "char \<Rightarrow> char \<Rightarrow> char \<Rightarrow> bool" where
  "space3 a b c \<longleftrightarrow>
     a = CHR 0xE1 \<and> b = CHR 0x9A \<and> c = CHR 0x80
   \<or> a = CHR 0xE2 \<and> b = CHR 0x80 \<and>
       (CHR 0x80 \<le> c \<and> c \<le> CHR 0x8A \<or> c = CHR 0xA8 \<or> c = CHR 0xA9 \<or> c = CHR 0xAF)
   \<or> a = CHR 0xE2 \<and> b = CHR 0x81 \<and> c = CHR 0x9F
   \<or> a = CHR 0xE3 \<and> b = CHR 0x80 \<and> c = CHR 0x80"

definition space2 :: "char \<Rightarrow> char \<Rightarrow> bool" where
  "space2 a b \<longleftrightarrow> a = CHR 0xC2 \<and> (b = CHR 0x85 \<or> b = CHR 0xA0)"

fun trim_left :: "string \<Rightarrow> string" where
  "trim_left [] = []"
| "trim_left [a] = (if ascii_space a then [] else [a])"
| "trim_left [a, b] =
     (if ascii_space a then trim_left [b] else if space2 a b then [] else [a, b])"
| "trim_left (a # b # c # s) =
     (if ascii_space a then trim_left (b # c # s)
      else if space2 a b then trim_left (c # s)
      else if space3 a b c then trim_left s
      else a # b # c # s)"

text \<open>Trimming on the right works on the reversed string: the runes' bytes are reversed.\<close>

fun trim_rev :: "string \<Rightarrow> string" where
  "trim_rev [] = []"
| "trim_rev [a] = (if ascii_space a then [] else [a])"
| "trim_rev [a, b] =
     (if ascii_space a then trim_rev [b] else if space2 b a then [] else [a, b])"
| "trim_rev (a # b # c # s) =
     (if ascii_space a then trim_rev (b # c # s)
      else if space2 b a then trim_rev (c # s)
      else if space3 c b a then trim_rev s
      else a # b # c # s)"

definition TrimSpace :: "string \<Rightarrow> string" where
  "TrimSpace s = rev (trim_rev (rev (trim_left s)))"

lemma ascii_not_space23:
  "is_ascii a \<Longrightarrow> \<not> space2 a b" "is_ascii b \<Longrightarrow> \<not> space2 a b"
  "is_ascii a \<Longrightarrow> \<not> space3 a b c" "is_ascii c \<Longrightarrow> \<not> space3 a b c"
  by (auto simp: is_ascii_def space2_def space3_def char_le_of_char char_less_of_char)

lemma graph_not_space: "is_graph c \<Longrightarrow> \<not> ascii_space c \<and> is_ascii c"
  by (auto simp: is_graph_def ascii_space_def is_ascii_def char_le_of_char char_less_of_char)

lemma trim_left_graph: "s = [] \<or> is_graph (hd s) \<Longrightarrow> trim_left s = s"
  by (cases s rule: trim_left.cases) (auto dest: graph_not_space simp: ascii_not_space23)

lemma trim_rev_graph: "s = [] \<or> is_graph (hd s) \<Longrightarrow> trim_rev s = s"
  by (cases s rule: trim_rev.cases) (auto dest: graph_not_space simp: ascii_not_space23)

text \<open>A string that starts and ends with printable bytes is left alone.\<close>

lemma TrimSpace_graph:
  assumes "s = [] \<or> (is_graph (hd s) \<and> is_graph (last s))"
  shows "TrimSpace s = s"
  using assms by (auto simp: TrimSpace_def trim_left_graph trim_rev_graph hd_rev)

lemma TrimSpace_all_graph [simp]: "list_all is_graph s \<Longrightarrow> TrimSpace s = s"
  by (rule TrimSpace_graph) (auto simp: list_all_iff)

lemma TrimSpace_Nil [simp]: "TrimSpace [] = []"
  by (simp add: TrimSpace_def)

lemma set_trim_left: "set (trim_left s) \<subseteq> set s"
  by (induction s rule: trim_left.induct) auto

lemma set_trim_rev: "set (trim_rev s) \<subseteq> set s"
  by (induction s rule: trim_rev.induct) auto

lemma set_TrimSpace: "set (TrimSpace s) \<subseteq> set s"
  using set_trim_left set_trim_rev unfolding TrimSpace_def by fastforce

section \<open>Prefixes, splitting, joining\<close>

definition HasPrefix :: "string \<Rightarrow> string \<Rightarrow> bool" where
  "HasPrefix s p \<longleftrightarrow> take (length p) s = p"

definition HasSuffix :: "string \<Rightarrow> string \<Rightarrow> bool" where
  "HasSuffix s p \<longleftrightarrow> length p \<le> length s \<and> drop (length s - length p) s = p"

definition TrimPrefix :: "string \<Rightarrow> string \<Rightarrow> string" where
  "TrimPrefix s p = (if HasPrefix s p then drop (length p) s else s)"

definition TrimSuffix :: "string \<Rightarrow> string \<Rightarrow> string" where
  "TrimSuffix s p = (if HasSuffix s p then take (length s - length p) s else s)"

text \<open>\<open>strings.Contains\<close>.\<close>

fun Contains_str :: "string \<Rightarrow> string \<Rightarrow> bool" where
  "Contains_str [] p = (p = [])"
| "Contains_str (c # s) p = (HasPrefix (c # s) p \<or> Contains_str s p)"

lemma HasPrefix_append [simp]: "HasPrefix (p @ s) p"
  by (simp add: HasPrefix_def)

lemma HasSuffix_append [simp]: "HasSuffix (s @ p) p"
  by (simp add: HasSuffix_def)

lemma HasPrefix_simps:
  "HasPrefix s []" "\<not> HasPrefix [] (b # p)" "HasPrefix (a # s) (b # p) \<longleftrightarrow> a = b \<and> HasPrefix s p"
  by (auto simp: HasPrefix_def)

lemma HasPrefix_conv: "HasPrefix s p \<longleftrightarrow> (\<exists>r. s = p @ r)"
  by (metis HasPrefix_append HasPrefix_def append_take_drop_id)

text \<open>\<open>strings.Cut\<close> and \<open>strings.SplitN(s, sep, 2)\<close> for a one-byte separator.\<close>

fun cut :: "char \<Rightarrow> string \<Rightarrow> (string \<times> string) option" where
  "cut c [] = None"
| "cut c (x # xs) =
     (if x = c then Some ([], xs)
      else map_option (\<lambda>(a, b). (x # a, b)) (cut c xs))"

definition SplitN2 :: "char \<Rightarrow> string \<Rightarrow> string list" where
  "SplitN2 c s = (case cut c s of None \<Rightarrow> [s] | Some (a, b) \<Rightarrow> [a, b])"

fun Split :: "char \<Rightarrow> string \<Rightarrow> string list" where
  "Split c [] = [[]]"
| "Split c (x # xs) =
     (if x = c then [] # Split c xs
      else (case Split c xs of [] \<Rightarrow> [[x]] | p # ps \<Rightarrow> (x # p) # ps))"

lemma cut_Some_iff: "cut c s = Some (a, b) \<longleftrightarrow> s = a @ c # b \<and> c \<notin> set a"
proof (induction s arbitrary: a)
  case (Cons x s)
  show ?case
    by (cases a) (auto simp: Cons.IH)
qed simp

lemma cut_None_iff: "cut c s = None \<longleftrightarrow> c \<notin> set s"
  by (induction s) auto

lemma cut_append [simp]: "c \<notin> set a \<Longrightarrow> cut c (a @ c # b) = Some (a, b)"
  by (simp add: cut_Some_iff)

lemma Split_not_Nil [simp]: "Split c s \<noteq> []"
  by (induction s) (auto split: list.split)

text \<open>\<open>strings.Join\<close>.\<close>

fun Join :: "string list \<Rightarrow> string \<Rightarrow> string" where
  "Join [] sep = []"
| "Join [x] sep = x"
| "Join (x # y # ys) sep = x @ sep @ Join (y # ys) sep"

lemma Join_Split: "Join (Split c s) [c] = s"
proof (induction s)
  case (Cons x s)
  then show ?case
    by (cases "Split c s" rule: list.exhaust; cases "tl (Split c s)") auto
qed simp

lemma set_Join: "set (Join xs sep) \<subseteq> (\<Union>x \<in> set xs. set x) \<union> set sep"
  by (induction xs sep rule: Join.induct) auto

lemma Split_no_sep: "c \<notin> set s \<Longrightarrow> Split c s = [s]"
  by (induction s) auto

lemma Split_append_sep: "c \<notin> set a \<Longrightarrow> Split c (a @ c # b) = a # Split c b"
  by (induction a) auto

lemma Split_Join:
  "fs \<noteq> [] \<Longrightarrow> \<forall>f \<in> set fs. c \<notin> set f \<Longrightarrow> Split c (Join fs [c]) = fs"
  by (induction fs "[c]" rule: Join.induct) (auto simp: Split_no_sep Split_append_sep)

lemma Split_append_ne: "Split c (a @ c # b) = Split c a @ Split c b"
  by (induction a) (auto split: list.split)

lemma Split_middle: "c \<notin> set x \<Longrightarrow> x \<in> set (Split c (a @ c # x @ c # b))"
  by (simp add: Split_append_ne Split_no_sep)

definition ReplaceAllChar :: "char \<Rightarrow> string \<Rightarrow> string \<Rightarrow> string" where
  "ReplaceAllChar c new s = concat (map (\<lambda>x. if x = c then new else [x]) s)"

section \<open>Case mapping\<close>

text \<open>
  \<open>strings.ToLower\<close> on bytes: ASCII letters, and the two runes outside ASCII whose lower
  case is an ASCII letter, U+0130 (bytes C4 B0, to \<open>i\<close>) and U+212A (bytes E2 84 AA, to
  \<open>k\<close>). Go maps other non-ASCII upper-case letters to non-ASCII lower-case ones; the model
  leaves them unchanged, which no caller can tell from the ASCII classes it checks next.
\<close>

definition lower_char :: "char \<Rightarrow> char" where
  "lower_char c = (if is_upper c then char_of (of_char c + 32 :: nat) else c)"

definition upper_char :: "char \<Rightarrow> char" where
  "upper_char c = (if is_lower c then char_of (of_char c - 32 :: nat) else c)"

fun ToLower :: "string \<Rightarrow> string" where
  "ToLower [] = []"
| "ToLower [a] = [lower_char a]"
| "ToLower [a, b] =
     (if a = CHR 0xC4 \<and> b = CHR 0xB0 then ''i'' else lower_char a # ToLower [b])"
| "ToLower (a # b # c # s) =
     (if a = CHR 0xC4 \<and> b = CHR 0xB0 then CHR ''i'' # ToLower (c # s)
      else if a = CHR 0xE2 \<and> b = CHR 0x84 \<and> c = CHR 0xAA then CHR ''k'' # ToLower s
      else lower_char a # ToLower (b # c # s))"

definition ToUpper :: "string \<Rightarrow> string" where
  "ToUpper s = map upper_char s"

text \<open>\<open>strings.EqualFold\<close> on ASCII names.\<close>

definition EqualFold :: "string \<Rightarrow> string \<Rightarrow> bool" where
  "EqualFold a b \<longleftrightarrow> map lower_char a = map lower_char b"

lemma ToLower_ascii: "list_all is_ascii s \<Longrightarrow> ToLower s = map lower_char s"
  by (induction s rule: ToLower.induct) (auto simp: is_ascii_def char_less_of_char)

lemma lower_char_idem [simp]: "lower_char (lower_char c) = lower_char c"
  by (simp add: lower_char_def is_upper_def char_le_of_char)

lemma lower_char_id: "\<not> is_upper c \<Longrightarrow> lower_char c = c"
  by (simp add: lower_char_def)

lemma EqualFold_refl [simp]: "EqualFold a a"
  by (simp add: EqualFold_def)

end
