(* ===== verification/GoFmt.thy ===== *)
theory GoFmt
  imports GoStrings
begin

text \<open>
  Numbers and quoting: \<open>strconv.Itoa\<close>, \<open>strconv.Atoi\<close>, the \<open>%d\<close>, \<open>%x\<close> and
  \<open>%q\<close> verbs of \<open>fmt\<close>, and the line-oriented documents the generators write.
\<close>

section \<open>Decimal and hexadecimal\<close>

definition digit_char :: "nat \<Rightarrow> char" where
  "digit_char d = char_of (48 + d)"

definition digit_val :: "char \<Rightarrow> nat" where
  "digit_val c = of_char c - 48"

fun nat_str :: "nat \<Rightarrow> string" where
  "nat_str n = (if n < 10 then [digit_char n] else nat_str (n div 10) @ [digit_char (n mod 10)])"

declare nat_str.simps [simp del]

definition Itoa :: "int \<Rightarrow> string" where
  "Itoa i = (if i < 0 then CHR ''-'' # nat_str (nat (- i)) else nat_str (nat i))"

definition digits_val :: "string \<Rightarrow> nat" where
  "digits_val s = foldl (\<lambda>n c. 10 * n + digit_val c) 0 s"

definition hex_digit :: "nat \<Rightarrow> char" where
  "hex_digit d = (if d < 10 then char_of (48 + d) else char_of (87 + d))"

fun hex_str :: "nat \<Rightarrow> string" where
  "hex_str n = (if n < 16 then [hex_digit n] else hex_str (n div 16) @ [hex_digit (n mod 16)])"

declare hex_str.simps [simp del]

lemma digit_char_code [go_std]:
  "digit_char 0 = CHR ''0''" "digit_char (Suc 0) = CHR ''1''" "digit_char 1 = CHR ''1''"
  "digit_char 2 = CHR ''2''"
  "digit_char 3 = CHR ''3''" "digit_char 4 = CHR ''4''" "digit_char 5 = CHR ''5''"
  "digit_char 6 = CHR ''6''" "digit_char 7 = CHR ''7''" "digit_char 8 = CHR ''8''"
  "digit_char 9 = CHR ''9''"
  by code_simp+

lemma of_char_digit: "d < 10 \<Longrightarrow> (of_char (digit_char d) :: nat) = 48 + d"
  by (simp add: digit_char_def)

lemma is_digit_digit_char [simp]: "d < 10 \<Longrightarrow> is_digit (digit_char d)"
  by (simp add: is_digit_def char_le_of_char of_char_digit)

lemma digit_val_char [simp]: "d < 10 \<Longrightarrow> digit_val (digit_char d) = d"
  by (simp add: digit_val_def of_char_digit)

lemma digit_char_val [simp]: "is_digit c \<Longrightarrow> digit_char (digit_val c) = c"
  by (simp add: is_digit_def char_le_of_char digit_char_def digit_val_def)

lemma digit_val_less: "is_digit c \<Longrightarrow> digit_val c < 10"
  by (auto simp: is_digit_def char_le_of_char digit_val_def)

lemma digit_val_0_iff: "is_digit c \<Longrightarrow> digit_val c = 0 \<longleftrightarrow> c = CHR ''0''"
  using digit_char_val [of c] by (auto simp: go_std digit_val_def)

lemma nat_str_not_Nil [simp]: "nat_str n \<noteq> []"
  by (subst nat_str.simps) simp

lemma nat_str_digits: "list_all is_digit (nat_str n)"
proof (induction n rule: nat_str.induct)
  case (1 n)
  then show ?case
    by (subst nat_str.simps) (auto simp: list_all_iff)
qed

lemma digits_val_snoc [simp]: "digits_val (s @ [c]) = 10 * digits_val s + digit_val c"
  by (simp add: digits_val_def)

lemma digits_val_single [simp]: "digits_val [c] = digit_val c"
  by (simp add: digits_val_def)

lemma digits_val_Nil [simp]: "digits_val [] = 0"
  by (simp add: digits_val_def)

text \<open>Reading back what was printed.\<close>

lemma digits_val_nat_str [simp]: "digits_val (nat_str n) = n"
proof (induction n rule: nat_str.induct)
  case (1 n)
  then show ?case
    by (subst nat_str.simps) auto
qed

lemma nat_str_inj: "nat_str m = nat_str n \<longleftrightarrow> m = n"
  by (metis digits_val_nat_str)

text \<open>A decimal without a leading zero is the printed form of its value.\<close>

lemma nat_str_digits_val:
  assumes "list_all is_digit s" "s \<noteq> []" "length s = 1 \<or> hd s \<noteq> CHR ''0''"
  shows "nat_str (digits_val s) = s"
  using assms
proof (induction s rule: rev_induct)
  case (snoc c s)
  show ?case
  proof (cases "s = []")
    case True
    with snoc.prems show ?thesis
      by (subst nat_str.simps) (simp add: digit_val_less)
  next
    case False
    have d: "list_all is_digit s" "hd s \<noteq> CHR ''0''" and c: "is_digit c"
      using snoc.prems False by auto
    have IH: "nat_str (digits_val s) = s"
      using snoc.IH d False by blast
    have "digits_val s \<noteq> 0"
    proof
      assume "digits_val s = 0"
      with IH have "s = nat_str 0" by simp
      then have "s = ''0''" by (simp add: nat_str.simps [of 0] go_std)
      with d show False by simp
    qed
    with IH c show ?thesis
      by (subst nat_str.simps) (auto simp: digit_val_less)
  qed
qed simp

lemma length_nat_str: "n < 10 \<Longrightarrow> length (nat_str n) = 1"
  "10 \<le> n \<Longrightarrow> 2 \<le> length (nat_str n)"
  by (subst nat_str.simps, simp)+

lemma hd_nat_str: "hd (nat_str n) = CHR ''0'' \<Longrightarrow> n = 0"
proof (induction n rule: nat_str.induct)
  case (1 n)
  show ?case
  proof (cases "n < 10")
    case True
    then have "hd (nat_str n) = digit_char n" by (subst nat_str.simps) simp
    with "1.prems" True show ?thesis
      by (metis digit_char_code(1) digit_val_char zero_less_numeral)
  next
    case False
    then have "hd (nat_str n) = hd (nat_str (n div 10))"
      by (subst nat_str.simps) simp
    with "1.IH" "1.prems" False show ?thesis by auto
  qed
qed

lemma nat_str_graph: "list_all is_graph (nat_str n)"
  using nat_str_digits [of n] by (auto simp: list_all_iff is_graph_digit)

lemma nat_str_no: "\<not> is_digit c \<Longrightarrow> c \<notin> set (nat_str n)"
  using nat_str_digits [of n] by (auto simp: list_all_iff)

lemma Itoa_nonneg: "0 \<le> i \<Longrightarrow> Itoa i = nat_str (nat i)"
  by (simp add: Itoa_def)

lemma Itoa_inj: "Itoa i = Itoa j \<longleftrightarrow> i = j"
proof -
  have no: "CHR ''-'' \<notin> set (nat_str n)" for n
    by (rule nat_str_no) (simp add: is_digit_def)
  show ?thesis
    using no [of "nat i"] no [of "nat j"]
    by (auto simp: Itoa_def nat_str_inj split: if_splits) (metis list.set_intros(1))+
qed

section \<open>strconv.Atoi\<close>

text \<open>
  An optional sign and at least one decimal digit, nothing else, and a value that fits the
  64-bit \<open>int\<close>; anything else is an error.
\<close>

definition Atoi :: "string \<Rightarrow> int option" where
  "Atoi s =
     (let neg = (s \<noteq> [] \<and> hd s = CHR ''-'');
          ds = (if s \<noteq> [] \<and> (hd s = CHR ''-'' \<or> hd s = CHR ''+'') then tl s else s);
          v = (if neg then - int (digits_val ds) else int (digits_val ds))
      in if ds = [] \<or> \<not> list_all is_digit ds then None
         else if - (2 ^ 63) \<le> v \<and> v < 2 ^ 63 then Some v else None)"

text \<open>
  The value \<open>ParseInt(s, 10, 64)\<close> returns beside its error, for callers that ignore the
  error: the nearest bound when the number is out of range, zero when it is no number. The
  scan stops at the first prefix that does not fit 64 bits, before any later bad character.
\<close>

definition ParseInt64_value :: "string \<Rightarrow> int" where
  "ParseInt64_value s =
     (let (neg, d) = (case s of c # r \<Rightarrow> if c = CHR ''-'' then (True, r) else if c = CHR ''+'' then (False, r) else (False, s)
                              | [] \<Rightarrow> (False, []));
          p = takeWhile is_digit d
      in if d = [] \<or> p \<noteq> d \<and> digits_val p < 2 ^ 64 then 0
         else if neg then max (- (2 ^ 63)) (- int (digits_val p)) else min (2 ^ 63 - 1) (int (digits_val p)))"

lemma Atoi_Itoa:
  assumes "- (2 ^ 63) \<le> i" "i < 2 ^ 63"
  shows "Atoi (Itoa i) = Some i"
proof (cases "i < 0")
  case True
  then show ?thesis
    using assms nat_str_digits by (simp add: Atoi_def Itoa_def Let_def)
next
  case False
  have "is_digit (hd (nat_str (nat i)))"
    using nat_str_digits [of "nat i"] by (cases "nat_str (nat i)") auto
  then have "hd (nat_str (nat i)) \<noteq> CHR ''-''" "hd (nat_str (nat i)) \<noteq> CHR ''+''"
    by (auto simp: is_digit_def)
  then show ?thesis
    using False assms nat_str_digits by (simp add: Atoi_def Itoa_def Let_def)
qed

section \<open>Quoting\<close>

definition dq :: "string \<Rightarrow> string" where
  "dq s = CHR 0x22 # s @ [CHR 0x22]"

text \<open>
  The \<open>%q\<close> verb. Exact on ASCII; a byte of a printable non-ASCII rune stands for itself,
  as in Go. (Go escapes non-printable runes and malformed UTF-8; no such string reaches
  \<open>%q\<close> in the modelled output, whose quoted fields are validated to ASCII classes.)
\<close>

definition quote_char :: "char \<Rightarrow> string" where
  "quote_char c =
     (if c = CHR 0x22 \<or> c = CHR 0x5C then [CHR 0x5C, c]
      else if CHR 0x20 \<le> c \<and> c \<le> CHR 0x7E \<or> CHR 0x80 \<le> c then [c]
      else if c = CHR 0x07 then [CHR 0x5C, CHR ''a'']
      else if c = CHR 0x08 then [CHR 0x5C, CHR ''b'']
      else if c = CHR 0x0C then [CHR 0x5C, CHR ''f'']
      else if c = CHR 0x0A then [CHR 0x5C, CHR ''n'']
      else if c = CHR 0x0D then [CHR 0x5C, CHR ''r'']
      else if c = CHR 0x09 then [CHR 0x5C, CHR ''t'']
      else if c = CHR 0x0B then [CHR 0x5C, CHR ''v'']
      else [CHR 0x5C, CHR ''x'', hex_digit (of_char c div 16), hex_digit (of_char c mod 16)])"

definition Quote :: "string \<Rightarrow> string" where
  "Quote s = dq (concat (map quote_char s))"

text \<open>A byte that needs no escape inside double quotes.\<close>

definition plain_char :: "char \<Rightarrow> bool" where
  "plain_char c \<longleftrightarrow> CHR 0x20 \<le> c \<and> c \<le> CHR 0x7E \<and> c \<noteq> CHR 0x22 \<and> c \<noteq> CHR 0x5C"

lemma quote_char_plain: "plain_char c \<Longrightarrow> quote_char c = [c]"
  by (simp add: plain_char_def quote_char_def)

lemma Quote_plain: "list_all plain_char s \<Longrightarrow> Quote s = dq s"
  unfolding Quote_def by (induction s) (auto simp: quote_char_plain dq_def)

lemma plain_not_dq: "list_all plain_char s \<Longrightarrow> CHR 0x22 \<notin> set s"
  by (auto simp: list_all_iff plain_char_def)

text \<open>Two quoted plain strings in front of any text are equal only when the strings are.\<close>

lemma dq_append_inj:
  assumes "CHR 0x22 \<notin> set a" "CHR 0x22 \<notin> set b" "dq a @ x = dq b @ y"
  shows "a = b \<and> x = y"
proof -
  have "a @ CHR 0x22 # x = b @ CHR 0x22 # y"
    using assms(3) by (simp add: dq_def)
  then have "cut (CHR 0x22) (a @ CHR 0x22 # x) = cut (CHR 0x22) (b @ CHR 0x22 # y)"
    by simp
  with assms(1,2) show ?thesis by simp
qed

text \<open>The \<open>%x\<close> verb on an \<open>int\<close>.\<close>

definition hex_int :: "int \<Rightarrow> string" where
  "hex_int i = (if i < 0 then CHR ''-'' # hex_str (nat (- i)) else hex_str (nat i))"

section \<open>Documents\<close>

text \<open>
  The generators write complete lines; a document is its list of lines, and the string the
  Go code returns is \<open>unlines\<close> of it.
\<close>

definition unlines :: "string list \<Rightarrow> string" where
  "unlines ls = concat (map (\<lambda>l. l @ [CHR 0x0A]) ls)"

definition only_if :: "bool \<Rightarrow> 'a list \<Rightarrow> 'a list" where
  "only_if c xs = (if c then xs else [])"

lemma unlines_append [simp]: "unlines (a @ b) = unlines a @ unlines b"
  by (simp add: unlines_def)

lemma unlines_Nil [simp]: "unlines [] = []"
  by (simp add: unlines_def)

lemma unlines_Cons [simp]: "unlines (l # ls) = l @ CHR 0x0A # unlines ls"
  by (simp add: unlines_def)

lemma set_only_if [simp, render]: "x \<in> set (only_if c xs) \<longleftrightarrow> c \<and> x \<in> set xs"
  by (simp add: only_if_def)

lemma only_if_simps [simp]: "only_if True xs = xs" "only_if False xs = []"
  by (simp_all add: only_if_def)

text \<open>Splitting a document at newlines gives back its lines when no line contains one.\<close>

lemma Split_unlines:
  assumes "\<forall>l \<in> set ls. CHR 0x0A \<notin> set l"
  shows "Split (CHR 0x0A) (unlines ls) = ls @ [[]]"
proof -
  have one: "Split c (l @ c # r) = l # Split c r" if "c \<notin> set l" for c l r
    using that by (induction l) (auto split: list.split)
  show ?thesis
    using assms by (induction ls) (auto simp: one)
qed

text \<open>Values made of printable bytes, and rendered numbers, never break a line.\<close>

lemma graph_no_newline: "list_all is_graph s \<Longrightarrow> CHR 0x0A \<notin> set s"
  by (auto simp: list_all_iff is_graph_def)

lemma graph_no_space: "list_all is_graph s \<Longrightarrow> CHR '' '' \<notin> set s"
  by (auto simp: list_all_iff is_graph_def)

lemma Itoa_graph: "list_all is_graph (Itoa i)"
  using nat_str_graph by (auto simp: Itoa_def is_graph_def)

end
