(* ===== verification/GoNet.thy ===== *)
theory GoNet
  imports GoFmt
begin

unbundle bit_operations_syntax

text \<open>
  The part of Go's \<open>net\<close> and \<open>net/netip\<close> that every validator and the rule tester
  rest on: \<open>ParseIP\<close>, \<open>ParseCIDR\<close>, \<open>IP.To4\<close>, \<open>IP.Equal\<close>, \<open>IP.Mask\<close>,
  \<open>IPNet.Contains\<close>, \<open>CIDRMask\<close> and the dotted form of \<open>IP.String\<close>, translated
  from the standard library's algorithms, IPv6 and IPv4-mapped addresses included.
  A \<open>net.IP\<close> is a list of bytes, \<open>nil\<close> the empty list.
\<close>

type_synonym bytes = "8 word list"

record IPNet =
  net_IP :: bytes
  net_Mask :: bytes

section \<open>Parsing\<close>

text \<open>
  \<open>parseIPv4Fields\<close>: the pending value, the number of its digits and the finished fields
  are the loop's state. A dot needs a digit before it and a byte after it.
\<close>

fun v4_loop :: "string \<Rightarrow> nat \<Rightarrow> nat \<Rightarrow> nat list \<Rightarrow> nat list option" where
  "v4_loop [] val dl fs = (if length fs < 3 then None else Some (fs @ [val]))"
| "v4_loop (c # s) val dl fs =
     (if is_digit c then
        (if dl = 1 \<and> val = 0 then None
         else let v = val * 10 + digit_val c
              in if v > 255 then None else v4_loop s v (Suc dl) fs)
      else if c = CHR ''.'' then
        (if dl = 0 \<or> s = [] then None
         else if length fs = 3 then None
         else v4_loop s 0 0 (fs @ [val]))
      else None)"

definition parse_v4_fields :: "string \<Rightarrow> bytes option" where
  "parse_v4_fields s = map_option (map of_nat) (v4_loop s 0 0 [])"

definition v4_in_v6_prefix :: bytes where
  "v4_in_v6_prefix = [0, 0, 0, 0, 0, 0, 0, 0, 0, 0, 0xFF, 0xFF]"

definition hex_val :: "char \<Rightarrow> nat option" where
  "hex_val c =
     (if is_digit c then Some (digit_val c)
      else if CHR ''a'' \<le> c \<and> c \<le> CHR ''f'' then Some (of_char c - 87)
      else if CHR ''A'' \<le> c \<and> c \<le> CHR ''F'' then Some (of_char c - 55)
      else None)"

text \<open>One hexadecimal group: its digit count, its value and the rest of the string.\<close>

fun v6_group :: "string \<Rightarrow> nat \<Rightarrow> nat \<Rightarrow> (nat \<times> nat \<times> string) option" where
  "v6_group [] off acc = Some (off, acc, [])"
| "v6_group (c # s) off acc =
     (case hex_val c of
        None \<Rightarrow> Some (off, acc, c # s)
      | Some h \<Rightarrow>
          if off > 3 then None
          else if 16 * acc + h > 0xFFFF then None
          else v6_group s (Suc off) (16 * acc + h))"

lemma v6_group_rest:
  "v6_group s off acc = Some (off', acc', r) \<Longrightarrow> length r + off' = length s + off"
  by (induction s off acc rule: v6_group.induct) (auto split: option.splits if_splits)

text \<open>
  The main loop of \<open>parseIPv6\<close>: the rest of the string, the bytes so far and the position
  of the ellipsis.
\<close>

function v6_loop :: "string \<Rightarrow> bytes \<Rightarrow> nat option \<Rightarrow> (string \<times> bytes \<times> nat option) option" where
  "v6_loop s ip el =
     (if 16 \<le> length ip then Some (s, ip, el)
      else (case v6_group s 0 0 of
        None \<Rightarrow> None
      | Some (off, acc, r) \<Rightarrow>
          if off = 0 then None
          else if r \<noteq> [] \<and> hd r = CHR ''.'' then
            (if el = None \<and> length ip \<noteq> 12 then None
             else if length ip + 4 > 16 then None
             else map_option (\<lambda>b. ([], ip @ b, el)) (parse_v4_fields s))
          else
            let ip' = ip @ [of_nat (acc div 256), of_nat (acc mod 256)]
            in if r = [] then Some ([], ip', el)
               else if hd r \<noteq> CHR '':'' then None
               else if tl r = [] then None
               else if hd (tl r) = CHR '':'' then
                 (if el \<noteq> None then None
                  else if tl (tl r) = [] then Some ([], ip', Some (length ip'))
                  else v6_loop (tl (tl r)) ip' (Some (length ip')))
               else v6_loop (tl r) ip' el))"
  by pat_completeness auto
termination
proof (relation "measure (\<lambda>(s, ip, el). length s)", goal_cases)
  case 1
  show ?case by simp
next
  case (2 s ip el x off y acc r ip')
  then show ?case
    by (auto dest!: v6_group_rest)
next
  case (3 s ip el x off y acc r ip')
  then show ?case
    by (auto dest!: v6_group_rest)
qed

declare v6_loop.simps [simp del]

definition parse_v6 :: "string \<Rightarrow> bytes option" where
  "parse_v6 s =
     (let lead = (2 \<le> length s \<and> hd s = CHR '':'' \<and> hd (tl s) = CHR '':'');
          s0 = (if lead then drop 2 s else s);
          el0 = (if lead then Some 0 else None)
      in if CHR ''%'' \<in> set s then None
         else if lead \<and> s0 = [] then Some (replicate 16 0)
         else (case v6_loop s0 [] el0 of
           None \<Rightarrow> None
         | Some (rest, ip, el) \<Rightarrow>
             if rest \<noteq> [] then None
             else if length ip < 16 then
               (case el of
                  None \<Rightarrow> None
                | Some e \<Rightarrow> Some (take e ip @ replicate (16 - length ip) 0 @ drop e ip))
             else if el \<noteq> None then None
             else Some ip))"

text \<open>
  \<open>netip.ParseAddr\<close> without a zone: the first of \<open>.\<close>, \<open>:\<close> and \<open>%\<close> decides the
  family. The flag tells an address written in dotted form (\<open>BitLen\<close> 32) from one written
  in IPv6 form (\<open>BitLen\<close> 128); the bytes are \<open>As16\<close>.
\<close>

definition parse_addr :: "string \<Rightarrow> (bool \<times> bytes) option" where
  "parse_addr s =
     (case dropWhile (\<lambda>c. c \<noteq> CHR ''.'' \<and> c \<noteq> CHR '':'' \<and> c \<noteq> CHR ''%'') s of
        [] \<Rightarrow> None
      | c # _ \<Rightarrow>
          if c = CHR ''.'' then map_option (\<lambda>b. (True, v4_in_v6_prefix @ b)) (parse_v4_fields s)
          else if c = CHR '':'' then map_option (\<lambda>b. (False, b)) (parse_v6 s)
          else None)"

definition ParseIP :: "string \<Rightarrow> bytes option" where
  "ParseIP s = map_option snd (parse_addr s)"

definition To4 :: "bytes \<Rightarrow> bytes option" where
  "To4 ip =
     (if length ip = 4 then Some ip
      else if length ip = 16 \<and> take 12 ip = v4_in_v6_prefix then Some (drop 12 ip)
      else None)"

text \<open>\<open>ParseIP(s) != nil && ParseIP(s).To4() != nil\<close>, the test most validators write out.\<close>

definition is_ip4 :: "string \<Rightarrow> bool" where
  "is_ip4 s \<longleftrightarrow> (case ParseIP s of None \<Rightarrow> False | Some ip \<Rightarrow> To4 ip \<noteq> None)"

section \<open>Masks and networks\<close>

fun CIDRMask_loop :: "nat \<Rightarrow> nat \<Rightarrow> bytes" where
  "CIDRMask_loop 0 n = []"
| "CIDRMask_loop (Suc l) n =
     (if 8 \<le> n then 0xFF # CIDRMask_loop l (n - 8)
      else NOT (drop_bit n 0xFF) # CIDRMask_loop l 0)"

definition CIDRMask :: "nat \<Rightarrow> nat \<Rightarrow> bytes" where
  "CIDRMask ones bits = CIDRMask_loop (bits div 8) ones"

definition ip_Mask :: "bytes \<Rightarrow> bytes \<Rightarrow> bytes" where
  "ip_Mask ip msk =
     (let msk' = (if length msk = 16 \<and> length ip = 4 \<and> take 12 msk = replicate 12 0xFF
                   then drop 12 msk else msk);
          ip' = (if length msk' = 4 \<and> length ip = 16 \<and> take 12 ip = v4_in_v6_prefix
                 then drop 12 ip else ip)
      in if length ip' \<noteq> length msk' then [] else map2 (AND) ip' msk')"

definition dtoi :: "string \<Rightarrow> nat option" where
  "dtoi s = (if s = [] \<or> \<not> list_all is_digit s \<or> 0xFFFFFF \<le> digits_val s then None
             else Some (digits_val s))"

definition ParseCIDR :: "string \<Rightarrow> (bytes \<times> IPNet) option" where
  "ParseCIDR s =
     (case cut (CHR ''/'') s of
        None \<Rightarrow> None
      | Some (addr, m) \<Rightarrow>
          (case parse_addr addr of
             None \<Rightarrow> None
           | Some (is4, ip) \<Rightarrow>
               (let bits = (if is4 then 32 else 128)
                in case dtoi m of
                     None \<Rightarrow> None
                   | Some n \<Rightarrow>
                       if n > bits then None
                       else Some (ip, \<lparr> net_IP = ip_Mask ip (CIDRMask n bits),
                                        net_Mask = CIDRMask n bits \<rparr>))))"

definition networkNumberAndMask :: "IPNet \<Rightarrow> bytes \<times> bytes" where
  "networkNumberAndMask n =
     (case To4 (net_IP n) of
        Some ip \<Rightarrow>
          (if length (net_Mask n) = 4 then (ip, net_Mask n)
           else if length (net_Mask n) = 16 then (ip, drop 12 (net_Mask n))
           else ([], []))
      | None \<Rightarrow>
          (if length (net_IP n) \<noteq> 16 then ([], [])
           else if length (net_Mask n) = 16 then (net_IP n, net_Mask n)
           else ([], [])))"

definition Contains :: "IPNet \<Rightarrow> bytes \<Rightarrow> bool" where
  "Contains n ip =
     (let (nn, m) = networkNumberAndMask n;
          ip' = (case To4 ip of Some x \<Rightarrow> x | None \<Rightarrow> ip)
      in length ip' = length nn \<and> map2 (AND) nn m = map2 (AND) ip' m)"

definition ip_Equal :: "bytes \<Rightarrow> bytes \<Rightarrow> bool" where
  "ip_Equal ip x \<longleftrightarrow>
     (if length ip = length x then ip = x
      else if length ip = 4 \<and> length x = 16 then take 12 x = v4_in_v6_prefix \<and> ip = drop 12 x
      else if length ip = 16 \<and> length x = 4 then take 12 ip = v4_in_v6_prefix \<and> drop 12 ip = x
      else False)"

text \<open>\<open>IP.String\<close> of a four-byte address.\<close>

definition ip4_String :: "bytes \<Rightarrow> string" where
  "ip4_String b = Join (map (\<lambda>x. nat_str (unat x)) b) ''.''"

definition u32_of :: "bytes \<Rightarrow> 32 word" where
  "u32_of b = push_bit 24 (ucast (b ! 0)) OR push_bit 16 (ucast (b ! 1))
            OR push_bit 8 (ucast (b ! 2)) OR ucast (b ! 3)"

section \<open>Dotted decimal\<close>

lemma nat_str_cases:
  assumes "n < 256"
  obtains (one) "n < 10" "nat_str n = [digit_char n]"
  | (two) "10 \<le> n" "n < 100" "nat_str n = [digit_char (n div 10), digit_char (n mod 10)]"
  | (three) "100 \<le> n" "nat_str n =
      [digit_char (n div 100), digit_char (n div 10 mod 10), digit_char (n mod 10)]"
proof -
  consider "n < 10" | "10 \<le> n" "n < 100" | "100 \<le> n" by linarith
  then show ?thesis
  proof cases
    case 1
    then show ?thesis using one by (simp add: nat_str.simps [of n])
  next
    case 2
    then show ?thesis using two
      by (simp add: nat_str.simps [of n] nat_str.simps [of "n div 10"])
  next
    case 3
    then have "n div 10 div 10 = n div 100" "n div 100 < 10" "\<not> n div 10 < 10"
      using assms by (simp_all add: div_mult2_eq [symmetric])
    with 3 show ?thesis using three
      by (simp add: nat_str.simps [of n] nat_str.simps [of "n div 10"] nat_str.simps [of "n div 100"])
  qed
qed

lemma v4_loop_octet:
  assumes "n < 256"
  shows "v4_loop (nat_str n @ r) 0 0 fs = v4_loop r n (length (nat_str n)) fs"
  using assms
proof (cases rule: nat_str_cases)
  case one
  then show ?thesis by simp
next
  case two
  moreover have "n div 10 < 10" "n div 10 \<noteq> 0" using two by auto
  ultimately show ?thesis using assms by (simp add: Let_def)
next
  case three
  have "n div 100 < 10" "n div 10 mod 10 < 10" "n mod 10 < 10" using assms by auto
  moreover have "n div 100 * 10 + n div 10 mod 10 = n div 10"
    using div_mult2_eq [of n 10 10] by simp
  moreover have "n div 100 \<noteq> 0" "n div 100 \<le> 255" "n div 10 \<le> 255" using three assms by auto
  ultimately show ?thesis using three assms by (simp add: Let_def)
qed

definition mask_byte :: "nat \<Rightarrow> 8 word" where
  "mask_byte k = (if 8 \<le> k then 0xFF else NOT (drop_bit k 0xFF))"

lemma CIDRMask_loop_map: "CIDRMask_loop l n = map (\<lambda>i. mask_byte (n - 8 * i)) [0..<l]"
proof (induction l arbitrary: n)
  case (Suc l)
  show ?case
    by (simp add: Suc.IH map_upt_Suc mask_byte_def del: upt_Suc)
qed simp

lemma CIDRMask_32: "CIDRMask n 32 = [mask_byte n, mask_byte (n - 8), mask_byte (n - 16), mask_byte (n - 24)]"
  by (simp add: CIDRMask_def CIDRMask_loop_map upt_rec)

lemma bit_mask_byte: "bit (mask_byte k) j \<longleftrightarrow> j < 8 \<and> 8 \<le> j + k"
proof -
  have ff: "(0xFF :: 8 word) = - 1" by simp
  show ?thesis
    unfolding mask_byte_def ff by (auto simp: bit_simps)
qed

lemma bit_u32_of:
  assumes "j < 8"
  shows "bit (u32_of [a, b, c, d]) j = bit d j"
    "bit (u32_of [a, b, c, d]) (8 + j) = bit c j"
    "bit (u32_of [a, b, c, d]) (16 + j) = bit b j"
    "bit (u32_of [a, b, c, d]) (24 + j) = bit a j"
  using assms by (auto simp: u32_of_def bit_simps dest: bit_imp_le_length)

lemma and_mask_eq_iff:
  fixes x y :: "8 word"
  shows "x AND mask_byte k = y AND mask_byte k \<longleftrightarrow> (\<forall>j < 8. 8 \<le> j + k \<longrightarrow> bit x j = bit y j)"
  by (auto simp: bit_eq_iff bit_and_iff bit_mask_byte)

lemma all_less_32: "(\<forall>p < 32. P p) \<longleftrightarrow> (\<forall>j < 8. P j \<and> P (8 + j) \<and> P (16 + j) \<and> P (24 + (j::nat)))"
proof (intro iffI allI impI)
  fix p :: nat
  assume a: "\<forall>j < 8. P j \<and> P (8 + j) \<and> P (16 + j) \<and> P (24 + j)" and "p < 32"
  then consider "p < 8" | "p - 8 < 8" "8 + (p - 8) = p" | "p - 16 < 8" "16 + (p - 16) = p"
    | "p - 24 < 8" "24 + (p - 24) = p" by linarith
  then show "P p" using a by cases metis+
qed simp

lemma masked_bytes_iff:
  assumes "n \<le> 32"
  shows "map2 (AND) [a, b, c, d] (CIDRMask n 32) = map2 (AND) [a', b', c', d'] (CIDRMask n 32)
     \<longleftrightarrow> drop_bit (32 - n) (u32_of [a, b, c, d]) = drop_bit (32 - n) (u32_of [a', b', c', d'])"
    (is "?L \<longleftrightarrow> ?R")
proof -
  let ?x = "u32_of [a, b, c, d]" and ?y = "u32_of [a', b', c', d']"
  have "?R \<longleftrightarrow> (\<forall>p < 32. 32 - n \<le> p \<longrightarrow> bit ?x p = bit ?y p)"
  proof
    assume r: ?R
    show "\<forall>p < 32. 32 - n \<le> p \<longrightarrow> bit ?x p = bit ?y p"
    proof (intro allI impI)
      fix p assume p: "p < 32" "32 - n \<le> p"
      from r have "bit (drop_bit (32 - n) ?x) (p - (32 - n)) = bit (drop_bit (32 - n) ?y) (p - (32 - n))"
        by simp
      with p show "bit ?x p = bit ?y p" by (simp add: bit_drop_bit_eq)
    qed
  next
    assume eq: "\<forall>p < 32. 32 - n \<le> p \<longrightarrow> bit ?x p = bit ?y p"
    show ?R
    proof (rule bit_word_eqI)
      fix m
      have "bit ?x (32 - n + m) = bit ?y (32 - n + m)"
        using eq bit_imp_le_length [of ?x "32 - n + m"] bit_imp_le_length [of ?y "32 - n + m"]
        by auto
      then show "bit (drop_bit (32 - n) ?x) m = bit (drop_bit (32 - n) ?y) m"
        by (simp add: bit_drop_bit_eq)
    qed
  qed
  also have "\<dots> \<longleftrightarrow> ?L"
    using assms
    by (auto simp: all_less_32 CIDRMask_32 and_mask_eq_iff bit_u32_of)
  finally show ?thesis by simp
qed

text \<open>What the dotted-decimal loop accepts is the canonical form of its fields.\<close>

definition canon_digits :: "string \<Rightarrow> bool" where
  "canon_digits p \<longleftrightarrow> list_all is_digit p \<and> digits_val p < 256 \<and> (2 \<le> length p \<longrightarrow> hd p \<noteq> CHR ''0'')"

lemma canon_digits_snoc:
  assumes "canon_digits p" "is_digit c" "\<not> (length p = 1 \<and> digits_val p = 0)" "digits_val p * 10 + digit_val c < 256"
  shows "canon_digits (p @ [c])"
proof -
  have "hd (p @ [c]) \<noteq> CHR ''0''" if "2 \<le> length (p @ [c])"
  proof (cases "length p = 1")
    case True
    then obtain x where p: "p = [x]" by (auto simp: length_Suc_conv)
    with assms have "is_digit x" "digit_val x \<noteq> 0" by (auto simp: canon_digits_def)
    then show ?thesis using p digit_val_0_iff by auto
  next
    case False
    with that assms(1) show ?thesis
      by (cases p) (auto simp: canon_digits_def Suc_le_eq)
  qed
  with assms show ?thesis by (auto simp: canon_digits_def)
qed

lemma canon_digits_nat_str: "canon_digits p \<Longrightarrow> p \<noteq> [] \<Longrightarrow> nat_str (digits_val p) = p"
  by (rule nat_str_digits_val) (auto simp: canon_digits_def Suc_le_eq neq_Nil_conv)

lemma Join_Cons: "xs \<noteq> [] \<Longrightarrow> Join (x # xs) sep = x @ sep @ Join xs sep"
  by (cases xs) auto

lemma v4_loop_canonical:
  assumes "v4_loop s val dl fs = Some out" "length fs \<le> 3"
    "canon_digits p" "val = digits_val p" "dl = length p" "s = [] \<longrightarrow> p \<noteq> []"
  shows "\<exists>vs. out = fs @ vs \<and> p @ s = Join (map nat_str vs) ''.'' \<and> length out = 4
           \<and> (\<forall>v \<in> set vs. v < 256)"
  using assms
proof (induction s val dl fs arbitrary: p rule: v4_loop.induct)
  case (1 val dl fs)
  then have "out = fs @ [val]" "length fs = 3" "p \<noteq> []"
    by (auto split: if_splits)
  with "1.prems" show ?case
    by (auto intro!: exI [of _ "[val]"] simp: canon_digits_nat_str) (simp add: canon_digits_def)
next
  case (2 c s val dl fs)
  show ?case
  proof (cases "is_digit c")
    case True
    with "2.prems"(1) have z: "\<not> (dl = 1 \<and> val = 0)" and le: "\<not> 255 < val * 10 + digit_val c"
      and step: "v4_loop s (val * 10 + digit_val c) (Suc dl) fs = Some out"
      by (auto simp: Let_def split: if_splits)
    have "canon_digits (p @ [c])"
      using "2.prems" True z le by (intro canon_digits_snoc) auto
    then have "\<exists>vs. out = fs @ vs \<and> (p @ [c]) @ s = Join (map nat_str vs) ''.'' \<and> length out = 4
           \<and> (\<forall>v \<in> set vs. v < 256)"
      using "2.prems" by (intro "2.IH"(1) [OF True z refl le step]) auto
    then show ?thesis by simp
  next
    case False
    with "2.prems"(1) have dot: "c = CHR ''.''" and g: "\<not> (dl = 0 \<or> s = [])" "length fs \<noteq> 3"
      and step: "v4_loop s 0 0 (fs @ [val]) = Some out"
      by (auto split: if_splits)
    have "\<exists>vs. out = (fs @ [val]) @ vs \<and> [] @ s = Join (map nat_str vs) ''.'' \<and> length out = 4
           \<and> (\<forall>v \<in> set vs. v < 256)"
      using g "2.prems"(2) by (intro "2.IH"(2) [OF False dot g step]) (auto simp: canon_digits_def)
    then obtain vs where vs: "out = fs @ val # vs" "s = Join (map nat_str vs) ''.''"
      "length out = 4" "\<forall>v \<in> set vs. v < 256" by auto
    have "vs \<noteq> []" using vs(1,3) g(2) "2.prems"(2) by auto
    moreover have "nat_str val = p" using g(1) "2.prems" by (simp add: canon_digits_nat_str)
    moreover have "val < 256" using "2.prems" by (simp add: canon_digits_def)
    ultimately show ?thesis
      using vs dot by (intro exI [of _ "val # vs"]) (auto simp: Join_Cons)
  qed
qed

lemma list4: "length xs = 4 \<longleftrightarrow> (\<exists>a b c d. xs = [a, b, c, d])"
  by (auto simp: eval_nat_numeral length_Suc_conv)

lemma nat_str_not_dot: "CHR ''.'' \<notin> set (nat_str n)" "CHR '':'' \<notin> set (nat_str n)" "CHR ''%'' \<notin> set (nat_str n)" "CHR ''/'' \<notin> set (nat_str n)"
  by (rule nat_str_no, simp add: is_digit_def)+

text \<open>
  Dotted decimal is read back exactly: the parser accepts precisely the printed forms, and
  returns the bytes that were printed.
\<close>

lemma parse_v4_fields_iff:
  "parse_v4_fields s = Some b \<longleftrightarrow> length b = 4 \<and> s = ip4_String b"
proof
  assume "parse_v4_fields s = Some b"
  then obtain out where out: "v4_loop s 0 0 [] = Some out" and b: "b = map of_nat out"
    by (auto simp: parse_v4_fields_def)
  have "s \<noteq> []" using out by (cases s) auto
  then have "\<exists>vs. out = [] @ vs \<and> [] @ s = Join (map nat_str vs) ''.'' \<and> length out = 4
      \<and> (\<forall>v \<in> set vs. v < 256)"
    by (intro v4_loop_canonical [OF out]) (auto simp: canon_digits_def)
  then have s: "s = Join (map nat_str out) ''.''" and len: "length out = 4"
    and small: "\<forall>v \<in> set out. v < 256" by auto
  have "map (\<lambda>x. nat_str (unat x)) b = map nat_str out"
    using small by (auto simp: b unat_of_nat)
  then have "ip4_String b = s"
    unfolding ip4_String_def s by (simp only:)
  then show "length b = 4 \<and> s = ip4_String b"
    using len by (simp add: b)
next
  assume "length b = 4 \<and> s = ip4_String b"
  then obtain a1 a2 a3 a4 where b: "b = [a1, a2, a3, a4]" and s: "s = ip4_String b"
    by (auto simp: list4)
  have lt: "unat (x :: 8 word) < 256" for x using unsigned_less [of x] by simp
  have "v4_loop s 0 0 [] = Some (map unat b)"
    using lt by (simp add: s b ip4_String_def v4_loop_octet is_digit_def
        v4_loop_octet [of _ "[]", simplified])
  then show "parse_v4_fields s = Some b"
    by (simp add: parse_v4_fields_def comp_def)
qed

lemma ip4_String_first:
  assumes "length b = 4"
  shows "dropWhile (\<lambda>c. c \<noteq> CHR ''.'' \<and> c \<noteq> CHR '':'' \<and> c \<noteq> CHR ''%'') (ip4_String b) =
     CHR ''.'' # ip4_String (tl b)"
proof -
  obtain a1 a2 a3 a4 where b: "b = [a1, a2, a3, a4]" using assms by (auto simp: list4)
  have "\<forall>c \<in> set (nat_str (unat a1)). c \<noteq> CHR ''.'' \<and> c \<noteq> CHR '':'' \<and> c \<noteq> CHR ''%''"
    using nat_str_not_dot by metis
  then show ?thesis
    by (simp add: b ip4_String_def dropWhile_append2)
qed

lemma parse_addr_ip4 [simp]:
  "length b = 4 \<Longrightarrow> parse_addr (ip4_String b) = Some (True, v4_in_v6_prefix @ b)"
  by (simp add: parse_addr_def ip4_String_first parse_v4_fields_iff)

lemma parse_addr_dotted:
  "parse_addr s = Some (True, ip) \<longleftrightarrow>
     (\<exists>b. length b = 4 \<and> s = ip4_String b \<and> ip = v4_in_v6_prefix @ b)"
proof
  assume "parse_addr s = Some (True, ip)"
  then show "\<exists>b. length b = 4 \<and> s = ip4_String b \<and> ip = v4_in_v6_prefix @ b"
    by (auto simp: parse_addr_def parse_v4_fields_iff split: list.splits if_splits)
qed auto

lemma ParseIP_ip4 [simp]: "length b = 4 \<Longrightarrow> ParseIP (ip4_String b) = Some (v4_in_v6_prefix @ b)"
  by (simp add: ParseIP_def)

lemma length_v4_in_v6_prefix [simp]: "length v4_in_v6_prefix = 12"
  by (simp add: v4_in_v6_prefix_def)

lemma To4_mapped [simp]: "length b = 4 \<Longrightarrow> To4 (v4_in_v6_prefix @ b) = Some b"
  by (simp add: To4_def)

lemma To4_4 [simp]: "length b = 4 \<Longrightarrow> To4 b = Some b"
  by (simp add: To4_def)

lemma is_ip4_ip4_String: "length b = 4 \<Longrightarrow> is_ip4 (ip4_String b)"
  by (simp add: is_ip4_def)

lemma ip4_String_graph:
  assumes "length b = 4"
  shows "list_all (\<lambda>c. is_digit c \<or> c = CHR ''.'') (ip4_String b)"
proof -
  obtain a1 a2 a3 a4 where b: "b = [a1, a2, a3, a4]" using assms by (auto simp: list4)
  show ?thesis
    using nat_str_digits by (auto simp: b ip4_String_def list_all_iff)
qed

lemma ip4_String_is_graph: "length b = 4 \<Longrightarrow> list_all is_graph (ip4_String b)"
  by (rule list.pred_mono_strong [OF ip4_String_graph]) (auto simp: is_graph_digit, simp add: is_graph_def)

lemma ip4_String_inj:
  "length a = 4 \<Longrightarrow> length b = 4 \<Longrightarrow> ip4_String a = ip4_String b \<longleftrightarrow> a = b"
  by (metis parse_v4_fields_iff option.inject)

lemma dtoi_nat_str [simp]: "n < 0xFFFFFF \<Longrightarrow> dtoi (nat_str n) = Some n"
  using nat_str_digits [of n] by (simp add: dtoi_def)

definition ip4_net :: "bytes \<Rightarrow> nat \<Rightarrow> IPNet" where
  "ip4_net b n = \<lparr> net_IP = map2 (AND) b (CIDRMask n 32), net_Mask = CIDRMask n 32 \<rparr>"

lemma length_CIDRMask_32 [simp]: "length (CIDRMask n 32) = 4"
  by (simp add: CIDRMask_32)

lemma ip_Mask_mapped [simp]:
  "length b = 4 \<Longrightarrow> ip_Mask (v4_in_v6_prefix @ b) (CIDRMask n 32) = map2 (AND) b (CIDRMask n 32)"
  by (simp add: ip_Mask_def)

text \<open>An IPv4 CIDR in dotted form and the network it denotes.\<close>

lemma ParseCIDR_ip4 [simp]:
  assumes "length b = 4" "n \<le> 32"
  shows "ParseCIDR (ip4_String b @ CHR ''/'' # nat_str n) = Some (v4_in_v6_prefix @ b, ip4_net b n)"
proof -
  have "CHR ''/'' \<notin> set (ip4_String b)"
    using ip4_String_graph [OF assms(1)] by (auto simp: list_all_iff is_digit_def)
  then show ?thesis
    using assms by (simp add: ParseCIDR_def ip4_net_def)
qed

text \<open>
  Membership in an IPv4 network is equality of the leading prefix bits of the 32-bit
  addresses, whichever of the two byte forms the address has.
\<close>

lemma Contains_ip4_net:
  assumes "length b = 4" "length x = 4" "n \<le> 32"
  shows "Contains (ip4_net b n) x \<longleftrightarrow>
           drop_bit (32 - n) (u32_of b) = drop_bit (32 - n) (u32_of x)"
    and "Contains (ip4_net b n) (v4_in_v6_prefix @ x) \<longleftrightarrow> Contains (ip4_net b n) x"
proof -
  obtain a1 a2 a3 a4 where b: "b = [a1, a2, a3, a4]" using assms by (auto simp: list4)
  obtain x1 x2 x3 x4 where x: "x = [x1, x2, x3, x4]" using assms by (auto simp: list4)
  have "map2 (AND) (map2 (AND) b (CIDRMask n 32)) (CIDRMask n 32) = map2 (AND) b (CIDRMask n 32)"
    by (simp add: b CIDRMask_32 and.assoc)
  then show "Contains (ip4_net b n) x \<longleftrightarrow>
           drop_bit (32 - n) (u32_of b) = drop_bit (32 - n) (u32_of x)"
    using masked_bytes_iff [OF assms(3)] b x
    by (simp add: Contains_def ip4_net_def networkNumberAndMask_def)
  show "Contains (ip4_net b n) (v4_in_v6_prefix @ x) \<longleftrightarrow> Contains (ip4_net b n) x"
    using assms by (simp add: Contains_def)
qed

lemma Contains_nil [simp]: "length (fst (networkNumberAndMask n)) \<noteq> 0 \<Longrightarrow> \<not> Contains n []"
  by (auto simp: Contains_def To4_def split: prod.splits)

lemmas net_eval = ParseIP_def parse_addr_def parse_v4_fields_def char_class_defs digit_val_def
  v4_in_v6_prefix_def ParseCIDR_def ip_Mask_def dtoi_def digits_val_def Contains_def
  networkNumberAndMask_def To4_def is_ip4_def CIDRMask_32 mask_byte_def ip_Equal_def u32_of_def

section \<open>The characters of accepted addresses\<close>

text \<open>
  Whatever the parsers accept is made of hexadecimal digits, dots and colons, and a network
  has one slash more: no white space, quote or line break passes an address check.
\<close>

definition addr_char :: "char \<Rightarrow> bool" where
  "addr_char c \<longleftrightarrow> hex_val c \<noteq> None \<or> c = CHR ''.'' \<or> c = CHR '':''"

lemma addr_char_graph: "addr_char c \<Longrightarrow> is_graph c"
  by (auto simp: addr_char_def hex_val_def is_graph_def is_digit_def char_le_of_char split: if_splits)

lemma addr_char_digit: "is_digit c \<Longrightarrow> addr_char c"
  by (simp add: addr_char_def hex_val_def)

lemma addr_char_sep: "addr_char (CHR ''.'')" "addr_char (CHR '':'')"
  by (simp_all add: addr_char_def)

lemma v4_loop_chars: "v4_loop s val dl fs \<noteq> None \<Longrightarrow> list_all addr_char s"
  by (induction s val dl fs rule: v4_loop.induct)
     (auto simp: Let_def addr_char_digit addr_char_sep split: if_splits)

lemma parse_v4_fields_chars: "parse_v4_fields s \<noteq> None \<Longrightarrow> list_all addr_char s"
  by (simp add: parse_v4_fields_def v4_loop_chars)

lemma v6_group_chars:
  "v6_group s off acc = Some (off', acc', r) \<Longrightarrow> \<exists>p. s = p @ r \<and> list_all addr_char p"
proof (induction s off acc rule: v6_group.induct)
  case (2 c s off acc)
  then show ?case
  proof (cases "hex_val c")
    case (Some h)
    with 2 obtain p where "s = p @ r" "list_all addr_char p" by (auto split: if_splits)
    moreover have "addr_char c" using Some by (simp add: addr_char_def)
    ultimately show ?thesis by (intro exI [of _ "c # p"]) simp
  qed simp
qed simp

lemma v6_loop_chars:
  "v6_loop s ip el = Some ([], ip', el') \<Longrightarrow> list_all addr_char s"
proof (induction s ip el rule: v6_loop.induct)
  case (1 s ip el)
  show ?case
  proof (cases "16 \<le> length ip")
    case True
    with 1 show ?thesis by (simp add: v6_loop.simps)
  next
    case False
    with 1(3) obtain off acc r where g: "v6_group s 0 0 = Some (off, acc, r)"
      by (subst (asm) v6_loop.simps) (auto split: option.splits)
    from v6_group_chars [OF g] obtain p where p: "s = p @ r" "list_all addr_char p" by blast
    show ?thesis
    proof (cases "r = []")
      case True with p show ?thesis by simp
    next
      case r: False
      show ?thesis
      proof (cases "hd r = CHR ''.''")
        case True
        with 1(3) False g r have "parse_v4_fields s \<noteq> None"
          by (subst (asm) v6_loop.simps) (auto split: if_splits)
        then show ?thesis by (rule parse_v4_fields_chars)
      next
        case dot: False
        with 1(3) False g r have c: "off \<noteq> 0" "hd r = CHR '':''" "tl r \<noteq> []"
          by (subst (asm) v6_loop.simps, auto simp: Let_def split: if_splits)+
        let ?ip = "ip @ [of_nat (acc div 256), of_nat (acc mod 256)]"
        have ac: "addr_char (CHR '':'')" by (simp add: addr_char_def)
        show ?thesis
        proof (cases "hd (tl r) = CHR '':''")
          case True
          have "list_all addr_char (tl (tl r))"
            using 1(1) [OF False g refl refl c(1) _ refl r _ c(3) True] 1(3) False g r dot c True
            by (subst (asm) (2) v6_loop.simps) (auto simp: Let_def split: if_splits)
          moreover have "r = CHR '':'' # CHR '':'' # tl (tl r)" using r c True by (metis list.collapse)
          ultimately show ?thesis using p ac by (metis list_all_append list.pred_inject(2))
        next
          case nc: False
          have "list_all addr_char (tl r)"
            using 1(2) [OF False g refl refl c(1) _ refl r _ c(3) nc] 1(3) False g r dot c nc
            by (subst (asm) (2) v6_loop.simps) (auto simp: Let_def split: if_splits)
          moreover have "r = CHR '':'' # tl r" using r c by (metis list.collapse)
          ultimately show ?thesis using p ac by (metis list_all_append list.pred_inject(2))
        qed
      qed
    qed
  qed
qed

lemma parse_v6_chars: "parse_v6 s \<noteq> None \<Longrightarrow> list_all addr_char s"
proof -
  assume a: "parse_v6 s \<noteq> None"
  let ?lead = "2 \<le> length s \<and> hd s = CHR '':'' \<and> hd (tl s) = CHR '':''"
  let ?s0 = "if ?lead then drop 2 s else s"
  have s: "s = (if ?lead then ''::'' else []) @ ?s0"
    by (cases s; cases "tl s") auto
  have "list_all addr_char ?s0"
    using a by (auto simp: parse_v6_def Let_def split: if_splits option.splits dest: v6_loop_chars)
  then show ?thesis using s addr_char_sep by (cases ?lead) (cases s; cases "tl s"; auto)+
qed

lemma parse_addr_chars: "parse_addr s \<noteq> None \<Longrightarrow> list_all addr_char s"
  using parse_v4_fields_chars parse_v6_chars
  by (auto simp: parse_addr_def split: list.splits if_splits)

lemma is_ip4_chars: "is_ip4 s \<Longrightarrow> list_all addr_char s"
  using parse_addr_chars by (auto simp: is_ip4_def ParseIP_def split: option.splits)

lemma ParseIP_chars: "ParseIP s \<noteq> None \<Longrightarrow> list_all addr_char s"
  using parse_addr_chars by (auto simp: ParseIP_def)

lemma ParseCIDR_chars:
  assumes "ParseCIDR s \<noteq> None"
  shows "list_all (\<lambda>c. addr_char c \<or> c = CHR ''/'') s"
proof -
  from assms obtain a m where "s = a @ CHR ''/'' # m" "parse_addr a \<noteq> None" "list_all is_digit m"
    by (auto simp: ParseCIDR_def cut_Some_iff dtoi_def Let_def split: option.splits if_splits prod.splits)
  then show ?thesis
    using parse_addr_chars addr_char_digit by (fastforce simp: list_all_iff)
qed

lemma ParseCIDR_graph: "ParseCIDR s \<noteq> None \<Longrightarrow> list_all is_graph s"
  using ParseCIDR_chars addr_char_graph by (fastforce simp: list_all_iff is_graph_def)

lemma is_ip4_graph: "is_ip4 s \<Longrightarrow> list_all is_graph s"
  using is_ip4_chars addr_char_graph by (fastforce simp: list_all_iff)

lemma ParseIP_graph: "ParseIP s \<noteq> None \<Longrightarrow> list_all is_graph s"
  using ParseIP_chars addr_char_graph by (fastforce simp: list_all_iff)

section \<open>Mask sizes and host-port pairs\<close>

text \<open>\<open>IPMask.Size\<close>: leading ones and width, or (0, 0) when the mask has a hole.\<close>

definition mask_bits :: "bytes \<Rightarrow> bool list" where
  "mask_bits m = concat (map (\<lambda>b. map (\<lambda>j. bit b (7 - j)) [0..<8]) m)"

definition mask_Size :: "bytes \<Rightarrow> nat \<times> nat" where
  "mask_Size m =
     (let bs = mask_bits m; ones = takeWhile id bs
      in if list_ex id (drop (length ones) bs) then (0, 0) else (length ones, 8 * length m))"

lemma mask_bits_CIDRMask:
  assumes "n \<le> 32"
  shows "mask_bits (CIDRMask n 32) = replicate n True @ replicate (32 - n) False"
proof (rule nth_equalityI)
  have b: "mask_bits (CIDRMask n 32) = map (\<lambda>p. p < n) [0..<32]"
    by (simp add: mask_bits_def CIDRMask_32 bit_mask_byte upt_rec) (use assms in auto)
  show "length (mask_bits (CIDRMask n 32)) = length (replicate n True @ replicate (32 - n) False)"
    using assms by (simp add: b)
  show "mask_bits (CIDRMask n 32) ! i = (replicate n True @ replicate (32 - n) False) ! i"
    if "i < length (mask_bits (CIDRMask n 32))" for i
    using that by (simp add: b nth_append)
qed

lemma takeWhile_replicate: "takeWhile id (replicate n True @ replicate k False) = replicate n True"
  by (induction n) (cases k, auto)

lemma mask_Size_CIDRMask [simp]: "n \<le> 32 \<Longrightarrow> mask_Size (CIDRMask n 32) = (n, 32)"
  by (simp add: mask_Size_def mask_bits_CIDRMask takeWhile_replicate Let_def list_ex_iff)

text \<open>\<open>net.SplitHostPort\<close>, with the cut at the last colon.\<close>

definition last_cut :: "char \<Rightarrow> string \<Rightarrow> (string \<times> string) option" where
  "last_cut c s = map_option (\<lambda>(a, b). (rev b, rev a)) (cut c (rev s))"

definition SplitHostPort :: "string \<Rightarrow> (string \<times> string) option" where
  "SplitHostPort s =
     (case last_cut (CHR '':'') s of
        None \<Rightarrow> None
      | Some (h, p) \<Rightarrow>
          if hd s = CHR ''['' then
            (case cut (CHR '']'') s of
               None \<Rightarrow> None
             | Some (a, b) \<Rightarrow>
                 if b = [] \<or> hd b \<noteq> CHR '':'' \<or> CHR '':'' \<in> set (tl b) then None
                 else if CHR ''['' \<in> set (tl s) \<or> CHR '']'' \<in> set b then None
                 else Some (tl a, tl b))
          else if CHR '':'' \<in> set h \<or> CHR ''['' \<in> set s \<or> CHR '']'' \<in> set s then None
          else Some (h, p))"

section \<open>Addresses from numbers\<close>

text \<open>\<open>byte(v >> 24), ..., byte(v)\<close>.\<close>

definition u32_bytes :: "int \<Rightarrow> bytes" where
  "u32_bytes v = [word_of_int (v div 2 ^ 24), word_of_int (v div 2 ^ 16), word_of_int (v div 2 ^ 8), word_of_int v]"

lemma length_u32_bytes [simp]: "length (u32_bytes v) = 4"
  by (simp add: u32_bytes_def)

lemma bit_u32_bytes_of: "j < 32 \<Longrightarrow> bit (u32_of (u32_bytes v)) j = bit v j"
proof -
  have q: "bit (u32_of (u32_bytes v)) j = bit v j" if "j < 8" for j
    using that by (simp add: u32_bytes_def bit_u32_of bit_word_of_int_iff)
  have d: "bit (v div 2 ^ k) j = bit v (k + j)" for k j
    by (simp add: bit_iff_odd power_add zdiv_zmult2_eq)
  have "bit (u32_of (u32_bytes v)) (8 + j) = bit v (8 + j)"
    "bit (u32_of (u32_bytes v)) (16 + j) = bit v (16 + j)"
    "bit (u32_of (u32_bytes v)) (24 + j) = bit v (24 + j)" if "j < 8" for j
    using that d [of 8 j] d [of 16 j] d [of 24 j] by (simp_all add: u32_bytes_def bit_u32_of bit_word_of_int_iff)
  with q have "\<forall>p < 32. bit (u32_of (u32_bytes v)) p = bit v p" unfolding all_less_32 by blast
  then show "j < 32 \<Longrightarrow> ?thesis" by blast
qed

lemma u32_of_bytes [simp]: "u32_of (u32_bytes v) = word_of_int v"
  by (rule bit_word_eqI) (simp add: bit_u32_bytes_of bit_word_of_int_iff)

lemma u32_bytes_inj:
  assumes "0 \<le> v" "v < 2 ^ 32" "0 \<le> w" "w < 2 ^ 32" "u32_bytes v = u32_bytes w"
  shows "v = w"
proof -
  have "(word_of_int v :: 32 word) = word_of_int w" using assms(5) u32_of_bytes by metis
  then have "uint (word_of_int v :: 32 word) = uint (word_of_int w :: 32 word)" by simp
  with assms(1-4) show ?thesis by (simp add: uint_word_of_int_eq take_bit_int_eq_self)
qed

text \<open>The network number: the low bits are cleared, and an offset below the size stays inside.\<close>

lemma u32_of_masked:
  assumes "length b = 4" "n \<le> 32"
  shows "u32_of (map2 (AND) b (CIDRMask n 32)) = push_bit (32 - n) (drop_bit (32 - n) (u32_of b))"
proof -
  obtain w x y z where b: "b = [w, x, y, z]" using assms(1) by (auto simp: list4)
  have "\<forall>p < 32. bit (u32_of (map2 (AND) b (CIDRMask n 32))) p =
      bit (push_bit (32 - n) (drop_bit (32 - n) (u32_of b))) p"
    unfolding all_less_32 using assms(2)
    by (auto simp: b CIDRMask_32 bit_u32_of bit_and_iff bit_mask_byte bit_push_bit_iff bit_drop_bit_eq)
  then show ?thesis by (intro bit_word_eqI) simp
qed

lemma div_times_le: "(x::int) div k * k \<le> x" if "0 < k"
  using that by (simp flip: minus_mod_eq_div_mult)

lemma take_bit_uint32: "take_bit 32 (uint (x :: 32 word)) = uint x"
  using uint_bounded [of x] by (intro take_bit_int_eq_self) simp_all

lemma uint_drop_bit: "uint (drop_bit k (x :: 32 word)) = uint x div 2 ^ k"
proof -
  have "uint (drop_bit k x) = drop_bit k (take_bit 32 (uint x))"
    unfolding unsigned_drop_bit_eq by simp
  then show ?thesis by (simp add: take_bit_uint32 drop_bit_eq_div [of _ "uint x"])
qed

lemma uint_masked:
  assumes "length b = 4" "n \<le> 32"
  shows "uint (u32_of (map2 (AND) b (CIDRMask n 32))) = uint (u32_of b) div 2 ^ (32 - n) * 2 ^ (32 - n)"
proof -
  let ?k = "32 - n" and ?u = "u32_of b"
  have "uint ?u < 2 ^ 32" using uint_bounded [of ?u] by simp
  with div_times_le [of "2 ^ ?k" "uint ?u"] have lt: "uint ?u div 2 ^ ?k * 2 ^ ?k < 2 ^ 32"
    by simp
  have "uint (push_bit ?k (drop_bit ?k ?u)) = take_bit 32 (push_bit ?k (drop_bit ?k (uint ?u)))"
    by (simp add: unsigned_push_bit_eq unsigned_drop_bit_eq take_bit_uint32)
  also have "\<dots> = take_bit 32 (uint ?u div 2 ^ ?k * 2 ^ ?k)"
    by (simp add: push_bit_eq_mult drop_bit_eq_div)
  also have "\<dots> = uint ?u div 2 ^ ?k * 2 ^ ?k"
    using lt by (intro take_bit_int_eq_self mult_nonneg_nonneg) (simp_all add: pos_imp_zdiv_nonneg_iff)
  finally show ?thesis using u32_of_masked [OF assms] by simp
qed

lemma host_bounds:
  assumes "length b = 4" "n \<le> 32" "0 \<le> i" "i < 2 ^ (32 - n)"
  defines "base \<equiv> uint (u32_of (map2 (AND) b (CIDRMask n 32)))"
  shows "0 \<le> base + i" "base + i < 2 ^ 32" "(base + i) div 2 ^ (32 - n) = uint (u32_of b) div 2 ^ (32 - n)"
proof -
  let ?K = "2 ^ (32 - n) :: int" and ?q = "uint (u32_of b) div 2 ^ (32 - n)"
  have b: "base = ?q * ?K" unfolding base_def by (rule uint_masked [OF assms(1,2)])
  show "0 \<le> base + i" using assms(3) by (simp add: base_def)
  show d: "(base + i) div ?K = ?q" using assms(3,4) by (simp add: b)
  have "(2::int) ^ n * ?K = 2 ^ 32" using assms(2) by (simp flip: power_add)
  moreover have "uint (u32_of b) < 2 ^ 32" using uint_bounded [of "u32_of b"] by simp
  moreover have "?q * ?K \<le> uint (u32_of b)" by (rule div_times_le) simp
  ultimately have "?q * ?K < 2 ^ n * ?K" by linarith
  then have "?q < 2 ^ n" by simp
  then have "(?q + 1) * ?K \<le> 2 ^ n * ?K" by (intro mult_right_mono) simp_all
  with \<open>(2::int) ^ n * ?K = 2 ^ 32\<close> assms(4) show "base + i < 2 ^ 32" by (simp add: b distrib_right)
qed

lemma host_in_net:
  assumes "length b = 4" "n \<le> 32" "0 \<le> i" "i < 2 ^ (32 - n)"
  shows "Contains (ip4_net b n) (u32_bytes (uint (u32_of (map2 (AND) b (CIDRMask n 32))) + i))"
proof -
  let ?v = "uint (u32_of (map2 (AND) b (CIDRMask n 32))) + i"
  note h = host_bounds [OF assms]
  have "uint (word_of_int w :: 32 word) = w" if "0 \<le> w" "w < 2 ^ 32" for w
    using that by (simp add: uint_word_of_int_eq take_bit_int_eq_self)
  from this [OF h(1,2)] have "uint (word_of_int ?v :: 32 word) = ?v" .
  then have "uint (drop_bit (32 - n) (word_of_int ?v :: 32 word)) = uint (drop_bit (32 - n) (u32_of b))"
    using h(3) by (simp only: uint_drop_bit)
  then have "drop_bit (32 - n) (u32_of b) = drop_bit (32 - n) (word_of_int ?v :: 32 word)"
    by (simp add: word_uint_eq_iff)
  then show ?thesis by (simp add: Contains_ip4_net assms)
qed

lemma u32_bytes_sum:
  "u32_bytes (uint w * 2 ^ 24 + uint x * 2 ^ 16 + uint y * 2 ^ 8 + uint z) = [w, x, y, z :: 8 word]"
proof -
  let ?v = "uint w * 2 ^ 24 + uint x * 2 ^ 16 + uint y * 2 ^ 8 + uint z"
  have b: "0 \<le> uint x" "uint x < 256" "0 \<le> uint y" "uint y < 256" "0 \<le> uint z" "uint z < 256"
    using uint_bounded [of x] uint_bounded [of y] uint_bounded [of z] by simp_all
  have q: "(a * 256 + r) div 256 = a" if "0 \<le> r" "r < 256" for a r :: int using that by simp
  have v: "?v = ((uint w * 256 + uint x) * 256 + uint y) * 256 + uint z" by simp
  have d1: "?v div 2 ^ 8 = (uint w * 256 + uint x) * 256 + uint y"
    unfolding v using q [OF b(5,6)] by simp
  have d2: "?v div 2 ^ 16 = uint w * 256 + uint x"
    using zdiv_zmult2_eq [of 256 ?v 256] d1 q [OF b(3,4)] by simp
  have d3: "?v div 2 ^ 24 = uint w"
    using zdiv_zmult2_eq [of 256 ?v 65536] d2 q [OF b(1,2)] by simp
  have n: "(256 :: 8 word) = 0" "(65536 :: 8 word) = 0" "(16777216 :: 8 word) = 0" by simp_all
  have z: "a * 256 = 0" "a * 65536 = 0" "65536 * a = 0" "a * 16777216 = 0" for a :: "8 word"
    using n by (metis mult_zero_right mult_zero_left)+
  show ?thesis unfolding u32_bytes_def d1 d2 d3 by (simp add: z)
qed

lemma uint_u32_of:
  "uint (u32_of [w, x, y, z]) = uint w * 2 ^ 24 + uint x * 2 ^ 16 + uint y * 2 ^ 8 + uint z"
proof -
  let ?v = "uint w * 2 ^ 24 + uint x * 2 ^ 16 + uint y * 2 ^ 8 + uint z"
  have b: "0 \<le> ?v" "?v < 2 ^ 32"
    using uint_bounded [of w] uint_bounded [of x] uint_bounded [of y] uint_bounded [of z] by simp_all
  have "u32_of [w, x, y, z] = word_of_int ?v" using u32_of_bytes u32_bytes_sum by metis
  moreover have "uint (word_of_int u :: 32 word) = u" if "0 \<le> u" "u < 2 ^ 32" for u
    using that by (simp add: uint_word_of_int_eq take_bit_int_eq_self)
  ultimately show ?thesis using b by metis
qed

text \<open>Adding one to the last byte of a network number gives the address at offset one.\<close>

lemma first_host:
  assumes "length b = 4" "n \<le> 30"
  defines "base \<equiv> map2 (AND) b (CIDRMask n 32)"
  shows "base [3 := base ! 3 + 1] = u32_bytes (uint (u32_of base) + 1)"
proof -
  obtain b0 b1 b2 b3 where "b = [b0, b1, b2, b3]" using assms(1) by (auto simp: list4)
  then obtain w x y where b: "base = [w, x, y, b3 AND mask_byte (n - 24)]"
    by (simp add: base_def CIDRMask_32)
  let ?z = "b3 AND mask_byte (n - 24)"
  have "\<not> bit ?z 0" using assms(2) by (auto simp: bit_and_iff bit_mask_byte)
  then have "?z \<noteq> 255" by auto
  then have "uint ?z \<noteq> 255" using word_uint_eq_iff [of ?z 255] by simp
  moreover have "uint ?z < 256" using uint_bounded [of ?z] by simp
  ultimately have z: "uint (?z + 1) = uint ?z + 1"
    by (simp add: uint_word_ariths)
  have "[w, x, y, ?z + 1] = u32_bytes (uint w * 2 ^ 24 + uint x * 2 ^ 16 + uint y * 2 ^ 8 + uint (?z + 1))"
    by (rule u32_bytes_sum [symmetric])
  also have "\<dots> = u32_bytes (uint (u32_of base) + 1)" unfolding b uint_u32_of z by (simp add: add.assoc)
  finally show ?thesis by (simp add: b)
qed

end
