(* ===== verification/NftTypes.thy ===== *)
theory NftTypes
  imports GoNet
begin

text \<open>
  \<open>internal/adapters/nftgen/nftgen.go\<close>, first part: the configuration of the firewall
  generator as records, the schedule of a rule, the helpers on zones and device access, and
  the validation of aliases, zones, rules and of the whole configuration.
\<close>

section \<open>Data\<close>

record PortForward =
  pf_Proto :: string
  pf_ExtPort :: int
  pf_DestIP :: string
  pf_DestPort :: int
  pf_ExtIP :: string

record NAT11Rule =
  n11_ExtIP :: string
  n11_IntIP :: string

record SNATRule =
  sn_Source :: string
  sn_ToAddress :: string

record Alias =
  al_Name :: string
  al_Type :: string
  al_Values :: "string list"

record Schedule =
  sc_Days :: "int list"
  sc_Start :: string
  sc_End :: string

record Rule =
  r_Name :: string
  r_Action :: string
  r_Proto :: string
  r_SrcAlias :: string
  r_DstAlias :: string
  r_DstPort :: int
  r_Category :: string
  r_FromZone :: string
  r_ToZone :: string
  r_Log :: bool
  r_Enabled :: bool
  r_Schedule :: "Schedule option"

record Zone =
  z_Name :: string
  z_Kind :: string
  z_Interface :: string
  z_Network :: string
  z_VLANID :: int
  z_Address :: string

record OVPNRule =
  or_Dest :: string
  or_DestAlias :: string
  or_Proto :: string
  or_Port :: int

record OVPNAccess =
  oa_Addr :: string
  oa_AllowAll :: bool
  oa_Rules :: "OVPNRule list"

record TunnelNet =
  tn_Local :: "string list"
  tn_Remote :: "string list"

record PBRUplink =
  pb_Interface :: string
  pb_Mark :: int

record ServiceACL =
  sa_Zone :: string
  sa_HTTPS :: bool
  sa_SSH :: bool
  sa_DNS :: bool
  sa_Ping :: bool
  sa_DHCP :: bool
  sa_VPN :: bool

record Config =
  c_AdminNetwork :: string
  c_ClientNetwork :: string
  c_DHCPInterface :: string
  c_GatewayEnabled :: bool
  c_WANInterface :: string
  c_LANInterface :: string
  c_MgmtOnWAN :: bool
  c_MgmtOnLAN :: bool
  c_NATEnabled :: bool
  c_PortForwards :: "PortForward list"
  c_HairpinNAT :: bool
  c_BruteForceProtect :: bool
  c_SNATRules :: "SNATRule list"
  c_NAT11 :: "NAT11Rule list"
  c_IPSEnabled :: bool
  c_Aliases :: "Alias list"
  c_Rules :: "Rule list"
  c_ServiceACLs :: "ServiceACL list"
  c_Zones :: "Zone list"
  c_GeoCountries :: "string list"
  c_TunnelNets :: "TunnelNet list"
  c_PBRUplinks :: "PBRUplink list"
  c_GeoCIDRs :: "string list"
  c_VPNPorts :: "int list"
  c_OpenVPNIface :: string
  c_OpenVPNSubnet :: string
  c_OpenVPNAccess :: "OVPNAccess list"

text \<open>One constructor per \<open>fmt.Errorf\<close> of the package, with the values it reports.\<close>

datatype NftError =
    SchedDayRange
  | SchedClock
  | BadAliasName string
  | DupAlias string
  | BadAliasType string
  | EmptyAlias string
  | BadAliasValue string string string
  | BadZoneName string
  | DupZone string
  | BadZoneKind string
  | BadZoneIface string string
  | BadZoneVLAN string
  | BadZoneIfaceName string string
  | DupZoneIface string
  | BadZoneNetwork string
  | BadZoneAddress string
  | BadRuleName
  | DupRule string
  | BadRuleAction string
  | BadRuleProto string
  | RulePortNeedsProto string
  | RulePortRange string
  | BadRuleCategory string string
  | UnknownSrcAlias string string
  | UnknownDstAlias string string
  | UnknownFromZone string string
  | UnknownToZone string string
  | RuleSchedule string NftError
  | BadAdminNetwork
  | BadClientNetwork
  | BadCountry string
  | BadGeoCIDR string
  | BadDHCPIface
  | BadTunnelSubnet string
  | BadPBRIface string
  | BadPBRMark string
  | AdminNetworkRequired
  | GatewayIfaces
  | WanEqualsLan
  | NoZoneAccess
  | NoManagement
  | PfProto
  | PfPorts
  | PfDestIP
  | PfManagementPort int
  | PfExtIP string
  | BadSNATSource string
  | BadSNATTarget string
  | BadNAT11Ext string
  | BadNAT11Int string

section \<open>Schedules\<close>

definition clockRe :: "string \<Rightarrow> bool" where
  "clockRe s \<longleftrightarrow>
     (case s of
        [a, b, c, d, e] \<Rightarrow>
          ((a = CHR ''0'' \<or> a = CHR ''1'') \<and> is_digit b
           \<or> a = CHR ''2'' \<and> CHR ''0'' \<le> b \<and> b \<le> CHR ''3'')
          \<and> c = CHR '':'' \<and> CHR ''0'' \<le> d \<and> d \<le> CHR ''5'' \<and> is_digit e
      | _ \<Rightarrow> False)"

fun sched_days :: "int set \<Rightarrow> int list \<Rightarrow> (string list) option" where
  "sched_days seen [] = Some []"
| "sched_days seen (d # ds) =
     (if d < 0 \<or> d > 6 then None
      else if d \<in> seen then sched_days seen ds
      else map_option (\<lambda>r. Itoa d # r) (sched_days (insert d seen) ds))"

definition nftMatch :: "Schedule option \<Rightarrow> NftError + string" where
  "nftMatch s =
     (case s of
        None \<Rightarrow> Inr []
      | Some s \<Rightarrow>
          (case (if sc_Days s \<noteq> [] then map_option (\<lambda>ds. [''meta day { '' @ Join ds '', '' @ '' }''])
                                        (sched_days {} (sc_Days s))
                 else Some []) of
             None \<Rightarrow> Inl SchedDayRange
           | Some parts \<Rightarrow>
               if sc_Start s \<noteq> [] \<or> sc_End s \<noteq> [] then
                 (if \<not> clockRe (sc_Start s) \<or> \<not> clockRe (sc_End s) then Inl SchedClock
                  else Inr (Join (parts @ [''meta hour '' @ Quote (sc_Start s) @ ''-'' @ Quote (sc_End s)])
                              '' ''))
               else Inr (Join parts '' '')))"

section \<open>Zones and device access\<close>

definition IfaceName :: "Zone \<Rightarrow> string" where
  "IfaceName z = (if z_VLANID z > 0 then z_Interface z @ ''.'' @ Itoa (z_VLANID z) else z_Interface z)"

definition zoneTrust :: "string \<Rightarrow> int option" where
  "zoneTrust k =
     (if k = ''wan'' then Some 0 else if k = ''guest'' then Some 1
      else if k = ''dmz'' then Some 2 else if k = ''lan'' then Some 3 else None)"

text \<open>Indexing the Go map with an unknown kind gives the zero value.\<close>

definition zone_rank :: "string \<Rightarrow> int" where
  "zone_rank k = (case zoneTrust k of None \<Rightarrow> 0 | Some n \<Rightarrow> n)"

definition zoneNameRe :: "string \<Rightarrow> bool" where
  "zoneNameRe = re_head_tail is_lower
     (\<lambda>c. is_lower c \<or> is_digit c \<or> c = CHR ''_'' \<or> c = CHR ''-'') 0 20"

definition RuleCategories :: "string \<Rightarrow> bool" where
  "RuleCategories s \<longleftrightarrow> s = '''' \<or> s = ''lan2wan'' \<or> s = ''wan2lan'' \<or> s = ''wan2dmz''
     \<or> s = ''vpn'' \<or> s = ''local'' \<or> s = ''other''"

definition aliasNameRe :: "string \<Rightarrow> bool" where
  "aliasNameRe = re_head_tail is_lower (\<lambda>c. is_lower c \<or> is_digit c \<or> c = CHR ''_'') 0 30"

definition geoCodeRe :: "string \<Rightarrow> bool" where
  "geoCodeRe = re_rep is_lower 2 2"

definition ruleNameRe :: "string \<Rightarrow> bool" where
  "ruleNameRe = re_rep (\<lambda>c. is_lower c \<or> is_upper c \<or> is_digit c
     \<or> c = CHR '' '' \<or> c = CHR ''.'' \<or> c = CHR ''_'' \<or> c = CHR ''-'') 1 40"

definition validIface :: "string \<Rightarrow> bool" where
  "validIface name \<longleftrightarrow> name \<noteq> [] \<and> length name \<le> 15 \<and> list_all iface_char name"

definition validCIDR4 :: "string \<Rightarrow> bool" where
  "validCIDR4 s \<longleftrightarrow> (case ParseCIDR s of None \<Rightarrow> False | Some (ip, _) \<Rightarrow> To4 ip \<noteq> None)"

definition validAliasValue :: "string \<Rightarrow> string \<Rightarrow> bool" where
  "validAliasValue typ v0 =
     (let v = TrimSpace v0
      in if typ = ''host'' then is_ip4 v
         else if typ = ''network'' then validCIDR4 v
         else if typ = ''range'' then
           (case SplitN2 (CHR ''-'') v of
              [a, b] \<Rightarrow> is_ip4 (TrimSpace a) \<and> is_ip4 (TrimSpace b)
            | _ \<Rightarrow> False)
         else False)"

text \<open>A later zone of the same name overrides an earlier one, as the Go map does.\<close>

definition zoneIfaceMap :: "Config \<Rightarrow> string \<Rightarrow> string" where
  "zoneIfaceMap c n =
     (case map_of (rev (map (\<lambda>z. (z_Name z, IfaceName z)) (c_Zones c))) n of
        None \<Rightarrow> [] | Some i \<Rightarrow> i)"

definition acl_iface :: "Config \<Rightarrow> ServiceACL \<Rightarrow> string" where
  "acl_iface c r =
     (if sa_Zone r = ''wan'' then c_WANInterface c
      else if sa_Zone r = ''lan'' then c_LANInterface c
      else if sa_Zone r = ''vpn'' then c_OpenVPNIface c
      else zoneIfaceMap c (sa_Zone r))"

definition serviceACLRows :: "Config \<Rightarrow> (ServiceACL \<times> string) list" where
  "serviceACLRows c =
     filter (\<lambda>(r, iface). iface \<noteq> []) (map (\<lambda>r. (r, acl_iface c r)) (c_ServiceACLs c))"

definition ManagementReachable :: "Config \<Rightarrow> bool" where
  "ManagementReachable c =
     (if TrimSpace (c_AdminNetwork c) \<noteq> [] then True
      else if serviceACLRows c \<noteq> [] then
        list_ex (\<lambda>(r, iface). sa_HTTPS r \<or> sa_SSH r) (serviceACLRows c)
      else c_MgmtOnLAN c \<and> c_LANInterface c \<noteq> [] \<or> c_MgmtOnWAN c \<and> c_WANInterface c \<noteq> [])"

fun zone_nets_loop :: "string set \<Rightarrow> Zone list \<Rightarrow> string list" where
  "zone_nets_loop seen [] = []"
| "zone_nets_loop seen (z # zs) =
     (if z_Kind z = ''wan'' then zone_nets_loop seen zs
      else let n = TrimSpace (z_Network z)
           in if \<not> validCIDR4 n \<or> n \<in> seen then zone_nets_loop seen zs
              else n # zone_nets_loop (insert n seen) zs)"

definition ZoneNetworks :: "Zone list \<Rightarrow> string list" where
  "ZoneNetworks zones = sort (zone_nets_loop {} zones)"

definition InternalNetworks :: "Zone list \<Rightarrow> string \<Rightarrow> string list" where
  "InternalNetworks zones clientNet =
     (let nets = ZoneNetworks zones; cn = TrimSpace clientNet
      in if \<not> validCIDR4 cn then nets
         else if cn \<in> set nets then nets
         else sort (nets @ [cn]))"

section \<open>Validation\<close>

definition alias_check :: "string set \<Rightarrow> Alias \<Rightarrow> NftError option" where
  "alias_check names a =
     (if \<not> aliasNameRe (al_Name a) then Some (BadAliasName (al_Name a))
      else if al_Name a \<in> names then Some (DupAlias (al_Name a))
      else if al_Type a \<noteq> ''host'' \<and> al_Type a \<noteq> ''network'' \<and> al_Type a \<noteq> ''range''
        then Some (BadAliasType (al_Name a))
      else if al_Values a = [] then Some (EmptyAlias (al_Name a))
      else first_err (\<lambda>v. fail_if (\<not> validAliasValue (al_Type a) v)
                            (BadAliasValue (al_Name a) (al_Type a) v)) (al_Values a))"

text \<open>The keys seen are pairs of zone name and effective interface: both must be new.\<close>

definition zone_check :: "(string \<times> string) set \<Rightarrow> Zone \<Rightarrow> NftError option" where
  "zone_check seen z =
     (if \<not> zoneNameRe (z_Name z) then Some (BadZoneName (z_Name z))
      else if z_Name z \<in> fst ` seen then Some (DupZone (z_Name z))
      else if zoneTrust (z_Kind z) = None then Some (BadZoneKind (z_Name z))
      else if \<not> validIface (z_Interface z) then Some (BadZoneIface (z_Name z) (z_Interface z))
      else if z_VLANID z < 0 \<or> z_VLANID z > 4094 then Some (BadZoneVLAN (z_Name z))
      else if \<not> validIface (IfaceName z) then Some (BadZoneIfaceName (z_Name z) (IfaceName z))
      else if IfaceName z \<in> snd ` seen then Some (DupZoneIface (IfaceName z))
      else if z_Kind z \<noteq> ''wan'' \<and> \<not> validCIDR4 (z_Network z) then Some (BadZoneNetwork (z_Name z))
      else if z_VLANID z > 0 \<and> \<not> validCIDR4 (z_Address z) then Some (BadZoneAddress (z_Name z))
      else None)"

definition rule_check :: "string set \<Rightarrow> string set \<Rightarrow> string set \<Rightarrow> Rule \<Rightarrow> NftError option" where
  "rule_check names zoneNames ruleNames r =
     (if \<not> ruleNameRe (r_Name r) then Some BadRuleName
      else if r_Name r \<in> ruleNames then Some (DupRule (r_Name r))
      else if r_Action r \<noteq> ''accept'' \<and> r_Action r \<noteq> ''drop'' \<and> r_Action r \<noteq> ''reject''
        then Some (BadRuleAction (r_Name r))
      else if r_Proto r \<noteq> ''any'' \<and> r_Proto r \<noteq> ''tcp'' \<and> r_Proto r \<noteq> ''udp''
        then Some (BadRuleProto (r_Name r))
      else if r_DstPort r \<noteq> 0 \<and> r_Proto r \<noteq> ''tcp'' \<and> r_Proto r \<noteq> ''udp''
        then Some (RulePortNeedsProto (r_Name r))
      else if r_DstPort r \<noteq> 0 \<and> (r_DstPort r < 1 \<or> r_DstPort r > 65535)
        then Some (RulePortRange (r_Name r))
      else if \<not> RuleCategories (r_Category r) then Some (BadRuleCategory (r_Name r) (r_Category r))
      else if r_SrcAlias r \<noteq> [] \<and> r_SrcAlias r \<notin> names
        then Some (UnknownSrcAlias (r_Name r) (r_SrcAlias r))
      else if r_DstAlias r \<noteq> [] \<and> r_DstAlias r \<notin> names
        then Some (UnknownDstAlias (r_Name r) (r_DstAlias r))
      else if r_FromZone r \<noteq> [] \<and> r_FromZone r \<notin> zoneNames
        then Some (UnknownFromZone (r_Name r) (r_FromZone r))
      else if r_ToZone r \<noteq> [] \<and> r_ToZone r \<notin> zoneNames
        then Some (UnknownToZone (r_Name r) (r_ToZone r))
      else (case nftMatch (r_Schedule r) of
              Inl e \<Rightarrow> Some (RuleSchedule (r_Name r) e)
            | Inr _ \<Rightarrow> None))"

definition validateObjects :: "Config \<Rightarrow> NftError option" where
  "validateObjects c =
     err_then (seen_err alias_check al_Name {} (c_Aliases c))
    (err_then (seen_err zone_check (\<lambda>z. (z_Name z, IfaceName z)) {} (c_Zones c))
              (seen_err (rule_check (al_Name ` set (c_Aliases c)) (z_Name ` set (c_Zones c)))
                 r_Name {} (c_Rules c)))"

definition pf_check :: "PortForward \<Rightarrow> NftError option" where
  "pf_check pf =
     (if pf_Proto pf \<noteq> ''tcp'' \<and> pf_Proto pf \<noteq> ''udp'' then Some PfProto
      else if pf_ExtPort pf < 1 \<or> pf_ExtPort pf > 65535 \<or> pf_DestPort pf < 1 \<or> pf_DestPort pf > 65535
        then Some PfPorts
      else if \<not> is_ip4 (pf_DestIP pf) then Some PfDestIP
      else if pf_ExtPort pf = 22 \<or> pf_ExtPort pf = 443 then Some (PfManagementPort (pf_ExtPort pf))
      else if pf_ExtIP pf \<noteq> [] \<and> \<not> is_ip4 (pf_ExtIP pf) then Some (PfExtIP (pf_ExtIP pf))
      else None)"

definition snat_check :: "SNATRule \<Rightarrow> NftError option" where
  "snat_check s =
     (if \<not> validCIDR4 (TrimSpace (sn_Source s)) \<and> \<not> is_ip4 (TrimSpace (sn_Source s))
        then Some (BadSNATSource (sn_Source s))
      else if \<not> is_ip4 (TrimSpace (sn_ToAddress s)) then Some (BadSNATTarget (sn_ToAddress s))
      else None)"

definition nat11_check :: "NAT11Rule \<Rightarrow> NftError option" where
  "nat11_check n =
     (if \<not> is_ip4 (TrimSpace (n11_ExtIP n)) then Some (BadNAT11Ext (n11_ExtIP n))
      else if \<not> is_ip4 (TrimSpace (n11_IntIP n)) then Some (BadNAT11Int (n11_IntIP n))
      else None)"

definition pbr_check :: "PBRUplink \<Rightarrow> NftError option" where
  "pbr_check p =
     (if \<not> validIface (pb_Interface p) then Some (BadPBRIface (pb_Interface p))
      else if pb_Mark p < 1 \<or> pb_Mark p > 255 then Some (BadPBRMark (pb_Interface p))
      else None)"

text \<open>The checks that hold in both modes, in the order of the source.\<close>

definition Validate_base :: "Config \<Rightarrow> NftError option" where
  "Validate_base c =
     (if c_AdminNetwork c \<noteq> [] \<and> \<not> validCIDR4 (c_AdminNetwork c) then Some BadAdminNetwork
      else if \<not> validCIDR4 (c_ClientNetwork c) then Some BadClientNetwork
      else err_then (first_err (\<lambda>cc. fail_if (\<not> geoCodeRe cc) (BadCountry cc)) (c_GeoCountries c))
          (err_then (first_err (\<lambda>cidr. fail_if (\<not> validCIDR4 (TrimSpace cidr)) (BadGeoCIDR cidr))
                       (c_GeoCIDRs c))
          (err_then (fail_if (c_DHCPInterface c \<noteq> [] \<and> \<not> validIface (c_DHCPInterface c)) BadDHCPIface)
          (err_then (validateObjects c)
          (err_then (first_err (\<lambda>tn. first_err (\<lambda>s. fail_if (\<not> validCIDR4 (TrimSpace s))
                                                          (BadTunnelSubnet s))
                                        (tn_Local tn @ tn_Remote tn)) (c_TunnelNets c))
                    (first_err pbr_check (c_PBRUplinks c)))))))"

text \<open>The checks of gateway mode.\<close>

definition Validate_gateway :: "Config \<Rightarrow> NftError option" where
  "Validate_gateway c =
     (if \<not> validIface (c_WANInterface c) \<or> \<not> validIface (c_LANInterface c) then Some GatewayIfaces
      else if c_WANInterface c = c_LANInterface c then Some WanEqualsLan
      else if \<not> ManagementReachable c then
        (if c_ServiceACLs c \<noteq> [] then Some NoZoneAccess else Some NoManagement)
      else err_then (first_err pf_check (c_PortForwards c))
          (err_then (first_err snat_check (c_SNATRules c))
                    (first_err nat11_check (c_NAT11 c))))"

definition Validate :: "Config \<Rightarrow> NftError option" where
  "Validate c =
     err_then (Validate_base c)
       (if \<not> c_GatewayEnabled c then
          (if c_AdminNetwork c = [] then Some AdminNetworkRequired else None)
        else Validate_gateway c)"

section \<open>What validation accepts\<close>

text \<open>The declarative reading of the object checks.\<close>

definition alias_ok :: "Alias \<Rightarrow> bool" where
  "alias_ok a \<longleftrightarrow> aliasNameRe (al_Name a) \<and> al_Type a \<in> {''host'', ''network'', ''range''}
     \<and> al_Values a \<noteq> [] \<and> (\<forall>v \<in> set (al_Values a). validAliasValue (al_Type a) v)"

definition zone_ok :: "Zone \<Rightarrow> bool" where
  "zone_ok z \<longleftrightarrow> zoneNameRe (z_Name z) \<and> zoneTrust (z_Kind z) \<noteq> None
     \<and> validIface (z_Interface z) \<and> 0 \<le> z_VLANID z \<and> z_VLANID z \<le> 4094
     \<and> validIface (IfaceName z)
     \<and> (z_Kind z \<noteq> ''wan'' \<longrightarrow> validCIDR4 (z_Network z))
     \<and> (0 < z_VLANID z \<longrightarrow> validCIDR4 (z_Address z))"

definition rule_ok :: "string set \<Rightarrow> string set \<Rightarrow> Rule \<Rightarrow> bool" where
  "rule_ok names zoneNames r \<longleftrightarrow> ruleNameRe (r_Name r)
     \<and> r_Action r \<in> {''accept'', ''drop'', ''reject''} \<and> r_Proto r \<in> {''any'', ''tcp'', ''udp''}
     \<and> (r_DstPort r \<noteq> 0 \<longrightarrow> r_Proto r \<in> {''tcp'', ''udp''} \<and> 1 \<le> r_DstPort r \<and> r_DstPort r \<le> 65535)
     \<and> RuleCategories (r_Category r)
     \<and> (r_SrcAlias r = [] \<or> r_SrcAlias r \<in> names) \<and> (r_DstAlias r = [] \<or> r_DstAlias r \<in> names)
     \<and> (r_FromZone r = [] \<or> r_FromZone r \<in> zoneNames) \<and> (r_ToZone r = [] \<or> r_ToZone r \<in> zoneNames)
     \<and> \<not> isl (nftMatch (r_Schedule r))"

definition objects_ok :: "Config \<Rightarrow> bool" where
  "objects_ok c \<longleftrightarrow>
     distinct (map al_Name (c_Aliases c)) \<and> (\<forall>a \<in> set (c_Aliases c). alias_ok a)
   \<and> distinct (map z_Name (c_Zones c)) \<and> distinct (map IfaceName (c_Zones c))
   \<and> (\<forall>z \<in> set (c_Zones c). zone_ok z)
   \<and> distinct (map r_Name (c_Rules c))
   \<and> (\<forall>r \<in> set (c_Rules c). rule_ok (al_Name ` set (c_Aliases c)) (z_Name ` set (c_Zones c)) r)"

interpretation alias_loop: seen_loop alias_check al_Name id id alias_ok
  by unfold_locales (auto simp: alias_check_def alias_ok_def)

interpretation zone_loop: seen_loop zone_check "\<lambda>z. (z_Name z, IfaceName z)" fst snd zone_ok
  by unfold_locales (auto simp: zone_check_def zone_ok_def)

interpretation rule_loop: seen_loop "rule_check names zoneNames" r_Name id id "rule_ok names zoneNames"
  for names zoneNames
  by unfold_locales (auto simp: rule_check_def rule_ok_def split: sum.splits)

text \<open>
  C40. The object validation accepts a configuration exactly when alias, zone and rule names
  are unique, effective zone interfaces are unique, every alias, zone and rule is well-formed
  by itself, and every alias and zone a rule refers to exists.
\<close>

theorem validateObjects_iff: "validateObjects c = None \<longleftrightarrow> objects_ok c"
  by (auto simp: validateObjects_def objects_ok_def alias_loop.loop_from_empty
      zone_loop.loop_from_empty rule_loop.loop_from_empty)

definition gateway_ok :: "Config \<Rightarrow> bool" where
  "gateway_ok c \<longleftrightarrow>
     validIface (c_WANInterface c) \<and> validIface (c_LANInterface c)
   \<and> c_WANInterface c \<noteq> c_LANInterface c \<and> ManagementReachable c
   \<and> (\<forall>pf \<in> set (c_PortForwards c). pf_check pf = None)
   \<and> (\<forall>s \<in> set (c_SNATRules c). snat_check s = None)
   \<and> (\<forall>n \<in> set (c_NAT11 c). nat11_check n = None)"

lemma Validate_gateway_None: "Validate_gateway c = None \<longleftrightarrow> gateway_ok c"
  by (auto simp: Validate_gateway_def gateway_ok_def)

lemma Validate_objects: "Validate c = None \<Longrightarrow> objects_ok c"
  by (auto simp: Validate_def Validate_base_def validateObjects_def objects_ok_def
      alias_loop.loop_from_empty zone_loop.loop_from_empty rule_loop.loop_from_empty
      split: if_splits)

lemma Validate_gatewayD: "Validate c = None \<Longrightarrow> c_GatewayEnabled c \<Longrightarrow> gateway_ok c"
  by (simp add: Validate_def Validate_gateway_None)

lemma Validate_base_facts:
  assumes "Validate c = None"
  shows "c_AdminNetwork c \<noteq> [] \<longrightarrow> validCIDR4 (c_AdminNetwork c)" "validCIDR4 (c_ClientNetwork c)"
    "c_DHCPInterface c \<noteq> [] \<longrightarrow> validIface (c_DHCPInterface c)"
    "\<forall>p \<in> set (c_PBRUplinks c). pbr_check p = None"
    "\<not> c_GatewayEnabled c \<longrightarrow> c_AdminNetwork c \<noteq> []"
  using assms by (auto simp: Validate_def Validate_base_def split: if_splits)

section \<open>Schedules and internal networks\<close>

lemma sched_days_iff:
  "sched_days seen ds =
     (if \<forall>d \<in> set ds. 0 \<le> d \<and> d \<le> 6 then Some (map Itoa (dedup seen ds)) else None)"
  by (induction ds arbitrary: seen) (auto split: if_splits)

lemma zone_nets_loop_eq:
  "zone_nets_loop seen zs =
     dedup seen (filter validCIDR4 (map (\<lambda>z. TrimSpace (z_Network z)) (filter (\<lambda>z. z_Kind z \<noteq> ''wan'') zs)))"
  by (induction zs arbitrary: seen) (auto simp: Let_def)

lemma set_ZoneNetworks:
  "set (ZoneNetworks zones) =
     {TrimSpace (z_Network z) | z. z \<in> set zones \<and> z_Kind z \<noteq> ''wan'' \<and> validCIDR4 (TrimSpace (z_Network z))}"
  by (auto simp: ZoneNetworks_def zone_nets_loop_eq)

lemma ZoneNetworks_strict: "sorted_wrt (<) (ZoneNetworks zones)"
  by (simp add: ZoneNetworks_def zone_nets_loop_eq sort_strict)

lemma set_InternalNetworks:
  "set (InternalNetworks zones cn) =
     set (ZoneNetworks zones) \<union> (if validCIDR4 (TrimSpace cn) then {TrimSpace cn} else {})"
  by (auto simp: InternalNetworks_def Let_def)

lemma InternalNetworks_strict: "sorted_wrt (<) (InternalNetworks zones cn)"
proof -
  have "distinct (ZoneNetworks zones)"
    using ZoneNetworks_strict strict_sorted_iff by blast
  then show ?thesis
    using ZoneNetworks_strict by (auto simp: InternalNetworks_def Let_def intro!: sort_strict)
qed

text \<open>
  The list of internal networks, on which resolver access, hairpin NAT and the
  split-horizon view are keyed, is strictly sorted (so deterministic and without
  duplicates) and holds exactly the valid IPv4 networks of the non-WAN zones and the valid
  client network, each trimmed.
\<close>

theorem InternalNetworks_spec:
  "sorted_wrt (<) (InternalNetworks zones cn) \<and>
   set (InternalNetworks zones cn) =
     {n. validCIDR4 n \<and> (n = TrimSpace cn \<or>
        (\<exists>z. z \<in> set zones \<and> z_Kind z \<noteq> ''wan'' \<and> n = TrimSpace (z_Network z)))}"
  using InternalNetworks_strict by (auto simp: set_InternalNetworks set_ZoneNetworks)

end
