(* ===== verification/NftTester.thy ===== *)
theory NftTester
  imports NftTypes
begin

text \<open>
  \<open>nftgen.go\<close>, the rule tester: membership of an address in an alias, the zone of an
  address, and \<open>EvaluateForward\<close>, which walks the enabled custom rules in order.
\<close>

unbundle bit_operations_syntax

section \<open>Definitions\<close>

record Packet =
  p_Src :: string
  p_Dst :: string
  p_Proto :: string
  p_DstPort :: int

record RuleEval =
  re_Matched :: bool
  re_RuleName :: string
  re_RuleIndex :: int
  re_Action :: string
  re_Reason :: string

definition ip4ToU32 :: "bytes \<Rightarrow> 32 word option" where
  "ip4ToU32 ip = map_option u32_of (To4 ip)"

text \<open>A nil \<open>net.IP\<close> is the empty byte list.\<close>

definition parse_or_nil :: "string \<Rightarrow> bytes" where
  "parse_or_nil s = (case ParseIP s of None \<Rightarrow> [] | Some ip \<Rightarrow> ip)"

definition alias_value_contains :: "string \<Rightarrow> string \<Rightarrow> bytes \<Rightarrow> bool" where
  "alias_value_contains typ v0 ip =
     (let v = TrimSpace v0
      in if typ = ''host'' then
           (case ParseIP v of None \<Rightarrow> False | Some p \<Rightarrow> ip_Equal p ip)
         else if typ = ''network'' then
           (case ParseCIDR v of None \<Rightarrow> False | Some (_, n) \<Rightarrow> Contains n ip)
         else if typ = ''range'' then
           (case SplitN2 (CHR ''-'') v of
              [a, b] \<Rightarrow>
                (case (ip4ToU32 (parse_or_nil (TrimSpace a)), ip4ToU32 (parse_or_nil (TrimSpace b)),
                       ip4ToU32 ip) of
                   (Some li, Some hiu, Some ci) \<Rightarrow> li \<le> ci \<and> ci \<le> hiu
                 | _ \<Rightarrow> False)
            | _ \<Rightarrow> False)
         else False)"

definition aliasContains :: "Alias \<Rightarrow> bytes \<Rightarrow> bool" where
  "aliasContains a ip = list_ex (\<lambda>v. alias_value_contains (al_Type a) v ip) (al_Values a)"

fun zone_of_loop :: "Zone list \<Rightarrow> bytes \<Rightarrow> string" where
  "zone_of_loop [] ip = []"
| "zone_of_loop (z # zs) ip =
     (if z_Network z = [] then zone_of_loop zs ip
      else (case ParseCIDR (z_Network z) of
              Some (_, n) \<Rightarrow> if Contains n ip then z_Name z else zone_of_loop zs ip
            | None \<Rightarrow> zone_of_loop zs ip))"

definition zoneOf :: "Config \<Rightarrow> bytes \<Rightarrow> string" where
  "zoneOf c ip = (if ip = [] then [] else zone_of_loop (c_Zones c) ip)"

definition alias_map :: "Config \<Rightarrow> string \<rightharpoonup> Alias" where
  "alias_map c = map_of (rev (map (\<lambda>a. (al_Name a, a)) (c_Aliases c)))"

definition alias_matches :: "Config \<Rightarrow> string \<Rightarrow> bytes \<Rightarrow> bool" where
  "alias_matches c name ip =
     (case alias_map c name of
        None \<Rightarrow> False
      | Some a \<Rightarrow> ip \<noteq> [] \<and> aliasContains a ip)"

text \<open>The conditions of the loop body: \<open>False\<close> is the body's \<open>continue\<close>.\<close>

definition rule_matches :: "Config \<Rightarrow> Packet \<Rightarrow> Rule \<Rightarrow> bool" where
  "rule_matches c p r =
     (let src = parse_or_nil (TrimSpace (p_Src p)); dst = parse_or_nil (TrimSpace (p_Dst p))
      in (if r_FromZone r \<noteq> [] \<and> r_FromZone r \<noteq> zoneOf c src then False
          else if r_ToZone r \<noteq> [] \<and> r_ToZone r \<noteq> zoneOf c dst then False
          else if r_SrcAlias r \<noteq> [] \<and> \<not> alias_matches c (r_SrcAlias r) src then False
          else if r_DstAlias r \<noteq> [] \<and> \<not> alias_matches c (r_DstAlias r) dst then False
          else if r_Proto r \<noteq> ''any'' \<and> p_Proto p \<noteq> ''any'' \<and> r_Proto r \<noteq> p_Proto p then False
          else if r_DstPort r \<noteq> 0 \<and> p_DstPort p \<noteq> 0 \<and> r_DstPort r \<noteq> p_DstPort p then False
          else True))"

definition arrow :: string where
  "arrow = [CHR 0xE2, CHR 0x86, CHR 0x92]"

definition matched_reason :: "int \<Rightarrow> Rule \<Rightarrow> string" where
  "matched_reason idx r =
     ''prvo pravilo koje odgovara je #'' @ Itoa idx @ '' '' @ Quote (r_Name r) @ '' '' @ arrow @ '' ''
       @ r_Action r"

definition default_eval :: RuleEval where
  "default_eval = \<lparr> re_Matched = False, re_RuleName = [], re_RuleIndex = 0, re_Action = ''default'',
     re_Reason = ''nijedno custom pravilo ne odgovara '' @ [CHR 0xE2, CHR 0x80, CHR 0x94]
       @ '' vrijedi zadana politika (u gateway modu: LAN'' @ arrow @ ''WAN se propu''
       @ [CHR 0xC5, CHR 0xA1] @ ''ta, ostalo se odbacuje)'' \<rparr>"

fun eval_rules :: "Config \<Rightarrow> Packet \<Rightarrow> int \<Rightarrow> Rule list \<Rightarrow> RuleEval" where
  "eval_rules c p idx [] = default_eval"
| "eval_rules c p idx (r # rs) =
     (if \<not> r_Enabled r then eval_rules c p idx rs
      else if \<not> rule_matches c p r then eval_rules c p (idx + 1) rs
      else \<lparr> re_Matched = True, re_RuleName = r_Name r, re_RuleIndex = idx + 1,
             re_Action = r_Action r, re_Reason = matched_reason (idx + 1) r \<rparr>)"

definition EvaluateForward :: "Config \<Rightarrow> Packet \<Rightarrow> RuleEval" where
  "EvaluateForward c p = eval_rules c p 0 (c_Rules c)"

section \<open>First match\<close>

abbreviation enabled_rules :: "Config \<Rightarrow> Rule list" where
  "enabled_rules c \<equiv> filter r_Enabled (c_Rules c)"

lemma eval_rules_none:
  "\<not> re_Matched (eval_rules c p idx rs) \<longleftrightarrow> (\<forall>r \<in> set rs. r_Enabled r \<longrightarrow> \<not> rule_matches c p r)"
  by (induction c p idx rs rule: eval_rules.induct) (auto simp: default_eval_def)

lemma eval_rules_first:
  assumes "re_Matched (eval_rules c p idx rs)"
  shows "\<exists>k r. k < length (filter r_Enabled rs) \<and> filter r_Enabled rs ! k = r
       \<and> re_RuleIndex (eval_rules c p idx rs) = idx + int k + 1
       \<and> rule_matches c p r \<and> re_Action (eval_rules c p idx rs) = r_Action r
       \<and> re_RuleName (eval_rules c p idx rs) = r_Name r
       \<and> (\<forall>j < k. \<not> rule_matches c p (filter r_Enabled rs ! j))"
  using assms
proof (induction c p idx rs rule: eval_rules.induct)
  case (1 c p idx)
  then show ?case by (simp add: default_eval_def)
next
  case (2 c p idx r rs)
  consider "\<not> r_Enabled r" | "r_Enabled r" "rule_matches c p r" | "r_Enabled r" "\<not> rule_matches c p r"
    by blast
  then show ?case
  proof cases
    case 1
    with "2.IH"(1) "2.prems" show ?thesis by simp
  next
    case 2
    then show ?thesis by (intro exI [of _ 0]) simp
  next
    case 3
    with "2.prems" have "re_Matched (eval_rules c p (idx + 1) rs)" by simp
    from "2.IH"(2) [OF _ _ this] 3 obtain k r' where
      k: "k < length (filter r_Enabled rs)" "filter r_Enabled rs ! k = r'"
      "re_RuleIndex (eval_rules c p (idx + 1) rs) = idx + 1 + int k + 1"
      "rule_matches c p r'" "re_Action (eval_rules c p (idx + 1) rs) = r_Action r'"
      "re_RuleName (eval_rules c p (idx + 1) rs) = r_Name r'"
      "\<forall>j < k. \<not> rule_matches c p (filter r_Enabled rs ! j)" by blast
    have "\<forall>j < Suc k. \<not> rule_matches c p ((r # filter r_Enabled rs) ! j)"
      using 3 k(7) by (simp add: less_Suc_eq_0_disj) (metis nth_Cons_Suc not0_implies_Suc)
    with 3 k show ?thesis
      by (intro exI [of _ "Suc k"] exI [of _ r']) simp
  qed
qed

text \<open>
  The rule tester reports the first matching rule: it answers \<open>Matched\<close> exactly when
  some enabled rule matches the packet, and then its name, action and 1-based index are those
  of the first enabled rule that matches, no earlier enabled rule matching.
\<close>

theorem EvaluateForward_first_match:
  "if \<exists>r. r \<in> set (enabled_rules c) \<and> rule_matches c p r
   then (\<exists>k r. k < length (enabled_rules c) \<and> enabled_rules c ! k = r \<and> rule_matches c p r
      \<and> \<not> (\<exists>j < k. rule_matches c p (enabled_rules c ! j))
      \<and> re_Matched (EvaluateForward c p) \<and> re_RuleIndex (EvaluateForward c p) = int k + 1
      \<and> re_RuleName (EvaluateForward c p) = r_Name r \<and> re_Action (EvaluateForward c p) = r_Action r)
   else EvaluateForward c p = default_eval"
proof (cases "re_Matched (EvaluateForward c p)")
  case True
  then have m: "re_Matched (eval_rules c p 0 (c_Rules c))" by (simp add: EvaluateForward_def)
  then have ex: "\<exists>r. r \<in> set (enabled_rules c) \<and> rule_matches c p r"
    using eval_rules_none [of c p 0 "c_Rules c"] by auto
  show ?thesis
    using eval_rules_first [OF m] m unfolding EvaluateForward_def if_P [OF ex] by fastforce
next
  case False
  have "eval_rules c p i rs = default_eval" if "\<not> re_Matched (eval_rules c p i rs)" for i rs
    using that by (induction c p i rs rule: eval_rules.induct) (auto split: if_splits)
  with False show ?thesis
    using eval_rules_none [of c p 0 "c_Rules c"] unfolding EvaluateForward_def by auto
qed

section \<open>Alias membership\<close>

lemma alias_value_range:
  assumes "length a = 4" "length b = 4" "length x = 4"
  shows "alias_value_contains ''range'' (ip4_String a @ CHR ''-'' # ip4_String b) (v4_in_v6_prefix @ x)
     \<longleftrightarrow> u32_of a \<le> u32_of x \<and> u32_of x \<le> u32_of b"
proof -
  have dash: "CHR ''-'' \<notin> set (ip4_String a)"
    using ip4_String_graph [OF assms(1)] by (auto simp: list_all_iff is_digit_def)
  have "list_all is_graph (ip4_String a @ CHR ''-'' # ip4_String b)"
    using ip4_String_is_graph assms by (simp add: is_graph_def)
  then have "TrimSpace (ip4_String a @ CHR ''-'' # ip4_String b) = ip4_String a @ CHR ''-'' # ip4_String b"
    by (rule TrimSpace_all_graph)
  then show ?thesis
    using assms dash
    by (simp add: ip4_String_is_graph alias_value_contains_def SplitN2_def ip4ToU32_def parse_or_nil_def)
qed

lemma alias_value_network:
  assumes "length b = 4" "n \<le> 32" "length x = 4"
  shows "alias_value_contains ''network'' (ip4_String b @ CHR ''/'' # nat_str n) (v4_in_v6_prefix @ x)
     \<longleftrightarrow> drop_bit (32 - n) (u32_of b) = drop_bit (32 - n) (u32_of x)"
proof -
  have "list_all is_graph (ip4_String b @ CHR ''/'' # nat_str n)"
    using ip4_String_is_graph [OF assms(1)] nat_str_graph [of n] by (simp add: is_graph_def)
  then have "TrimSpace (ip4_String b @ CHR ''/'' # nat_str n) = ip4_String b @ CHR ''/'' # nat_str n"
    by (rule TrimSpace_all_graph)
  then show ?thesis
    using assms by (simp add: alias_value_contains_def Contains_ip4_net)
qed

end
