(* ===== verification/NftGen.thy ===== *)
theory NftGen
  imports NftTester
begin

text \<open>
  \<open>nftgen.go\<close>, the generator: the rendering helpers and \<open>Generate\<close>, split into the
  groups of lines it writes (sets, input chain, forward chain, marks, NAT). Every group is a
  list of lines; \<open>Generate\<close> returns their concatenation with newlines.
\<close>

section \<open>Rendering helpers\<close>

definition nftSet :: "string list \<Rightarrow> string" where
  "nftSet cidrs =
     (case cidrs of
        [x] \<Rightarrow> TrimSpace x
      | _ \<Rightarrow> ''{ '' @ Join (map TrimSpace cidrs) '', '' @ '' }'')"

text \<open>\<open>None\<close> is the panic of \<open>parts[1]\<close> on a range without a dash.\<close>

definition alias_elem :: "string \<Rightarrow> string \<Rightarrow> string option" where
  "alias_elem typ v0 =
     (let v = TrimSpace v0
      in if typ = ''range'' then
           (case SplitN2 (CHR ''-'') v of
              [a, b] \<Rightarrow> Some (TrimSpace a @ ''-'' @ TrimSpace b)
            | _ \<Rightarrow> None)
         else Some v)"

definition aliasSetType :: "Alias \<Rightarrow> string option" where
  "aliasSetType a =
     (let interval = (al_Type a = ''network'' \<or> al_Type a = ''range'');
          body = ''type ipv4_addr;'' @ (if interval then '' flags interval;'' else [])
      in map_option (\<lambda>elems. body @ '' elements = { '' @ Join elems '', '' @ '' }'')
           (those (map (alias_elem (al_Type a)) (al_Values a))))"

definition ruleMatch :: "Rule \<Rightarrow> (string \<Rightarrow> string) \<Rightarrow> string" where
  "ruleMatch r zoneIface =
     (let sched = (case nftMatch (r_Schedule r) of Inl _ \<Rightarrow> [] | Inr s \<Rightarrow> s);
          name = (if length (r_Name r) > 24 then take 24 (r_Name r) else r_Name r)
      in Join
          (only_if (r_FromZone r \<noteq> [] \<and> zoneIface (r_FromZone r) \<noteq> [])
             [''iifname '' @ Quote (zoneIface (r_FromZone r))]
         @ only_if (r_ToZone r \<noteq> [] \<and> zoneIface (r_ToZone r) \<noteq> [])
             [''oifname '' @ Quote (zoneIface (r_ToZone r))]
         @ only_if (r_SrcAlias r \<noteq> []) [''ip saddr @alias_'' @ r_SrcAlias r]
         @ only_if (r_DstAlias r \<noteq> []) [''ip daddr @alias_'' @ r_DstAlias r]
         @ (if r_DstPort r \<noteq> 0 then [r_Proto r @ '' dport '' @ Itoa (r_DstPort r)]
            else if r_Proto r = ''tcp'' \<or> r_Proto r = ''udp'' then [''meta l4proto '' @ r_Proto r]
            else [])
         @ only_if (sched \<noteq> []) [sched]
         @ [''counter'']
         @ only_if (r_Log r) [''log prefix '' @ Quote (''SNA:'' @ name @ '' '')]
         @ [r_Action r]) '' '')"

section \<open>Sets\<close>

definition gen_alias_sets :: "Config \<Rightarrow> string list option" where
  "gen_alias_sets c =
     those (map (\<lambda>a. map_option (\<lambda>body. ''  set alias_'' @ al_Name a @ '' { '' @ body @ '' }'')
                       (aliasSetType a)) (c_Aliases c))"

definition gen_sets :: "Config \<Rightarrow> string list" where
  "gen_sets c =
     [''#!/usr/sbin/nft -f'',
      ''# Managed by Saguaro (generated). Manual edits are overwritten on apply.'',
      ''flush ruleset'',
      ''table inet saguaro {'']
   @ only_if (c_AdminNetwork c \<noteq> [])
       [''  set mgmt4 { type ipv4_addr; flags interval; elements = { '' @ c_AdminNetwork c @ '' } }'']
   @ only_if (c_ServiceACLs c = [])
       [''  set internal4 { type ipv4_addr; flags interval; elements = { ''
          @ Join (InternalNetworks (c_Zones c) (c_ClientNetwork c)) '', '' @ '' } }'']
   @ only_if (c_BruteForceProtect c)
       [''  set mgmt_brute4 { type ipv4_addr; size 65535; flags dynamic, timeout; timeout 10m; }'']
   @ only_if (c_GeoCIDRs c \<noteq> [])
       [''  set geo4 { type ipv4_addr; flags interval; elements = { ''
          @ Join (c_GeoCIDRs c) '', '' @ '' } }'']"

section \<open>Input chain\<close>

definition acl_comment :: "ServiceACL \<Rightarrow> string \<Rightarrow> string" where
  "acl_comment r what = '' accept comment '' @ dq (''acl '' @ sa_Zone r @ '' '' @ what)"

text \<open>The lines of one row of the device-access matrix.\<close>

definition acl_row_lines :: "Config \<Rightarrow> ServiceACL \<Rightarrow> string \<Rightarrow> string list" where
  "acl_row_lines c r iface =
     (let ports = only_if (sa_HTTPS r) [''443''] @ only_if (sa_SSH r) [''22'']
      in if iface = [] then []
         else only_if (ports \<noteq> [])
                [''    iifname '' @ Quote iface @ '' tcp dport { '' @ Join ports '', '' @ '' }''
                   @ acl_comment r ''mgmt'']
            @ only_if (sa_DNS r)
                [''    iifname '' @ Quote iface @ '' udp dport 53'' @ acl_comment r ''dns'',
                 ''    iifname '' @ Quote iface @ '' tcp dport 53'' @ acl_comment r ''dns'']
            @ only_if (sa_Ping r)
                [''    iifname '' @ Quote iface @ '' ip protocol icmp icmp type echo-request''
                   @ acl_comment r ''ping'']
            @ only_if (sa_DHCP r)
                [''    iifname '' @ Quote iface @ '' udp dport 67'' @ acl_comment r ''dhcp'']
            @ only_if (sa_VPN r)
                (map (\<lambda>p. ''    iifname '' @ Quote iface @ '' udp dport '' @ Itoa p @ acl_comment r ''vpn'')
                   (filter (\<lambda>p. p > 0 \<and> p \<le> 65535) (c_VPNPorts c))))"

definition mgmt_line :: "string \<Rightarrow> string" where
  "mgmt_line iface = ''    iifname '' @ Quote iface @ '' tcp dport { 22, 443 } accept''"

definition admin_line :: string where
  "admin_line = ''    ip saddr @mgmt4 tcp dport { 22, 443 } accept''"

text \<open>The access rules without a matrix: management toggles, resolver, VPN ports, DHCP.\<close>

definition legacy_lines :: "Config \<Rightarrow> string list" where
  "legacy_lines c =
     only_if (c_MgmtOnLAN c \<and> c_LANInterface c \<noteq> []) [mgmt_line (c_LANInterface c)]
   @ only_if (c_MgmtOnWAN c \<and> c_WANInterface c \<noteq> []) [mgmt_line (c_WANInterface c)]
   @ [''    ip saddr @internal4 udp dport 53 accept'',
      ''    ip saddr @internal4 tcp dport 53 accept'']
   @ map (\<lambda>p. ''    udp dport '' @ Itoa p @ '' accept'')
       (filter (\<lambda>p. p > 0 \<and> p \<le> 65535) (c_VPNPorts c))
   @ only_if (c_DHCPInterface c \<noteq> [])
       [''    iifname '' @ Quote (c_DHCPInterface c) @ '' udp dport 67 accept'']"

definition access_lines :: "Config \<Rightarrow> string list" where
  "access_lines c =
     only_if (c_AdminNetwork c \<noteq> []) [admin_line]
   @ (if serviceACLRows c \<noteq> []
      then concat (map (\<lambda>(r, iface). acl_row_lines c r iface) (serviceACLRows c))
      else legacy_lines c)"

definition gen_input_head :: "Config \<Rightarrow> string list" where
  "gen_input_head c =
     [''  chain input {'',
      ''    type filter hook input priority filter; policy drop;'',
      ''    ct state established,related accept'',
      ''    ct state invalid drop'',
      ''    iif '' @ dq ''lo'' @ '' accept'']
   @ only_if (c_GeoCIDRs c \<noteq> []) [''    ip saddr @geo4 drop'']
   @ (if serviceACLRows c \<noteq> []
      then [''    ip protocol icmp icmp type { destination-unreachable, time-exceeded, parameter-problem } accept'']
      else [''    ip protocol icmp icmp type { echo-request, destination-unreachable, time-exceeded, parameter-problem } accept''])
   @ [''    ip6 nexthdr ipv6-icmp accept'']
   @ only_if (c_BruteForceProtect c)
       [''    tcp dport { 22, 443 } ct state new update @mgmt_brute4 { ip saddr limit rate over 10/minute burst 15 packets } counter log prefix ''
          @ dq ''SNA-BRUTE-DROP '' @ '' drop'']"

definition gen_input_tail :: "string list" where
  "gen_input_tail =
     [''    counter log prefix '' @ dq ''SNA-INPUT-DROP '' @ '' drop'',
      ''  }'', '''']"

definition gen_input :: "Config \<Rightarrow> string list" where
  "gen_input c = gen_input_head c @ access_lines c @ gen_input_tail"

section \<open>Forward chain\<close>

definition custom_rule_line :: "Config \<Rightarrow> Rule \<Rightarrow> string" where
  "custom_rule_line c r =
     (let label = r_Name r @ (if r_Category r \<noteq> [] then '' ['' @ r_Category r @ '']'' else [])
      in ''    '' @ ruleMatch r (zoneIfaceMap c) @ '' comment '' @ Quote label)"

definition custom_rule_lines :: "Config \<Rightarrow> string list" where
  "custom_rule_lines c = map (custom_rule_line c) (filter r_Enabled (c_Rules c))"

definition zone_line :: "string \<Rightarrow> string \<Rightarrow> string \<Rightarrow> string \<Rightarrow> string" where
  "zone_line i oif n m =
     ''    iifname '' @ Quote i @ '' oifname '' @ Quote oif @ '' accept comment ''
       @ dq (''zone '' @ n @ ''->'' @ m)"

definition zone_wan_lines :: "Config \<Rightarrow> string list" where
  "zone_wan_lines c =
     map (\<lambda>z. zone_line (IfaceName z) (c_WANInterface c) (z_Name z) ''wan'')
       (filter (\<lambda>z. z_Kind z \<noteq> ''wan'' \<and> c_WANInterface c \<noteq> [] \<and> IfaceName z \<noteq> c_WANInterface c)
          (c_Zones c))"

text \<open>The nested loop over source and destination zones.\<close>

definition zone_pair_lines :: "Config \<Rightarrow> string list" where
  "zone_pair_lines c =
     concat (map (\<lambda>sz.
       if z_Kind sz = ''wan'' then []
       else concat (map (\<lambda>dz.
         if z_Kind dz = ''wan'' \<or> z_Name sz = z_Name dz then []
         else if zone_rank (z_Kind sz) > zone_rank (z_Kind dz)
           then [zone_line (IfaceName sz) (IfaceName dz) (z_Name sz) (z_Name dz)]
         else []) (c_Zones c))) (c_Zones c))"

definition tunnel_lines :: "Config \<Rightarrow> string list" where
  "tunnel_lines c =
     concat (map (\<lambda>tn.
       if tn_Local tn = [] \<or> tn_Remote tn = [] then []
       else let local = nftSet (tn_Local tn); remote = nftSet (tn_Remote tn)
            in [''    ip saddr '' @ local @ '' ip daddr '' @ remote @ '' counter accept comment '' @ dq ''tunnel'',
                ''    ip saddr '' @ remote @ '' ip daddr '' @ local @ '' counter accept comment '' @ dq ''tunnel''])
       (c_TunnelNets c))"

definition hairpin :: "Config \<Rightarrow> bool" where
  "hairpin c \<longleftrightarrow> c_HairpinNAT c \<and> c_PortForwards c \<noteq> []"

definition gateway_forward_lines :: "Config \<Rightarrow> string list" where
  "gateway_forward_lines c =
     [''    iifname '' @ Quote (c_LANInterface c) @ '' oifname '' @ Quote (c_WANInterface c) @ '' accept'']
   @ map (\<lambda>pf. ''    iifname '' @ Quote (c_WANInterface c) @ '' ip daddr '' @ pf_DestIP pf @ '' ''
              @ pf_Proto pf @ '' dport '' @ Itoa (pf_DestPort pf) @ '' ct state new accept'')
       (c_PortForwards c)
   @ map (\<lambda>n. ''    iifname '' @ Quote (c_WANInterface c) @ '' ip daddr '' @ n11_IntIP n
              @ '' ct state new accept'') (c_NAT11 c)
   @ only_if (hairpin c)
       (map (\<lambda>pf. ''    ip daddr '' @ pf_DestIP pf @ '' '' @ pf_Proto pf @ '' dport ''
              @ Itoa (pf_DestPort pf) @ '' ct status dnat ct state new accept comment '' @ dq ''hairpin'')
          (c_PortForwards c))"

definition ovpn_rule_line :: "Config \<Rightarrow> OVPNAccess \<Rightarrow> OVPNRule \<Rightarrow> string" where
  "ovpn_rule_line c ac r =
     (let daddr = (if or_DestAlias r \<noteq> [] then ''@alias_'' @ or_DestAlias r else or_Dest r);
          line = ''iifname '' @ Quote (c_OpenVPNIface c) @ '' ip saddr '' @ oa_Addr ac
                   @ '' ip daddr '' @ daddr;
          l4 = (if (or_Proto r = ''tcp'' \<or> or_Proto r = ''udp'') \<and> or_Port r > 0
                then '' '' @ or_Proto r @ '' dport '' @ Itoa (or_Port r)
                else if or_Proto r = ''tcp'' \<or> or_Proto r = ''udp'' then '' meta l4proto '' @ or_Proto r
                else [])
      in ''    '' @ line @ l4 @ '' ct state new accept'')"

definition ovpn_access_lines :: "Config \<Rightarrow> OVPNAccess \<Rightarrow> string list" where
  "ovpn_access_lines c ac =
     (if oa_Addr ac = [] then []
      else if oa_AllowAll ac then
        [''    iifname '' @ Quote (c_OpenVPNIface c) @ '' ip saddr '' @ oa_Addr ac @ '' ct state new accept'']
      else map (ovpn_rule_line c ac) (oa_Rules ac))"

definition ovpn_drop_line :: "Config \<Rightarrow> string" where
  "ovpn_drop_line c = ''    iifname '' @ Quote (c_OpenVPNIface c) @ '' counter drop''"

definition ovpn_lines :: "Config \<Rightarrow> string list" where
  "ovpn_lines c =
     only_if (c_OpenVPNIface c \<noteq> [] \<and> c_OpenVPNAccess c \<noteq> [])
       (concat (map (ovpn_access_lines c) (c_OpenVPNAccess c)) @ [ovpn_drop_line c])"

definition forwardActive :: "Config \<Rightarrow> bool" where
  "forwardActive c \<longleftrightarrow> c_GatewayEnabled c \<or> list_ex r_Enabled (c_Rules c)
     \<or> c_TunnelNets c \<noteq> [] \<or> c_GeoCIDRs c \<noteq> []"

definition gen_forward :: "Config \<Rightarrow> string list" where
  "gen_forward c =
     [''  chain forward {'',
      ''    type filter hook forward priority filter; policy drop;'']
   @ only_if (forwardActive c)
       [''    ct state established,related accept'', ''    ct state invalid drop'']
   @ only_if (c_GeoCIDRs c \<noteq> []) [''    ip saddr @geo4 drop'']
   @ only_if (c_GatewayEnabled c \<and> c_IPSEnabled c) [''    ct state new queue num 0 bypass'']
   @ custom_rule_lines c
   @ only_if (c_GatewayEnabled c \<and> c_Zones c \<noteq> []) (zone_wan_lines c @ zone_pair_lines c)
   @ tunnel_lines c
   @ only_if (c_GatewayEnabled c) (gateway_forward_lines c)
   @ ovpn_lines c
   @ only_if (forwardActive c) [''    counter log prefix '' @ dq ''SNA-FWD-DROP '' @ '' drop'']
   @ [''  }'']"

section \<open>Marks and NAT\<close>

definition gen_mangle :: "Config \<Rightarrow> string list" where
  "gen_mangle c =
     only_if (c_PBRUplinks c \<noteq> [])
       ([''  chain mangle_pre {'',
         ''    type filter hook prerouting priority mangle; policy accept;'']
      @ map (\<lambda>p. ''    iifname '' @ Quote (pb_Interface p) @ '' ct state new ct mark set 0x''
               @ hex_int (pb_Mark p)) (c_PBRUplinks c)
      @ [''    ct mark != 0x0 meta mark set ct mark'', ''  }''])"

definition dnat_line :: "Config \<Rightarrow> PortForward \<Rightarrow> string" where
  "dnat_line c pf =
     (let daddr = (if pf_ExtIP pf \<noteq> [] then ''ip daddr '' @ pf_ExtIP pf @ '' '' else [])
      in ''    iifname '' @ Quote (c_WANInterface c) @ '' '' @ daddr @ pf_Proto pf @ '' dport ''
           @ Itoa (pf_ExtPort pf) @ '' dnat to '' @ pf_DestIP pf @ '':'' @ Itoa (pf_DestPort pf))"

definition hairpin_dnat_line :: "Config \<Rightarrow> PortForward \<Rightarrow> string" where
  "hairpin_dnat_line c pf =
     ''    ip saddr '' @ nftSet (InternalNetworks (c_Zones c) (c_ClientNetwork c))
       @ '' fib daddr type local '' @ pf_Proto pf @ '' dport '' @ Itoa (pf_ExtPort pf)
       @ '' dnat to '' @ pf_DestIP pf @ '':'' @ Itoa (pf_DestPort pf)"

definition prerouting_lines :: "Config \<Rightarrow> string list" where
  "prerouting_lines c =
     only_if (c_PortForwards c \<noteq> [] \<or> c_NAT11 c \<noteq> [])
       ([''  chain prerouting {'', ''    type nat hook prerouting priority dstnat;'']
      @ map (dnat_line c) (c_PortForwards c)
      @ map (\<lambda>n. ''    iifname '' @ Quote (c_WANInterface c) @ '' ip daddr '' @ n11_ExtIP n
               @ '' dnat to '' @ n11_IntIP n) (c_NAT11 c)
      @ only_if (hairpin c) (map (hairpin_dnat_line c) (c_PortForwards c))
      @ [''  }''])"

definition vpn_masq_line :: "Config \<Rightarrow> string" where
  "vpn_masq_line c =
     ''    oifname '' @ Quote (c_LANInterface c) @ '' ip saddr '' @ c_OpenVPNSubnet c @ '' masquerade''"

definition postrouting_lines :: "Config \<Rightarrow> string list" where
  "postrouting_lines c =
     only_if (c_NATEnabled c \<or> hairpin c \<or> c_SNATRules c \<noteq> [] \<or> c_NAT11 c \<noteq> [])
       ([''  chain postrouting {'', ''    type nat hook postrouting priority srcnat;'']
      @ map (\<lambda>s. ''    oifname '' @ Quote (c_WANInterface c) @ '' ip saddr '' @ TrimSpace (sn_Source s)
               @ '' snat to '' @ TrimSpace (sn_ToAddress s)) (c_SNATRules c)
      @ map (\<lambda>n. ''    oifname '' @ Quote (c_WANInterface c) @ '' ip saddr '' @ n11_IntIP n
               @ '' snat to '' @ n11_ExtIP n) (c_NAT11 c)
      @ only_if (c_NATEnabled c) [''    oifname '' @ Quote (c_WANInterface c) @ '' masquerade'']
      @ only_if (c_OpenVPNSubnet c \<noteq> [] \<and> c_LANInterface c \<noteq> []) [vpn_masq_line c]
      @ only_if (hairpin c)
          (map (\<lambda>pf. ''    ip saddr '' @ nftSet (InternalNetworks (c_Zones c) (c_ClientNetwork c))
               @ '' ip daddr '' @ pf_DestIP pf @ '' '' @ pf_Proto pf @ '' dport ''
               @ Itoa (pf_DestPort pf) @ '' masquerade'') (c_PortForwards c))
      @ [''  }''])"

definition gen_nat :: "Config \<Rightarrow> string list" where
  "gen_nat c =
     only_if (c_GatewayEnabled c \<and> (c_NATEnabled c \<or> c_PortForwards c \<noteq> [] \<or> c_SNATRules c \<noteq> []
              \<or> c_NAT11 c \<noteq> [] \<or> c_OpenVPNSubnet c \<noteq> []))
       (['''', ''table ip saguaro-nat {'']
      @ prerouting_lines c @ postrouting_lines c @ [''}''])"

section \<open>Generate\<close>

definition gen_lines :: "Config \<Rightarrow> string list option" where
  "gen_lines c =
     map_option (\<lambda>aliases. gen_sets c @ aliases @ [''''] @ gen_input c @ gen_forward c
                   @ gen_mangle c @ [''}''] @ gen_nat c) (gen_alias_sets c)"

definition Generate :: "Config \<Rightarrow> (NftError, string) outcome" where
  "Generate c =
     (case Validate c of
        Some e \<Rightarrow> Error e
      | None \<Rightarrow> (case gen_lines c of None \<Rightarrow> Panic | Some ls \<Rightarrow> Return (unlines ls)))"

section \<open>Generation is total on validated configurations\<close>

lemma those_Some: "(\<forall>x \<in> set xs. f x \<noteq> None) \<longleftrightarrow> those (map f xs) \<noteq> None"
  by (induction xs) (auto split: option.split)

lemma those_map_SomeD: "those (map f xs) = Some ys \<Longrightarrow> x \<in> set xs \<Longrightarrow> \<exists>y \<in> set ys. f x = Some y"
  by (induction xs arbitrary: ys) (auto split: option.splits)

lemma alias_elem_valid: "validAliasValue typ v \<Longrightarrow> alias_elem typ v \<noteq> None"
  by (auto simp: validAliasValue_def alias_elem_def SplitN2_def Let_def split: option.splits if_splits)

lemma aliasSetType_ok: "alias_ok a \<Longrightarrow> aliasSetType a \<noteq> None"
  using those_Some [of "al_Values a" "alias_elem (al_Type a)"]
  by (auto simp: aliasSetType_def alias_ok_def alias_elem_valid Let_def)

lemma gen_alias_sets_total: "objects_ok c \<Longrightarrow> gen_alias_sets c \<noteq> None"
  unfolding gen_alias_sets_def
  by (subst those_Some [symmetric]) (auto simp: objects_ok_def dest: aliasSetType_ok)

lemma gen_lines_total: "Validate c = None \<Longrightarrow> gen_lines c \<noteq> None"
  using gen_alias_sets_total Validate_objects by (auto simp: gen_lines_def)

text \<open>
  C2. Generating a ruleset never panics, and it fails exactly when validation fails, with
  the error validation reports.
\<close>

theorem Generate_total:
  "Generate c \<noteq> Panic \<and> (Generate c = Error e \<longleftrightarrow> Validate c = Some e)
   \<and> ((\<exists>s. Generate c = Return s) \<longleftrightarrow> Validate c = None)"
  using gen_lines_total [of c] by (cases "Validate c") (auto simp: Generate_def split: option.splits)

lemma Generate_Return:
  assumes "Generate c = Return s"
  obtains sets where "Validate c = None" "gen_alias_sets c = Some sets"
    "s = unlines (gen_sets c @ sets @ [''''] @ gen_input c @ gen_forward c @ gen_mangle c @ [''}''] @ gen_nat c)"
  using assms by (auto simp: Generate_def gen_lines_def split: option.splits)

section \<open>No lockout\<close>

text \<open>A line of the input chain that lets new management connections in.\<close>

definition mgmt_accept :: "Config \<Rightarrow> string \<Rightarrow> bool" where
  "mgmt_accept c l \<longleftrightarrow>
     l = admin_line \<and> validCIDR4 (c_AdminNetwork c)
   \<or> (\<exists>iface. iface \<noteq> [] \<and> iface \<in> {c_LANInterface c, c_WANInterface c} \<and> l = mgmt_line iface)
   \<or> (\<exists>r iface ports. (r, iface) \<in> set (serviceACLRows c) \<and> iface \<noteq> []
        \<and> ports \<in> {''443'', ''22'', ''443, 22''}
        \<and> l = ''    iifname '' @ Quote iface @ '' tcp dport { '' @ ports @ '' }'' @ acl_comment r ''mgmt'')"

lemma acl_row_mgmt:
  assumes "(r, iface) \<in> set (serviceACLRows c)" "sa_HTTPS r \<or> sa_SSH r"
  shows "\<exists>l \<in> set (acl_row_lines c r iface). mgmt_accept c l"
proof -
  let ?ports = "Join (only_if (sa_HTTPS r) [''443''] @ only_if (sa_SSH r) [''22'']) '', ''"
  let ?l = "''    iifname '' @ Quote iface @ '' tcp dport { '' @ ?ports @ '' }'' @ acl_comment r ''mgmt''"
  have i: "iface \<noteq> []" using assms(1) by (auto simp: serviceACLRows_def)
  have "?ports \<in> {''443'', ''22'', ''443, 22''}"
    using assms(2) by (cases "sa_HTTPS r"; cases "sa_SSH r") simp_all
  with assms(1) i have "mgmt_accept c ?l" unfolding mgmt_accept_def by blast
  moreover have "?l \<in> set (acl_row_lines c r iface)"
    using assms(2) i by (auto simp: acl_row_lines_def Let_def)
  ultimately show ?thesis by blast
qed

lemma access_lines_mgmt:
  assumes "Validate c = None"
  shows "\<exists>l \<in> set (access_lines c). mgmt_accept c l"
proof (cases "c_AdminNetwork c = []")
  case False
  then show ?thesis
    using Validate_base_facts(1) [OF assms] by (auto simp: access_lines_def mgmt_accept_def)
next
  case True
  then have "c_GatewayEnabled c" using Validate_base_facts(5) [OF assms] by blast
  with assms have mr: "ManagementReachable c" by (auto dest: Validate_gatewayD simp: gateway_ok_def)
  show ?thesis
  proof (cases "serviceACLRows c = []")
    case True
    with mr \<open>c_AdminNetwork c = []\<close> have
      "c_MgmtOnLAN c \<and> c_LANInterface c \<noteq> [] \<or> c_MgmtOnWAN c \<and> c_WANInterface c \<noteq> []"
      by (simp add: ManagementReachable_def)
    then obtain iface where "iface \<noteq> []" "iface \<in> {c_LANInterface c, c_WANInterface c}"
      and "mgmt_line iface \<in> set (legacy_lines c)"
      unfolding legacy_lines_def by auto
    with True show ?thesis
      unfolding access_lines_def mgmt_accept_def by auto
  next
    case False
    with mr \<open>c_AdminNetwork c = []\<close> obtain r iface where
      "(r, iface) \<in> set (serviceACLRows c)" "sa_HTTPS r \<or> sa_SSH r"
      by (auto simp: ManagementReachable_def list_ex_iff)
    with acl_row_mgmt False show ?thesis by (fastforce simp: access_lines_def)
  qed
qed

text \<open>
  C1. The anti-lockout guarantee of the generated ruleset: whenever a ruleset is generated,
  its input chain contains a line that accepts new SSH or GUI connections (from the
  validated admin network, on the LAN or WAN interface, or on the interface of a matrix row),
  and that line comes before the chain's final drop.
\<close>

theorem Generate_no_lockout:
  assumes "Generate c = Return s"
  shows "\<exists>l before between rest. mgmt_accept c l \<and> gen_input c =
      before @ [l] @ between @ gen_input_tail
      \<and> (\<exists>pre. s = pre @ unlines (gen_input c) @ rest)"
proof -
  obtain sets where v: "Validate c = None" and
    s: "s = unlines (gen_sets c @ sets @ [''''] @ gen_input c @ gen_forward c @ gen_mangle c @ [''}''] @ gen_nat c)"
    using Generate_Return [OF assms] by metis
  obtain l where l: "l \<in> set (access_lines c)" "mgmt_accept c l" using access_lines_mgmt [OF v] by blast
  then obtain xs ys where "access_lines c = xs @ l # ys" by (meson split_list)
  then have "\<exists>before between. gen_input c =
      before @ [l] @ between @ gen_input_tail"
    unfolding gen_input_def by (intro exI [of _ "gen_input_head c @ xs"] exI [of _ ys]) simp
  moreover have "s = unlines (gen_sets c @ sets @ ['''']) @ unlines (gen_input c)
      @ unlines (gen_forward c @ gen_mangle c @ [''}''] @ gen_nat c)"
    unfolding s unlines_append append_assoc ..
  ultimately show ?thesis using l(2) by blast
qed

end
