(* ===== verification/NftPolicy.thy ===== *)
theory NftPolicy
  imports NftGen
begin

text \<open>
  Properties of the generated ruleset: the trust order between zones, the agreement of the
  rule tester with the rendered rules, the declaration of every referenced set, and two
  configurations whose ruleset does not do what the source's comments promise.
\<close>

section \<open>A concrete configuration\<close>

text \<open>A gateway with a LAN zone and a guest zone, one alias and one custom rule.\<close>

definition ex_lan :: Zone where
  "ex_lan = \<lparr> z_Name = ''office'', z_Kind = ''lan'', z_Interface = ''lan0'', z_Network = ''10.0.0.0/8'',
     z_VLANID = 0, z_Address = [] \<rparr>"

definition ex_guest :: Zone where
  "ex_guest = \<lparr> z_Name = ''guest'', z_Kind = ''guest'', z_Interface = ''lan0'', z_Network = ''10.9.0.0/16'',
     z_VLANID = 30, z_Address = ''10.9.0.1/16'' \<rparr>"

definition ex_alias :: Alias where
  "ex_alias = \<lparr> al_Name = ''srv'', al_Type = ''host'', al_Values = [''10.0.0.5''] \<rparr>"

definition ex_rule :: Rule where
  "ex_rule = \<lparr> r_Name = ''block'', r_Action = ''drop'', r_Proto = ''tcp'', r_SrcAlias = [],
     r_DstAlias = ''srv'', r_DstPort = 80, r_Category = [], r_FromZone = [], r_ToZone = [],
     r_Log = False, r_Enabled = True, r_Schedule = None \<rparr>"

definition ex_cfg :: Config where
  "ex_cfg = \<lparr> c_AdminNetwork = [], c_ClientNetwork = ''10.0.0.0/8'', c_DHCPInterface = [],
     c_GatewayEnabled = True, c_WANInterface = ''wan1'', c_LANInterface = ''lan0'',
     c_MgmtOnWAN = False, c_MgmtOnLAN = True, c_NATEnabled = False, c_PortForwards = [],
     c_HairpinNAT = False, c_BruteForceProtect = False, c_SNATRules = [], c_NAT11 = [],
     c_IPSEnabled = False, c_Aliases = [ex_alias], c_Rules = [ex_rule], c_ServiceACLs = [],
     c_Zones = [ex_lan, ex_guest], c_GeoCountries = [], c_TunnelNets = [], c_PBRUplinks = [],
     c_GeoCIDRs = [], c_VPNPorts = [], c_OpenVPNIface = [], c_OpenVPNSubnet = [],
     c_OpenVPNAccess = [] \<rparr>"

lemmas ex_defs = ex_cfg_def ex_rule_def ex_alias_def ex_guest_def ex_lan_def

lemma nat_str_30: "nat_str 30 = ''30''"
  by (simp add: nat_str.simps [of 30] nat_str.simps [of 3] go_std)

lemma IfaceName_ex [simp]: "IfaceName ex_lan = ''lan0''" "IfaceName ex_guest = ''lan0.30''"
  by (simp_all add: IfaceName_def ex_defs Itoa_def nat_str_30)

lemma ex_cidrs:
  "validCIDR4 ''10.0.0.0/8''" "validCIDR4 ''10.9.0.0/16''" "validCIDR4 ''10.9.0.1/16''"
  by (simp_all add: validCIDR4_def net_eval)

lemma TrimSpace_ip: "TrimSpace ''10.0.0.5'' = ''10.0.0.5''"
  by (simp add: is_graph_def)

lemma zone_ok_ex: "zone_ok ex_lan" "zone_ok ex_guest"
  using ex_cidrs
  by (simp_all add: zone_ok_def)
     (simp_all add: ex_defs zoneNameRe_def re_head_tail_def char_class_defs validIface_def
       iface_char_def zoneTrust_def)

lemma ex_cfg_objects: "objects_ok ex_cfg"
proof -
  have "alias_ok ex_alias"
    by (simp add: alias_ok_def ex_alias_def validAliasValue_def TrimSpace_ip)
       (simp add: aliasNameRe_def re_head_tail_def net_eval)
  moreover have "rule_ok {''srv''} {''office'', ''guest''} ex_rule"
    by (simp add: rule_ok_def ex_rule_def nftMatch_def RuleCategories_def)
       (simp add: ruleNameRe_def re_rep_def char_class_defs)
  ultimately show ?thesis
    using zone_ok_ex
    by (simp add: objects_ok_def ex_cfg_def)
       (simp add: ex_alias_def ex_lan_def ex_guest_def)
qed

lemma ex_cfg_valid: "Validate ex_cfg = None"
proof -
  have o: "validateObjects ex_cfg = None"
    using ex_cfg_objects
    by (simp add: validateObjects_def objects_ok_def alias_loop.loop_from_empty
        zone_loop.loop_from_empty rule_loop.loop_from_empty)
  have "Validate_base ex_cfg = None"
    using o ex_cidrs by (simp add: Validate_base_def) (simp add: ex_cfg_def)
  moreover have "Validate_gateway ex_cfg = None"
    by (simp add: Validate_gateway_None gateway_ok_def ManagementReachable_def serviceACLRows_def
        ex_cfg_def validIface_def iface_char_def char_class_defs)
  ultimately show ?thesis by (simp add: Validate_def ex_cfg_def)
qed

lemma ex_cfg_generated: "\<exists>s. Generate ex_cfg = Return s"
  using gen_lines_total [OF ex_cfg_valid] ex_cfg_valid by (auto simp: Generate_def)

theorem Generate_no_lockout_witness:
  "\<exists>s l before between rest. Generate ex_cfg = Return s \<and> mgmt_accept ex_cfg l
     \<and> gen_input ex_cfg = before @ [l] @ between @ gen_input_tail
     \<and> (\<exists>pre. s = pre @ unlines (gen_input ex_cfg) @ rest)"
proof -
  obtain s where s: "Generate ex_cfg = Return s" using ex_cfg_generated by blast
  from Generate_no_lockout [OF s] s show ?thesis by blast
qed

section \<open>Trust between zones\<close>

lemma validIface_plain: "validIface i \<Longrightarrow> list_all plain_char i"
  unfolding validIface_def
  by (rule list.pred_mono_strong, assumption | elim conjE)+
     (auto simp: iface_char_def plain_char_def char_class_defs char_le_of_char)

lemma validIface_Quote: "validIface i \<Longrightarrow> Quote i = dq i"
  by (simp add: Quote_plain validIface_plain)

definition zone_accept :: "string \<Rightarrow> string \<Rightarrow> string" where
  "zone_accept i oif = ''    iifname '' @ Quote i @ '' oifname '' @ Quote oif @ '' accept''"

text \<open>A line that starts like an inter-interface accept determines both interfaces.\<close>

lemma zone_accept_prefix:
  assumes "list_all plain_char i" "list_all plain_char j" "list_all plain_char x"
    and "HasPrefix (''    iifname '' @ Quote x @ r) (zone_accept i j)"
  shows "x = i \<and> (\<exists>t. r = '' oifname '' @ Quote j @ '' accept'' @ t)"
proof -
  from assms(4) obtain t where
    "''    iifname '' @ Quote x @ r = zone_accept i j @ t"
    by (auto simp: HasPrefix_conv)
  then have "dq x @ r = dq i @ '' oifname '' @ Quote j @ '' accept'' @ t"
    using assms(1,3) by (simp add: zone_accept_def Quote_plain)
  then show ?thesis
    using dq_append_inj [OF plain_not_dq plain_not_dq] assms(1,3) by blast
qed

lemma zone_accept_prefix2:
  assumes "list_all plain_char i" "list_all plain_char j" "list_all plain_char x" "list_all plain_char y"
    and "HasPrefix (''    iifname '' @ Quote x @ '' oifname '' @ Quote y @ r) (zone_accept i j)"
  shows "x = i \<and> y = j"
proof -
  from zone_accept_prefix [OF assms(1-3,5)] obtain t where
    x: "x = i" and q: "'' oifname '' @ Quote y @ r = '' oifname '' @ Quote j @ '' accept'' @ t" by blast
  from q have "dq y @ r = dq j @ '' accept'' @ t"
    using assms(2,4) by (simp add: Quote_plain)
  then have "y = j" using dq_append_inj [OF plain_not_dq plain_not_dq] assms(2,4) by blast
  with x show ?thesis by blast
qed

lemma zone_line_accept: "HasPrefix (zone_line i j n m) (zone_accept i' j') \<Longrightarrow>
    list_all plain_char i \<Longrightarrow> list_all plain_char j \<Longrightarrow> list_all plain_char i' \<Longrightarrow>
    list_all plain_char j' \<Longrightarrow> i = i' \<and> j = j'"
  unfolding zone_line_def by (rule zone_accept_prefix2) simp_all

text \<open>
  The lines of the forward chain outside the custom rules that can start like an
  inter-interface accept are the zone lines and the LAN to WAN line.
\<close>

lemma forward_accept_origin:
  assumes l: "l \<in> set (gen_forward c)" "l \<notin> set (custom_rule_lines c)"
    and p: "HasPrefix l (zone_accept i j)"
    and plain: "list_all plain_char i" "list_all plain_char j" "list_all plain_char (c_OpenVPNIface c)"
      "list_all plain_char (c_WANInterface c)" "list_all plain_char (c_LANInterface c)"
  shows "c_GatewayEnabled c \<and>
      (l \<in> set (zone_wan_lines c) \<or> l \<in> set (zone_pair_lines c) \<or> j = c_WANInterface c)"
proof -
  have no_ip: "\<not> HasPrefix (''    ip '' @ r) (zone_accept i j)" for r
    by (simp add: HasPrefix_def zone_accept_def)
  have no_ct: "\<not> HasPrefix (''    c'' @ r) (zone_accept i j)" for r
    by (simp add: HasPrefix_def zone_accept_def)
  have not_chain: "\<not> HasPrefix (''  c'' @ r) (zone_accept i j)" "\<not> HasPrefix (''    t'' @ r) (zone_accept i j)"
    "\<not> HasPrefix (''  }'') (zone_accept i j)" for r
    by (simp_all add: HasPrefix_def zone_accept_def)
  have wan: "\<not> HasPrefix (''    iifname '' @ Quote (c_WANInterface c) @ '' ip '' @ r) (zone_accept i j)" for r
    using zone_accept_prefix [OF plain(1,2,4)] by fastforce
  have ovpn: "\<not> HasPrefix (''    iifname '' @ Quote (c_OpenVPNIface c) @ '' ip '' @ r) (zone_accept i j)"
    "\<not> HasPrefix (''    iifname '' @ Quote (c_OpenVPNIface c) @ '' counter '' @ r) (zone_accept i j)" for r
    using zone_accept_prefix [OF plain(1,2,3)] by fastforce+
  have tun: "l \<notin> set (tunnel_lines c)"
    using no_ip p by (auto simp: tunnel_lines_def Let_def split: if_splits)
  have ov: "l \<notin> set (ovpn_lines c)"
    using ovpn p
    by (auto simp: ovpn_lines_def ovpn_access_lines_def ovpn_drop_line_def ovpn_rule_line_def Let_def
        split: if_splits)
  have gw: "j = c_WANInterface c" if "l \<in> set (gateway_forward_lines c)"
    using that p wan no_ip zone_accept_prefix2 [OF plain(1,2,5,4)]
    unfolding gateway_forward_lines_def by (auto split: if_splits)
  show ?thesis
    using l tun ov gw p no_ip no_ct not_chain
    unfolding gen_forward_def by (auto split: if_splits)
qed

lemma zone_pair_lines_iff:
  "l \<in> set (zone_pair_lines c) \<longleftrightarrow>
     (\<exists>sz \<in> set (c_Zones c). \<exists>dz \<in> set (c_Zones c). z_Kind sz \<noteq> ''wan'' \<and> z_Kind dz \<noteq> ''wan''
        \<and> z_Name sz \<noteq> z_Name dz \<and> zone_rank (z_Kind dz) < zone_rank (z_Kind sz)
        \<and> l = zone_line (IfaceName sz) (IfaceName dz) (z_Name sz) (z_Name dz))"
  unfolding zone_pair_lines_def by (auto split: if_splits)

lemma zone_pair_lines_forward:
  "c_GatewayEnabled c \<Longrightarrow> z \<in> set (c_Zones c) \<Longrightarrow> l \<in> set (zone_pair_lines c) \<Longrightarrow> l \<in> set (gen_forward c)"
  unfolding gen_forward_def by (auto simp: only_if_def)

lemma zone_by_iface:
  "objects_ok c \<Longrightarrow> x \<in> set (c_Zones c) \<Longrightarrow> y \<in> set (c_Zones c) \<Longrightarrow> IfaceName x = IfaceName y \<Longrightarrow> x = y"
  by (auto simp: objects_ok_def distinct_map dest: inj_onD)

lemma zone_by_name:
  "objects_ok c \<Longrightarrow> x \<in> set (c_Zones c) \<Longrightarrow> y \<in> set (c_Zones c) \<Longrightarrow> z_Name x = z_Name y \<Longrightarrow> x = y"
  by (auto simp: objects_ok_def distinct_map dest: inj_onD)

lemma zone_iface_plain: "objects_ok c \<Longrightarrow> z \<in> set (c_Zones c) \<Longrightarrow> list_all plain_char (IfaceName z)"
  by (auto simp: objects_ok_def zone_ok_def validIface_plain)

lemma zone_accept_rank:
  assumes ok: "objects_ok c" and gw: "gateway_ok c"
    and z: "a \<in> set (c_Zones c)" "b \<in> set (c_Zones c)" "IfaceName b \<noteq> c_WANInterface c"
    and ov: "list_all plain_char (c_OpenVPNIface c)"
    and l: "l \<in> set (gen_forward c)" "l \<notin> set (custom_rule_lines c)"
      "HasPrefix l (zone_accept (IfaceName a) (IfaceName b))"
  shows "zone_rank (z_Kind b) < zone_rank (z_Kind a)"
proof -
  note pl = zone_iface_plain [OF ok]
  have w: "list_all plain_char (c_WANInterface c)" "list_all plain_char (c_LANInterface c)"
    using gw by (simp_all add: gateway_ok_def validIface_plain)
  from forward_accept_origin [OF l pl [OF z(1)] pl [OF z(2)] ov w] z(3)
  consider "l \<in> set (zone_wan_lines c)" | "l \<in> set (zone_pair_lines c)" by blast
  then show ?thesis
  proof cases
    case 1
    then obtain x where "x \<in> set (c_Zones c)" "l = zone_line (IfaceName x) (c_WANInterface c) (z_Name x) ''wan''"
      by (auto simp: zone_wan_lines_def)
    with l(3) zone_line_accept pl z w show ?thesis by metis
  next
    case 2
    then obtain x y where xy: "x \<in> set (c_Zones c)" "y \<in> set (c_Zones c)"
      "zone_rank (z_Kind y) < zone_rank (z_Kind x)"
      "l = zone_line (IfaceName x) (IfaceName y) (z_Name x) (z_Name y)"
      by (auto simp: zone_pair_lines_iff)
    then have "IfaceName x = IfaceName a" "IfaceName y = IfaceName b"
      using l(3) zone_line_accept pl z by metis+
    with xy zone_by_iface [OF ok] z show ?thesis by metis
  qed
qed

text \<open>
  C4. The trust order between internal zones. For two different internal zones of a gateway
  with a generated ruleset, the forward chain accepts everything from the first to the second
  when the first is more trusted; otherwise no line of the chain outside the administrator's
  own rules accepts everything between their interfaces. The hypotheses exclude a zone that
  sits on the WAN interface itself and a tunnel interface name that needs escaping.
\<close>

theorem zone_trust_order:
  assumes "Generate c = Return s" "c_GatewayEnabled c"
    and "a \<in> set (c_Zones c)" "b \<in> set (c_Zones c)" "a \<noteq> b" "z_Kind a \<noteq> ''wan''" "z_Kind b \<noteq> ''wan''"
    and "IfaceName b \<noteq> c_WANInterface c" "list_all plain_char (c_OpenVPNIface c)"
  shows "if zone_rank (z_Kind b) < zone_rank (z_Kind a)
    then zone_line (IfaceName a) (IfaceName b) (z_Name a) (z_Name b) \<in> set (gen_forward c)
    else \<not> (\<exists>l. l \<in> set (gen_forward c) \<and> l \<notin> set (custom_rule_lines c)
           \<and> HasPrefix l (zone_accept (IfaceName a) (IfaceName b)))"
proof -
  have v: "Validate c = None" using assms(1) Generate_Return by blast
  note ok = Validate_objects [OF v] and gw = Validate_gatewayD [OF v assms(2)]
  have "z_Name a \<noteq> z_Name b" using zone_by_name [OF ok] assms(3-5) by blast
  then have "zone_line (IfaceName a) (IfaceName b) (z_Name a) (z_Name b) \<in> set (gen_forward c)"
    if "zone_rank (z_Kind b) < zone_rank (z_Kind a)"
    using that assms(3-7) zone_pair_lines_forward [OF assms(2,3)] unfolding zone_pair_lines_iff by blast
  then show ?thesis
    using zone_accept_rank [OF ok gw assms(3,4,8,9)] by (auto split: if_split)
qed

theorem zone_trust_order_witness:
  "zone_line ''lan0'' ''lan0.30'' ''office'' ''guest'' \<in> set (gen_forward ex_cfg)
   \<and> \<not> (\<exists>l. l \<in> set (gen_forward ex_cfg) \<and> l \<notin> set (custom_rule_lines ex_cfg)
           \<and> HasPrefix l (zone_accept ''lan0.30'' ''lan0''))"
proof -
  obtain s where s: "Generate ex_cfg = Return s" using ex_cfg_generated by blast
  have z: "ex_lan \<in> set (c_Zones ex_cfg)" "ex_guest \<in> set (c_Zones ex_cfg)" "c_GatewayEnabled ex_cfg"
    "c_WANInterface ex_cfg = ''wan1''" "list_all plain_char (c_OpenVPNIface ex_cfg)"
    by (simp_all add: ex_cfg_def)
  have k: "z_Kind ex_lan = ''lan''" "z_Kind ex_guest = ''guest''" "z_Name ex_lan = ''office''"
    "z_Name ex_guest = ''guest''" "zone_rank ''guest'' < zone_rank ''lan''"
    by (simp_all add: ex_defs zone_rank_def zoneTrust_def)
  from k have ne: "ex_lan \<noteq> ex_guest" by auto
  show ?thesis
    using zone_trust_order [OF s z(3) z(1) z(2) ne] zone_trust_order [OF s z(3) z(2) z(1) ne [symmetric]]
      z(4,5) k by simp
qed

section \<open>The tester and the rendered rules\<close>

lemma eval_rules_split:
  "re_Matched (eval_rules c p idx rs) \<Longrightarrow> \<exists>before r after. rs = before @ r # after \<and> r_Enabled r
     \<and> rule_matches c p r \<and> list_all (\<lambda>q. \<not> rule_matches c p q) (filter r_Enabled before)
     \<and> re_RuleIndex (eval_rules c p idx rs) = idx + int (length (filter r_Enabled before)) + 1
     \<and> re_RuleName (eval_rules c p idx rs) = r_Name r \<and> re_Action (eval_rules c p idx rs) = r_Action r"
proof (induction rs arbitrary: idx)
  case Nil then show ?case by (simp add: default_eval_def)
next
  case (Cons q rs)
  show ?case
  proof (cases "r_Enabled q \<and> rule_matches c p q")
    case True
    then show ?thesis by (intro exI [of _ "[]"] exI [of _ q] exI [of _ rs]) simp
  next
    case False
    let ?i = "if r_Enabled q then idx + 1 else idx"
    have e: "eval_rules c p idx (q # rs) = eval_rules c p ?i rs" using False by simp
    with Cons.prems have "re_Matched (eval_rules c p ?i rs)" by simp
    from Cons.IH [OF this] obtain before r after where
      *: "rs = before @ r # after" "r_Enabled r" "rule_matches c p r"
      "list_all (\<lambda>q. \<not> rule_matches c p q) (filter r_Enabled before)"
      "re_RuleIndex (eval_rules c p ?i rs) = ?i + int (length (filter r_Enabled before)) + 1"
      "re_RuleName (eval_rules c p ?i rs) = r_Name r" "re_Action (eval_rules c p ?i rs) = r_Action r"
      by blast
    then show ?thesis unfolding e using False
      by (intro exI [of _ "q # before"] exI [of _ r] exI [of _ after]) simp
  qed
qed


section \<open>Every referenced alias set is declared\<close>

text \<open>
  In a generated ruleset every alias an enabled custom rule matches on is declared: the
  set declarations contain one line for the alias, with its rendered type and elements, and
  the declarations stand before the forward chain.
\<close>

theorem rule_aliases_declared:
  assumes "Generate c = Return s" "r \<in> set (c_Rules c)" "n \<in> {r_SrcAlias r, r_DstAlias r}" "n \<noteq> []"
  shows "\<exists>a \<in> set (c_Aliases c). \<exists>body. al_Name a = n \<and> aliasSetType a = Some body
    \<and> (\<exists>pre mid post. s = pre @ (''  set alias_'' @ n @ '' { '' @ body @ '' }'') @ mid
           @ unlines (gen_forward c) @ post)"
proof -
  obtain sets where v: "Validate c = None" and sets: "gen_alias_sets c = Some sets" and
    s: "s = unlines (gen_sets c @ sets @ [''''] @ gen_input c @ gen_forward c @ gen_mangle c @ [''}''] @ gen_nat c)"
    using Generate_Return [OF assms(1)] by metis
  from Validate_objects [OF v] assms(2) have "rule_ok (al_Name ` set (c_Aliases c)) (z_Name ` set (c_Zones c)) r"
    by (simp add: objects_ok_def)
  with assms(3,4) have "n \<in> al_Name ` set (c_Aliases c)" unfolding rule_ok_def by blast
  then obtain a where a: "a \<in> set (c_Aliases c)" "al_Name a = n" by blast
  obtain l where l: "l \<in> set sets" "map_option (\<lambda>body. ''  set alias_'' @ al_Name a @ '' { '' @ body @ '' }'')
      (aliasSetType a) = Some l"
    using those_map_SomeD [OF sets [unfolded gen_alias_sets_def] a(1)] by blast
  then obtain body where body: "aliasSetType a = Some body" "l = ''  set alias_'' @ n @ '' { '' @ body @ '' }''"
    using a(2) by auto
  from l(1) obtain xs ys where x: "sets = xs @ l # ys" by (meson split_list)
  have "s = unlines (gen_sets c @ xs) @ l @ (CHR 0x0A # unlines (ys @ [''''] @ gen_input c))
      @ unlines (gen_forward c) @ unlines (gen_mangle c @ [''}''] @ gen_nat c)"
    unfolding s x by (simp add: unlines_append)
  then show ?thesis unfolding body(2) using a body(1) by blast
qed

theorem rule_aliases_declared_witness:
  "\<exists>s. Generate ex_cfg = Return s \<and> (\<exists>a \<in> set (c_Aliases ex_cfg). \<exists>body. al_Name a = ''srv''
    \<and> aliasSetType a = Some body
    \<and> (\<exists>pre mid post. s = pre @ (''  set alias_'' @ ''srv'' @ '' { '' @ body @ '' }'') @ mid
           @ unlines (gen_forward ex_cfg) @ post))"
proof -
  obtain s where s: "Generate ex_cfg = Return s" using ex_cfg_generated by blast
  have "ex_rule \<in> set (c_Rules ex_cfg)" "''srv'' \<in> {r_SrcAlias ex_rule, r_DstAlias ex_rule}"
    by (simp_all add: ex_cfg_def ex_rule_def)
  from rule_aliases_declared [OF s this] s show ?thesis by blast
qed

section \<open>The internal address set\<close>

definition internal4_use :: "string list" where
  "internal4_use = [''    ip saddr @internal4 udp dport 53 accept'',
     ''    ip saddr @internal4 tcp dport 53 accept'']"

definition internal4_decl :: "Config \<Rightarrow> string" where
  "internal4_decl c = ''  set internal4 { type ipv4_addr; flags interval; elements = { ''
     @ Join (InternalNetworks (c_Zones c) (c_ClientNetwork c)) '', '' @ '' } }''"

definition ex_stale :: Config where
  "ex_stale = ex_cfg \<lparr> c_ServiceACLs := [\<lparr> sa_Zone = ''gone'', sa_HTTPS = True, sa_SSH = True,
     sa_DNS = True, sa_Ping = True, sa_DHCP = True, sa_VPN = True \<rparr>] \<rparr>"

lemma ex_stale_rows: "serviceACLRows ex_stale = []"
  by (simp add: serviceACLRows_def ex_stale_def acl_iface_def zoneIfaceMap_def)
     (simp add: ex_cfg_def ex_lan_def ex_guest_def)

lemma ex_stale_valid: "Validate ex_stale = None"
proof -
  have "Validate_base ex_stale = Validate_base ex_cfg"
    by (simp add: Validate_base_def validateObjects_def ex_stale_def)
  moreover have "gateway_ok ex_stale"
    using ex_stale_rows by (simp add: gateway_ok_def ManagementReachable_def)
      (simp add: ex_stale_def ex_cfg_def validIface_def iface_char_def char_class_defs)
  moreover have "c_GatewayEnabled ex_stale" by (simp add: ex_stale_def ex_cfg_def)
  ultimately show ?thesis
    using ex_cfg_valid by (simp add: Validate_def Validate_gateway_None split: if_splits)
qed

lemma acl_row_no_internal4:
  "internal4_use ! 0 \<notin> set (acl_row_lines c r iface)"
  by (auto simp: acl_row_lines_def internal4_use_def Let_def split: if_splits)

lemma internal4_decl_iff: "internal4_decl c \<in> set (gen_sets c) \<longleftrightarrow> c_ServiceACLs c = []"
  unfolding gen_sets_def internal4_decl_def by (simp add: only_if_def)

text \<open>
  The resolver rules refer to the set of internal addresses exactly when the effective
  device-access matrix is empty, while the set is declared exactly when the stored matrix is
  empty. A matrix whose rows all name zones that no longer exist therefore renders rules that
  refer to an undeclared set, and such a configuration passes validation.
\<close>

theorem internal4_declared_iff_no_stored_matrix:
  "(set internal4_use \<subseteq> set (access_lines c) \<longleftrightarrow> serviceACLRows c = [])
   \<and> (internal4_decl c \<in> set (gen_sets c) \<longleftrightarrow> c_ServiceACLs c = [])
   \<and> (\<exists>stale s. Generate stale = Return s \<and> c_ServiceACLs stale \<noteq> [] \<and> serviceACLRows stale = [])"
proof (intro conjI)
  have "internal4_use ! 0 \<notin> set (access_lines c)" if "serviceACLRows c \<noteq> []"
    using that acl_row_no_internal4 unfolding access_lines_def
    by (auto simp: only_if_def admin_line_def internal4_use_def)
  moreover have "set internal4_use \<subseteq> set (access_lines c)" if "serviceACLRows c = []"
    using that by (simp add: access_lines_def legacy_lines_def internal4_use_def)
  moreover have "internal4_use ! 0 \<in> set internal4_use" by (simp add: internal4_use_def)
  ultimately show "set internal4_use \<subseteq> set (access_lines c) \<longleftrightarrow> serviceACLRows c = []" by blast
  show "internal4_decl c \<in> set (gen_sets c) \<longleftrightarrow> c_ServiceACLs c = []" by (rule internal4_decl_iff)
  show "\<exists>stale s. Generate stale = Return s \<and> c_ServiceACLs stale \<noteq> [] \<and> serviceACLRows stale = []"
    using gen_lines_total [OF ex_stale_valid] ex_stale_valid ex_stale_rows
    by (intro exI [of _ ex_stale]) (auto simp: Generate_def ex_stale_def)
qed

section \<open>Masquerading for VPN clients\<close>

definition opens_postrouting :: "Config \<Rightarrow> bool" where
  "opens_postrouting c \<longleftrightarrow> c_NATEnabled c \<or> hairpin c \<or> c_SNATRules c \<noteq> [] \<or> c_NAT11 c \<noteq> []"

lemma prerouting_no_masq: "vpn_masq_line c \<notin> set (prerouting_lines c)"
  by (auto simp: prerouting_lines_def vpn_masq_line_def dnat_line_def hairpin_dnat_line_def Let_def
      split: if_splits)

lemma postrouting_masq:
  "c_OpenVPNSubnet c \<noteq> [] \<Longrightarrow> c_LANInterface c \<noteq> [] \<Longrightarrow>
     vpn_masq_line c \<in> set (postrouting_lines c) \<longleftrightarrow> opens_postrouting c"
  unfolding postrouting_lines_def opens_postrouting_def only_if_def by (cases "hairpin c") simp_all

text \<open>
  On a gateway with a VPN subnet and a LAN interface the NAT table is always opened, but
  the masquerade of VPN clients towards the LAN is rendered exactly when the postrouting chain
  is opened for another reason (NAT, hairpin NAT, source NAT or 1:1 NAT): a VPN subnet alone
  opens the table and leaves out the chain that has the masquerade.
\<close>

theorem vpn_masquerade_needs_postrouting:
  assumes "c_GatewayEnabled c" "c_OpenVPNSubnet c \<noteq> []" "c_LANInterface c \<noteq> []"
  shows "''table ip saguaro-nat {'' \<in> set (gen_nat c)
    \<and> (vpn_masq_line c \<in> set (gen_nat c) \<longleftrightarrow> opens_postrouting c)"
proof -
  have "vpn_masq_line c \<in> set (gen_nat c) \<longleftrightarrow> vpn_masq_line c \<in> set (postrouting_lines c)"
    using assms prerouting_no_masq [of c] by (simp add: gen_nat_def) (simp add: vpn_masq_line_def)
  then show ?thesis using postrouting_masq assms by (simp add: gen_nat_def)
qed

theorem vpn_masquerade_needs_postrouting_witness:
  "''table ip saguaro-nat {'' \<in> set (gen_nat (ex_cfg \<lparr> c_OpenVPNSubnet := ''10.8.0.0/24'' \<rparr>))
   \<and> vpn_masq_line (ex_cfg \<lparr> c_OpenVPNSubnet := ''10.8.0.0/24'' \<rparr>)
       \<notin> set (gen_nat (ex_cfg \<lparr> c_OpenVPNSubnet := ''10.8.0.0/24'' \<rparr>))"
proof -
  let ?c = "ex_cfg \<lparr> c_OpenVPNSubnet := ''10.8.0.0/24'' \<rparr>"
  have "c_GatewayEnabled ?c" "c_OpenVPNSubnet ?c \<noteq> []" "c_LANInterface ?c \<noteq> []" "\<not> opens_postrouting ?c"
    by (simp_all add: ex_cfg_def opens_postrouting_def hairpin_def)
  with vpn_masquerade_needs_postrouting [of ?c] show ?thesis by blast
qed

end
