(* ===== verification/Netplan.thy ===== *)
theory Netplan
  imports NftPolicy
begin

text \<open>
  The netplan generators. \<open>vlangen.go\<close> creates a VLAN sub-interface for every tagged
  firewall zone, \<open>wancfg.go\<close> the addressing of the WAN uplinks, \<open>portmap.go\<close> the
  stable port names. A generated document is the list of its lines, written with
  \<open>unlines\<close>.
\<close>

definition managed_header :: string where
  "managed_header = ''# Managed by Saguaro (generated). Manual edits are overwritten on apply.''"

section \<open>VLAN sub-interfaces\<close>

datatype VlanError = VlanRange string int | VlanParent string string | VlanAddress string | VlanDup string

record vlan =
  v_name :: string
  v_link :: string
  v_addr :: string
  v_id :: int

definition ifaceOK :: "string \<Rightarrow> bool" where
  "ifaceOK name = (if name = [] \<or> length name > 15 then False else list_all iface_char name)"

fun vlan_loop :: "string set \<Rightarrow> Zone list \<Rightarrow> VlanError + vlan list" where
  "vlan_loop seen [] = Inr []"
| "vlan_loop seen (z # zs) =
     (if z_VLANID z \<le> 0 then vlan_loop seen zs
      else if z_VLANID z > 4094 then Inl (VlanRange (z_Name z) (z_VLANID z))
      else if \<not> ifaceOK (z_Interface z) then Inl (VlanParent (z_Name z) (z_Interface z))
      else if (case ParseCIDR (z_Address z) of None \<Rightarrow> True | Some (ip, _) \<Rightarrow> To4 ip = None)
        then Inl (VlanAddress (z_Name z))
      else if IfaceName z \<in> seen then Inl (VlanDup (IfaceName z))
      else map_sum id (\<lambda>vs. \<lparr> v_name = IfaceName z, v_link = z_Interface z,
                           v_addr = TrimSpace (z_Address z), v_id = z_VLANID z \<rparr> # vs)
             (vlan_loop (insert (IfaceName z) seen) zs))"

definition vlan_block :: "vlan \<Rightarrow> string list" where
  "vlan_block v =
     [''    '' @ v_name v @ '':'',
      ''      id: '' @ Itoa (v_id v),
      ''      link: '' @ v_link v,
      ''      addresses:'',
      ''        - '' @ v_addr v]"

definition vlan_doc :: "vlan list \<Rightarrow> string list" where
  "vlan_doc vs =
     [managed_header, ''network:'', ''  version: 2'']
   @ only_if (vs \<noteq> []) (''  vlans:'' # concat (map vlan_block (sort_key v_name vs)))"

definition vlan_Generate :: "Zone list \<Rightarrow> VlanError + string" where
  "vlan_Generate zones = map_sum id (\<lambda>vs. unlines (vlan_doc vs)) (vlan_loop {} zones)"

text \<open>The specification: a tagged zone that can be rendered, and its entry.\<close>

definition tagged_ok :: "Zone \<Rightarrow> bool" where
  "tagged_ok z \<longleftrightarrow> z_VLANID z \<le> 4094 \<and> validIface (z_Interface z) \<and> validCIDR4 (z_Address z)"

definition vlan_of :: "Zone \<Rightarrow> vlan" where
  "vlan_of z = \<lparr> v_name = IfaceName z, v_link = z_Interface z, v_addr = z_Address z, v_id = z_VLANID z \<rparr>"

abbreviation tagged :: "Zone list \<Rightarrow> Zone list" where
  "tagged zs \<equiv> filter (\<lambda>z. 0 < z_VLANID z) zs"

lemma ifaceOK_validIface: "ifaceOK = validIface"
  by (rule ext) (auto simp: ifaceOK_def validIface_def)

lemma validCIDR4_graph: "validCIDR4 s \<Longrightarrow> list_all is_graph s"
  by (rule ParseCIDR_graph) (auto simp: validCIDR4_def split: option.splits)

lemma not_validCIDR4:
  "(case ParseCIDR s of None \<Rightarrow> True | Some (ip, _) \<Rightarrow> To4 ip = None) \<longleftrightarrow> \<not> validCIDR4 s"
  by (auto simp: validCIDR4_def split: option.splits)

lemma vlan_loop_Inr:
  "vlan_loop seen zs = Inr vs \<longleftrightarrow>
     (\<forall>z \<in> set (tagged zs). tagged_ok z) \<and> distinct (map IfaceName (tagged zs))
   \<and> IfaceName ` set (tagged zs) \<inter> seen = {} \<and> vs = map vlan_of (tagged zs)"
proof (induction seen zs arbitrary: vs rule: vlan_loop.induct)
  case (2 seen z zs)
  consider "z_VLANID z \<le> 0" | "0 < z_VLANID z" "\<not> tagged_ok z" |
    "0 < z_VLANID z" "tagged_ok z" "IfaceName z \<in> seen" |
    "0 < z_VLANID z" "tagged_ok z" "IfaceName z \<notin> seen" by linarith
  then show ?case
  proof cases
    case 4
    then have "vlan_loop seen (z # zs) =
        map_sum id (\<lambda>vs. vlan_of z # vs) (vlan_loop (insert (IfaceName z) seen) zs)"
      by (simp add: not_validCIDR4 ifaceOK_validIface tagged_ok_def vlan_of_def validCIDR4_graph)
    moreover have "vlan_loop (insert (IfaceName z) seen) zs = Inr us \<longleftrightarrow>
        (\<forall>z \<in> set (tagged zs). tagged_ok z) \<and> distinct (map IfaceName (tagged zs))
      \<and> IfaceName ` set (tagged zs) \<inter> insert (IfaceName z) seen = {} \<and> us = map vlan_of (tagged zs)" for us
      by (rule 2(2)) (use 4 in \<open>auto simp: not_validCIDR4 ifaceOK_validIface tagged_ok_def\<close>)
    ultimately show ?thesis
      using 4 by (cases "vlan_loop (insert (IfaceName z) seen) zs") auto
  qed (use 2(1) in \<open>auto simp: not_validCIDR4 ifaceOK_validIface tagged_ok_def\<close>)
qed auto

lemma sorted_vlans_strict:
  assumes "distinct (map v_name vs)"
  shows "sorted_wrt (<) (map v_name (sort_key v_name vs))"
proof -
  have "distinct (map v_name (sort_key v_name vs))"
    using assms by (metis distinct_map distinct_sort set_sort)
  moreover have "sorted (map v_name (sort_key v_name vs))" by (rule sorted_sort_key)
  ultimately show ?thesis by (simp add: strict_sorted_iff)
qed

lemma zone_ok_tagged: "zone_ok z \<Longrightarrow> 0 < z_VLANID z \<Longrightarrow> tagged_ok z"
  by (simp add: zone_ok_def tagged_ok_def)

lemma vlan_Generate_valid:
  assumes "objects_ok c"
  shows "vlan_loop {} (c_Zones c) = Inr (map vlan_of (tagged (c_Zones c)))"
  using assms zone_ok_tagged distinct_map_filter [of IfaceName "c_Zones c"]
  by (auto simp: vlan_loop_Inr objects_ok_def)

lemma iface_graph: "validIface i \<Longrightarrow> list_all is_graph i"
  by (auto simp: validIface_def list_all_iff iface_char_graph)

lemma managed_header_line: "CHR 0x0A \<notin> set managed_header"
  by (simp add: managed_header_def)

lemmas no_newline = graph_no_newline [OF iface_graph] graph_no_newline [OF validCIDR4_graph]
  graph_no_newline [OF Itoa_graph] managed_header_line

lemma vlan_block_lines:
  "zone_ok z \<Longrightarrow> 0 < z_VLANID z \<Longrightarrow> l \<in> set (vlan_block (vlan_of z)) \<Longrightarrow> CHR 0x0A \<notin> set l"
  by (auto simp: vlan_block_def vlan_of_def zone_ok_def no_newline)

text \<open>
  For every configuration whose firewall objects validate, the VLAN netplan is generated,
  and its lines are the header followed by one block per tagged zone (name, id, parent link
  and address), ordered by strictly increasing sub-interface name. No value breaks a line.
\<close>

theorem vlan_Generate_blocks:
  assumes "validateObjects c = None"
  shows "\<exists>vs s. vlan_Generate (c_Zones c) = Inr s
    \<and> mset vs = mset (map vlan_of (filter (\<lambda>z. 0 < z_VLANID z) (c_Zones c)))
    \<and> sorted_wrt (<) (map v_name vs)
    \<and> Split (CHR 0x0A) s = [managed_header, ''network:'', ''  version: 2'']
        @ (if vs = [] then [] else ''  vlans:'' # concat (map vlan_block vs)) @ [[]]"
proof -
  have ok: "objects_ok c" using assms
    by (simp add: validateObjects_def objects_ok_def alias_loop.loop_from_empty
        zone_loop.loop_from_empty rule_loop.loop_from_empty)
  let ?us = "map vlan_of (tagged (c_Zones c))"
  let ?vs = "sort_key v_name ?us"
  have g: "vlan_Generate (c_Zones c) = Inr (unlines (vlan_doc ?us))"
    by (simp add: vlan_Generate_def vlan_Generate_valid [OF ok])
  have e: "?vs = [] \<longleftrightarrow> ?us = []" by (metis length_0_conv length_sort)
  have "map v_name ?us = map IfaceName (tagged (c_Zones c))" by (simp add: vlan_of_def)
  moreover have "distinct (map IfaceName (tagged (c_Zones c)))"
    using ok distinct_map_filter [of IfaceName "c_Zones c"] by (simp add: objects_ok_def)
  ultimately have "distinct (map v_name ?us)" by argo
  then have s: "sorted_wrt (<) (map v_name ?vs)" by (rule sorted_vlans_strict)
  have "CHR 0x0A \<notin> set l" if "l \<in> set (vlan_doc ?us)" for l
    using that ok vlan_block_lines managed_header_line
    by (auto simp: vlan_doc_def objects_ok_def split: if_splits)
  then have "Split (CHR 0x0A) (unlines (vlan_doc ?us)) = vlan_doc ?us @ [[]]"
    by (simp add: Split_unlines)
  then have d: "Split (CHR 0x0A) (unlines (vlan_doc ?us)) = [managed_header, ''network:'', ''  version: 2'']
        @ (if ?vs = [] then [] else ''  vlans:'' # concat (map vlan_block ?vs)) @ [[]]"
    unfolding e by (auto simp: vlan_doc_def)
  show ?thesis
    by (intro exI [of _ ?vs] exI [of _ "unlines (vlan_doc ?us)"] conjI g s d) simp
qed

theorem vlan_Generate_blocks_witness:
  "\<exists>vs s. vlan_Generate (c_Zones ex_cfg) = Inr s
    \<and> mset vs = mset (map vlan_of (filter (\<lambda>z. 0 < z_VLANID z) (c_Zones ex_cfg)))
    \<and> sorted_wrt (<) (map v_name vs)
    \<and> Split (CHR 0x0A) s = [managed_header, ''network:'', ''  version: 2'']
        @ (if vs = [] then [] else ''  vlans:'' # concat (map vlan_block vs)) @ [[]]"
  by (rule vlan_Generate_blocks) (use ex_cfg_valid in \<open>auto simp: Validate_def Validate_base_def split: if_splits\<close>)

section \<open>WAN uplinks\<close>

datatype WanError = WanIface | WanMetric | WanAlias string | WanAddress | WanGateway | WanDNS string
  | WanMode | WanDup string

record WAN =
  w_Interface :: string
  w_Mode :: string
  w_Address :: string
  w_Gateway :: string
  w_DNS :: "string list"
  w_Aliases :: "string list"
  w_Metric :: int

definition wan_ifaceRe :: "string \<Rightarrow> bool" where
  "wan_ifaceRe = re_rep iface_char 1 15"

definition wan_validIP4 :: "string \<Rightarrow> bool" where
  "wan_validIP4 s = is_ip4 (TrimSpace s)"

definition wan_validCIDR4 :: "string \<Rightarrow> bool" where
  "wan_validCIDR4 s =
     (case ParseCIDR (TrimSpace s) of None \<Rightarrow> False | Some (ip, _) \<Rightarrow> To4 ip \<noteq> None)"

definition wan_metric :: "WAN \<Rightarrow> int" where
  "wan_metric w = (if w_Metric w \<le> 0 then 100 else w_Metric w)"

definition wan_Validate :: "WAN \<Rightarrow> WanError option" where
  "wan_Validate w =
     (if \<not> wan_ifaceRe (w_Interface w) then Some WanIface
      else if w_Metric w < 0 \<or> w_Metric w > 4000 then Some WanMetric
      else if w_Mode w = ''dhcp'' then
        first_err (\<lambda>a. fail_if (\<not> wan_validCIDR4 a) (WanAlias a)) (w_Aliases w)
      else if w_Mode w = ''static'' then
        (if \<not> wan_validCIDR4 (w_Address w) then Some WanAddress
         else if \<not> wan_validIP4 (w_Gateway w) then Some WanGateway
         else err_then (first_err (\<lambda>d. fail_if (\<not> wan_validIP4 d) (WanDNS d)) (w_DNS w))
                       (first_err (\<lambda>a. fail_if (\<not> wan_validCIDR4 a) (WanAlias a)) (w_Aliases w)))
      else Some WanMode)"

definition ethernetBlock :: "WAN \<Rightarrow> string list" where
  "ethernetBlock w =
     [''    '' @ w_Interface w @ '':'', ''      optional: true'']
   @ (if w_Mode w = ''dhcp'' then
        [''      dhcp4: true'', ''      dhcp4-overrides:'',
         ''        route-metric: '' @ Itoa (wan_metric w)]
        @ only_if (w_Aliases w \<noteq> [])
            (''      addresses:'' # map (\<lambda>a. ''        - '' @ TrimSpace a) (w_Aliases w))
      else
        [''      dhcp4: false'', ''      addresses:'', ''        - '' @ TrimSpace (w_Address w)]
        @ map (\<lambda>a. ''        - '' @ TrimSpace a) (w_Aliases w)
        @ [''      routes:'', ''        - to: default'',
           ''          via: '' @ TrimSpace (w_Gateway w),
           ''          metric: '' @ Itoa (wan_metric w)]
        @ only_if (w_DNS w \<noteq> [])
            ([''      nameservers:'', ''        addresses:'']
             @ map (\<lambda>d. ''          - '' @ TrimSpace d) (w_DNS w)))"

text \<open>The loop: validate, refuse a repeated interface, append the block.\<close>

fun wan_loop :: "string set \<Rightarrow> WAN list \<Rightarrow> WanError + string list" where
  "wan_loop seen [] = Inr []"
| "wan_loop seen (w # ws) =
     (case wan_Validate w of
        Some e \<Rightarrow> Inl e
      | None \<Rightarrow>
          if w_Interface w \<in> seen then Inl (WanDup (w_Interface w))
          else map_sum id (\<lambda>body. ethernetBlock w @ body)
                 (wan_loop (insert (w_Interface w) seen) ws))"

definition GenerateNetplanMulti :: "WAN list \<Rightarrow> WanError + string" where
  "GenerateNetplanMulti wans =
     map_sum id (\<lambda>body. unlines ([managed_header, ''network:'', ''  version: 2'', ''  ethernets:''] @ body))
       (wan_loop {} wans)"

definition wan_GenerateNetplan :: "WAN \<Rightarrow> WanError + string" where
  "wan_GenerateNetplan w = GenerateNetplanMulti [w]"

lemma wan_loop_Inr:
  "wan_loop seen ws = Inr body \<longleftrightarrow>
     (\<forall>w \<in> set ws. wan_Validate w = None) \<and> distinct (map w_Interface ws)
   \<and> w_Interface ` set ws \<inter> seen = {} \<and> body = concat (map ethernetBlock ws)"
proof (induction ws arbitrary: seen body)
  case (Cons w ws)
  show ?case by (auto simp: map_sum_Inr_iff Cons.IH split: option.split)
qed auto

lemma wan_iface_graph: "wan_ifaceRe i \<Longrightarrow> list_all is_graph i"
  by (auto simp: wan_ifaceRe_def re_rep_def list_all_iff iface_char_graph)

lemma wan_validCIDR4_graph: "wan_validCIDR4 s \<Longrightarrow> list_all is_graph (TrimSpace s)"
  by (rule ParseCIDR_graph) (auto simp: wan_validCIDR4_def split: option.splits)

lemma wan_validIP4_graph: "wan_validIP4 s \<Longrightarrow> list_all is_graph (TrimSpace s)"
  by (simp add: wan_validIP4_def is_ip4_graph)

lemma ethernetBlock_lines:
  assumes "wan_Validate w = None" "l \<in> set (ethernetBlock w)"
  shows "CHR 0x0A \<notin> set l"
proof -
  note nl = graph_no_newline [OF wan_iface_graph] graph_no_newline [OF wan_validCIDR4_graph]
    graph_no_newline [OF wan_validIP4_graph] graph_no_newline [OF Itoa_graph]
  have v: "wan_ifaceRe (w_Interface w)" "\<forall>a \<in> set (w_Aliases w). wan_validCIDR4 a"
    "w_Mode w \<noteq> ''dhcp'' \<Longrightarrow> wan_validCIDR4 (w_Address w) \<and> wan_validIP4 (w_Gateway w)
       \<and> (\<forall>d \<in> set (w_DNS w). wan_validIP4 d)"
    using assms(1) by (auto simp: wan_Validate_def split: if_splits)
  show ?thesis
  proof (cases "w_Mode w = ''dhcp''")
    case True
    with assms(2) v(1,2) show ?thesis by (auto simp: ethernetBlock_def nl)
  next
    case False
    with assms(2) v(1,2) v(3) [OF False] show ?thesis by (auto simp: ethernetBlock_def nl)
  qed
qed

text \<open>
  The WAN netplan is generated exactly when every uplink validates and no interface is
  used twice; its lines are then the header followed by the uplinks' blocks in order, so that
  no value of an uplink breaks out of its line.
\<close>

theorem GenerateNetplanMulti_iff:
  "if list_all (\<lambda>w. wan_Validate w = None) ws \<and> distinct (map w_Interface ws)
   then (\<exists>s. GenerateNetplanMulti ws = Inr s
      \<and> Split (CHR 0x0A) s = [managed_header, ''network:'', ''  version: 2'', ''  ethernets:'']
          @ concat (map ethernetBlock ws) @ [[]])
   else (\<exists>e. GenerateNetplanMulti ws = Inl e)"
proof (cases "wan_loop {} ws")
  case (Inl e)
  then have "\<not> (list_all (\<lambda>w. wan_Validate w = None) ws \<and> distinct (map w_Interface ws))"
    using wan_loop_Inr [of "{}" ws "concat (map ethernetBlock ws)"] by (auto simp: list_all_iff)
  with Inl show ?thesis by (simp add: GenerateNetplanMulti_def)
next
  case (Inr body)
  then have ok: "\<forall>w \<in> set ws. wan_Validate w = None" "distinct (map w_Interface ws)"
    "body = concat (map ethernetBlock ws)" using wan_loop_Inr by blast+
  let ?ls = "[managed_header, ''network:'', ''  version: 2'', ''  ethernets:''] @ body"
  have "\<forall>l \<in> set ?ls. CHR 0x0A \<notin> set l"
    using ok ethernetBlock_lines managed_header_line by auto
  then have "Split (CHR 0x0A) (unlines ?ls) = ?ls @ [[]]" by (rule Split_unlines)
  with ok Inr show ?thesis by (simp add: GenerateNetplanMulti_def list_all_iff)
qed

end
