(* ===== verification/PortMap.thy ===== *)
theory PortMap
  imports Netplan
begin

text \<open>
  \<open>portmap.go\<close>: every Ethernet port gets a stable logical name bound to its permanent MAC
  address. \<open>Auto\<close> derives the map, \<open>pm_Validate\<close> refuses ambiguous maps,
  \<open>pm_GenerateNetplan\<close> renders it and \<open>RenamePlan\<close> lists what is left to rename.

  \<open>sort.Slice\<close> is modelled by the stable \<open>sort_key\<close>: kernel names and logical names
  are unique where the order matters, so the sorted list is.
\<close>

section \<open>Definitions\<close>

datatype PortError = SameLanWan string | DupMAC string | RoleMAC string string | NoPorts
  | BadPortName string | BadMAC string string | DupPortName string | NameTaken string

record Port =
  po_Kernel :: string
  po_MAC :: string

record Assignment =
  as_MAC :: string
  as_Name :: string
  as_Kernel :: string

definition pm_nameRe :: "string \<Rightarrow> bool" where
  "pm_nameRe = re_head_tail is_lower (\<lambda>c. is_lower c \<or> is_digit c) 1 13"

definition lower_hex :: "char \<Rightarrow> bool" where
  "lower_hex c \<longleftrightarrow> is_digit c \<or> CHR ''a'' \<le> c \<and> c \<le> CHR ''f''"

definition macRe :: "string \<Rightarrow> bool" where
  "macRe s \<longleftrightarrow> length s = 17 \<and>
     list_all (\<lambda>i. if i mod 3 = 2 then s ! i = CHR '':'' else lower_hex (s ! i)) [0..<17]"

definition normalizeMAC :: "string \<Rightarrow> string" where
  "normalizeMAC s = ToLower (TrimSpace s)"

text \<open>The body of \<open>Validate\<close>'s first loop; the key is the name and the normalised MAC.\<close>

definition pm_check :: "(string \<times> string) set \<Rightarrow> Assignment \<Rightarrow> PortError option" where
  "pm_check seen a =
     (if \<not> pm_nameRe (as_Name a) then Some (BadPortName (as_Name a))
      else if \<not> macRe (normalizeMAC (as_MAC a)) then Some (BadMAC (as_MAC a) (as_Name a))
      else if as_Name a \<in> fst ` seen then Some (DupPortName (as_Name a))
      else if normalizeMAC (as_MAC a) \<in> snd ` seen then Some (DupMAC (as_MAC a))
      else None)"

definition pm_Validate :: "Assignment list \<Rightarrow> PortError option" where
  "pm_Validate as =
     (if as = [] then Some NoPorts
      else err_then (seen_err pm_check (\<lambda>a. (as_Name a, normalizeMAC (as_MAC a))) {} as)
             (first_err (\<lambda>a. first_err (\<lambda>b. fail_if (as_Name a = as_Kernel b \<and> as_MAC a \<noteq> as_MAC b)
                                                    (NameTaken (as_Name a))) as) as))"

definition zero_mac :: string where
  "zero_mac = ''00:00:00:00:00:00''"

text \<open>The first loop of \<open>Auto\<close>: the ports with a usable MAC.\<close>

fun usable_ports :: "string set \<Rightarrow> Port list \<Rightarrow> PortError + Port list" where
  "usable_ports seenMAC [] = Inr []"
| "usable_ports seenMAC (p # ps) =
     (let mac = normalizeMAC (po_MAC p)
      in if \<not> macRe mac \<or> mac = zero_mac then usable_ports seenMAC ps
         else if mac \<in> seenMAC then Inl (DupMAC mac)
         else map_sum id (\<lambda>us. \<lparr> po_Kernel = po_Kernel p, po_MAC = mac \<rparr> # us)
                (usable_ports (insert mac seenMAC) ps))"

definition role_check :: "Port list \<Rightarrow> string \<times> string \<Rightarrow> PortError option" where
  "role_check usable want =
     (if snd want = [] then None
      else fail_if (\<not> list_ex (\<lambda>p. po_Kernel p = snd want) usable) (RoleMAC (fst want) (snd want)))"

fun assign_names :: "string \<Rightarrow> string \<Rightarrow> int \<Rightarrow> Port list \<Rightarrow> Assignment list" where
  "assign_names lanKernel wanKernel spare [] = []"
| "assign_names lanKernel wanKernel spare (p # ps) =
     (let spare' = (if po_Kernel p = lanKernel \<or> po_Kernel p = wanKernel then spare else spare + 1);
          name = (if po_Kernel p = lanKernel then ''lan0''
                  else if po_Kernel p = wanKernel then ''wan1''
                  else ''net'' @ Itoa spare')
      in \<lparr> as_MAC = po_MAC p, as_Name = name, as_Kernel = po_Kernel p \<rparr>
           # assign_names lanKernel wanKernel spare' ps)"

definition Auto :: "Port list \<Rightarrow> string \<Rightarrow> string \<Rightarrow> PortError + Assignment list" where
  "Auto ports lanKernel wanKernel =
     (if lanKernel \<noteq> [] \<and> lanKernel = wanKernel then Inl (SameLanWan lanKernel)
      else case usable_ports {} (sort_key po_Kernel ports) of
        Inl e \<Rightarrow> Inl e
      | Inr usable \<Rightarrow>
          (case first_err (role_check usable) [(''LAN'', lanKernel), (''WAN'', wanKernel)] of
             Some e \<Rightarrow> Inl e
           | None \<Rightarrow>
               let out = assign_names lanKernel wanKernel 0 usable
               in (case pm_Validate out of Some e \<Rightarrow> Inl e | None \<Rightarrow> Inr out)))"

definition pm_block :: "Assignment \<Rightarrow> string list" where
  "pm_block a =
     [''    '' @ as_Name a @ '':'',
      ''      match:'',
      ''        macaddress: '' @ normalizeMAC (as_MAC a),
      ''      set-name: '' @ as_Name a,
      ''      optional: true'']"

definition pm_head :: "string list" where
  "pm_head = [managed_header,
     ''# Stable port names: renaming the ports keeps every stored interface'',
     ''# reference valid across hardware changes and configuration restores.'',
     ''network:'', ''  version: 2'', ''  ethernets:'']"

definition pm_GenerateNetplan :: "Assignment list \<Rightarrow> PortError + string" where
  "pm_GenerateNetplan as =
     (case pm_Validate as of
        Some e \<Rightarrow> Inl e
      | None \<Rightarrow> Inr (unlines (pm_head @ concat (map pm_block (sort_key as_Name as)))))"

definition RenamePlan :: "Assignment list \<Rightarrow> Assignment list" where
  "RenamePlan as = filter (\<lambda>a. as_Kernel a \<noteq> as_Name a) as"

section \<open>What a valid map is\<close>

definition assignment_ok :: "Assignment \<Rightarrow> bool" where
  "assignment_ok a \<longleftrightarrow> pm_nameRe (as_Name a) \<and> macRe (normalizeMAC (as_MAC a))"

interpretation port_loop: seen_loop pm_check "\<lambda>a. (as_Name a, normalizeMAC (as_MAC a))" fst snd assignment_ok
  by unfold_locales (auto simp: pm_check_def assignment_ok_def)

definition port_map_ok :: "Assignment list \<Rightarrow> bool" where
  "port_map_ok as \<longleftrightarrow> as \<noteq> [] \<and> (\<forall>a \<in> set as. assignment_ok a)
     \<and> distinct (map as_Name as) \<and> distinct (map (\<lambda>a. normalizeMAC (as_MAC a)) as)
     \<and> (\<forall>a \<in> set as. \<forall>b \<in> set as. as_Name a = as_Kernel b \<longrightarrow> as_MAC a = as_MAC b)"

lemma pm_Validate_iff: "pm_Validate as = None \<longleftrightarrow> port_map_ok as"
  by (auto simp: pm_Validate_def port_map_ok_def port_loop.loop_from_empty)

lemma usable_ports_Inr:
  "usable_ports S ps = Inr us \<Longrightarrow>
     us = map (\<lambda>p. \<lparr> po_Kernel = po_Kernel p, po_MAC = normalizeMAC (po_MAC p) \<rparr>)
            (filter (\<lambda>p. macRe (normalizeMAC (po_MAC p)) \<and> normalizeMAC (po_MAC p) \<noteq> zero_mac) ps)"
  by (induction S ps arbitrary: us rule: usable_ports.induct)
     (auto simp: Let_def map_sum_Inr_iff split: if_splits)

lemma assign_names_ports:
  "map (\<lambda>a. \<lparr> po_Kernel = as_Kernel a, po_MAC = as_MAC a \<rparr>) (assign_names l w n ps) = ps"
  by (induction l w n ps rule: assign_names.induct) (auto simp: Let_def)

lemma assign_names_roles:
  "a \<in> set (assign_names l w n ps) \<Longrightarrow>
     (as_Kernel a = l \<longrightarrow> as_Name a = ''lan0'') \<and> (as_Kernel a = w \<and> w \<noteq> l \<longrightarrow> as_Name a = ''wan1'')"
  by (induction l w n ps rule: assign_names.induct) (auto simp: Let_def split: if_splits)

lemma assign_names_spares:
  "map as_Name (filter (\<lambda>a. as_Kernel a \<noteq> l \<and> as_Kernel a \<noteq> w) (assign_names l w n ps)) =
     map (\<lambda>i. ''net'' @ Itoa (n + 1 + int i))
       [0..<length (filter (\<lambda>p. po_Kernel p \<noteq> l \<and> po_Kernel p \<noteq> w) ps)]"
proof (induction ps arbitrary: n)
  case (Cons p ps)
  have e: "n + 1 + int (Suc i) = n + 1 + 1 + int i" for i by simp
  show ?case
  proof (cases "po_Kernel p = l \<or> po_Kernel p = w")
    case True
    then show ?thesis using Cons.IH [of n] by (auto simp: Let_def)
  next
    case False
    let ?k = "length (filter (\<lambda>p. po_Kernel p \<noteq> l \<and> po_Kernel p \<noteq> w) ps)"
    have "map (\<lambda>i. ''net'' @ Itoa (n + 1 + int i)) [0..<Suc ?k] =
        (''net'' @ Itoa (n + 1)) # map (\<lambda>i. ''net'' @ Itoa (n + 1 + 1 + int i)) [0..<?k]"
      unfolding map_upt_Suc by (simp only: e) simp
    with False Cons.IH [of "n + 1"] show ?thesis by (simp add: Let_def del: upt_Suc)
  qed
qed simp

lemma Auto_Inr:
  assumes "Auto ports l w = Inr as"
  obtains us where "usable_ports {} (sort_key po_Kernel ports) = Inr us" "as = assign_names l w 0 us"
    "port_map_ok as" "l = [] \<or> l \<noteq> w" "l \<noteq> [] \<longrightarrow> l \<in> po_Kernel ` set us" "w \<noteq> [] \<longrightarrow> w \<in> po_Kernel ` set us"
  using assms
  by (auto simp: Auto_def Let_def pm_Validate_iff role_check_def list_ex_iff split: if_splits sum.splits option.splits)

text \<open>The ports with a usable MAC address, in kernel-name order.\<close>

definition mappable :: "Port list \<Rightarrow> Port list" where
  "mappable ports = filter (\<lambda>p. macRe (normalizeMAC (po_MAC p)) \<and> normalizeMAC (po_MAC p) \<noteq> zero_mac)
     (sort_key po_Kernel ports)"

lemma assign_kernels: "map as_Kernel (assign_names l w n us) = map po_Kernel us"
  and assign_macs: "map as_MAC (assign_names l w n us) = map po_MAC us"
  by (induction l w n us rule: assign_names.induct) (simp_all add: Let_def)

text \<open>
  What the automatic port map promises when it succeeds: the map is unambiguous (well
  formed and pairwise different names and MAC addresses, no name is the kernel name of another
  mapped port), it covers exactly the ports with a usable MAC in kernel-name order, the LAN
  and WAN ports are in it and become lan0 and wan1, and the others are numbered net1, net2,
  and so on in kernel-name order.
\<close>

theorem Auto_port_map:
  assumes "Auto ports l w = Inr as"
  shows "port_map_ok as
    \<and> map as_Kernel as = map po_Kernel (mappable ports)
    \<and> map as_MAC as = map (\<lambda>p. normalizeMAC (po_MAC p)) (mappable ports)
    \<and> (l = [] \<or> (\<exists>a \<in> set as. as_Kernel a = l \<and> as_Name a = ''lan0''))
    \<and> (w = [] \<or> (\<exists>a \<in> set as. as_Kernel a = w \<and> as_Name a = ''wan1''))
    \<and> map as_Name (filter (\<lambda>a. as_Kernel a \<noteq> l \<and> as_Kernel a \<noteq> w) as) =
        map (\<lambda>i. ''net'' @ Itoa (1 + int i))
          [0..<length (filter (\<lambda>p. po_Kernel p \<noteq> l \<and> po_Kernel p \<noteq> w) (mappable ports))]"
proof -
  obtain us where us: "usable_ports {} (sort_key po_Kernel ports) = Inr us" "as = assign_names l w 0 us"
    "port_map_ok as" "l = [] \<or> l \<noteq> w" "l \<noteq> [] \<longrightarrow> l \<in> po_Kernel ` set us" "w \<noteq> [] \<longrightarrow> w \<in> po_Kernel ` set us"
    using Auto_Inr [OF assms] by metis
  have u: "us = map (\<lambda>p. \<lparr> po_Kernel = po_Kernel p, po_MAC = normalizeMAC (po_MAC p) \<rparr>) (mappable ports)"
    using usable_ports_Inr [OF us(1)] by (simp add: mappable_def)
  have k: "map as_Kernel as = map po_Kernel (mappable ports)" "map as_MAC as = map (\<lambda>p. normalizeMAC (po_MAC p)) (mappable ports)"
    unfolding us(2) assign_kernels assign_macs u by simp_all
  have ks: "as_Kernel ` set as = po_Kernel ` set us"
    by (metis assign_kernels list.set_map us(2))
  have "\<exists>a \<in> set as. as_Kernel a = l \<and> as_Name a = ''lan0''" if "l \<noteq> []"
    using that us(5) ks assign_names_roles us(2) by (metis imageE)
  moreover have "\<exists>a \<in> set as. as_Kernel a = w \<and> as_Name a = ''wan1''" if "w \<noteq> []"
    using that us(4,6) ks assign_names_roles us(2) by (metis imageE)
  moreover have "length (filter (\<lambda>p. po_Kernel p \<noteq> l \<and> po_Kernel p \<noteq> w) us) =
      length (filter (\<lambda>p. po_Kernel p \<noteq> l \<and> po_Kernel p \<noteq> w) (mappable ports))"
    by (simp add: u filter_map comp_def)
  ultimately show ?thesis using us(3) k assign_names_spares [of l w 0 us] us(2) by (simp add: comp_def) blast
qed

definition ex_ports :: "Port list" where
  "ex_ports = [\<lparr> po_Kernel = ''enp2s0'', po_MAC = ''52:54:00:00:00:02'' \<rparr>,
     \<lparr> po_Kernel = ''enp1s0'', po_MAC = ''52:54:00:00:00:0A'' \<rparr>,
     \<lparr> po_Kernel = ''enp3s0'', po_MAC = ''52:54:00:00:00:03'' \<rparr>]"

definition ex_map :: "Assignment list" where
  "ex_map = [\<lparr> as_MAC = ''52:54:00:00:00:0a'', as_Name = ''lan0'', as_Kernel = ''enp1s0'' \<rparr>,
     \<lparr> as_MAC = ''52:54:00:00:00:02'', as_Name = ''wan1'', as_Kernel = ''enp2s0'' \<rparr>,
     \<lparr> as_MAC = ''52:54:00:00:00:03'', as_Name = ''net1'', as_Kernel = ''enp3s0'' \<rparr>]"

lemma ex_ports_Auto: "Auto ex_ports ''enp1s0'' ''enp2s0'' = Inr ex_map"
  by code_simp

theorem Auto_port_map_witness:
  "Auto ex_ports ''enp1s0'' ''enp2s0'' = Inr ex_map \<and> port_map_ok ex_map
   \<and> map as_Kernel ex_map = map po_Kernel (mappable ex_ports)
   \<and> (\<exists>a \<in> set ex_map. as_Kernel a = ''enp1s0'' \<and> as_Name a = ''lan0'')"
  using Auto_port_map [OF ex_ports_Auto] ex_ports_Auto by auto

section \<open>Rendering\<close>

lemma lower_hex_graph: "lower_hex c \<Longrightarrow> is_graph c"
  by (auto simp: lower_hex_def is_graph_def is_digit_def char_le_of_char)

lemma macRe_graph: "macRe s \<Longrightarrow> list_all is_graph s"
proof -
  assume m: "macRe s"
  have "is_graph (s ! i)" if "i < 17" for i
  proof (cases "i mod 3 = 2")
    case True
    with m that show ?thesis by (simp add: macRe_def list_all_iff is_graph_def)
  next
    case False
    with m that show ?thesis by (simp add: macRe_def list_all_iff lower_hex_graph)
  qed
  with m show ?thesis by (auto simp: macRe_def list_all_length)
qed

lemma pm_nameRe_graph: "pm_nameRe s \<Longrightarrow> list_all is_graph s"
  by (auto simp: pm_nameRe_def re_head_tail_def list_all_iff is_graph_lower is_graph_digit split: list.splits)

lemma pm_block_lines: "assignment_ok a \<Longrightarrow> l \<in> set (pm_block a) \<Longrightarrow> CHR 0x0A \<notin> set l"
  by (auto simp: pm_block_def assignment_ok_def graph_no_newline [OF macRe_graph] graph_no_newline [OF pm_nameRe_graph])

text \<open>
  The port netplan is rendered exactly for the unambiguous maps, and its lines are the
  header followed by one match-and-rename block per port, ordered by strictly increasing
  logical name.
\<close>

theorem pm_GenerateNetplan_iff:
  "if port_map_ok as
   then (\<exists>s sorted_as. pm_GenerateNetplan as = Inr s \<and> mset sorted_as = mset as
      \<and> sorted_wrt (<) (map as_Name sorted_as)
      \<and> Split (CHR 0x0A) s = pm_head @ concat (map pm_block sorted_as) @ [[]])
   else (\<exists>e. pm_GenerateNetplan as = Inl e \<and> pm_Validate as = Some e)"
proof (cases "port_map_ok as")
  case True
  let ?sa = "sort_key as_Name as"
  have "distinct (map as_Name ?sa)"
    using True by (metis distinct_map distinct_sort port_map_ok_def set_sort)
  then have s: "sorted_wrt (<) (map as_Name ?sa)" by (simp add: strict_sorted_iff)
  have "CHR 0x0A \<notin> set l" if "l \<in> set (pm_head @ concat (map pm_block ?sa))" for l
    using that True pm_block_lines managed_header_line by (auto simp: port_map_ok_def pm_head_def)
  then have "Split (CHR 0x0A) (unlines (pm_head @ concat (map pm_block ?sa))) =
      (pm_head @ concat (map pm_block ?sa)) @ [[]]" by (intro Split_unlines) blast
  then have "pm_GenerateNetplan as = Inr (unlines (pm_head @ concat (map pm_block ?sa))) \<and> mset ?sa = mset as
      \<and> sorted_wrt (<) (map as_Name ?sa)
      \<and> Split (CHR 0x0A) (unlines (pm_head @ concat (map pm_block ?sa))) = pm_head @ concat (map pm_block ?sa) @ [[]]"
    using True s by (simp add: pm_GenerateNetplan_def pm_Validate_iff [symmetric])
  with True show ?thesis by (simp only: if_True) blast
next
  case False
  then show ?thesis by (cases "pm_Validate as") (auto simp: pm_GenerateNetplan_def pm_Validate_iff)
qed

end
