(* ===== verification/DnsZones.thy ===== *)
theory DnsZones
  imports Netplan
begin

text \<open>
  \<open>dnszones.go\<close>: the resolver drop-in that grants every internal zone access to the
  resolver and renders split-horizon answers. It takes its networks from the same functions
  of \<open>nftgen.go\<close> as the firewall's set of internal addresses.
\<close>

section \<open>Definitions\<close>

definition internalView :: string where
  "internalView = ''saguaro-internal''"

definition host_alnum :: "char \<Rightarrow> bool" where
  "host_alnum c \<longleftrightarrow> is_lower c \<or> is_digit c"

text \<open>One label of the host expression, and the expression: labels, an optional final dot.\<close>

definition host_label :: "string \<Rightarrow> bool" where
  "host_label s \<longleftrightarrow> s \<noteq> [] \<and> host_alnum (hd s) \<and> host_alnum (last s)
     \<and> list_all (\<lambda>c. host_alnum c \<or> c = CHR ''-'') s"

definition hostRe :: "string \<Rightarrow> bool" where
  "hostRe s \<longleftrightarrow> list_all host_label (Split (CHR ''.'') s)
     \<or> s \<noteq> [] \<and> last s = CHR ''.'' \<and> list_all host_label (Split (CHR ''.'') (butlast s))"

record SplitRecord =
  sr_Name :: string
  sr_Type :: string
  sr_Internal :: string
  sr_External :: string

definition addrOfType :: "string \<Rightarrow> string \<Rightarrow> bool" where
  "addrOfType addr typ =
     (case ParseIP (TrimSpace addr) of
        None \<Rightarrow> False
      | Some ip \<Rightarrow> if typ = ''A'' then To4 ip \<noteq> None else To4 ip = None)"

definition sr_Valid :: "SplitRecord \<Rightarrow> bool" where
  "sr_Valid s =
     (let name = ToLower (TrimSpace (sr_Name s)); typ = ToUpper (TrimSpace (sr_Type s))
      in if \<not> hostRe name then False
         else if typ \<noteq> ''A'' \<and> typ \<noteq> ''AAAA'' then False
         else if \<not> addrOfType (sr_Internal s) typ then False
         else if TrimSpace (sr_External s) \<noteq> [] \<and> \<not> addrOfType (sr_External s) typ then False
         else True)"

definition canonName :: "string \<Rightarrow> string" where
  "canonName name =
     (let n = ToLower (TrimSpace name) in if \<not> HasSuffix n ''.'' then n @ ''.'' else n)"

definition allow_line :: "string \<Rightarrow> string" where
  "allow_line n = ''  access-control: '' @ n @ '' allow''"

definition view_line :: "string \<Rightarrow> string" where
  "view_line n = ''  access-control-view: '' @ n @ '' '' @ internalView"

definition record_lines :: "SplitRecord \<Rightarrow> string \<Rightarrow> string list" where
  "record_lines s addr =
     (let name = canonName (sr_Name s); typ = ToUpper (TrimSpace (sr_Type s))
      in [''  local-zone: '' @ dq name @ '' redirect'',
          ''  local-data: '' @ dq (name @ '' '' @ typ @ '' '' @ TrimSpace addr)])"

definition access_conf_lines :: "Zone list \<Rightarrow> SplitRecord list \<Rightarrow> string \<Rightarrow> string list" where
  "access_conf_lines zones split clientNet =
     (let nets = ZoneNetworks zones; viewNets = InternalNetworks zones clientNet;
          valid = filter sr_Valid split
      in [''# Managed by Saguaro (generated). Per-zone resolver access''
            @ (if valid \<noteq> [] then '' and split-horizon views'' else []) @ ''.'',
          ''server:'']
       @ map allow_line nets
       @ concat (map (\<lambda>s. if TrimSpace (sr_External s) = [] then [] else record_lines s (sr_External s)) valid)
       @ only_if (valid \<noteq> [] \<and> viewNets \<noteq> []) (map view_line viewNets)
       @ only_if (valid \<noteq> [] \<and> viewNets \<noteq> [])
           (['''', ''view:'', ''  name: '' @ dq internalView, ''  view-first: yes'']
            @ concat (map (\<lambda>s. record_lines s (sr_Internal s)) valid)))"

definition GenerateAccessConf :: "Zone list \<Rightarrow> SplitRecord list \<Rightarrow> string \<Rightarrow> string" where
  "GenerateAccessConf zones split clientNet = unlines (access_conf_lines zones split clientNet)"

section \<open>The networks of the resolver and of the firewall\<close>

abbreviation starts :: "string \<Rightarrow> string list \<Rightarrow> string list" where
  "starts p ls \<equiv> filter (\<lambda>l. HasPrefix l p) ls"

lemma allow_view_prefix [simp]:
  "HasPrefix (allow_line n) ''  access-control: ''" "\<not> HasPrefix (view_line n) ''  access-control: ''"
  "HasPrefix (view_line n) ''  access-control-view: ''" "\<not> HasPrefix (allow_line n) ''  access-control-view: ''"
  by (simp_all add: allow_line_def view_line_def HasPrefix_def)

lemma record_no_access [simp]:
  "starts ''  access-control: '' (record_lines s a) = []"
  "starts ''  access-control-view: '' (record_lines s a) = []"
  by (simp_all add: record_lines_def Let_def HasPrefix_def)

lemma records_no_access [simp]:
  "starts ''  access-control: '' (concat (map (\<lambda>s. record_lines s (f s)) ss)) = []"
  "starts ''  access-control-view: '' (concat (map (\<lambda>s. record_lines s (f s)) ss)) = []"
  "starts ''  access-control: '' (concat (map (\<lambda>s. if P s then [] else record_lines s (f s)) ss)) = []"
  "starts ''  access-control-view: '' (concat (map (\<lambda>s. if P s then [] else record_lines s (f s)) ss)) = []"
  by (simp_all add: filter_concat comp_def if_distrib cong: if_cong)

lemma starts_map [simp]:
  "starts ''  access-control: '' (map allow_line ns) = map allow_line ns"
  "starts ''  access-control: '' (map view_line ns) = []"
  "starts ''  access-control-view: '' (map view_line ns) = map view_line ns"
  "starts ''  access-control-view: '' (map allow_line ns) = []"
  by (induction ns) simp_all

text \<open>
  The resolver and the firewall agree on what is internal. The access lines of the
  resolver configuration grant exactly the zone networks, the split-horizon view is assigned
  (when there is a valid record) to exactly the networks that are the elements of the
  firewall's set of internal addresses, which is declared when there is no device-access
  matrix, and every granted network is one of those.
\<close>

theorem resolver_firewall_agree:
  "starts ''  access-control: '' (access_conf_lines (c_Zones c) split (c_ClientNetwork c)) =
      map allow_line (ZoneNetworks (c_Zones c))
   \<and> starts ''  access-control-view: '' (access_conf_lines (c_Zones c) split (c_ClientNetwork c)) =
      (if filter sr_Valid split = [] then []
       else map view_line (InternalNetworks (c_Zones c) (c_ClientNetwork c)))
   \<and> set (ZoneNetworks (c_Zones c)) \<subseteq> set (InternalNetworks (c_Zones c) (c_ClientNetwork c))
   \<and> internal4_decl c = ''  set internal4 { type ipv4_addr; flags interval; elements = { ''
       @ Join (InternalNetworks (c_Zones c) (c_ClientNetwork c)) '', '' @ '' } }''
   \<and> (internal4_decl c \<in> set (gen_sets c) \<longleftrightarrow> c_ServiceACLs c = [])"
proof (intro conjI)
  show "starts ''  access-control: '' (access_conf_lines (c_Zones c) split (c_ClientNetwork c)) =
      map allow_line (ZoneNetworks (c_Zones c))"
    unfolding access_conf_lines_def Let_def only_if_def by (simp add: HasPrefix_simps)
  show "starts ''  access-control-view: '' (access_conf_lines (c_Zones c) split (c_ClientNetwork c)) =
      (if filter sr_Valid split = [] then []
       else map view_line (InternalNetworks (c_Zones c) (c_ClientNetwork c)))"
    unfolding access_conf_lines_def Let_def only_if_def by (simp add: HasPrefix_simps)
  show "internal4_decl c \<in> set (gen_sets c) \<longleftrightarrow> c_ServiceACLs c = []" by (rule internal4_decl_iff)
  show "set (ZoneNetworks (c_Zones c)) \<subseteq> set (InternalNetworks (c_Zones c) (c_ClientNetwork c))"
    by (simp add: set_InternalNetworks)
qed (rule internal4_decl_def)

section \<open>Operator input stays inside its line\<close>

lemma host_char_graph: "host_alnum c \<or> c = CHR ''-'' \<Longrightarrow> is_graph c"
  using is_graph_lower is_graph_digit by (auto simp: host_alnum_def) (simp add: is_graph_def)

lemma host_label_graph: "host_label s \<Longrightarrow> list_all is_graph s"
  using host_char_graph by (simp add: host_label_def list_all_iff)

lemma labels_graph: "list_all host_label (Split (CHR ''.'') s) \<Longrightarrow> list_all is_graph s"
proof -
  assume "list_all host_label (Split (CHR ''.'') s)"
  then have "\<forall>l \<in> set (Split (CHR ''.'') s). list_all is_graph l"
    using host_label_graph by (simp add: list_all_iff [of host_label])
  moreover have "set s \<subseteq> (\<Union>l \<in> set (Split (CHR ''.'') s). set l) \<union> {CHR ''.''}"
    using set_Join [of "Split (CHR ''.'') s" "''.''"] by (simp add: Join_Split)
  ultimately show ?thesis by (fastforce simp: list_all_iff is_graph_def)
qed

lemma hostRe_graph:
  assumes "hostRe s"
  shows "list_all is_graph s"
proof (cases "list_all host_label (Split (CHR ''.'') s)")
  case False
  with assms have "s \<noteq> []" "last s = CHR ''.''" and b: "list_all is_graph (butlast s)"
    using labels_graph by (auto simp: hostRe_def)
  then have "s = butlast s @ ''.''" by (metis append_butlast_last_id)
  moreover have "list_all is_graph (butlast s @ ''.'')" using b is_graph_dot by simp
  ultimately show ?thesis by metis
qed (rule labels_graph)

lemma record_lines_ok:
  assumes "sr_Valid r" "a = sr_Internal r \<or> a = sr_External r \<and> TrimSpace (sr_External r) \<noteq> []"
    "l \<in> set (record_lines r a)"
  shows "CHR 0x0A \<notin> set l"
proof -
  let ?ty = "ToUpper (TrimSpace (sr_Type r))"
  have h: "hostRe (ToLower (TrimSpace (sr_Name r)))" and t: "?ty = ''A'' \<or> ?ty = ''AAAA''"
    and "addrOfType a ?ty"
    using assms(1,2) by (auto simp: sr_Valid_def Let_def split: if_splits)
  then have "list_all is_graph (TrimSpace a)"
    by (intro ParseIP_graph) (auto simp: addrOfType_def split: option.splits)
  moreover have "list_all is_graph (canonName (sr_Name r))"
    using hostRe_graph [OF h] is_graph_dot by (simp add: canonName_def Let_def)
  moreover have "CHR 0x0A \<notin> set ?ty" using t by auto
  ultimately show ?thesis
    using assms(3) by (auto simp: record_lines_def Let_def dq_def dest: graph_no_newline)
qed

text \<open>
  Split-horizon names, types and addresses come from operators and are embedded in the
  resolver configuration; whatever they are, the generated document has exactly the intended
  lines, since no accepted record and no network contains a line break.
\<close>

theorem GenerateAccessConf_lines:
  "Split (CHR 0x0A) (GenerateAccessConf zones split clientNet) =
     access_conf_lines zones split clientNet @ [[]]"
  unfolding GenerateAccessConf_def
proof (rule Split_unlines, rule ballI)
  fix l
  assume l: "l \<in> set (access_conf_lines zones split clientNet)"
  have n: "CHR 0x0A \<notin> set n" if "n \<in> set (InternalNetworks zones clientNet) \<or> n \<in> set (ZoneNetworks zones)" for n
    using that graph_no_newline [OF validCIDR4_graph]
    by (auto simp: set_InternalNetworks set_ZoneNetworks split: if_splits)
  from l show "CHR 0x0A \<notin> set l"
    using n record_lines_ok
    by (auto simp: access_conf_lines_def Let_def allow_line_def view_line_def internalView_def dq_def
        split: if_splits)
qed

end
