(* ===== verification/Users.thy ===== *)
theory Users
  imports GoFmt
begin

text \<open>
  \<open>users.go\<close> and \<open>authz.go\<close>: user records and roles, the user store as an interface
  with its file-backed implementation, the permission table, and the user management
  handlers with the audit trail they write.

  A Go interface value is a record of operations on a store state. A handler takes the
  decoded request (an error message when \<open>decodeJSON\<close> refused it) and returns the response
  and the new state. Password hashing (argon2, outside the sources) is a parameter. An audit
  event carries what the handlers choose; its random identifier and its free-form metadata
  are left out.
\<close>

section \<open>Roles and permissions\<close>

definition validRoles :: "string \<Rightarrow> bool" where
  "validRoles r \<longleftrightarrow> r \<in> {''admin'', ''network-operator'', ''dns-operator'', ''auditor'', ''read-only''}"

definition usernameRe :: "string \<Rightarrow> bool" where
  "usernameRe = re_head_tail (\<lambda>c. is_lower c \<or> is_digit c)
     (\<lambda>c. is_lower c \<or> is_digit c \<or> c = CHR ''.'' \<or> c = CHR ''_'' \<or> c = CHR ''-'') 1 31"

definition allPerms :: "string list" where
  "allPerms = [''dns:write'', ''dhcp:write'', ''service:check'', ''service:control'', ''mail:write'',
     ''users:write'', ''sessions:revoke'', ''firewall:write'', ''proxy:write'', ''certs:write'',
     ''backup:write'', ''packages:write'', ''power:control'', ''config:restore'']"

definition rolePermissions :: "string \<Rightarrow> string list option" where
  "rolePermissions role =
     (if role = ''admin'' then Some allPerms
      else if role = ''network-operator'' then
        Some [''dhcp:write'', ''service:check'', ''service:control'', ''firewall:write'', ''proxy:write'']
      else if role = ''dns-operator'' then Some [''dns:write'', ''service:check'']
      else if role = ''auditor'' then Some []
      else if role = ''read-only'' then Some []
      else None)"

definition roleAllows :: "string \<Rightarrow> string \<Rightarrow> bool" where
  "roleAllows role perm = (case rolePermissions role of None \<Rightarrow> False | Some ps \<Rightarrow> perm \<in> set ps)"

section \<open>The store interface\<close>

record userRecord =
  ur_Username :: string
  ur_PHC :: string
  ur_Role :: string
  ur_Enabled :: bool
  ur_CreatedAt :: int
  ur_MustChangePassword :: bool

text \<open>\<open>Inl ()\<close> is an error of the store; \<open>False\<close> of \<open>us_Upsert\<close> too.\<close>

record 'u userStore =
  us_Get :: "'u \<Rightarrow> string \<Rightarrow> unit + userRecord option"
  us_List :: "'u \<Rightarrow> unit + userRecord list"
  us_Upsert :: "'u \<Rightarrow> userRecord \<Rightarrow> bool \<times> 'u"
  us_Delete :: "'u \<Rightarrow> string \<Rightarrow> (unit + bool) \<times> 'u"
  us_Count :: "'u \<Rightarrow> unit + nat"

text \<open>
  What the handlers rely on: a view of the store as a map from user names to records of that
  name; reads report it; a write that reports success has changed exactly one key, and one
  that reports an error has changed that key or nothing.
\<close>

locale user_store =
  fixes us :: "'u userStore" and users_view :: "'u \<Rightarrow> string \<rightharpoonup> userRecord" and invar :: "'u \<Rightarrow> bool"
  assumes view_key: "invar s \<Longrightarrow> users_view s n = Some r \<Longrightarrow> ur_Username r = n"
    and get_view: "invar s \<Longrightarrow> us_Get us s n = Inr ro \<Longrightarrow> ro = users_view s n"
    and list_view: "invar s \<Longrightarrow> us_List us s = Inr rs \<Longrightarrow> set rs = ran (users_view s)"
    and upsert_view: "invar s \<Longrightarrow> us_Upsert us s r = (ok, s') \<Longrightarrow>
          users_view s' = (users_view s)(ur_Username r \<mapsto> r) \<or> \<not> ok \<and> users_view s' = users_view s"
    and delete_view: "invar s \<Longrightarrow> us_Delete us s n = (res, s') \<Longrightarrow>
          users_view s' = (users_view s)(n := None) \<or> res = Inl () \<and> users_view s' = users_view s"
    and count_view: "invar s \<Longrightarrow> us_Count us s = Inr k \<Longrightarrow> k = 0 \<longleftrightarrow> users_view s = Map.empty"
    and invar_upsert: "invar s \<Longrightarrow> invar (snd (us_Upsert us s r))"
    and invar_delete: "invar s \<Longrightarrow> invar (snd (us_Delete us s n))"

section \<open>The file-backed store\<close>

text \<open>
  The in-memory map as an association list with its keys, and whether the state file can be
  written. A failed save leaves the change in memory.
\<close>

record fileUsers =
  fu_items :: "(string \<times> userRecord) list"
  fu_writable :: bool

definition fu_put :: "string \<Rightarrow> userRecord \<Rightarrow> (string \<times> userRecord) list \<Rightarrow> (string \<times> userRecord) list" where
  "fu_put k r xs = (k, r) # filter (\<lambda>(k', _). k' \<noteq> k) xs"

definition fu_Get :: "fileUsers \<Rightarrow> string \<Rightarrow> unit + userRecord option" where
  "fu_Get s n = Inr (map_of (fu_items s) n)"

definition fu_List :: "fileUsers \<Rightarrow> unit + userRecord list" where
  "fu_List s = Inr (sort_key ur_Username (map snd (fu_items s)))"

definition fu_Upsert :: "fileUsers \<Rightarrow> userRecord \<Rightarrow> bool \<times> fileUsers" where
  "fu_Upsert s r = (fu_writable s, s \<lparr> fu_items := fu_put (ur_Username r) r (fu_items s) \<rparr>)"

definition fu_Delete :: "fileUsers \<Rightarrow> string \<Rightarrow> (unit + bool) \<times> fileUsers" where
  "fu_Delete s n =
     (if map_of (fu_items s) n = None then (Inr False, s)
      else (if fu_writable s then Inr True else Inl (),
            s \<lparr> fu_items := filter (\<lambda>(k, _). k \<noteq> n) (fu_items s) \<rparr>))"

definition fu_Count :: "fileUsers \<Rightarrow> unit + nat" where
  "fu_Count s = Inr (length (fu_items s))"

definition file_users :: "fileUsers userStore" where
  "file_users = \<lparr> us_Get = fu_Get, us_List = fu_List, us_Upsert = fu_Upsert, us_Delete = fu_Delete,
     us_Count = fu_Count \<rparr>"

text \<open>The well-formedness of the map: keys are distinct and are the records' names.\<close>

definition fu_wf :: "fileUsers \<Rightarrow> bool" where
  "fu_wf s \<longleftrightarrow> distinct (map fst (fu_items s)) \<and> list_all (\<lambda>(k, r). ur_Username r = k) (fu_items s)"

definition fu_view :: "fileUsers \<Rightarrow> string \<rightharpoonup> userRecord" where
  "fu_view s = map_of (fu_items s)"

lemma map_of_filter_key: "map_of (filter (\<lambda>(k, _). k \<noteq> n) xs) = (map_of xs)(n := None)"
  by (induction xs) (auto simp: fun_eq_iff)

lemma fu_view_put: "map_of (fu_put n r xs) = (map_of xs)(n \<mapsto> r)"
  by (simp add: fu_put_def map_of_filter_key)

interpretation file_store: user_store file_users fu_view fu_wf
proof (unfold_locales, goal_cases)
  case (1 s n r)
  then show ?case by (auto simp: fu_wf_def fu_view_def list_all_iff dest: map_of_SomeD)
next
  case (2 s n ro)
  then show ?case by (simp add: file_users_def fu_Get_def fu_view_def)
next
  case (3 s rs)
  then show ?case by (auto simp: file_users_def fu_List_def fu_view_def fu_wf_def ran_distinct) force
next
  case (4 s r ok s')
  then show ?case by (auto simp: file_users_def fu_Upsert_def fu_view_def fu_view_put)
next
  case (5 s n res s')
  then show ?case
    by (auto simp: file_users_def fu_Delete_def fu_view_def map_of_filter_key fun_eq_iff split: if_splits)
next
  case (6 s k)
  then show ?case by (auto simp: file_users_def fu_Count_def fu_view_def)
next
  case (7 s r)
  then show ?case
    by (auto simp: file_users_def fu_Upsert_def fu_wf_def fu_put_def distinct_map_filter list_all_iff)
next
  case (8 s n)
  then show ?case
    by (auto simp: file_users_def fu_Delete_def fu_wf_def distinct_map_filter list_all_iff)
qed

section \<open>Audit trail and requests\<close>

record auditEvent =
  ae_Time :: int
  ae_Severity :: string
  ae_Actor :: string
  ae_Action :: string
  ae_Target :: string
  ae_Result :: string
  ae_RemoteIP :: string

text \<open>Newest first, at most 5000 entries.\<close>

definition addAudit :: "auditEvent \<Rightarrow> auditEvent list \<Rightarrow> auditEvent list" where
  "addAudit e log = (let l = e # log in if length l > 5000 then take 5000 l else l)"

text \<open>What a handler reads of its request: the authenticated user, the client and the clock.\<close>

record reqctx =
  rq_user :: "userRecord option"
  rq_ip :: string
  rq_now :: int
  rq_adminUser :: string

definition actor :: "reqctx \<Rightarrow> string" where
  "actor rq = (case rq_user rq of Some u \<Rightarrow> ur_Username u | None \<Rightarrow> rq_adminUser rq)"

definition recordSev :: "reqctx \<Rightarrow> string \<Rightarrow> string \<Rightarrow> string \<Rightarrow> string \<Rightarrow> string \<Rightarrow> auditEvent list \<Rightarrow> auditEvent list" where
  "recordSev rq who action target result severity log =
     addAudit \<lparr> ae_Time = rq_now rq, ae_Severity = severity, ae_Actor = who, ae_Action = action,
                ae_Target = target, ae_Result = result, ae_RemoteIP = rq_ip rq \<rparr> log"

definition record_info :: "reqctx \<Rightarrow> string \<Rightarrow> string \<Rightarrow> string \<Rightarrow> string \<Rightarrow> auditEvent list \<Rightarrow> auditEvent list" where
  "record_info rq who action target result log = recordSev rq who action target result ''info'' log"

record userView =
  uv_Username :: string
  uv_Role :: string
  uv_Enabled :: bool
  uv_CreatedAt :: int

datatype body = BError string | BOk | BUser userView | BUsers "userView list" | BProfile string string bool

type_synonym response = "int \<times> body"

record 'u usersApp =
  ua_users :: 'u
  ua_audit :: "auditEvent list"

definition view_of :: "userRecord \<Rightarrow> userView" where
  "view_of u = \<lparr> uv_Username = ur_Username u, uv_Role = ur_Role u, uv_Enabled = ur_Enabled u,
     uv_CreatedAt = ur_CreatedAt u \<rparr>"

section \<open>Handlers\<close>

definition seedAdmin :: "'u userStore \<Rightarrow> string \<Rightarrow> string \<Rightarrow> int \<Rightarrow> 'u \<Rightarrow> (unit + bool) \<times> 'u" where
  "seedAdmin us username phc t s =
     (case us_Count us s of
        Inl e \<Rightarrow> (Inl e, s)
      | Inr n \<Rightarrow>
          if n > 0 then (Inr False, s)
          else let (ok, s') = us_Upsert us s \<lparr> ur_Username = username, ur_PHC = phc, ur_Role = ''admin'',
                   ur_Enabled = True, ur_CreatedAt = t, ur_MustChangePassword = True \<rparr>
               in (if ok then Inr True else Inl (), s'))"

definition apiUsersList :: "'u userStore \<Rightarrow> 'u usersApp \<Rightarrow> response" where
  "apiUsersList us a =
     (case us_List us (ua_users a) of
        Inl _ \<Rightarrow> (500, BError ''user store unavailable'')
      | Inr recs \<Rightarrow> (200, BUsers (map view_of recs)))"

record createInput =
  ci_Username :: string
  ci_Password :: string
  ci_Role :: string

definition apiUserCreate ::
  "'u userStore \<Rightarrow> (string \<Rightarrow> string option) \<Rightarrow> reqctx \<Rightarrow> string + createInput \<Rightarrow> 'u usersApp \<Rightarrow> response \<times> 'u usersApp" where
  "apiUserCreate us hashPassword rq input a =
     (case input of
        Inl msg \<Rightarrow> ((400, BError msg), a)
      | Inr i \<Rightarrow>
          let username = ToLower (TrimSpace (ci_Username i))
          in if \<not> usernameRe username then
               ((400, BError ''invalid username (lowercase, 2-32 chars, a-z 0-9 . _ -)''), a)
             else if \<not> validRoles (ci_Role i) then ((400, BError ''invalid role''), a)
             else if length (ci_Password i) < 14 then
               ((400, BError ''password must contain at least 14 characters''), a)
             else (case us_Get us (ua_users a) username of
                Inl _ \<Rightarrow> ((500, BError ''user store unavailable''), a)
              | Inr (Some _) \<Rightarrow> ((409, BError ''user already exists''), a)
              | Inr None \<Rightarrow>
                  (case hashPassword (ci_Password i) of
                     None \<Rightarrow> ((500, BError ''cannot hash password''), a)
                   | Some phc \<Rightarrow>
                       let rec = \<lparr> ur_Username = username, ur_PHC = phc, ur_Role = ci_Role i,
                                   ur_Enabled = True, ur_CreatedAt = rq_now rq, ur_MustChangePassword = True \<rparr>;
                           (ok, s') = us_Upsert us (ua_users a) rec
                       in if \<not> ok then ((500, BError ''cannot persist user''), a \<lparr> ua_users := s' \<rparr>)
                          else ((200, BUser (view_of rec)),
                                a \<lparr> ua_users := s',
                                    ua_audit := record_info rq (actor rq) ''user-create'' username ''success''
                                                  (ua_audit a) \<rparr>))))"

definition isLastEnabledAdmin :: "'u userStore \<Rightarrow> string \<Rightarrow> 'u \<Rightarrow> unit + bool" where
  "isLastEnabledAdmin us username s =
     (case us_List us s of
        Inl e \<Rightarrow> Inl e
      | Inr recs \<Rightarrow>
          let admins = filter (\<lambda>u. ur_Role u = ''admin'' \<and> ur_Enabled u) recs
          in Inr (list_ex (\<lambda>u. ur_Username u = username) admins
                  \<and> length (filter (\<lambda>u. ur_Username u \<noteq> username) admins) = 0))"

record updateInput =
  ui_Role :: "string option"
  ui_Enabled :: "bool option"
  ui_Password :: "string option"

text \<open>The edits of \<open>apiUserUpdate\<close> on the record it read, in the order of the code.\<close>

definition edit_user ::
  "(string \<Rightarrow> string option) \<Rightarrow> updateInput \<Rightarrow> userRecord \<Rightarrow> response + userRecord" where
  "edit_user hashPassword i r0 =
     try_then
       (case ui_Role i of
          Some role \<Rightarrow> if \<not> validRoles role then Inl (400, BError ''invalid role'')
                       else Inr (r0 \<lparr> ur_Role := role \<rparr>)
        | None \<Rightarrow> Inr r0)
       (\<lambda>r1.
          let r2 = (case ui_Enabled i of Some b \<Rightarrow> r1 \<lparr> ur_Enabled := b \<rparr> | None \<Rightarrow> r1)
          in case ui_Password i of
               None \<Rightarrow> Inr r2
             | Some p \<Rightarrow>
                 if length p < 14 then Inl (400, BError ''password must contain at least 14 characters'')
                 else (case hashPassword p of
                         None \<Rightarrow> Inl (500, BError ''cannot hash password'')
                       | Some phc \<Rightarrow> Inr (r2 \<lparr> ur_PHC := phc, ur_MustChangePassword := True \<rparr>)))"

text \<open>
  \<open>apiUserUpdate\<close> up to the write: read, edit, check that an administrator remains. The
  store is not locked between this and the write.
\<close>

definition user_update_prepare ::
  "'u userStore \<Rightarrow> (string \<Rightarrow> string option) \<Rightarrow> string \<Rightarrow> string + updateInput \<Rightarrow> 'u \<Rightarrow> response + userRecord" where
  "user_update_prepare us hashPassword name input s =
     (case us_Get us s name of
        Inl _ \<Rightarrow> Inl (500, BError ''user store unavailable'')
      | Inr None \<Rightarrow> Inl (404, BError ''user not found'')
      | Inr (Some r0) \<Rightarrow>
          (case input of
             Inl msg \<Rightarrow> Inl (400, BError msg)
           | Inr i \<Rightarrow>
               try_then (edit_user hashPassword i r0) (\<lambda>rec.
                 if ur_Role rec \<noteq> ''admin'' \<or> \<not> ur_Enabled rec then
                   (case isLastEnabledAdmin us name s of
                      Inl _ \<Rightarrow> Inl (500, BError ''user store unavailable'')
                    | Inr isLast \<Rightarrow>
                        if isLast then Inl (409, BError ''cannot demote or disable the last enabled administrator'')
                        else Inr rec)
                 else Inr rec)))"

definition user_update_commit ::
  "'u userStore \<Rightarrow> reqctx \<Rightarrow> string \<Rightarrow> userRecord \<Rightarrow> 'u usersApp \<Rightarrow> response \<times> 'u usersApp" where
  "user_update_commit us rq name rec a =
     (let (ok, s') = us_Upsert us (ua_users a) rec
      in if \<not> ok then ((500, BError ''cannot persist user''), a \<lparr> ua_users := s' \<rparr>)
         else ((200, BUser (view_of rec)),
               a \<lparr> ua_users := s',
                   ua_audit := record_info rq (actor rq) ''user-update'' name ''success'' (ua_audit a) \<rparr>))"

definition apiUserUpdate ::
  "'u userStore \<Rightarrow> (string \<Rightarrow> string option) \<Rightarrow> reqctx \<Rightarrow> string \<Rightarrow> string + updateInput \<Rightarrow> 'u usersApp \<Rightarrow> response \<times> 'u usersApp" where
  "apiUserUpdate us hashPassword rq name input a =
     (case user_update_prepare us hashPassword name input (ua_users a) of
        Inl resp \<Rightarrow> (resp, a)
      | Inr rec \<Rightarrow> user_update_commit us rq name rec a)"

definition apiUserDelete :: "'u userStore \<Rightarrow> reqctx \<Rightarrow> string \<Rightarrow> 'u usersApp \<Rightarrow> response \<times> 'u usersApp" where
  "apiUserDelete us rq name a =
     (case isLastEnabledAdmin us name (ua_users a) of
        Inl _ \<Rightarrow> ((500, BError ''user store unavailable''), a)
      | Inr True \<Rightarrow> ((409, BError ''cannot delete the last enabled administrator''), a)
      | Inr False \<Rightarrow>
          (case us_Delete us (ua_users a) name of
             (Inl _, s') \<Rightarrow> ((500, BError ''user store unavailable''), a \<lparr> ua_users := s' \<rparr>)
           | (Inr False, s') \<Rightarrow> ((404, BError ''user not found''), a \<lparr> ua_users := s' \<rparr>)
           | (Inr True, s') \<Rightarrow>
               ((200, BOk), a \<lparr> ua_users := s',
                  ua_audit := recordSev rq (actor rq) ''user-delete'' name ''success'' ''warning'' (ua_audit a) \<rparr>)))"

record passwordInput =
  pi_Old :: string
  pi_New :: string

definition apiProfilePassword ::
  "'u userStore \<Rightarrow> (string \<Rightarrow> string option) \<Rightarrow> (string \<Rightarrow> string \<Rightarrow> bool) \<Rightarrow> reqctx \<Rightarrow> string + passwordInput
     \<Rightarrow> 'u usersApp \<Rightarrow> response \<times> 'u usersApp" where
  "apiProfilePassword us hashPassword verifyPassword rq input a =
     (case rq_user rq of
        None \<Rightarrow> ((401, BError ''authentication required''), a)
      | Some u \<Rightarrow>
          (case input of
             Inl msg \<Rightarrow> ((400, BError msg), a)
           | Inr i \<Rightarrow>
               if \<not> verifyPassword (pi_Old i) (ur_PHC u) then
                 ((403, BError ''current password is incorrect''),
                  a \<lparr> ua_audit := recordSev rq (ur_Username u) ''password-change'' ''profile'' ''denied'' ''security'' (ua_audit a) \<rparr>)
               else if length (pi_New i) < 14 then
                 ((400, BError ''password must contain at least 14 characters''), a)
               else (case hashPassword (pi_New i) of
                       None \<Rightarrow> ((500, BError ''cannot hash password''), a)
                     | Some phc \<Rightarrow>
                         let (ok, s') = us_Upsert us (ua_users a) (u \<lparr> ur_PHC := phc, ur_MustChangePassword := False \<rparr>)
                         in if \<not> ok then ((500, BError ''cannot persist user''), a \<lparr> ua_users := s' \<rparr>)
                            else ((200, BOk), a \<lparr> ua_users := s',
                                    ua_audit := record_info rq (ur_Username u) ''password-change'' ''profile'' ''success'' (ua_audit a) \<rparr>))))"

definition apiProfile :: "reqctx \<Rightarrow> response" where
  "apiProfile rq =
     (case rq_user rq of
        None \<Rightarrow> (401, BError ''authentication required'')
      | Some u \<Rightarrow> (200, BProfile (ur_Username u) (ur_Role u) (ur_MustChangePassword u)))"

definition resolveUser :: "'u userStore \<Rightarrow> 'u \<Rightarrow> string \<Rightarrow> userRecord option" where
  "resolveUser us s username =
     (case us_Get us s username of
        Inl _ \<Rightarrow> None
      | Inr None \<Rightarrow> None
      | Inr (Some rec) \<Rightarrow> if \<not> ur_Enabled rec then None else Some rec)"

section \<open>An administrator always remains\<close>

definition is_admin :: "userRecord \<Rightarrow> bool" where
  "is_admin r \<longleftrightarrow> ur_Role r = ''admin'' \<and> ur_Enabled r"

definition has_admin :: "(string \<rightharpoonup> userRecord) \<Rightarrow> bool" where
  "has_admin v \<longleftrightarrow> (\<exists>n r. v n = Some r \<and> is_admin r)"

lemma has_admin_upd: "has_admin v \<Longrightarrow> is_admin r \<Longrightarrow> has_admin (v(n \<mapsto> r))"
  by (auto simp: has_admin_def)

lemma has_admin_other: "v m = Some r \<Longrightarrow> is_admin r \<Longrightarrow> m \<noteq> n \<Longrightarrow> has_admin (v(n := x))"
  by (auto simp: has_admin_def)

lemma edit_user_name: "edit_user h i r0 = Inr r \<Longrightarrow> ur_Username r = ur_Username r0"
  by (cases "ui_Role i"; cases "ui_Enabled i"; cases "ui_Password i")
     (auto simp: edit_user_def split: if_splits option.splits)

lemma prepare_Inr:
  assumes "user_update_prepare us h n input s = Inr r"
  obtains r0 i where "us_Get us s n = Inr (Some r0)" "edit_user h i r0 = Inr r"
    "is_admin r \<or> isLastEnabledAdmin us n s = Inr False"
proof -
  from assms obtain r0 i where g: "us_Get us s n = Inr (Some r0)" and i: "input = Inr i"
    by (auto simp: user_update_prepare_def split: sum.splits option.splits)
  with assms have e: "edit_user h i r0 = Inr r"
    by (cases "edit_user h i r0") (auto simp: user_update_prepare_def split: sum.splits if_splits)
  have "is_admin r \<or> isLastEnabledAdmin us n s = Inr False"
    using assms by (auto simp: user_update_prepare_def g i e is_admin_def split: sum.splits if_splits)
  with g e that show ?thesis by blast
qed

context user_store
begin

lemma last_admin_iff:
  assumes "invar s" "isLastEnabledAdmin us n s = Inr b"
  shows "b \<longleftrightarrow> (\<exists>r. users_view s n = Some r \<and> is_admin r)
     \<and> (\<forall>m r. users_view s m = Some r \<and> is_admin r \<longrightarrow> m = n)"
proof -
  from assms(2) obtain rs where l: "us_List us s = Inr rs" and
    b: "b \<longleftrightarrow> (\<exists>u \<in> set rs. is_admin u \<and> ur_Username u = n) \<and> (\<forall>u \<in> set rs. is_admin u \<longrightarrow> ur_Username u = n)"
    by (auto simp: isLastEnabledAdmin_def is_admin_def list_ex_iff filter_empty_conv split: sum.splits)
  have rs: "u \<in> set rs \<longleftrightarrow> (\<exists>m. users_view s m = Some u)" for u
    using list_view [OF assms(1) l] by (auto simp: ran_def)
  show ?thesis unfolding b using rs view_key [OF assms(1)] by metis
qed

lemma not_last_keeps:
  assumes "invar s" "isLastEnabledAdmin us n s = Inr False" "has_admin (users_view s)"
  shows "has_admin ((users_view s)(n := x))"
proof -
  from last_admin_iff [OF assms(1,2)] assms(3) obtain m r where
    "users_view s m = Some r" "is_admin r" "m \<noteq> n" by (auto simp: has_admin_def)
  then show ?thesis by (rule has_admin_other)
qed

lemma upsert_admin:
  assumes "invar s" "has_admin (users_view s)" "has_admin ((users_view s)(ur_Username r \<mapsto> r))"
  shows "has_admin (users_view (snd (us_Upsert us s r)))"
  using upsert_view [OF assms(1), of r "fst (us_Upsert us s r)" "snd (us_Upsert us s r)"] assms(2,3) by auto

lemma create_keeps_admin:
  assumes "invar (ua_users a)" "has_admin (users_view (ua_users a))"
  shows "has_admin (users_view (ua_users (snd (apiUserCreate us h rq input a))))"
    and "invar (ua_users (snd (apiUserCreate us h rq input a)))"
proof -
  have "has_admin ((users_view (ua_users a))(n := x))" if "users_view (ua_users a) n = None" for n x
    using assms(2) that by (auto simp: has_admin_def) (metis option.distinct(1))
  then show "has_admin (users_view (ua_users (snd (apiUserCreate us h rq input a))))"
    using assms get_view [OF assms(1)] upsert_admin [OF assms]
    by (auto simp: apiUserCreate_def Let_def split: sum.split option.split prod.split)
       (metis snd_conv userRecord.select_convs(1))+
  show "invar (ua_users (snd (apiUserCreate us h rq input a)))"
    using assms invar_upsert [OF assms(1)]
    by (auto simp: apiUserCreate_def Let_def split: sum.split option.split prod.split) (metis snd_conv)+
qed

lemma prepare_keeps_admin:
  assumes "invar s" "has_admin (users_view s)" "user_update_prepare us h n input s = Inr r"
  shows "has_admin ((users_view s)(ur_Username r \<mapsto> r))"
proof -
  from prepare_Inr [OF assms(3)] obtain r0 i where g: "us_Get us s n = Inr (Some r0)"
    and e: "edit_user h i r0 = Inr r" and c: "is_admin r \<or> isLastEnabledAdmin us n s = Inr False" by blast
  have "ur_Username r = n"
    using edit_user_name [OF e] view_key [OF assms(1)] get_view [OF assms(1) g] by simp
  with c assms show ?thesis by (auto intro: has_admin_upd not_last_keeps)
qed

lemma update_keeps_admin:
  assumes "invar (ua_users a)" "has_admin (users_view (ua_users a))"
  shows "has_admin (users_view (ua_users (snd (apiUserUpdate us h rq n input a))))"
    and "invar (ua_users (snd (apiUserUpdate us h rq n input a)))"
proof -
  show "has_admin (users_view (ua_users (snd (apiUserUpdate us h rq n input a))))"
    using assms prepare_keeps_admin [OF assms] upsert_admin [OF assms]
    by (auto simp: apiUserUpdate_def user_update_commit_def split: sum.split prod.split) (metis snd_conv)+
  show "invar (ua_users (snd (apiUserUpdate us h rq n input a)))"
    using assms invar_upsert [OF assms(1)]
    by (auto simp: apiUserUpdate_def user_update_commit_def split: sum.split prod.split) (metis snd_conv)+
qed

lemma delete_keeps_admin:
  assumes "invar (ua_users a)" "has_admin (users_view (ua_users a))"
  shows "has_admin (users_view (ua_users (snd (apiUserDelete us rq n a))))"
    and "invar (ua_users (snd (apiUserDelete us rq n a)))"
proof -
  have d: "has_admin (users_view s')" if "isLastEnabledAdmin us n (ua_users a) = Inr False"
    "us_Delete us (ua_users a) n = (res, s')" for res s'
    using delete_view [OF assms(1) that(2)] not_last_keeps [OF assms(1) that(1) assms(2)] assms(2) by auto
  show "has_admin (users_view (ua_users (snd (apiUserDelete us rq n a))))"
    using assms d by (auto simp: apiUserDelete_def split: sum.split bool.split prod.split)
  show "invar (ua_users (snd (apiUserDelete us rq n a)))"
    using assms invar_delete [OF assms(1), of n]
    by (auto simp: apiUserDelete_def split: sum.split bool.split prod.split)
qed

lemma password_keeps_admin:
  assumes "invar (ua_users a)" "has_admin (users_view (ua_users a))"
    and "rq_user rq = Some u" "resolveUser us (ua_users a) m = Some u"
  shows "has_admin (users_view (ua_users (snd (apiProfilePassword us h v rq input a))))"
    and "invar (ua_users (snd (apiProfilePassword us h v rq input a)))"
proof -
  have u: "users_view (ua_users a) m = Some u" "ur_Username u = m"
    using assms(4) get_view [OF assms(1)] view_key [OF assms(1)]
    by (auto simp: resolveUser_def split: sum.splits option.splits if_splits)
  have "has_admin ((users_view (ua_users a))(m \<mapsto> u \<lparr> ur_PHC := p, ur_MustChangePassword := False \<rparr>))" for p
    using assms(2) u by (auto simp: has_admin_def is_admin_def) (metis userRecord.select_convs option.inject)
  then show "has_admin (users_view (ua_users (snd (apiProfilePassword us h v rq input a))))"
    using assms(2,3) u upsert_admin [OF assms(1,2), of "u \<lparr> ur_PHC := p, ur_MustChangePassword := False \<rparr>" for p]
    by (auto simp: apiProfilePassword_def Let_def split: sum.split option.split prod.split) (metis snd_conv)+
  show "invar (ua_users (snd (apiProfilePassword us h v rq input a)))"
    using assms(1,3) invar_upsert [OF assms(1)]
    by (auto simp: apiProfilePassword_def Let_def split: sum.split option.split prod.split) (metis snd_conv)+
qed

end

text \<open>
  The states the user management can reach when its requests run one after the other. A
  password change acts on the record the authentication middleware resolved for the request.
\<close>

inductive users_reach ::
  "'u userStore \<Rightarrow> (string \<Rightarrow> string option) \<Rightarrow> (string \<Rightarrow> string \<Rightarrow> bool) \<Rightarrow> 'u usersApp \<Rightarrow> 'u usersApp \<Rightarrow> bool"
  for us h v a0 where
  start: "users_reach us h v a0 a0"
| create: "users_reach us h v a0 a \<Longrightarrow> users_reach us h v a0 (snd (apiUserCreate us h rq ci a))"
| update: "users_reach us h v a0 a \<Longrightarrow> users_reach us h v a0 (snd (apiUserUpdate us h rq n ui a))"
| delete: "users_reach us h v a0 a \<Longrightarrow> users_reach us h v a0 (snd (apiUserDelete us rq n a))"
| password: "users_reach us h v a0 a \<Longrightarrow> rq_user rq = Some u \<Longrightarrow> resolveUser us (ua_users a) m = Some u \<Longrightarrow>
    users_reach us h v a0 (snd (apiProfilePassword us h v rq pw a))"

context user_store
begin

lemma reach_admin:
  assumes "users_reach us h v a0 a" "invar (ua_users a0)" "has_admin (users_view (ua_users a0))"
  shows "invar (ua_users a) \<and> has_admin (users_view (ua_users a))"
  using assms
proof (induction rule: users_reach.induct)
  case (create a rq ci)
  then show ?case using create_keeps_admin by blast
next
  case (update a rq n ui)
  then show ?case using update_keeps_admin by blast
next
  case (delete a rq n)
  then show ?case using delete_keeps_admin by blast
next
  case (password a rq u m pw)
  then show ?case using password_keeps_admin by blast
qed simp

lemma seed_admin:
  assumes "invar s" "users_view s = Map.empty" "seedAdmin us n phc t s = (Inr True, s')"
  shows "has_admin (users_view s') \<and> invar s'"
proof -
  let ?r = "\<lparr> ur_Username = n, ur_PHC = phc, ur_Role = ''admin'', ur_Enabled = True,
     ur_CreatedAt = t, ur_MustChangePassword = True \<rparr>"
  from assms(3) have u: "us_Upsert us s ?r = (True, s')"
    by (auto simp: seedAdmin_def split: sum.splits if_splits prod.splits)
  from upsert_view [OF assms(1) u] invar_upsert [OF assms(1), of ?r] u show ?thesis
    by (auto simp: has_admin_def is_admin_def)
qed

end

text \<open>
  C8. The appliance never loses its last enabled administrator: from a file-backed store with
  an enabled administrator, every sequence of user creations, updates, deletions and password
  changes, whatever their input and whether or not the state file can be written, leaves a
  store with an enabled administrator (and a well-formed one).
\<close>

theorem last_admin_kept:
  assumes "users_reach file_users h v a0 a" "fu_wf (ua_users a0)" "has_admin (fu_view (ua_users a0))"
  shows "has_admin (fu_view (ua_users a)) \<and> fu_wf (ua_users a)"
  using file_store.reach_admin [OF assms] by blast

definition mk_user :: "string \<Rightarrow> string \<Rightarrow> userRecord" where
  "mk_user n role = \<lparr> ur_Username = n, ur_PHC = ''x'', ur_Role = role, ur_Enabled = True,
     ur_CreatedAt = 1, ur_MustChangePassword = False \<rparr>"

definition ex_users :: "fileUsers usersApp" where
  "ex_users = \<lparr> ua_users = \<lparr> fu_items = [(''ana'', mk_user ''ana'' ''admin''), (''ivo'', mk_user ''ivo'' ''admin'')],
     fu_writable = True \<rparr>, ua_audit = [] \<rparr>"

definition ex_rq :: reqctx where
  "ex_rq = \<lparr> rq_user = None, rq_ip = ''10.0.0.2'', rq_now = 9, rq_adminUser = ''ana'' \<rparr>"

theorem last_admin_kept_witness:
  "has_admin (fu_view (ua_users (snd (apiUserDelete file_users ex_rq ''ana''
      (snd (apiUserDelete file_users ex_rq ''ivo'' ex_users))))))"
proof -
  have "has_admin (fu_view (ua_users ex_users))"
    unfolding has_admin_def
    by (intro exI [of _ "''ana''"] exI [of _ "mk_user ''ana'' ''admin''"])
       (simp add: ex_users_def fu_view_def mk_user_def is_admin_def)
  moreover have "fu_wf (ua_users ex_users)" by (simp add: ex_users_def fu_wf_def mk_user_def)
  moreover have "users_reach file_users (\<lambda>_. None) (\<lambda>_ _. False) ex_users
      (snd (apiUserDelete file_users ex_rq ''ana'' (snd (apiUserDelete file_users ex_rq ''ivo'' ex_users))))"
    by (intro users_reach.intros)
  ultimately show ?thesis using last_admin_kept by blast
qed

definition demote :: updateInput where
  "demote = \<lparr> ui_Role = Some ''auditor'', ui_Enabled = None, ui_Password = None \<rparr>"

text \<open>
  The guarantee needs requests to run one after the other, which nothing enforces for the
  user routes: with two enabled administrators, two concurrent updates that each demote one
  of them both pass their check before either writes, and after both writes no enabled
  administrator is left.
\<close>

theorem concurrent_demotion_loses_admin:
  "\<exists>a r1 r2. has_admin (fu_view (ua_users a)) \<and> fu_wf (ua_users a)
     \<and> user_update_prepare file_users (\<lambda>_. None) ''ana'' (Inr demote) (ua_users a) = Inr r1
     \<and> user_update_prepare file_users (\<lambda>_. None) ''ivo'' (Inr demote) (ua_users a) = Inr r2
     \<and> \<not> has_admin (fu_view (ua_users (snd (user_update_commit file_users ex_rq ''ivo'' r2
          (snd (user_update_commit file_users ex_rq ''ana'' r1 a))))))"
proof (intro exI conjI)
  let ?d = "\<lambda>n. mk_user n ''auditor''"
  show "has_admin (fu_view (ua_users ex_users))"
    unfolding has_admin_def
    by (intro exI [of _ "''ana''"] exI [of _ "mk_user ''ana'' ''admin''"])
       (simp add: ex_users_def fu_view_def mk_user_def is_admin_def)
  show "fu_wf (ua_users ex_users)" by (simp add: ex_users_def fu_wf_def mk_user_def)
  have l: "isLastEnabledAdmin file_users n (ua_users ex_users) = Inr False" if "n = ''ana'' \<or> n = ''ivo''" for n
    using that by (auto simp: isLastEnabledAdmin_def file_users_def fu_List_def ex_users_def mk_user_def)
  have "user_update_prepare file_users (\<lambda>_. None) n (Inr demote) (ua_users ex_users) = Inr (?d n)"
    if "n = ''ana'' \<or> n = ''ivo''" for n
  proof -
    have "us_Get file_users (ua_users ex_users) n = Inr (Some (mk_user n ''admin''))"
      using that by (auto simp: file_users_def fu_Get_def ex_users_def)
    moreover have "edit_user (\<lambda>_. None) demote (mk_user n ''admin'') = Inr (?d n)"
      by (simp add: edit_user_def demote_def validRoles_def mk_user_def)
    moreover have "ur_Role (?d n) \<noteq> ''admin''" by (simp add: mk_user_def)
    ultimately show ?thesis using l [OF that] by (simp add: user_update_prepare_def)
  qed
  then show "user_update_prepare file_users (\<lambda>_. None) ''ana'' (Inr demote) (ua_users ex_users) = Inr (?d ''ana'')"
    "user_update_prepare file_users (\<lambda>_. None) ''ivo'' (Inr demote) (ua_users ex_users) = Inr (?d ''ivo'')"
    by blast+
  show "\<not> has_admin (fu_view (ua_users (snd (user_update_commit file_users ex_rq ''ivo'' (?d ''ivo'')
          (snd (user_update_commit file_users ex_rq ''ana'' (?d ''ana'') ex_users))))))"
    by (auto simp: user_update_commit_def file_users_def fu_Upsert_def ex_users_def fu_view_def fu_put_def
        has_admin_def is_admin_def mk_user_def split: if_splits)
qed

end
