(* ===== verification/Sessions.thy ===== *)
theory Sessions
  imports Users
begin

text \<open>
  \<open>sessions.go\<close>: session records, the session store as an interface with its contract, and
  the file-backed implementation. SHA-256 is a parameter of the definitions that use it;
  only hashes are stored.
\<close>

section \<open>Records and the interface\<close>

record sessionRecord =
  se_TokenHash :: string
  se_ID :: string
  se_Username :: string
  se_CreatedAt :: int
  se_ExpiresAt :: int
  se_RemoteIP :: string
  se_CSRFHash :: string

text \<open>\<open>tokenHash[:16]\<close>; a SHA-256 hash in hexadecimal has 64 characters.\<close>

definition sessionID :: "string \<Rightarrow> string" where
  "sessionID tokenHash = take 16 tokenHash"

record 's sessionStore =
  ss_Create :: "'s \<Rightarrow> sessionRecord \<Rightarrow> bool \<times> 's"
  ss_Get :: "'s \<Rightarrow> string \<Rightarrow> unit + sessionRecord option"
  ss_Delete :: "'s \<Rightarrow> string \<Rightarrow> bool \<times> 's"
  ss_DeleteByID :: "'s \<Rightarrow> string \<Rightarrow> (unit + bool) \<times> 's"
  ss_List :: "'s \<Rightarrow> unit + sessionRecord list"
  ss_PruneExpired :: "'s \<Rightarrow> int \<Rightarrow> bool \<times> 's"

text \<open>
  The contract: a view as a map from token hashes to records; a write that reports success
  has its effect, one that reports an error has it or none. \<open>DeleteByID\<close> promises only that
  it removes sessions of that identifier, at least one when it says so.
\<close>

locale session_store =
  fixes ss :: "'s sessionStore" and sview :: "'s \<Rightarrow> string \<rightharpoonup> sessionRecord" and sinv :: "'s \<Rightarrow> bool"
  assumes sview_key: "sinv s \<Longrightarrow> sview s k = Some r \<Longrightarrow> se_TokenHash r = k"
    and create_sview: "sinv s \<Longrightarrow> ss_Create ss s r = (ok, s') \<Longrightarrow>
          sview s' = (sview s)(se_TokenHash r \<mapsto> r) \<or> \<not> ok \<and> sview s' = sview s"
    and get_sview: "sinv s \<Longrightarrow> ss_Get ss s k = Inr ro \<Longrightarrow> ro = sview s k"
    and delete_sview: "sinv s \<Longrightarrow> ss_Delete ss s k = (ok, s') \<Longrightarrow>
          sview s' = (sview s)(k := None) \<or> \<not> ok \<and> sview s' = sview s"
    and byid_sview: "sinv s \<Longrightarrow> ss_DeleteByID ss s i = (res, s') \<Longrightarrow> sview s' k \<noteq> sview s k \<Longrightarrow>
          sview s' k = None \<and> (\<exists>r. sview s k = Some r \<and> se_ID r = i)"
    and byid_removed: "sinv s \<Longrightarrow> ss_DeleteByID ss s i = (Inr b, s') \<Longrightarrow>
          b \<longleftrightarrow> (\<exists>k r. sview s k = Some r \<and> se_ID r = i \<and> sview s' k = None)"
    and list_sview: "sinv s \<Longrightarrow> ss_List ss s = Inr rs \<Longrightarrow> set rs = ran (sview s)"
    and prune_sview: "sinv s \<Longrightarrow> ss_PruneExpired ss s t = (ok, s') \<Longrightarrow>
          sview s' = (\<lambda>k. case sview s k of None \<Rightarrow> None
                       | Some r \<Rightarrow> if se_ExpiresAt r < t then None else Some r)
          \<or> \<not> ok \<and> sview s' = sview s"
    and sinv_create: "sinv s \<Longrightarrow> sinv (snd (ss_Create ss s r))"
    and sinv_delete: "sinv s \<Longrightarrow> sinv (snd (ss_Delete ss s k))"
    and sinv_byid: "sinv s \<Longrightarrow> sinv (snd (ss_DeleteByID ss s i))"
    and sinv_prune: "sinv s \<Longrightarrow> sinv (snd (ss_PruneExpired ss s t))"

section \<open>The file-backed store\<close>

record fileSessions =
  fs_items :: "(string \<times> sessionRecord) list"
  fs_writable :: bool

definition fs_Create :: "fileSessions \<Rightarrow> sessionRecord \<Rightarrow> bool \<times> fileSessions" where
  "fs_Create s r =
     (fs_writable s,
      s \<lparr> fs_items := (se_TokenHash r, r) # filter (\<lambda>(k, _). k \<noteq> se_TokenHash r) (fs_items s) \<rparr>)"

definition fs_Get :: "fileSessions \<Rightarrow> string \<Rightarrow> unit + sessionRecord option" where
  "fs_Get s k = Inr (map_of (fs_items s) k)"

definition fs_Delete :: "fileSessions \<Rightarrow> string \<Rightarrow> bool \<times> fileSessions" where
  "fs_Delete s k = (fs_writable s, s \<lparr> fs_items := filter (\<lambda>(k', _). k' \<noteq> k) (fs_items s) \<rparr>)"

definition fs_DeleteByID :: "fileSessions \<Rightarrow> string \<Rightarrow> (unit + bool) \<times> fileSessions" where
  "fs_DeleteByID s i =
     (case find (\<lambda>(_, r). se_ID r = i) (fs_items s) of
        Some (hash, r) \<Rightarrow>
          (if fs_writable s then Inr True else Inl (),
           s \<lparr> fs_items := filter (\<lambda>(k, _). k \<noteq> hash) (fs_items s) \<rparr>)
      | None \<Rightarrow> (Inr False, s))"

definition fs_List :: "fileSessions \<Rightarrow> unit + sessionRecord list" where
  "fs_List s = Inr (sort_key (\<lambda>r. - se_CreatedAt r) (map snd (fs_items s)))"

definition fs_PruneExpired :: "fileSessions \<Rightarrow> int \<Rightarrow> bool \<times> fileSessions" where
  "fs_PruneExpired s t =
     (let changed = list_ex (\<lambda>(_, r). se_ExpiresAt r < t) (fs_items s);
          s' = s \<lparr> fs_items := filter (\<lambda>(_, r). \<not> se_ExpiresAt r < t) (fs_items s) \<rparr>
      in if \<not> changed then (True, s') else (fs_writable s, s'))"

definition file_sessions :: "fileSessions sessionStore" where
  "file_sessions = \<lparr> ss_Create = fs_Create, ss_Get = fs_Get, ss_Delete = fs_Delete,
     ss_DeleteByID = fs_DeleteByID, ss_List = fs_List, ss_PruneExpired = fs_PruneExpired \<rparr>"

definition fs_view :: "fileSessions \<Rightarrow> string \<rightharpoonup> sessionRecord" where
  "fs_view s = map_of (fs_items s)"

definition fs_wf :: "fileSessions \<Rightarrow> bool" where
  "fs_wf s \<longleftrightarrow> distinct (map fst (fs_items s)) \<and> list_all (\<lambda>(k, r). se_TokenHash r = k) (fs_items s)"

lemma map_of_drop_key: "map_of (filter (\<lambda>(k, _). k \<noteq> n) xs) = (map_of xs)(n := None)"
  by (induction xs) (auto simp: fun_eq_iff)

lemma map_of_filter_val:
  "distinct (map fst xs) \<Longrightarrow> map_of (filter (\<lambda>(_, r). P r) xs) =
     (\<lambda>k. case map_of xs k of None \<Rightarrow> None | Some r \<Rightarrow> if P r then Some r else None)"
proof (induction xs)
  case (Cons x xs)
  have "map_of xs (fst x) = None" using Cons.prems by (simp add: map_of_eq_None_iff)
  with Cons show ?case by (cases x) (auto simp: fun_eq_iff)
qed auto

lemma fs_byid:
  assumes "fs_wf s" "fs_DeleteByID s i = (res, s')"
  shows "(\<exists>k r. fs_view s k = Some r \<and> se_ID r = i \<and> fs_view s' = (fs_view s)(k := None) \<and> res \<noteq> Inr False)
     \<or> (\<forall>k r. fs_view s k = Some r \<longrightarrow> se_ID r \<noteq> i) \<and> s' = s \<and> res = Inr False"
proof (cases "find (\<lambda>(_, r). se_ID r = i) (fs_items s)")
  case None
  with assms show ?thesis
    by (auto simp: fs_DeleteByID_def find_None_iff fs_view_def dest: map_of_SomeD)
next
  case (Some p)
  obtain k r where p: "p = (k, r)" by (cases p)
  from Some have "p \<in> set (fs_items s)" "(\<lambda>(_, r). se_ID r = i) p"
    by (metis (no_types, lifting) find_Some_iff nth_mem)+
  with p have q: "(k, r) \<in> set (fs_items s)" "se_ID r = i" by simp_all
  then have "fs_view s k = Some r" using assms(1) by (simp add: fs_wf_def fs_view_def)
  moreover have "fs_view s' = (fs_view s)(k := None) \<and> res \<noteq> Inr False"
    using Some p assms(2) by (auto simp: fs_DeleteByID_def fs_view_def map_of_drop_key split: if_splits)
  ultimately show ?thesis using q(2) by blast
qed

interpretation file_sess: session_store file_sessions fs_view fs_wf
proof (unfold_locales, goal_cases)
  case (1 s k r)
  then show ?case by (auto simp: fs_wf_def fs_view_def list_all_iff dest: map_of_SomeD)
next
  case (2 s r ok s')
  then show ?case by (auto simp: file_sessions_def fs_Create_def fs_view_def map_of_drop_key)
next
  case (3 s k ro)
  then show ?case by (simp add: file_sessions_def fs_Get_def fs_view_def)
next
  case (4 s k ok s')
  then show ?case by (auto simp: file_sessions_def fs_Delete_def fs_view_def map_of_drop_key)
next
  case (5 s i res s' k)
  then have "fs_DeleteByID s i = (res, s')" by (simp add: file_sessions_def)
  from fs_byid [OF 5(1) this] 5(3) show ?case by (auto split: if_splits)
next
  case (6 s i b s')
  then have "fs_DeleteByID s i = (Inr b, s')" by (simp add: file_sessions_def)
  from fs_byid [OF 6(1) this] show ?case by (cases b) fastforce+
next
  case (7 s rs)
  then show ?case by (auto simp: file_sessions_def fs_List_def fs_view_def fs_wf_def ran_distinct) force
next
  case (8 s t ok s')
  then have d: "distinct (map fst (fs_items s))" by (simp add: fs_wf_def)
  from 8 have "fs_items s' = filter (\<lambda>(_, r). \<not> se_ExpiresAt r < t) (fs_items s)"
    by (auto simp: file_sessions_def fs_PruneExpired_def Let_def split: if_splits)
  then have "fs_view s' = (\<lambda>k. case fs_view s k of None \<Rightarrow> None
      | Some r \<Rightarrow> if \<not> se_ExpiresAt r < t then Some r else None)"
    unfolding fs_view_def by (simp only: map_of_filter_val [OF d])
  also have "\<dots> = (\<lambda>k. case fs_view s k of None \<Rightarrow> None
      | Some r \<Rightarrow> if se_ExpiresAt r < t then None else Some r)"
    by (auto simp: fun_eq_iff split: option.split)
  finally show ?case by blast
next
  case (9 s r)
  then show ?case by (auto simp: file_sessions_def fs_Create_def fs_wf_def distinct_map_filter list_all_iff)
next
  case (10 s k)
  then show ?case by (auto simp: file_sessions_def fs_Delete_def fs_wf_def distinct_map_filter list_all_iff)
next
  case (11 s i)
  then show ?case
    by (auto simp: file_sessions_def fs_DeleteByID_def fs_wf_def distinct_map_filter list_all_iff split: option.split)
next
  case (12 s t)
  then show ?case
    by (auto simp: file_sessions_def fs_PruneExpired_def fs_wf_def distinct_map_filter list_all_iff Let_def)
qed

section \<open>Refinement of the abstract session table\<close>

text \<open>
  The specification: a finite map from token hashes to records, with the writes of the
  interface as steps. Revoking by identifier may take any one session of that identifier.
\<close>

datatype sess_op = SCreate sessionRecord | SDelete string | SRevoke string | SPrune int

inductive sess_step :: "(string \<rightharpoonup> sessionRecord) \<Rightarrow> sess_op \<Rightarrow> (string \<rightharpoonup> sessionRecord) \<Rightarrow> bool" where
  create: "sess_step m (SCreate r) (m(se_TokenHash r \<mapsto> r))"
| delete: "sess_step m (SDelete k) (m(k := None))"
| revoke: "m k = Some r \<Longrightarrow> se_ID r = i \<Longrightarrow> sess_step m (SRevoke i) (m(k := None))"
| revoke_none: "\<forall>r \<in> ran m. se_ID r \<noteq> i \<Longrightarrow> sess_step m (SRevoke i) m"
| prune: "sess_step m (SPrune t) (\<lambda>k. case m k of None \<Rightarrow> None | Some r \<Rightarrow> if se_ExpiresAt r < t then None else Some r)"

inductive sess_run :: "(string \<rightharpoonup> sessionRecord) \<Rightarrow> sess_op list \<Rightarrow> (string \<rightharpoonup> sessionRecord) \<Rightarrow> bool" where
  finish: "sess_run m [] m"
| more: "sess_step m op m' \<Longrightarrow> sess_run m' ops m'' \<Longrightarrow> sess_run m (op # ops) m''"

fun fs_op :: "sess_op \<Rightarrow> fileSessions \<Rightarrow> fileSessions" where
  "fs_op (SCreate r) s = snd (fs_Create s r)"
| "fs_op (SDelete k) s = snd (fs_Delete s k)"
| "fs_op (SRevoke i) s = snd (fs_DeleteByID s i)"
| "fs_op (SPrune t) s = snd (fs_PruneExpired s t)"

lemma fs_view_prune:
  assumes "fs_wf s"
  shows "fs_view (snd (fs_PruneExpired s t)) =
    (\<lambda>k. case fs_view s k of None \<Rightarrow> None | Some r \<Rightarrow> if se_ExpiresAt r < t then None else Some r)"
proof -
  have d: "distinct (map fst (fs_items s))" using assms by (simp add: fs_wf_def)
  have "fs_view (snd (fs_PruneExpired s t)) = map_of (filter (\<lambda>(_, r). \<not> se_ExpiresAt r < t) (fs_items s))"
    by (simp add: fs_view_def fs_PruneExpired_def Let_def)
  then show ?thesis by (auto simp: map_of_filter_val [OF d] fs_view_def fun_eq_iff split: option.split)
qed

lemma fs_op_step: "fs_wf s \<Longrightarrow> sess_step (fs_view s) op (fs_view (fs_op op s))"
proof (cases op)
  case (SRevoke i)
  assume wf: "fs_wf s"
  obtain res s' where s': "fs_DeleteByID s i = (res, s')" by fastforce
  from fs_byid [OF wf s'] show ?thesis
  proof (elim disjE exE conjE)
    fix k r
    assume "fs_view s k = Some r" "se_ID r = i" "fs_view s' = (fs_view s)(k := None)"
    then show ?thesis using sess_step.revoke by (simp add: SRevoke s')
  next
    assume "\<forall>k r. fs_view s k = Some r \<longrightarrow> se_ID r \<noteq> i" "s' = s"
    then have "\<forall>r \<in> ran (fs_view s). se_ID r \<noteq> i" "s' = s" by (auto simp: ran_def)
    then show ?thesis using sess_step.revoke_none by (simp add: SRevoke s')
  qed
qed (auto simp: fs_Create_def fs_Delete_def fs_view_def map_of_drop_key fs_view_prune [unfolded fs_view_def]
    intro: sess_step.intros)

lemma fs_op_wf: "fs_wf s \<Longrightarrow> fs_wf (fs_op op s)"
  using file_sess.sinv_create file_sess.sinv_delete file_sess.sinv_byid file_sess.sinv_prune
  by (cases op) (simp_all add: file_sessions_def)

text \<open>
  C23. The file-backed session store refines the abstract session table: every sequence of
  creations, deletions, revocations and prunings, whether or not the file can be written,
  is a run of the table, keeps the store well-formed, and afterwards a lookup answers with
  the table's entry and the listing enumerates exactly its records, newest first.
\<close>

theorem fileSessions_refines_table:
  assumes "fs_wf s"
  shows "sess_run (fs_view s) ops (fs_view (fold fs_op ops s)) \<and> fs_wf (fold fs_op ops s)
    \<and> fs_Get (fold fs_op ops s) k = Inr (fs_view (fold fs_op ops s) k)
    \<and> (\<exists>rs. fs_List (fold fs_op ops s) = Inr rs \<and> set rs = ran (fs_view (fold fs_op ops s))
         \<and> sorted (map (\<lambda>r. - se_CreatedAt r) rs) \<and> length rs = card (dom (fs_view (fold fs_op ops s))))"
proof -
  have "sess_run (fs_view s) ops (fs_view (fold fs_op ops s)) \<and> fs_wf (fold fs_op ops s)"
    using assms by (induction ops arbitrary: s) (auto intro: sess_run.intros fs_op_step fs_op_wf)
  moreover have "\<exists>rs. fs_List t = Inr rs \<and> set rs = ran (fs_view t)
      \<and> sorted (map (\<lambda>r. - se_CreatedAt r) rs) \<and> length rs = card (dom (fs_view t))" if "fs_wf t" for t
  proof -
    have "fs_List t = Inr (sort_key (\<lambda>r. - se_CreatedAt r) (map snd (fs_items t)))" by (simp add: fs_List_def)
    moreover have "set (sort_key (\<lambda>r. - se_CreatedAt r) (map snd (fs_items t))) = ran (fs_view t)"
      using file_sess.list_sview [OF that] by (simp add: file_sessions_def fs_List_def)
    moreover have "length (fs_items t) = card (dom (fs_view t))"
      using that by (metis fs_view_def fs_wf_def distinct_card dom_map_of_conv_image_fst length_map set_map)
    ultimately show ?thesis by simp
  qed
  ultimately show ?thesis by (simp add: fs_Get_def) (simp add: fs_view_def)
qed

theorem fileSessions_refines_table_witness:
  "\<exists>r. sess_run Map.empty [SCreate r, SRevoke ''a''] (fs_view (fold fs_op [SCreate r, SRevoke ''a''] \<lparr> fs_items = [], fs_writable = False \<rparr>))
     \<and> fs_Get (fold fs_op [SCreate r, SRevoke ''a''] \<lparr> fs_items = [], fs_writable = False \<rparr>) ''h'' = Inr None"
proof -
  let ?s = "\<lparr> fs_items = [], fs_writable = False \<rparr>"
  let ?r = "\<lparr> se_TokenHash = ''h'', se_ID = ''a'', se_Username = ''root'', se_CreatedAt = 0, se_ExpiresAt = 9,
    se_RemoteIP = [], se_CSRFHash = [] \<rparr>"
  have "fs_wf ?s" "fs_view ?s = Map.empty" by (simp_all add: fs_wf_def fs_view_def)
  with fileSessions_refines_table [of ?s "[SCreate ?r, SRevoke ''a'']" "''h''"] show ?thesis
    by (intro exI [of _ ?r]) (simp add: fs_Create_def fs_DeleteByID_def fs_Get_def)
qed

end
