(* ===== verification/RateLimit.thy ===== *)
theory RateLimit
  imports Prelude
begin

text \<open>
  \<open>cmd/saguaro/ratelimit.go\<close>: the login limiter with its exponential lockout. Times and
  durations are nanoseconds; the zero time is 0 and precedes every clock reading. The mutex
  makes every operation atomic, so a run is a sequence of operations.
\<close>

section \<open>Definitions\<close>

record limiterEntry =
  le_failures :: int
  le_lockedUntil :: int
  le_lastSeen :: int

record loginLimiter =
  ll_entries :: "string \<rightharpoonup> limiterEntry"
  ll_freeAttempts :: int
  ll_base :: int
  ll_cap :: int

definition second :: int where
  "second = 1000000000"

definition newLoginLimiter :: loginLimiter where
  "newLoginLimiter = \<lparr> ll_entries = Map.empty, ll_freeAttempts = 5, ll_base = 30 * second,
     ll_cap = 15 * 60 * second \<rparr>"

definition limiter_check :: "loginLimiter \<Rightarrow> string \<Rightarrow> int \<Rightarrow> bool \<times> int" where
  "limiter_check l key t =
     (case ll_entries l key of
        None \<Rightarrow> (False, 0)
      | Some e \<Rightarrow> if le_lockedUntil e < t then (False, 0) else (True, le_lockedUntil e - t))"

text \<open>The doubling loop of \<open>fail\<close>: \<open>for i := 1; i < over && d < cap; i++ { d *= 2 }\<close>.\<close>

function double_loop :: "int \<Rightarrow> int \<Rightarrow> int \<Rightarrow> int \<Rightarrow> int" where
  "double_loop cap over i d = (if i < over \<and> d < cap then double_loop cap over (i + 1) (d * 2) else d)"
  by pat_completeness auto
termination
  by (relation "measure (\<lambda>(cap, over, i, d). nat (over - i))") auto

declare double_loop.simps [simp del]

definition limiter_fail :: "loginLimiter \<Rightarrow> string \<Rightarrow> int \<Rightarrow> int \<times> loginLimiter" where
  "limiter_fail l key t =
     (let e0 = (case ll_entries l key of
                  None \<Rightarrow> \<lparr> le_failures = 0, le_lockedUntil = 0, le_lastSeen = 0 \<rparr> | Some e \<Rightarrow> e);
          e1 = e0 \<lparr> le_failures := le_failures e0 + 1, le_lastSeen := t \<rparr>;
          over = le_failures e1 - ll_freeAttempts l
      in if over \<le> 0 then (0, l \<lparr> ll_entries := (ll_entries l)(key \<mapsto> e1) \<rparr>)
         else let d0 = double_loop (ll_cap l) over 1 (ll_base l);
                  d = (if d0 > ll_cap l then ll_cap l else d0)
              in (d, l \<lparr> ll_entries := (ll_entries l)(key \<mapsto> e1 \<lparr> le_lockedUntil := t + d \<rparr>) \<rparr>))"

definition limiter_success :: "loginLimiter \<Rightarrow> string \<Rightarrow> loginLimiter" where
  "limiter_success l key = l \<lparr> ll_entries := (ll_entries l)(key := None) \<rparr>"

definition limiter_prune :: "loginLimiter \<Rightarrow> int \<Rightarrow> loginLimiter" where
  "limiter_prune l t =
     l \<lparr> ll_entries := (\<lambda>key. case ll_entries l key of
            None \<Rightarrow> None
          | Some e \<Rightarrow> if t - le_lastSeen e > ll_cap l \<and> le_lockedUntil e < t then None else Some e) \<rparr>"

section \<open>The backoff in closed form\<close>

text \<open>The documented schedule: base times a power of two, up to the cap.\<close>

definition lockout :: "int \<Rightarrow> int" where
  "lockout failures =
     (if failures \<le> 5 then 0 else min (15 * 60 * second) (30 * second * 2 ^ nat (failures - 6)))"

lemma double_loop_min:
  assumes "0 < d" "i \<le> over"
  shows "min cap (double_loop cap over i d) = min cap (d * 2 ^ nat (over - i))"
  using assms
proof (induction cap over i d rule: double_loop.induct)
  case (1 cap over i d)
  show ?case
  proof (cases "i < over \<and> d < cap")
    case True
    then have "nat (over - i) = Suc (nat (over - (i + 1)))" by linarith
    with True 1 show ?thesis by (subst double_loop.simps) (simp add: mult.assoc)
  next
    case False
    show ?thesis
    proof (cases "i < over")
      case i: True
      with False have "cap \<le> d" by simp
      moreover have "d \<le> d * 2 ^ nat (over - i)" using 1(2) by simp
      ultimately have "cap \<le> d * 2 ^ nat (over - i)" by (rule order_trans)
      with \<open>cap \<le> d\<close> False show ?thesis by (subst double_loop.simps) (simp add: min_def)
    next
      case i: False
      with 1(3) have "over = i" by simp
      then show ?thesis by (subst double_loop.simps) simp
    qed
  qed
qed

section \<open>Reachable limiters\<close>

text \<open>
  Every state the limiter can reach from its constructor, with any interleaving of the
  operations on any keys at positive clock readings.
\<close>

inductive limiter_reach :: "loginLimiter \<Rightarrow> bool" where
  init: "limiter_reach newLoginLimiter"
| fail: "limiter_reach l \<Longrightarrow> 0 < t \<Longrightarrow> limiter_reach (snd (limiter_fail l key t))"
| success: "limiter_reach l \<Longrightarrow> limiter_reach (limiter_success l key)"
| prune: "limiter_reach l \<Longrightarrow> limiter_reach (limiter_prune l t)"

definition entry_ok :: "limiterEntry \<Rightarrow> bool" where
  "entry_ok e \<longleftrightarrow> 1 \<le> le_failures e \<and> 0 < le_lastSeen e
     \<and> le_lockedUntil e = (if le_failures e \<le> 5 then 0 else le_lastSeen e + lockout (le_failures e))"

definition limiter_inv :: "loginLimiter \<Rightarrow> bool" where
  "limiter_inv l \<longleftrightarrow> ll_freeAttempts l = 5 \<and> ll_base l = 30 * second \<and> ll_cap l = 15 * 60 * second
     \<and> (\<forall>key e. ll_entries l key = Some e \<longrightarrow> entry_ok e)"

lemma lock_value:
  assumes "5 < n"
  shows "(let d0 = double_loop (15 * 60 * second) (n - 5) 1 (30 * second)
          in if d0 > 15 * 60 * second then 15 * 60 * second else d0) = lockout n"
proof -
  have "min (15 * 60 * second) (double_loop (15 * 60 * second) (n - 5) 1 (30 * second)) =
      min (15 * 60 * second) (30 * second * 2 ^ nat (n - 5 - 1))"
    using assms by (intro double_loop_min) (simp_all add: second_def)
  moreover have "n - 5 - 1 = n - 6" by simp
  ultimately show ?thesis using assms by (auto simp: lockout_def Let_def min_def split: if_splits)
qed

lemma limiter_fail_value:
  assumes "limiter_inv l" and n_def: "n = (case ll_entries l key of None \<Rightarrow> 0 | Some e \<Rightarrow> le_failures e) + 1"
  shows "limiter_fail l key t = (lockout n, l \<lparr> ll_entries := (ll_entries l)(key \<mapsto>
     \<lparr> le_failures = n, le_lockedUntil = (if n \<le> 5 then 0 else t + lockout n), le_lastSeen = t \<rparr>) \<rparr>)"
proof -
  obtain f lu ls where e: "(case ll_entries l key of
      None \<Rightarrow> \<lparr> le_failures = 0, le_lockedUntil = 0, le_lastSeen = 0 \<rparr> | Some e \<Rightarrow> e) =
        \<lparr> le_failures = f, le_lockedUntil = lu, le_lastSeen = ls \<rparr>" (is "?e0 = _")
    by (metis limiterEntry.cases)
  have n: "n = f + 1" using e by (auto simp: n_def split: option.splits)
  have lu: "lu = 0" if "n \<le> 5"
  proof (cases "ll_entries l key")
    case None with e show ?thesis by simp
  next
    case (Some x)
    with assms(1) have "entry_ok x" by (auto simp: limiter_inv_def)
    with Some e that n show ?thesis by (auto simp: entry_ok_def)
  qed
  have inv: "ll_freeAttempts l = 5" "ll_base l = 30 * second" "ll_cap l = 15 * 60 * second"
    using assms(1) by (simp_all add: limiter_inv_def)
  show ?thesis
  proof (cases "n \<le> 5")
    case True
    with lu n show ?thesis unfolding limiter_fail_def e by (simp add: inv lockout_def)
  next
    case False
    with lock_value [of n] n show ?thesis
      unfolding limiter_fail_def e by (auto simp: inv Let_def split: if_splits)
  qed
qed

lemma limiter_reach_inv: "limiter_reach l \<Longrightarrow> limiter_inv l"
proof (induction rule: limiter_reach.induct)
  case init
  show ?case by (simp add: newLoginLimiter_def limiter_inv_def)
next
  case (fail l t key)
  have "1 \<le> (case ll_entries l key of None \<Rightarrow> 0 | Some e \<Rightarrow> le_failures e) + 1"
    using fail.IH by (auto simp: limiter_inv_def entry_ok_def split: option.split) force
  with fail show ?case
    unfolding limiter_fail_value [OF fail.IH refl] by (auto simp: limiter_inv_def entry_ok_def)
next
  case (success l key)
  then show ?case by (auto simp: limiter_inv_def limiter_success_def)
next
  case (prune l t)
  then show ?case
    by (auto simp: limiter_inv_def limiter_prune_def split: option.splits if_splits)
qed

text \<open>
  The lockout schedule. In every reachable limiter a failed attempt returns no lock while
  the key has had fewer than five failures since it was last cleared, and otherwise 30 seconds
  doubled for every further failure, at most 15 minutes; the key is then locked for exactly
  that long (both ends included), and the other keys are untouched.
\<close>

theorem limiter_fail_schedule:
  assumes "limiter_reach l" "0 < t"
  shows "\<exists>n. n = (case ll_entries l key of None \<Rightarrow> 0 | Some e \<Rightarrow> le_failures e) + 1 \<and> 1 \<le> n
    \<and> fst (limiter_fail l key t) = lockout n \<and> lockout n \<le> 15 * 60 * second
    \<and> (\<forall>u. t \<le> u \<longrightarrow> limiter_check (snd (limiter_fail l key t)) key u =
          (if 5 < n \<and> u \<le> t + lockout n then (True, t + lockout n - u) else (False, 0)))
    \<and> (\<forall>k u. k \<noteq> key \<longrightarrow> limiter_check (snd (limiter_fail l key t)) k u = limiter_check l k u)"
proof -
  note inv = limiter_reach_inv [OF assms(1)]
  let ?n = "(case ll_entries l key of None \<Rightarrow> 0 | Some e \<Rightarrow> le_failures e) + 1"
  have "1 \<le> ?n" using inv by (auto simp: limiter_inv_def entry_ok_def split: option.split) force
  moreover have "lockout ?n \<le> 15 * 60 * second" by (simp add: lockout_def second_def)
  ultimately show ?thesis
    using assms(2) by (auto simp: limiter_fail_value [OF inv refl] limiter_check_def)
qed

theorem limiter_fail_schedule_witness:
  "fst (limiter_fail newLoginLimiter ''u'' 1) = 0 \<and> \<not> fst (limiter_check (snd (limiter_fail newLoginLimiter ''u'' 1)) ''u'' 2)"
  using limiter_fail_schedule [OF limiter_reach.init, of 1 "''u''"]
  by (auto simp: newLoginLimiter_def lockout_def)

text \<open>
  Pruning never unlocks: at any time from the pruning on, a key is locked after it exactly
  when it was before, with the same remaining time. Success clears the key and no other.
\<close>

theorem limiter_prune_keeps_locks:
  assumes "t \<le> u"
  shows "limiter_check (limiter_prune l t) key u = limiter_check l key u
    \<and> limiter_check (limiter_success l key) key u = (False, 0)
    \<and> (\<forall>k. k \<noteq> key \<longrightarrow> limiter_check (limiter_success l key) k u = limiter_check l k u)"
  using assms by (auto simp: limiter_check_def limiter_prune_def limiter_success_def split: option.split)

theorem limiter_prune_keeps_locks_witness:
  "limiter_check (limiter_prune (snd (limiter_fail newLoginLimiter ''u'' 1)) 5) ''u'' 9 =
     limiter_check (snd (limiter_fail newLoginLimiter ''u'' 1)) ''u'' 9"
  using limiter_prune_keeps_locks [of 5 9 "snd (limiter_fail newLoginLimiter ''u'' 1)" "''u''"] by simp

end
