(* ===== verification/Auth.thy ===== *)
theory Auth
  imports Sessions RateLimit
begin

text \<open>
  \<open>main.go\<close> (login, logout, the authentication middleware, session views), \<open>authz.go\<close>
  (the permission check) and \<open>apitokens.go\<close> (bearer tokens). The clock is read once per
  request. SHA-256, password verification and random secrets are parameters.
\<close>

section \<open>State and environment\<close>

record apiToken =
  at_ID :: string
  at_Name :: string
  at_Role :: string
  at_Hash :: string
  at_Preview :: string
  at_CreatedAt :: int
  at_CreatedBy :: string
  at_ExpiresAt :: int
  at_LastUsed :: int

record ('u, 's) authApp =
  aa_users :: 'u
  aa_sessions :: 's
  aa_ipLimiter :: loginLimiter
  aa_userLimiter :: loginLimiter
  aa_tokens :: "apiToken list"
  aa_audit :: "auditEvent list"

text \<open>The parts of the process that do not change: stores, hashing, configuration.\<close>

record ('u, 's) authEnv =
  ev_users :: "'u userStore"
  ev_sessions :: "'s sessionStore"
  ev_hashToken :: "string \<Rightarrow> string"
  ev_verifyPassword :: "string \<Rightarrow> string \<Rightarrow> bool"
  ev_dummyPHC :: string
  ev_sessionTTL :: int
  ev_adminUser :: string

record httpReq =
  hr_Method :: string
  hr_Path :: string
  hr_Cookie :: "string option"
  hr_CSRF :: string
  hr_Authorization :: string
  hr_ip :: string
  hr_now :: int

definition ctx_of :: "('u, 's) authEnv \<Rightarrow> httpReq \<Rightarrow> userRecord option \<Rightarrow> reqctx" where
  "ctx_of ev r u = \<lparr> rq_user = u, rq_ip = hr_ip r, rq_now = hr_now r, rq_adminUser = ev_adminUser ev \<rparr>"

definition audit_sev :: "('u, 's) authEnv \<Rightarrow> httpReq \<Rightarrow> string \<Rightarrow> string \<Rightarrow> string \<Rightarrow> string \<Rightarrow> string
    \<Rightarrow> ('u, 's) authApp \<Rightarrow> ('u, 's) authApp" where
  "audit_sev ev r who action target result severity a =
     a \<lparr> aa_audit := recordSev (ctx_of ev r None) who action target result severity (aa_audit a) \<rparr>"

section \<open>Bearer tokens\<close>

definition apiTokenPrefix :: string where
  "apiTokenPrefix = ''sgs_''"

definition tokenNameRe :: "string \<Rightarrow> bool" where
  "tokenNameRe = re_rep iface_char 1 40"

definition token_expired :: "apiToken \<Rightarrow> int \<Rightarrow> bool" where
  "token_expired t n \<longleftrightarrow> at_ExpiresAt t \<noteq> 0 \<and> at_ExpiresAt t < n"

definition bearerToken :: "httpReq \<Rightarrow> string" where
  "bearerToken r =
     (let h = hr_Authorization r
      in if length h > 7 \<and> EqualFold (take 7 h) ''bearer '' then TrimSpace (drop 7 h) else [])"

text \<open>The loop of \<open>authenticateToken\<close>: the last index that matches, or -1.\<close>

fun token_index :: "string \<Rightarrow> int \<Rightarrow> int \<Rightarrow> int \<Rightarrow> apiToken list \<Rightarrow> int" where
  "token_index want n i idx [] = idx"
| "token_index want n i idx (t # ts) =
     token_index want n (i + 1) (if at_Hash t = want \<and> \<not> token_expired t n then i else idx) ts"

definition minute :: int where
  "minute = 60 * second"

text \<open>
  \<open>authenticateToken\<close> on the snapshot of the tokens it read: the user it resolves to, and
  the token list it writes back, if it does.
\<close>

definition token_decide ::
  "(string \<Rightarrow> string) \<Rightarrow> string \<Rightarrow> int \<Rightarrow> apiToken list \<Rightarrow> (userRecord \<times> apiToken list option) option" where
  "token_decide hashToken secret n toks =
     (if \<not> HasPrefix secret apiTokenPrefix then None
      else let idx = token_index (hashToken secret) n 0 (-1) toks
           in if idx < 0 then None
              else let t = toks ! nat idx;
                       u = \<lparr> ur_Username = ''token:'' @ at_Name t, ur_PHC = [], ur_Role = at_Role t,
                             ur_Enabled = True, ur_CreatedAt = 0, ur_MustChangePassword = False \<rparr>
                   in Some (u, if n - at_LastUsed t > minute
                               then Some (toks[nat idx := t \<lparr> at_LastUsed := n \<rparr>]) else None))"

definition authenticateToken ::
  "(string \<Rightarrow> string) \<Rightarrow> string \<Rightarrow> int \<Rightarrow> apiToken list \<Rightarrow> userRecord option \<times> apiToken list" where
  "authenticateToken hashToken secret n toks =
     (case token_decide hashToken secret n toks of
        None \<Rightarrow> (None, toks)
      | Some (u, w) \<Rightarrow> (Some u, case w of None \<Rightarrow> toks | Some toks' \<Rightarrow> toks'))"

section \<open>The middleware\<close>

definition mustChangeAllowed :: "httpReq \<Rightarrow> bool" where
  "mustChangeAllowed r \<longleftrightarrow>
     hr_Method r = ''GET'' \<and> hr_Path r = ''/api/profile''
   \<or> hr_Method r = ''POST'' \<and> hr_Path r = ''/api/profile/password''
   \<or> hr_Method r = ''POST'' \<and> hr_Path r = ''/api/logout''"

text \<open>What reaches the handler: the user, and the session's token hash unless a token was used.\<close>

datatype authOutcome = Refused response | Admitted userRecord "string option"

definition drop_session :: "('u, 's) authEnv \<Rightarrow> string \<Rightarrow> ('u, 's) authApp \<Rightarrow> ('u, 's) authApp" where
  "drop_session ev h a = a \<lparr> aa_sessions := snd (ss_Delete (ev_sessions ev) (aa_sessions a) h) \<rparr>"

definition safe_method :: "string \<Rightarrow> bool" where
  "safe_method m \<longleftrightarrow> m = ''GET'' \<or> m = ''HEAD'' \<or> m = ''OPTIONS''"

definition session_auth :: "('u, 's) authEnv \<Rightarrow> httpReq \<Rightarrow> string \<Rightarrow> ('u, 's) authApp \<Rightarrow> authOutcome \<times> ('u, 's) authApp" where
  "session_auth ev r cookie a =
     (let tokenHash = ev_hashToken ev cookie
      in case ss_Get (ev_sessions ev) (aa_sessions a) tokenHash of
           Inl _ \<Rightarrow> (Refused (500, BError ''session store unavailable''), a)
         | Inr None \<Rightarrow> (Refused (401, BError ''authentication required''), a)
         | Inr (Some rec) \<Rightarrow>
             if se_ExpiresAt rec < hr_now r then
               (Refused (401, BError ''authentication required''), drop_session ev tokenHash a)
             else if \<not> safe_method (hr_Method r)
                \<and> (hr_CSRF r = [] \<or> se_CSRFHash rec = [] \<or> ev_hashToken ev (hr_CSRF r) \<noteq> se_CSRFHash rec) then
               (Refused (403, BError ''missing or invalid CSRF token''),
                audit_sev ev r (se_Username rec) ''csrf-reject'' (hr_Path r) ''denied'' ''security'' a)
             else (case resolveUser (ev_users ev) (aa_users a) (se_Username rec) of
                None \<Rightarrow> (Refused (401, BError ''authentication required''), drop_session ev tokenHash a)
              | Some user \<Rightarrow>
                  if ur_MustChangePassword user \<and> \<not> mustChangeAllowed r then
                    (Refused (403, BError ''password change required before continuing''), a)
                  else (Admitted user (Some tokenHash), a)))"

definition auth :: "('u, 's) authEnv \<Rightarrow> httpReq \<Rightarrow> ('u, 's) authApp \<Rightarrow> authOutcome \<times> ('u, 's) authApp" where
  "auth ev r a =
     (let secret = bearerToken r
      in if secret \<noteq> [] then
           (case authenticateToken (ev_hashToken ev) secret (hr_now r) (aa_tokens a) of
              (None, toks) \<Rightarrow>
                (Refused (401, BError ''invalid or expired API token''),
                 audit_sev ev r ''token'' ''token-reject'' (hr_Path r) ''denied'' ''security''
                   (a \<lparr> aa_tokens := toks \<rparr>))
            | (Some user, toks) \<Rightarrow> (Admitted user None, a \<lparr> aa_tokens := toks \<rparr>))
         else (case hr_Cookie r of
                 None \<Rightarrow> (Refused (401, BError ''authentication required''), a)
               | Some c \<Rightarrow> session_auth ev r c a))"

definition authz :: "('u, 's) authEnv \<Rightarrow> string \<Rightarrow> httpReq \<Rightarrow> ('u, 's) authApp \<Rightarrow> authOutcome \<times> ('u, 's) authApp" where
  "authz ev perm r a =
     (case auth ev r a of
        (Refused resp, a') \<Rightarrow> (Refused resp, a')
      | (Admitted u sess, a') \<Rightarrow>
          if \<not> roleAllows (ur_Role u) perm then
            (Refused (403, BError ''your role does not permit this action''),
             audit_sev ev r (ur_Username u) ''authz-deny'' (perm @ '' '' @ hr_Path r) ''denied'' ''security'' a')
          else (Admitted u sess, a'))"

section \<open>Login and logout\<close>

definition maxDuration :: "int \<Rightarrow> int \<Rightarrow> int" where
  "maxDuration x y = (if x > y then x else y)"

definition retry_seconds :: "int \<Rightarrow> int" where
  "retry_seconds retry = retry div second + 1"

definition writeLocked :: "int \<Rightarrow> response" where
  "writeLocked retry = (429, BError (''too many failed logins; retry in '' @ Itoa (retry_seconds retry) @ ''s''))"

record loginInput =
  li_Username :: string
  li_Password :: string

text \<open>The two random secrets are arguments; a success answers with them in cookies.\<close>

datatype loginResult = LoginRefused response | LoginOk userRecord string string

definition login_failed :: "('u, 's) authEnv \<Rightarrow> httpReq \<Rightarrow> string \<Rightarrow> ('u, 's) authApp \<Rightarrow> loginResult \<times> ('u, 's) authApp" where
  "login_failed ev r username a =
     (let (lockIP, ipl) = limiter_fail (aa_ipLimiter a) (''ip:'' @ hr_ip r) (hr_now r);
          (lockUser, ul) = limiter_fail (aa_userLimiter a) (''user:'' @ username) (hr_now r);
          a1 = audit_sev ev r username ''login'' ''control-plane'' ''denied'' ''info''
                 (a \<lparr> aa_ipLimiter := ipl, aa_userLimiter := ul \<rparr>);
          lock = maxDuration lockIP lockUser
      in if lock > 0 then
           (LoginRefused (writeLocked lock),
            audit_sev ev r username ''login-lockout'' ''control-plane'' ''locked'' ''security'' a1)
         else (LoginRefused (401, BError ''invalid credentials''), a1))"

definition login :: "('u, 's) authEnv \<Rightarrow> httpReq \<Rightarrow> string + loginInput \<Rightarrow> string \<Rightarrow> string
    \<Rightarrow> ('u, 's) authApp \<Rightarrow> loginResult \<times> ('u, 's) authApp" where
  "login ev r input token csrf a =
     (case input of
        Inl msg \<Rightarrow> (LoginRefused (400, BError msg), a)
      | Inr i \<Rightarrow>
          let ipLock = limiter_check (aa_ipLimiter a) (''ip:'' @ hr_ip r) (hr_now r);
              userLock = limiter_check (aa_userLimiter a) (''user:'' @ li_Username i) (hr_now r)
          in if fst ipLock then (LoginRefused (writeLocked (snd ipLock)), a)
             else if fst userLock then (LoginRefused (writeLocked (snd userLock)), a)
             else case us_Get (ev_users ev) (aa_users a) (ToLower (TrimSpace (li_Username i))) of
                Inl _ \<Rightarrow> (LoginRefused (500, BError ''user store unavailable''), a)
              | Inr rec0 \<Rightarrow>
                  let phc = (case rec0 of None \<Rightarrow> ev_dummyPHC ev | Some u \<Rightarrow> ur_PHC u)
                  in if \<not> ev_verifyPassword ev (li_Password i) phc
                       \<or> (case rec0 of None \<Rightarrow> True | Some u \<Rightarrow> \<not> ur_Enabled u)
                     then login_failed ev r (li_Username i) a
                     else let u = the rec0; tokenHash = ev_hashToken ev token;
                              rec = \<lparr> se_TokenHash = tokenHash, se_ID = sessionID tokenHash,
                                      se_Username = ur_Username u, se_CreatedAt = hr_now r,
                                      se_ExpiresAt = hr_now r + ev_sessionTTL ev, se_RemoteIP = hr_ip r,
                                      se_CSRFHash = ev_hashToken ev csrf \<rparr>;
                              a1 = a \<lparr> aa_ipLimiter := limiter_success (aa_ipLimiter a) (''ip:'' @ hr_ip r),
                                       aa_userLimiter := limiter_success (aa_userLimiter a) (''user:'' @ li_Username i) \<rparr>;
                              (ok, s') = ss_Create (ev_sessions ev) (aa_sessions a) rec
                          in if \<not> ok then
                               (LoginRefused (500, BError ''session store unavailable''), a1 \<lparr> aa_sessions := s' \<rparr>)
                             else (LoginOk u token csrf,
                                   audit_sev ev r (ur_Username u) ''login'' ''control-plane'' ''success'' ''info''
                                     (a1 \<lparr> aa_sessions := s' \<rparr>)))"

definition logout :: "('u, 's) authEnv \<Rightarrow> httpReq \<Rightarrow> ('u, 's) authApp \<Rightarrow> response \<times> ('u, 's) authApp" where
  "logout ev r a =
     ((200, BOk),
      case hr_Cookie r of None \<Rightarrow> a | Some c \<Rightarrow> drop_session ev (ev_hashToken ev c) a)"

record sessionView =
  sv_ID :: string
  sv_Username :: string
  sv_CreatedAt :: int
  sv_ExpiresAt :: int
  sv_RemoteIP :: string
  sv_Current :: bool

text \<open>The session list of the authenticated user \<open>me\<close> with the current token hash.\<close>

definition listSessions :: "('u, 's) authEnv \<Rightarrow> userRecord \<Rightarrow> string option \<Rightarrow> ('u, 's) authApp \<Rightarrow> response + sessionView list" where
  "listSessions ev me current a =
     (case ss_List (ev_sessions ev) (aa_sessions a) of
        Inl _ \<Rightarrow> Inl (500, BError ''session store unavailable'')
      | Inr recs \<Rightarrow>
          let seeAll = roleAllows (ur_Role me) ''sessions:revoke''
          in Inr (map (\<lambda>rec. \<lparr> sv_ID = se_ID rec, sv_Username = se_Username rec,
                       sv_CreatedAt = se_CreatedAt rec, sv_ExpiresAt = se_ExpiresAt rec,
                       sv_RemoteIP = se_RemoteIP rec,
                       sv_Current = (se_TokenHash rec = (case current of None \<Rightarrow> [] | Some h \<Rightarrow> h)) \<rparr>)
                    (filter (\<lambda>rec. seeAll \<or> se_Username rec = ur_Username me) recs)))"

definition revokeSession :: "('u, 's) authEnv \<Rightarrow> httpReq \<Rightarrow> userRecord \<Rightarrow> string \<Rightarrow> ('u, 's) authApp \<Rightarrow> response \<times> ('u, 's) authApp" where
  "revokeSession ev r me i a =
     (case ss_DeleteByID (ev_sessions ev) (aa_sessions a) i of
        (Inl _, s') \<Rightarrow> ((500, BError ''session store unavailable''), a \<lparr> aa_sessions := s' \<rparr>)
      | (Inr False, s') \<Rightarrow> ((404, BError ''session not found''), a \<lparr> aa_sessions := s' \<rparr>)
      | (Inr True, s') \<Rightarrow>
          ((200, BOk), audit_sev ev r (actor (ctx_of ev r (Some me))) ''session-revoke'' i ''success'' ''info''
                         (a \<lparr> aa_sessions := s' \<rparr>)))"

section \<open>Token management\<close>

text \<open>
  \<open>saved\<close> tells whether the state file could be written; the list changes either way.
  \<open>random\<close> is the encoded secret, \<open>None\<close> when the random source failed.
\<close>

definition interactive_only :: string where
  "interactive_only = ''upravljanje tokenima tra'' @ [CHR 0xC5, CHR 0xBE] @ ''i prijavu korisnika; API token ne mo''
     @ [CHR 0xC5, CHR 0xBE] @ ''e stvarati ni brisati tokene''"

record tokenInput =
  ti_Name :: string
  ti_Role :: string
  ti_Days :: int

definition newAPIToken :: "(string \<Rightarrow> string) \<Rightarrow> string \<Rightarrow> string \<Rightarrow> string \<Rightarrow> string \<Rightarrow> string \<Rightarrow> int \<Rightarrow> int \<Rightarrow> string \<times> apiToken" where
  "newAPIToken hashToken newid encoded name role createdBy n ttl =
     (let secret = apiTokenPrefix @ encoded
      in (secret, \<lparr> at_ID = newid, at_Name = name, at_Role = role, at_Hash = hashToken secret,
            at_Preview = take (length apiTokenPrefix + 6) secret, at_CreatedAt = n, at_CreatedBy = createdBy,
            at_ExpiresAt = (if ttl > 0 then n + ttl else 0), at_LastUsed = 0 \<rparr>))"

definition day :: int where
  "day = 24 * 3600 * second"

definition apiTokensCreate ::
  "('u, 's) authEnv \<Rightarrow> httpReq \<Rightarrow> userRecord \<Rightarrow> bool \<Rightarrow> string + tokenInput \<Rightarrow> string \<Rightarrow> string option \<Rightarrow> bool
     \<Rightarrow> ('u, 's) authApp \<Rightarrow> (response + string \<times> apiToken) \<times> ('u, 's) authApp" where
  "apiTokensCreate ev r me tokenAuth input newid random saved a =
     (if tokenAuth then (Inl (403, BError interactive_only), a)
      else case input of
        Inl msg \<Rightarrow> (Inl (400, BError msg), a)
      | Inr i \<Rightarrow>
          let name = TrimSpace (ti_Name i)
          in if \<not> tokenNameRe name then (Inl (400, BError ''ime tokena: 1-40 znakova (slova, brojke, . _ -)''), a)
             else if rolePermissions (ti_Role i) = None then (Inl (400, BError ''nepoznata uloga''), a)
             else if ti_Days i < 0 \<or> ti_Days i > 3650 then 
               (Inl (400, BError (''trajanje mora biti izme'' @ [CHR 0xC4, CHR 0x91] @ ''u 0 (bez isteka) i 3650 dana'')), a)
             else if list_ex (\<lambda>t. EqualFold (at_Name t) name) (aa_tokens a) then
               (Inl (409, BError (''token s tim imenom ve'' @ [CHR 0xC4, CHR 0x87] @ '' postoji'')), a)
             else case random of
               None \<Rightarrow> (Inl (500, BError ''cannot generate token''), a)
             | Some encoded \<Rightarrow>
                 let (secret, rec) = newAPIToken (ev_hashToken ev) newid encoded name (ti_Role i)
                        (ur_Username me) (hr_now r) (ti_Days i * day);
                      a1 = a \<lparr> aa_tokens := aa_tokens a @ [rec] \<rparr>
                  in if \<not> saved then (Inl (500, BError ''cannot persist token''), a1)
                     else (Inr (secret, rec),
                           audit_sev ev r (ur_Username me) ''api-token-create'' name ''success'' ''security'' a1))"

definition revoke_filter :: "string \<Rightarrow> apiToken list \<Rightarrow> string \<times> apiToken list" where
  "revoke_filter i toks =
     (foldl (\<lambda>n t. if at_ID t = i then at_Name t else n) [] toks, filter (\<lambda>t. at_ID t \<noteq> i) toks)"

definition apiTokensRevoke ::
  "('u, 's) authEnv \<Rightarrow> httpReq \<Rightarrow> userRecord \<Rightarrow> bool \<Rightarrow> string \<Rightarrow> bool \<Rightarrow> ('u, 's) authApp \<Rightarrow> response \<times> ('u, 's) authApp" where
  "apiTokensRevoke ev r me tokenAuth i saved a =
     (if tokenAuth then ((403, BError interactive_only), a)
      else let (revoked, out) = revoke_filter i (aa_tokens a)
           in if revoked = [] then ((404, BError ''nepoznat token''), a)
              else if \<not> saved then ((500, BError ''cannot persist tokens''), a \<lparr> aa_tokens := out \<rparr>)
              else ((200, BOk), audit_sev ev r (ur_Username me) ''api-token-revoke'' revoked ''success'' ''security''
                                  (a \<lparr> aa_tokens := out \<rparr>)))"

section \<open>What a token admits\<close>

lemma token_index_cases:
  "0 \<le> i \<Longrightarrow> idx < i \<Longrightarrow> token_index want n i idx ts = idx
   \<or> (\<exists>k < length ts. token_index want n i idx ts = i + int k
        \<and> at_Hash (ts ! k) = want \<and> \<not> token_expired (ts ! k) n)"
proof (induction ts arbitrary: i idx)
  case (Cons t ts)
  let ?idx = "if at_Hash t = want \<and> \<not> token_expired t n then i else idx"
  from Cons.IH [of "i + 1" ?idx] Cons.prems have
    "token_index want n (i + 1) ?idx ts = ?idx
     \<or> (\<exists>k < length ts. token_index want n (i + 1) ?idx ts = i + 1 + int k
        \<and> at_Hash (ts ! k) = want \<and> \<not> token_expired (ts ! k) n)" by auto
  then show ?case
  proof
    assume "token_index want n (i + 1) ?idx ts = ?idx"
    then show ?thesis by (auto intro: exI [of _ 0])
  next
    assume "\<exists>k < length ts. token_index want n (i + 1) ?idx ts = i + 1 + int k
        \<and> at_Hash (ts ! k) = want \<and> \<not> token_expired (ts ! k) n"
    then obtain k where "k < length ts" "token_index want n (i + 1) ?idx ts = i + 1 + int k"
      "at_Hash (ts ! k) = want" "\<not> token_expired (ts ! k) n" by blast
    then show ?thesis by (intro disjI2 exI [of _ "Suc k"]) simp
  qed
qed simp

lemma token_decide_Some:
  assumes "token_decide H secret n toks = Some (u, w)"
  shows "HasPrefix secret apiTokenPrefix \<and> (\<exists>k < length toks. at_Hash (toks ! k) = H secret
     \<and> \<not> token_expired (toks ! k) n \<and> ur_Role u = at_Role (toks ! k)
     \<and> ur_Username u = ''token:'' @ at_Name (toks ! k)
     \<and> w = (if n - at_LastUsed (toks ! k) > minute
            then Some (toks[k := (toks ! k) \<lparr> at_LastUsed := n \<rparr>]) else None))"
proof -
  let ?idx = "token_index (H secret) n 0 (-1) toks"
  from assms have p: "HasPrefix secret apiTokenPrefix" "\<not> ?idx < 0"
    by (auto simp: token_decide_def Let_def split: if_splits)
  from token_index_cases [of 0 "-1" "H secret" n toks] p(2) obtain k where
    k: "k < length toks" "?idx = int k" "at_Hash (toks ! k) = H secret" "\<not> token_expired (toks ! k) n" by auto
  from assms p k(2) have "ur_Role u = at_Role (toks ! k)" "ur_Username u = ''token:'' @ at_Name (toks ! k)"
    "w = (if n - at_LastUsed (toks ! k) > minute then Some (toks[k := (toks ! k) \<lparr> at_LastUsed := n \<rparr>]) else None)"
    by (auto simp: token_decide_def Let_def)
  with p(1) k show ?thesis by blast
qed

section \<open>Requests over time\<close>

text \<open>
  Everything that can happen to the state between two requests: guarded requests, logins
  whose session secret is drawn from \<open>D\<close>, logouts, revocations, the expiry sweep, user
  management and token management, in any order and any number.
\<close>

definition with_users :: "('u, 's) authApp \<Rightarrow> 'u usersApp \<Rightarrow> ('u, 's) authApp" where
  "with_users a b = a \<lparr> aa_users := ua_users b, aa_audit := ua_audit b \<rparr>"

definition users_of :: "('u, 's) authApp \<Rightarrow> 'u usersApp" where
  "users_of a = \<lparr> ua_users = aa_users a, ua_audit = aa_audit a \<rparr>"

inductive auth_reach :: "('u, 's) authEnv \<Rightarrow> string set \<Rightarrow> ('u, 's) authApp \<Rightarrow> ('u, 's) authApp \<Rightarrow> bool"
  for ev D a0 where
  start: "auth_reach ev D a0 a0"
| request: "auth_reach ev D a0 a \<Longrightarrow> auth_reach ev D a0 (snd (authz ev perm r a))"
| login: "auth_reach ev D a0 a \<Longrightarrow> tok \<in> D \<Longrightarrow> auth_reach ev D a0 (snd (login ev r input tok csrf a))"
| logout: "auth_reach ev D a0 a \<Longrightarrow> auth_reach ev D a0 (snd (logout ev r a))"
| revoke: "auth_reach ev D a0 a \<Longrightarrow> auth_reach ev D a0 (snd (revokeSession ev r me i a))"
| sweep: "auth_reach ev D a0 a \<Longrightarrow>
    auth_reach ev D a0 (a \<lparr> aa_sessions := snd (ss_PruneExpired (ev_sessions ev) (aa_sessions a) t) \<rparr>)"
| users: "auth_reach ev D a0 a \<Longrightarrow> users_reach (ev_users ev) h v (users_of a) b \<Longrightarrow>
    auth_reach ev D a0 (with_users a b)"
| token_create: "auth_reach ev D a0 a \<Longrightarrow>
    auth_reach ev D a0 (snd (apiTokensCreate ev r me ta tin newid rnd saved a))"
| token_revoke: "auth_reach ev D a0 a \<Longrightarrow> auth_reach ev D a0 (snd (apiTokensRevoke ev r me ta i saved a))"

lemma audit_sev_fields [simp]:
  "aa_users (audit_sev ev r w ac t re se a) = aa_users a" "aa_sessions (audit_sev ev r w ac t re se a) = aa_sessions a"
  "aa_tokens (audit_sev ev r w ac t re se a) = aa_tokens a"
  "aa_ipLimiter (audit_sev ev r w ac t re se a) = aa_ipLimiter a"
  "aa_userLimiter (audit_sev ev r w ac t re se a) = aa_userLimiter a"
  by (simp_all add: audit_sev_def)

lemma token_ops_sessions [simp]:
  "aa_sessions (snd (apiTokensCreate ev r me ta tin newid rnd saved a)) = aa_sessions a"
  "aa_sessions (snd (apiTokensRevoke ev r me ta i saved a)) = aa_sessions a"
  by (auto simp: apiTokensCreate_def apiTokensRevoke_def Let_def split: sum.split option.split prod.split)

text \<open>A request only ever drops the session of its own cookie.\<close>

lemma session_auth_sessions:
  "aa_sessions (snd (session_auth ev r c a)) = aa_sessions a
   \<or> aa_sessions (snd (session_auth ev r c a)) = snd (ss_Delete (ev_sessions ev) (aa_sessions a) (ev_hashToken ev c))"
  by (auto simp: session_auth_def drop_session_def Let_def split: sum.split option.split)

lemma authz_sessions:
  "aa_sessions (snd (authz ev perm r a)) = aa_sessions a
   \<or> (\<exists>k. aa_sessions (snd (authz ev perm r a)) = snd (ss_Delete (ev_sessions ev) (aa_sessions a) k))"
proof -
  have "aa_sessions (snd (authz ev perm r a)) = aa_sessions (snd (auth ev r a))"
    by (auto simp: authz_def split: prod.split authOutcome.split)
  moreover have "aa_sessions (snd (auth ev r a)) = aa_sessions a
     \<or> (\<exists>k. aa_sessions (snd (auth ev r a)) = snd (ss_Delete (ev_sessions ev) (aa_sessions a) k))"
    using session_auth_sessions [of ev r _ a]
    by (auto simp: auth_def Let_def split: prod.split option.split)
  ultimately show ?thesis by simp
qed

lemma login_sessions:
  "aa_sessions (snd (login ev r input tok csrf a)) = aa_sessions a
   \<or> (\<exists>rec. se_TokenHash rec = ev_hashToken ev tok
        \<and> aa_sessions (snd (login ev r input tok csrf a)) = snd (ss_Create (ev_sessions ev) (aa_sessions a) rec))"
proof -
  have f: "aa_sessions (snd (login_failed ev r u a)) = aa_sessions a" for u
    by (simp add: login_failed_def Let_def split: prod.split)
  show ?thesis
    by (cases input)
       (auto simp: login_def Let_def f split: sum.split option.split prod.split,
        (metis sessionRecord.select_convs(1) snd_conv)+)
qed

text \<open>The client of both stores.\<close>

locale authed =
  us: user_store "ev_users ev" uview uinv + ss: session_store "ev_sessions ev" sview sinv
  for ev :: "('u, 's) authEnv" and uview :: "'u \<Rightarrow> string \<rightharpoonup> userRecord" and uinv :: "'u \<Rightarrow> bool"
    and sview :: "'s \<Rightarrow> string \<rightharpoonup> sessionRecord" and sinv :: "'s \<Rightarrow> bool"
begin

definition dead :: "string \<Rightarrow> 's \<Rightarrow> bool" where
  "dead h s \<longleftrightarrow> sinv s \<and> sview s h = None"

lemma dead_ops:
  assumes "dead h s"
  shows "dead h (snd (ss_Delete (ev_sessions ev) s k))"
    and "dead h (snd (ss_PruneExpired (ev_sessions ev) s t))"
    and "dead h (snd (ss_DeleteByID (ev_sessions ev) s i))"
    and "se_TokenHash rec \<noteq> h \<Longrightarrow> dead h (snd (ss_Create (ev_sessions ev) s rec))"
proof -
  from assms have s: "sinv s" and h: "sview s h = None" by (simp_all add: dead_def)
  show "dead h (snd (ss_Delete (ev_sessions ev) s k))"
    using ss.delete_sview [OF s surjective_pairing, of k] ss.sinv_delete [OF s] h by (auto simp: dead_def)
  show "dead h (snd (ss_PruneExpired (ev_sessions ev) s t))"
    using ss.prune_sview [OF s surjective_pairing, of t] ss.sinv_prune [OF s] h by (auto simp: dead_def)
  show "dead h (snd (ss_DeleteByID (ev_sessions ev) s i))"
    using ss.byid_sview [OF s surjective_pairing, of i h] ss.sinv_byid [OF s] h
    by (cases "sview (snd (ss_DeleteByID (ev_sessions ev) s i)) h") (auto simp: dead_def)
  show "dead h (snd (ss_Create (ev_sessions ev) s rec))" if "se_TokenHash rec \<noteq> h"
    using ss.create_sview [OF s surjective_pairing, of rec] ss.sinv_create [OF s] h that by (auto simp: dead_def)
qed

lemma dead_reach:
  assumes "auth_reach ev D a0 a" "dead h (aa_sessions a0)" "h \<notin> ev_hashToken ev ` D"
  shows "dead h (aa_sessions a)"
  using assms
proof (induction rule: auth_reach.induct)
  case (request a perm r)
  then show ?case using authz_sessions [of ev perm r a] dead_ops(1) by metis
next
  case (login a tok r input csrf)
  then show ?case using login_sessions [of ev r input tok csrf a] dead_ops(4) by (metis image_eqI)
next
  case (logout a r)
  then show ?case using dead_ops(1) by (auto simp: logout_def drop_session_def split: option.split)
next
  case (revoke a r me i)
  then have "dead h (snd (ss_DeleteByID (ev_sessions ev) (aa_sessions a) i))" using dead_ops(3) by blast
  then show ?case by (auto simp: revokeSession_def split: prod.split sum.split bool.split)
next
  case (sweep a t)
  then show ?case using dead_ops(2) by simp
next
  case (users a h' v b)
  then show ?case by (simp add: with_users_def)
qed simp_all

lemma dead_refused: "dead (ev_hashToken ev c) (aa_sessions a) \<Longrightarrow> hr_Cookie r = Some c \<Longrightarrow> bearerToken r = []
   \<Longrightarrow> \<exists>resp. fst (authz ev perm r a) = Refused resp \<and> (fst resp = 401 \<or> fst resp = 500)"
  using ss.get_sview [of "aa_sessions a" "ev_hashToken ev c"]
  by (auto simp: dead_def authz_def auth_def session_auth_def Let_def split: sum.split option.split)

end

section \<open>The guarantees, on the file-backed stores\<close>

definition file_env ::
  "(string \<Rightarrow> string) \<Rightarrow> (string \<Rightarrow> string \<Rightarrow> bool) \<Rightarrow> string \<Rightarrow> int \<Rightarrow> string \<Rightarrow> (fileUsers, fileSessions) authEnv" where
  "file_env H v d ttl adm = \<lparr> ev_users = file_users, ev_sessions = file_sessions, ev_hashToken = H,
     ev_verifyPassword = v, ev_dummyPHC = d, ev_sessionTTL = ttl, ev_adminUser = adm \<rparr>"

lemma file_env_sel [simp]:
  "ev_users (file_env H v d ttl adm) = file_users" "ev_sessions (file_env H v d ttl adm) = file_sessions"
  "ev_hashToken (file_env H v d ttl adm) = H" "ev_verifyPassword (file_env H v d ttl adm) = v"
  "ev_dummyPHC (file_env H v d ttl adm) = d" "ev_sessionTTL (file_env H v d ttl adm) = ttl"
  by (simp_all add: file_env_def)

lemma file_ops_sel [simp]:
  "us_Get file_users = fu_Get" "ss_Get file_sessions = fs_Get" "ss_Delete file_sessions = fs_Delete"
  "ss_Create file_sessions = fs_Create"
  by (simp_all add: file_users_def file_sessions_def)

interpretation file_auth: authed "file_env H v d ttl adm" fu_view fu_wf fs_view fs_wf for H v d ttl adm
  by (intro authed.intro) (simp_all add: file_store.user_store_axioms file_sess.session_store_axioms)

text \<open>
  C11. Logging out is final: whatever happens afterwards (requests, other logins, user and token
  management, sweeps, in any order and number), as long as no later login draws a secret with
  the same hash, a request with the logged-out cookie is refused with 401 on every route.
\<close>

theorem logout_final:
  assumes "hr_Cookie r0 = Some c" "fs_wf (aa_sessions a0)"
    "auth_reach (file_env H v d ttl adm) D (snd (logout (file_env H v d ttl adm) r0 a0)) a" "H c \<notin> H ` D"
    "hr_Cookie r = Some c" "bearerToken r = []"
  shows "fst (authz (file_env H v d ttl adm) perm r a) = Refused (401, BError ''authentication required'')"
proof -
  let ?ev = "file_env H v d ttl adm" and ?s = "aa_sessions (snd (logout (file_env H v d ttl adm) r0 a0))"
  have "?s = snd (fs_Delete (aa_sessions a0) (H c))" using assms(1) by (simp add: logout_def drop_session_def)
  then have "fs_view ?s (H c) = None" by (simp add: fs_Delete_def fs_view_def map_of_drop_key)
  moreover have "fs_wf ?s"
    using file_sess.sinv_delete [OF assms(2)] assms(1) by (simp add: logout_def drop_session_def)
  ultimately have "file_auth.dead (H c) ?s" by (simp add: file_auth.dead_def)
  from file_auth.dead_reach [OF assms(3) this] assms(4)
  have "fs_view (aa_sessions a) (H c) = None" by (simp add: file_auth.dead_def)
  then show ?thesis using assms(5,6)
    by (simp add: authz_def auth_def session_auth_def Let_def fs_Get_def fs_view_def)
qed

definition ex_req :: "string \<Rightarrow> string \<Rightarrow> httpReq" where
  "ex_req c csrf = \<lparr> hr_Method = ''PUT'', hr_Path = ''/api/gateway'', hr_Cookie = Some c, hr_CSRF = csrf,
     hr_Authorization = [], hr_ip = ''10.0.0.2'', hr_now = 100 \<rparr>"

definition ex_auth :: "(fileUsers, fileSessions) authApp" where
  "ex_auth = \<lparr> aa_users = ua_users ex_users, aa_sessions = \<lparr> fs_items = [], fs_writable = True \<rparr>,
     aa_ipLimiter = newLoginLimiter, aa_userLimiter = newLoginLimiter, aa_tokens = [], aa_audit = [] \<rparr>"

text \<open>For the examples: a tagging hash, and a verification that compares with the stored value.\<close>

definition ex_H :: "string \<Rightarrow> string" where
  "ex_H s = ''h:'' @ s"

definition ex_env :: "(fileUsers, fileSessions) authEnv" where
  "ex_env = file_env ex_H (=) [] 3600 ''ana''"

definition ex_login :: "string \<Rightarrow> (fileUsers, fileSessions) authApp \<Rightarrow> loginResult \<times> (fileUsers, fileSessions) authApp" where
  "ex_login tok = login ex_env (ex_req ''x'' []) (Inr \<lparr> li_Username = ''ana'', li_Password = ''x'' \<rparr>) tok ''csrf''"

lemma ex_login_wf: "fs_wf (aa_sessions a) \<Longrightarrow> fs_wf (aa_sessions (snd (ex_login tok a)))"
  using login_sessions [of ex_env "ex_req ''x'' []" "Inr \<lparr> li_Username = ''ana'', li_Password = ''x'' \<rparr>" tok "''csrf''" a]
    file_sess.sinv_create [of "aa_sessions a"]
  by (auto simp: ex_login_def ex_env_def)

theorem logout_final_witness:
  "fst (authz ex_env ''firewall:write'' (ex_req ''tok'' ''csrf'')
     (snd (ex_login ''tok2'' (snd (logout ex_env (ex_req ''tok'' []) (snd (ex_login ''tok'' ex_auth)))))))
   = Refused (401, BError ''authentication required'')"
proof -
  have "fs_wf (aa_sessions (snd (ex_login ''tok'' ex_auth)))"
    by (rule ex_login_wf) (simp add: ex_auth_def fs_wf_def)
  moreover have "auth_reach ex_env {''tok2''} a (snd (ex_login ''tok2'' a))" for a
    unfolding ex_login_def by (intro auth_reach.login auth_reach.start singletonI)
  ultimately show ?thesis
    using logout_final [of "ex_req ''tok'' []" "''tok''" "snd (ex_login ''tok'' ex_auth)" ex_H "(=)" "[]" 3600 "''ana''" "{''tok2''}"
        "snd (ex_login ''tok2'' (snd (logout ex_env (ex_req ''tok'' []) (snd (ex_login ''tok'' ex_auth)))))"
        "ex_req ''tok'' ''csrf''" "''firewall:write''"]
    by (simp add: ex_env_def ex_H_def ex_req_def bearerToken_def)
qed


lemma ex_login_ok: "\<exists>a'. ex_login tok ex_auth = (LoginOk (mk_user ''ana'' ''admin'') tok ''csrf'', a')"
proof -
  have "ToLower (TrimSpace ''ana'') = ''ana''" by code_simp
  moreover have "fu_Get (aa_users ex_auth) ''ana'' = Inr (Some (mk_user ''ana'' ''admin''))"
    by (simp add: fu_Get_def ex_auth_def ex_users_def)
  moreover have "limiter_check newLoginLimiter k t = (False, 0)" for k t
    by (simp add: limiter_check_def newLoginLimiter_def)
  moreover have "aa_ipLimiter ex_auth = newLoginLimiter" "aa_userLimiter ex_auth = newLoginLimiter"
    "fs_writable (aa_sessions ex_auth)" by (simp_all add: ex_auth_def)
  ultimately show ?thesis
    by (simp add: ex_login_def ex_env_def login_def Let_def fs_Create_def mk_user_def)
qed



text \<open>
  C27. The login decision: a session is created exactly for the right password of an existing
  enabled account when neither the address nor the submitted name is locked; every other
  submission leaves the sessions as they were, and a wrong one is counted against both the
  address and the name. While either lock holds the password is not looked at and nothing
  changes.
\<close>

theorem login_decision:
  assumes "fs_writable (aa_sessions a)"
  shows "let ev = file_env H v d ttl adm; (res, a') = login ev r (Inr i) tok csrf a;
             lockIP = limiter_check (aa_ipLimiter a) (''ip:'' @ hr_ip r) (hr_now r);
             lockUser = limiter_check (aa_userLimiter a) (''user:'' @ li_Username i) (hr_now r);
             account = fu_view (aa_users a) (ToLower (TrimSpace (li_Username i)))
         in if fst lockIP then res = LoginRefused (writeLocked (snd lockIP)) \<and> a' = a
            else if fst lockUser then res = LoginRefused (writeLocked (snd lockUser)) \<and> a' = a
            else case account of
              Some u \<Rightarrow> if ur_Enabled u \<and> v (li_Password i) (ur_PHC u)
                then res = LoginOk u tok csrf \<and> fs_view (aa_sessions a') = (fs_view (aa_sessions a))(H tok \<mapsto>
                       \<lparr> se_TokenHash = H tok, se_ID = sessionID (H tok), se_Username = ur_Username u,
                         se_CreatedAt = hr_now r, se_ExpiresAt = hr_now r + ttl, se_RemoteIP = hr_ip r,
                         se_CSRFHash = H csrf \<rparr>)
                else (res, a') = login_failed ev r (li_Username i) a \<and> aa_sessions a' = aa_sessions a
                   \<and> aa_ipLimiter a' = snd (limiter_fail (aa_ipLimiter a) (''ip:'' @ hr_ip r) (hr_now r))
                   \<and> aa_userLimiter a' = snd (limiter_fail (aa_userLimiter a) (''user:'' @ li_Username i) (hr_now r))
            | None \<Rightarrow> aa_sessions a' = aa_sessions a
                   \<and> aa_ipLimiter a' = snd (limiter_fail (aa_ipLimiter a) (''ip:'' @ hr_ip r) (hr_now r))
                   \<and> aa_userLimiter a' = snd (limiter_fail (aa_userLimiter a) (''user:'' @ li_Username i) (hr_now r))"
proof -
  let ?ev = "file_env H v d ttl adm"
  have f: "aa_sessions (snd (login_failed ?ev r n a)) = aa_sessions a"
    "aa_ipLimiter (snd (login_failed ?ev r n a)) = snd (limiter_fail (aa_ipLimiter a) (''ip:'' @ hr_ip r) (hr_now r))"
    "aa_userLimiter (snd (login_failed ?ev r n a)) = snd (limiter_fail (aa_userLimiter a) (''user:'' @ n) (hr_now r))" for n
    by (simp_all add: login_failed_def Let_def split: prod.split)
  show ?thesis
    using assms f [of "li_Username i"]
    by (cases "fu_view (aa_users a) (ToLower (TrimSpace (li_Username i)))")
       (auto simp: login_def Let_def fu_Get_def fu_view_def fs_view_def fs_Create_def map_of_drop_key
         simp del: append_Cons append_Nil split: prod.splits)
qed

theorem login_decision_witness:
  "fst (login ex_env (ex_req ''x'' []) (Inr \<lparr> li_Username = ''ana'', li_Password = ''x'' \<rparr>) ''tok'' ''csrf'' ex_auth)
     = LoginOk (mk_user ''ana'' ''admin'') ''tok'' ''csrf''"
proof -
  have w: "fs_writable (aa_sessions ex_auth)" by (simp add: ex_auth_def)
  have n: "ToLower (TrimSpace ''ana'') = ''ana''" by code_simp
  have k: "limiter_check newLoginLimiter k t = (False, 0)" for k t
    by (simp add: limiter_check_def newLoginLimiter_def)
  have u: "fu_view (aa_users ex_auth) ''ana'' = Some (mk_user ''ana'' ''admin'')"
    "aa_ipLimiter ex_auth = newLoginLimiter" "aa_userLimiter ex_auth = newLoginLimiter"
    by (simp_all add: fu_view_def ex_auth_def ex_users_def)
  show ?thesis
    using login_decision [OF w, of ex_H "(=)" "[]" 3600 "''ana''" "ex_req ''x'' []"
        "\<lparr> li_Username = ''ana'', li_Password = ''x'' \<rparr>" "''tok''" "''csrf''"]
    by (simp add: Let_def n k u ex_env_def mk_user_def split: prod.splits)
qed

text \<open>
  The name lockout counts the name as it was typed, while the account is found by its
  trimmed lower-case form: an account locked under one spelling is still open to attempts,
  and to a login, under another spelling of the same name.
\<close>

theorem user_lock_bypass:
  "\<exists>a r. fst (limiter_check (aa_userLimiter a) ''user:ana'' (hr_now r))
     \<and> fst (login ex_env r (Inr \<lparr> li_Username = ''ana'', li_Password = ''x'' \<rparr>) ''tok'' ''csrf'' a)
         = LoginRefused (writeLocked (snd (limiter_check (aa_userLimiter a) ''user:ana'' (hr_now r))))
     \<and> fst (login ex_env r (Inr \<lparr> li_Username = ''Ana'', li_Password = ''x'' \<rparr>) ''tok'' ''csrf'' a)
         = LoginOk (mk_user ''ana'' ''admin'') ''tok'' ''csrf''"
proof -
  let ?l = "newLoginLimiter \<lparr> ll_entries := [''user:ana'' \<mapsto> \<lparr> le_failures = 6, le_lockedUntil = 200, le_lastSeen = 90 \<rparr>] \<rparr>"
  let ?a = "ex_auth \<lparr> aa_userLimiter := ?l \<rparr>" and ?r = "ex_req ''x'' []"
  have n: "ToLower (TrimSpace ''Ana'') = ''ana''" by code_simp
  have k: "limiter_check newLoginLimiter k t = (False, 0)" for k t
    by (simp add: limiter_check_def newLoginLimiter_def)
  have l: "limiter_check ?l ''user:ana'' 100 = (True, 100)" "limiter_check ?l ''user:Ana'' 100 = (False, 0)"
    by (simp_all add: limiter_check_def)
  have a: "aa_ipLimiter ?a = newLoginLimiter" "aa_userLimiter ?a = ?l" "hr_now ?r = 100"
    "fu_Get (aa_users ex_auth) ''ana'' = Inr (Some (mk_user ''ana'' ''admin''))" "fs_writable (aa_sessions ex_auth)"
    by (simp_all add: ex_auth_def ex_req_def fu_Get_def ex_users_def)
  have "fst (login ex_env ?r (Inr \<lparr> li_Username = ''Ana'', li_Password = ''x'' \<rparr>) ''tok'' ''csrf'' ?a)
         = LoginOk (mk_user ''ana'' ''admin'') ''tok'' ''csrf''"
    using l(2) by (simp add: login_def Let_def k a n ex_env_def mk_user_def fs_Create_def)
  moreover have "fst (login ex_env ?r (Inr \<lparr> li_Username = ''ana'', li_Password = ''x'' \<rparr>) ''tok'' ''csrf'' ?a)
         = LoginRefused (writeLocked 100)"
    using l(1) by (simp add: login_def Let_def k a)
  ultimately show ?thesis using a(2,3) l(1) by (intro exI [of _ ?a] exI [of _ ?r]) simp
qed

text \<open>
  Revoking a token can be undone by a request that uses it: the request authenticates on
  the token list it read, and writes that list back to record the use. When the revocation
  runs in between, the written list has the token again, and it authenticates.
\<close>

theorem token_revocation_lost:
  "\<exists>toks i secret n toks' u w. revoke_filter i toks = (''ci'', [])
     \<and> fst (authenticateToken ex_H secret n (snd (revoke_filter i toks))) = None
     \<and> token_decide ex_H secret n toks = Some (u, Some toks')
     \<and> token_decide ex_H secret n toks' = Some (u, w)"
proof -
  let ?t = "\<lparr> at_ID = ''1'', at_Name = ''ci'', at_Role = ''admin'', at_Hash = ''h:sgs_k'', at_Preview = ''sgs_k'',
     at_CreatedAt = 0, at_CreatedBy = ''ana'', at_ExpiresAt = 0, at_LastUsed = 0 \<rparr>"
  let ?n = "2 * minute"
  have p: "HasPrefix ''sgs_k'' apiTokenPrefix" by code_simp
  have "minute > 0" by (simp add: minute_def second_def)
  then show ?thesis
    by (intro exI [of _ "[?t]"] exI [of _ "''1''"] exI [of _ "''sgs_k''"] exI [of _ ?n]
          exI [of _ "[?t \<lparr> at_LastUsed := ?n \<rparr>]"] exI)
       (auto simp: revoke_filter_def authenticateToken_def token_decide_def p ex_H_def token_expired_def)
qed

end
