(* ===== verification/Kea.thy ===== *)
theory Kea
  imports GoNet
begin

text \<open>
  The DHCP adapter, \<open>internal/adapters/kea\<close>: MAC and address conversions, the validation
  of a subnet, the edits of the running configuration (add, update and delete a subnet, the
  DROP class), and the configuration transaction of \<open>cmd/saguaro/dhcp.go\<close>.

  A decoded JSON value is a datatype; an object is an association list. The code works on a
  fresh decode for every transaction and never reads back a number it stored itself, so one
  constructor stands for numbers (Kea's identifiers are integers). The Kea server is a
  record of its commands; what the transaction relies on is \<open>kea_contract\<close>.
\<close>

section \<open>JSON values\<close>

datatype json = JNull | JBool bool | JNum int | JStr string | JArr "json list" | JObj "(string \<times> json) list"

type_synonym obj = "(string \<times> json) list"

definition obj_put :: "string \<Rightarrow> json \<Rightarrow> obj \<Rightarrow> obj" where
  "obj_put k v m = (if k \<in> fst ` set m then map (\<lambda>(k', x). if k' = k then (k, v) else (k', x)) m else m @ [(k, v)])"

definition obj_del :: "string \<Rightarrow> obj \<Rightarrow> obj" where
  "obj_del k m = filter (\<lambda>(k', _). k' \<noteq> k) m"

text \<open>Type assertions with the zero value for a missing or differently typed entry.\<close>

definition get_str :: "obj \<Rightarrow> string \<Rightarrow> string" where
  "get_str m k = (case map_of m k of Some (JStr s) \<Rightarrow> s | _ \<Rightarrow> [])"

definition get_arr :: "obj \<Rightarrow> string \<Rightarrow> json list" where
  "get_arr m k = (case map_of m k of Some (JArr l) \<Rightarrow> l | _ \<Rightarrow> [])"

definition get_obj :: "obj \<Rightarrow> string \<Rightarrow> obj" where
  "get_obj m k = (case map_of m k of Some (JObj o') \<Rightarrow> o' | _ \<Rightarrow> [])"

lemma map_of_replace:
  "map_of (map (\<lambda>(k', x). if k' = k then (k, v) else (k', x)) m) j =
     (if j = k then map_option (\<lambda>_. v) (map_of m k) else map_of m j)"
  by (induction m) auto

lemma map_of_obj_put: "map_of (obj_put k v m) = (map_of m)(k \<mapsto> v)"
proof
  fix j
  have "\<exists>y. map_of m k = Some y" if "k \<in> fst ` set m" using that by (metis map_of_eq_None_iff not_None_eq)
  moreover have "map_of m k = None" if "k \<notin> fst ` set m" using that by (simp add: map_of_eq_None_iff)
  ultimately show "map_of (obj_put k v m) j = ((map_of m)(k \<mapsto> v)) j"
    by (auto simp: obj_put_def map_of_replace map_add_def split: option.split)
qed

lemma map_of_obj_del: "map_of (obj_del k m) = (map_of m)(k := None)"
  unfolding obj_del_def by (induction m) (auto simp: fun_eq_iff)

lemma get_put [simp]:
  "get_str (obj_put k (JStr s) m) k = s" "get_arr (obj_put k (JArr l) m) k = l" "get_obj (obj_put k (JObj x) m) k = x"
  "k \<noteq> j \<Longrightarrow> get_str (obj_put j v m) k = get_str m k" "k \<noteq> j \<Longrightarrow> get_arr (obj_put j v m) k = get_arr m k"
  "k \<noteq> j \<Longrightarrow> get_obj (obj_put j v m) k = get_obj m k"
  by (simp_all add: get_str_def get_arr_def get_obj_def map_of_obj_put)

section \<open>Addresses and MACs\<close>

definition hex_lower :: "char \<Rightarrow> bool" where
  "hex_lower c \<longleftrightarrow> is_digit c \<or> CHR ''a'' \<le> c \<and> c \<le> CHR ''f''"

definition mac_sep :: "char \<Rightarrow> bool" where
  "mac_sep c \<longleftrightarrow> c = CHR '':'' \<or> c = CHR ''-''"

text \<open>\<open>^([0-9a-f]{2}[:-]){5}[0-9a-f]{2}$\<close>: seventeen bytes, every third one a separator.\<close>

definition kea_macRe :: "string \<Rightarrow> bool" where
  "kea_macRe s \<longleftrightarrow> length s = 17
     \<and> list_all (\<lambda>i. if i mod 3 = 2 then mac_sep (s ! i) else hex_lower (s ! i)) [0..<17]"

definition NormalizeMAC :: "string \<Rightarrow> string option" where
  "NormalizeMAC mac =
     (let m = ToLower (TrimSpace mac)
      in if \<not> kea_macRe m then None else Some (filter (\<lambda>c. \<not> mac_sep c) m))"

definition FormatMACHex :: "string \<Rightarrow> string" where
  "FormatMACHex h =
     (if length h \<noteq> 12 then h else Join (map (\<lambda>i. take 2 (drop (i * 2) h)) [0..<6]) '':'')"

definition IP4ToInt :: "string \<Rightarrow> int option" where
  "IP4ToInt s =
     (case ParseIP (TrimSpace s) of
        None \<Rightarrow> None
      | Some ip \<Rightarrow> (case To4 ip of None \<Rightarrow> None | Some v4 \<Rightarrow> Some (uint (u32_of v4))))"

definition IntToIP4 :: "int \<Rightarrow> string" where
  "IntToIP4 v = ip4_String (u32_bytes v)"

text \<open>\<open>ipnet.Contains(net.ParseIP(s))\<close>, with nil for a string that does not parse.\<close>

definition contains_str :: "IPNet \<Rightarrow> string \<Rightarrow> bool" where
  "contains_str n s = Contains n (case ParseIP s of None \<Rightarrow> [] | Some ip \<Rightarrow> ip)"

definition CIDRsOverlap :: "string \<Rightarrow> string \<Rightarrow> bool" where
  "CIDRsOverlap a b =
     (case ParseCIDR a of
        None \<Rightarrow> False
      | Some (_, an) \<Rightarrow>
          (case ParseCIDR b of
             None \<Rightarrow> False
           | Some (_, bn) \<Rightarrow> Contains an (net_IP bn) \<or> Contains bn (net_IP an)))"

section \<open>Subnets\<close>

datatype KeaError = KSubnet string | KPoolStart string | KPoolEnd string | KPoolOrder | KPoolInside string
  | KRouter string | KDNS string | KInterface string | KExists string | KOverlaps string string
  | KCIDRFixed | KNotFound int

record SubnetSpec =
  sn_Subnet :: string
  sn_PoolStart :: string
  sn_PoolEnd :: string
  sn_Router :: string
  sn_Domain :: string
  sn_DNSServers :: "string list"
  sn_Interface :: string

definition kea_ifaceRe :: "string \<Rightarrow> bool" where
  "kea_ifaceRe = re_rep iface_char 1 15"

definition sn_Validate :: "SubnetSpec \<Rightarrow> KeaError option" where
  "sn_Validate s =
     (case ParseCIDR (TrimSpace (sn_Subnet s)) of
        None \<Rightarrow> Some (KSubnet (sn_Subnet s))
      | Some (_, ipnet) \<Rightarrow>
          if To4 (net_IP ipnet) = None then Some (KSubnet (sn_Subnet s))
          else (case IP4ToInt (sn_PoolStart s) of
            None \<Rightarrow> Some (KPoolStart (sn_PoolStart s))
          | Some start \<Rightarrow>
              (case IP4ToInt (sn_PoolEnd s) of
                 None \<Rightarrow> Some (KPoolEnd (sn_PoolEnd s))
               | Some end' \<Rightarrow>
                   if start > end' then Some KPoolOrder
                   else if \<not> contains_str ipnet (sn_PoolStart s) \<or> \<not> contains_str ipnet (sn_PoolEnd s)
                     then Some (KPoolInside (sn_Subnet s))
                   else if sn_Router s \<noteq> [] \<and>
                       (case ParseIP (sn_Router s) of None \<Rightarrow> True | Some ip \<Rightarrow> \<not> Contains ipnet ip)
                     then Some (KRouter (sn_Router s))
                   else err_then
                     (first_err (\<lambda>d. fail_if (ParseIP (TrimSpace d) = None) (KDNS d)) (sn_DNSServers s))
                     (fail_if (sn_Interface s \<noteq> [] \<and> \<not> kea_ifaceRe (sn_Interface s))
                        (KInterface (sn_Interface s))))))"

definition EnsureSocketResilience :: "obj \<Rightarrow> obj" where
  "EnsureSocketResilience ic0 =
     (let put = (\<lambda>k v ic. if map_of ic k = None then obj_put k v ic else ic);
          ic1 = put ''service-sockets-max-retries'' (JNum 5) ic0;
          ic2 = put ''service-sockets-retry-wait-time'' (JNum 5000) ic1
      in put ''re-detect'' (JBool True) ic2)"

text \<open>The interfaces block is mutated in place: the new configuration has the new block.\<close>

definition EnsureDefaults :: "obj \<Rightarrow> obj" where
  "EnsureDefaults dhcp4 =
     obj_put ''interfaces-config'' (JObj (EnsureSocketResilience (get_obj dhcp4 ''interfaces-config''))) dhcp4"

definition listens_on :: "string \<Rightarrow> json \<Rightarrow> bool" where
  "listens_on iface v = (case v of JStr s \<Rightarrow> s = iface \<or> s = ''*'' | _ \<Rightarrow> False)"

definition EnsureInterface :: "obj \<Rightarrow> string \<Rightarrow> obj" where
  "EnsureInterface dhcp4 iface =
     (let d = EnsureDefaults dhcp4; ic = get_obj d ''interfaces-config''; l = get_arr ic ''interfaces''
      in if iface = [] then d
         else if list_ex (listens_on iface) l then d
         else obj_put ''interfaces-config'' (JObj (obj_put ''interfaces'' (JArr (l @ [JStr iface])) ic)) d)"

definition subnetSlice :: "obj \<Rightarrow> json list" where
  "subnetSlice dhcp4 = get_arr dhcp4 ''subnet4''"

definition subnetID :: "json \<Rightarrow> int" where
  "subnetID entry =
     (case entry of JObj m \<Rightarrow> (case map_of m ''id'' of Some (JNum n) \<Rightarrow> n | _ \<Rightarrow> 0) | _ \<Rightarrow> 0)"

definition optionData :: "SubnetSpec \<Rightarrow> json list" where
  "optionData s =
     only_if (sn_Router s \<noteq> []) [JObj [(''name'', JStr ''routers''), (''data'', JStr (sn_Router s))]]
   @ only_if (sn_DNSServers s \<noteq> [])
       [JObj [(''name'', JStr ''domain-name-servers''), (''data'', JStr (Join (sn_DNSServers s) '', ''))]]
   @ only_if (sn_Domain s \<noteq> []) [JObj [(''name'', JStr ''domain-name''), (''data'', JStr (sn_Domain s))]]"

definition pools :: "SubnetSpec \<Rightarrow> json list" where
  "pools s = [JObj [(''pool'', JStr (sn_PoolStart s @ '' - '' @ sn_PoolEnd s))]]"

definition entryCIDR :: "json \<Rightarrow> string" where
  "entryCIDR entry = (case entry of JObj m \<Rightarrow> get_str m ''subnet'' | _ \<Rightarrow> [])"

fun add_loop :: "string \<Rightarrow> int \<Rightarrow> json list \<Rightarrow> KeaError + int" where
  "add_loop cidr maxID [] = Inr maxID"
| "add_loop cidr maxID (entry # rest) =
     try_then
       (case entry of
          JObj m \<Rightarrow>
            (let existing = get_str m ''subnet''
             in if existing = cidr then Inl (KExists cidr)
                else if CIDRsOverlap existing cidr then Inl (KOverlaps cidr existing)
                else Inr ())
        | _ \<Rightarrow> Inr ())
       (\<lambda>_. add_loop cidr (if subnetID entry > maxID then subnetID entry else maxID) rest)"

definition AddSubnet :: "obj \<Rightarrow> SubnetSpec \<Rightarrow> (KeaError + int) \<times> obj" where
  "AddSubnet dhcp4 s =
     (case sn_Validate s of
        Some e \<Rightarrow> (Inl e, dhcp4)
      | None \<Rightarrow>
          let d = EnsureDefaults dhcp4; l = subnetSlice d
          in case add_loop (sn_Subnet s) 0 l of
               Inl e \<Rightarrow> (Inl e, d)
             | Inr maxID \<Rightarrow>
                 let newid = maxID + 1;
                     entry = [(''id'', JNum newid), (''subnet'', JStr (sn_Subnet s)), (''pools'', JArr (pools s)),
                              (''option-data'', JArr (optionData s))]
                             @ only_if (sn_Interface s \<noteq> []) [(''interface'', JStr (sn_Interface s))];
                     d' = (if sn_Interface s \<noteq> [] then EnsureInterface d (sn_Interface s) else d)
                 in (Inr newid, obj_put ''subnet4'' (JArr (l @ [JObj entry])) d'))"

text \<open>The rewrite of one entry; \<open>entry.(map[string]any)\<close> panics on anything but an object.\<close>

definition update_entry :: "SubnetSpec \<Rightarrow> obj \<Rightarrow> obj" where
  "update_entry s m =
     (let m1 = obj_put ''option-data'' (JArr (optionData s)) (obj_put ''pools'' (JArr (pools s)) m)
      in if sn_Interface s \<noteq> [] then obj_put ''interface'' (JStr (sn_Interface s)) m1
         else obj_del ''interface'' m1)"

fun update_loop :: "int \<Rightarrow> SubnetSpec \<Rightarrow> json list \<Rightarrow> (KeaError, json list) outcome" where
  "update_loop i s [] = Error (KNotFound i)"
| "update_loop i s (entry # rest) =
     (if subnetID entry \<noteq> i then
        (case update_loop i s rest of Return l \<Rightarrow> Return (entry # l) | Error e \<Rightarrow> Error e | Panic \<Rightarrow> Panic)
      else (case entry of
              JObj m \<Rightarrow> if get_str m ''subnet'' \<noteq> sn_Subnet s then Error KCIDRFixed
                        else Return (JObj (update_entry s m) # rest)
            | _ \<Rightarrow> Panic))"

definition UpdateSubnet :: "obj \<Rightarrow> int \<Rightarrow> SubnetSpec \<Rightarrow> (KeaError, obj) outcome" where
  "UpdateSubnet dhcp4 i s =
     (case sn_Validate s of
        Some e \<Rightarrow> Error e
      | None \<Rightarrow>
          let d = EnsureDefaults dhcp4
          in case update_loop i s (subnetSlice d) of
               Error e \<Rightarrow> Error e
             | Panic \<Rightarrow> Panic
             | Return l \<Rightarrow>
                 let d1 = obj_put ''subnet4'' (JArr l) d
                 in Return (if sn_Interface s \<noteq> [] then EnsureInterface d1 (sn_Interface s) else d1))"

definition DeleteSubnet :: "obj \<Rightarrow> int \<Rightarrow> bool \<times> obj" where
  "DeleteSubnet dhcp4 i =
     (let l = subnetSlice dhcp4; found = list_ex (\<lambda>e. subnetID e = i) l
      in (found, if found then obj_put ''subnet4'' (JArr (filter (\<lambda>e. subnetID e \<noteq> i) l)) dhcp4 else dhcp4))"

section \<open>The DROP class\<close>

definition DropClassTest :: "string list \<Rightarrow> string" where
  "DropClassTest macs = Join (map (\<lambda>m. ''hexstring(pkt4.mac, '' @ [CHR 0x27] @ '':'' @ [CHR 0x27] @ '') == ''
     @ [CHR 0x27] @ m @ [CHR 0x27]) macs) '' or ''"

definition is_drop :: "json \<Rightarrow> bool" where
  "is_drop c = (case c of JObj m \<Rightarrow> get_str m ''name'' = ''DROP'' | _ \<Rightarrow> False)"

definition SetDropClass :: "obj \<Rightarrow> string list \<Rightarrow> obj" where
  "SetDropClass dhcp4 macs =
     (let classes = filter (\<lambda>c. \<not> is_drop c) (get_arr dhcp4 ''client-classes'')
                    @ only_if (macs \<noteq> []) [JObj [(''name'', JStr ''DROP''), (''test'', JStr (DropClassTest macs))]]
      in if classes = [] then obj_del ''client-classes'' dhcp4
         else obj_put ''client-classes'' (JArr classes) dhcp4)"

section \<open>Addresses\<close>

lemma IP4ToInt_dotted: "length b = 4 \<Longrightarrow> IP4ToInt (ip4_String b) = Some (uint (u32_of b))"
  using ip4_String_is_graph by (simp add: IP4ToInt_def)

lemma uint_u32_bytes: "0 \<le> v \<Longrightarrow> v < 2 ^ 32 \<Longrightarrow> uint (u32_of (u32_bytes v)) = v"
  by (simp add: uint_word_of_int_eq take_bit_int_eq_self)

lemma u32_bytes_of: "length b = 4 \<Longrightarrow> u32_bytes (uint (u32_of b)) = b"
  using u32_bytes_sum uint_u32_of by (auto simp: list4)

lemma hex_lower_sep: "hex_lower c \<Longrightarrow> \<not> mac_sep c"
  by (auto simp: hex_lower_def mac_sep_def is_digit_def)

lemma hex_lower_char: "hex_lower c \<Longrightarrow> is_graph c \<and> \<not> is_upper c"
  by (auto simp: hex_lower_def is_graph_def is_digit_def is_upper_def char_le_of_char)

lemma macRe_list:
  assumes "kea_macRe m"
  obtains a b c d e f g h i j k l s1 s2 s3 s4 s5 where
    "m = [a, b, s1, c, d, s2, e, f, s3, g, h, s4, i, j, s5, k, l]" "list_all hex_lower [a, b, c, d, e, f, g, h, i, j, k, l]"
    "list_all mac_sep [s1, s2, s3, s4, s5]"
proof -
  from assms have "length m = 17" by (simp add: kea_macRe_def)
  then obtain a b s1 c d s2 e f s3 g h s4 i j s5 k l where
    m: "m = [a, b, s1, c, d, s2, e, f, s3, g, h, s4, i, j, s5, k, l]"
    by (auto simp: eval_nat_numeral length_Suc_conv)
  from assms have "list_all hex_lower [a, b, c, d, e, f, g, h, i, j, k, l]" "list_all mac_sep [s1, s2, s3, s4, s5]"
    unfolding kea_macRe_def m by (simp_all add: upt_rec)
  with m that show ?thesis by blast
qed

text \<open>
  MAC addresses round trip: the stored form of an accepted address has twelve lower-case
  hexadecimal digits, its printed form is accepted again and denotes the same stored form, so
  the printed form is a canonical name: two inputs are the same device exactly when their
  printed forms agree.
\<close>

theorem MAC_roundtrip:
  assumes "NormalizeMAC mac = Some h"
  shows "length h = 12 \<and> list_all hex_lower h \<and> NormalizeMAC (FormatMACHex h) = Some h"
proof -
  let ?m = "ToLower (TrimSpace mac)"
  from assms have mr: "kea_macRe ?m" and hf: "h = filter (\<lambda>c. \<not> mac_sep c) ?m"
    by (auto simp: NormalizeMAC_def Let_def split: if_splits)
  from mr obtain a b c d e f g h' i j k l s1 s2 s3 s4 s5 where
    m: "?m = [a, b, s1, c, d, s2, e, f, s3, g, h', s4, i, j, s5, k, l]" and
    x: "list_all hex_lower [a, b, c, d, e, f, g, h', i, j, k, l]" and s: "list_all mac_sep [s1, s2, s3, s4, s5]"
    by (rule macRe_list)
  have h: "h = [a, b, c, d, e, f, g, h', i, j, k, l]"
    unfolding hf m using x s by (simp add: hex_lower_sep)
  let ?f = "[a, b, CHR '':'', c, d, CHR '':'', e, f, CHR '':'', g, h', CHR '':'', i, j, CHR '':'', k, l]"
  have f: "FormatMACHex h = ?f" by (simp add: FormatMACHex_def h upt_rec)
  have "is_graph (CHR '':'')" "\<not> is_upper (CHR '':'')" by (simp_all add: is_graph_def is_upper_def)
  with x have gr: "list_all is_graph ?f" and up: "list_all (\<lambda>c. \<not> is_upper c) ?f" by (simp_all add: hex_lower_char)
  have "ToLower (TrimSpace ?f) = map lower_char ?f"
    using gr ToLower_ascii [of ?f] graph_not_space by (simp add: list_all_iff)
  also have "\<dots> = ?f" using up by (simp add: lower_char_id)
  finally have "ToLower (TrimSpace ?f) = ?f" .
  moreover have "kea_macRe ?f" using x by (simp add: kea_macRe_def upt_rec mac_sep_def)
  ultimately have "NormalizeMAC ?f = Some h"
    using x by (simp add: NormalizeMAC_def h hex_lower_sep) (simp add: mac_sep_def)
  with f x h show ?thesis by simp
qed

theorem MAC_roundtrip_witness:
  "NormalizeMAC (FormatMACHex ''aabbccddee0f'') = Some ''aabbccddee0f''"
proof -
  have "NormalizeMAC '' AA-bb:CC:dd-ee:0F'' = Some ''aabbccddee0f''" by code_simp
  then show ?thesis by (blast dest: MAC_roundtrip)
qed

lemma Contains_uint:
  assumes "length b = 4" "length x = 4" "n \<le> 32"
  shows "Contains (ip4_net b n) x \<longleftrightarrow> uint (u32_of x) div 2 ^ (32 - n) = uint (u32_of b) div 2 ^ (32 - n)"
  using Contains_ip4_net(1) [OF assms] by (auto simp: word_uint_eq_iff uint_drop_bit)

lemma net_IP_ip4: "net_IP (ip4_net b n) = map2 (AND) b (CIDRMask n 32)"
  by (simp add: ip4_net_def)

lemma Contains_network:
  assumes "length b = 4" "length c = 4" "n \<le> 32" "m \<le> 32" "n \<le> m"
  shows "Contains (ip4_net b n) (net_IP (ip4_net c m)) \<longleftrightarrow> Contains (ip4_net b n) c"
proof -
  have "uint (u32_of c) div 2 ^ (32 - m) * 2 ^ (32 - m) div 2 ^ (32 - n) = uint (u32_of c) div (2 :: int) ^ (32 - n)"
  proof -
    have "(2 :: int) ^ (32 - n) = 2 ^ (32 - m) * 2 ^ (m - n)" using assms by (simp flip: power_add)
    then show ?thesis by (simp add: zdiv_zmult2_eq)
  qed
  then show ?thesis using assms by (simp add: Contains_uint net_IP_ip4 uint_masked)
qed

lemma subnet_share:
  assumes "length b = 4" "length c = 4" "m \<le> 32" "n \<le> m" "length x = 4"
    "Contains (ip4_net b n) x" "Contains (ip4_net c m) x"
  shows "Contains (ip4_net b n) c"
proof -
  have k: "(2 :: int) ^ (32 - n) = 2 ^ (32 - m) * 2 ^ (m - n)" using assms by (simp flip: power_add)
  from assms have "uint (u32_of x) div 2 ^ (32 - n) = uint (u32_of b) div 2 ^ (32 - n)"
    "uint (u32_of x) div 2 ^ (32 - m) = uint (u32_of c) div 2 ^ (32 - m)" by (simp_all add: Contains_uint)
  then show ?thesis using assms by (simp add: Contains_uint k zdiv_zmult2_eq)
qed

text \<open>
  The overlap test is exact: for two networks in dotted form it answers yes exactly when
  some address lies in both of them.
\<close>

theorem CIDRsOverlap_iff:
  assumes "length b = 4" "length c = 4" "n \<le> 32" "m \<le> 32"
  shows "CIDRsOverlap (ip4_String b @ CHR ''/'' # nat_str n) (ip4_String c @ CHR ''/'' # nat_str m) \<longleftrightarrow>
    (\<exists>x. length x = 4 \<and> Contains (ip4_net b n) x \<and> Contains (ip4_net c m) x)" (is "?L \<longleftrightarrow> ?R")
proof -
  have own: "Contains (ip4_net b n) (net_IP (ip4_net b n))" if "length b = 4" "n \<le> 32" for b n
    using that by (simp add: Contains_network) (simp add: Contains_uint)
  have len: "length (net_IP (ip4_net b n)) = 4" if "length b = 4" for b n using that by (simp add: net_IP_ip4)
  have L: "?L \<longleftrightarrow> Contains (ip4_net b n) (net_IP (ip4_net c m)) \<or> Contains (ip4_net c m) (net_IP (ip4_net b n))"
    using assms by (simp add: CIDRsOverlap_def)
  show ?thesis
  proof
    assume ?L
    then show ?R using L own len assms by metis
  next
    assume ?R
    then obtain x where x: "length x = 4" "Contains (ip4_net b n) x" "Contains (ip4_net c m) x" by blast
    show ?L
    proof (cases "n \<le> m")
      case True
      then show ?thesis using L subnet_share [OF assms(1,2,4) True x] assms by (simp add: Contains_network)
    next
      case False
      then have "m \<le> n" by simp
      then show ?thesis
        using L subnet_share [OF assms(2,1,3) \<open>m \<le> n\<close> x(1,3,2)] assms by (simp add: Contains_network)
    qed
  qed
qed

theorem CIDRsOverlap_iff_witness:
  "CIDRsOverlap (ip4_String [10, 0, 0, 0] @ CHR ''/'' # nat_str 8) (ip4_String [10, 1, 2, 0] @ CHR ''/'' # nat_str 24)"
proof -
  have "Contains (ip4_net [10, 0, 0, 0] 8) [10, 1, 2, 0]" "Contains (ip4_net [10, 1, 2, 0] 24) [10, 1, 2, 0]"
    by (simp_all add: Contains_uint uint_u32_of)
  then show ?thesis using CIDRsOverlap_iff [of "[10, 0, 0, 0]" "[10, 1, 2, 0]" 8 24] by force
qed

text \<open>
  A validated pool lies in its subnet entirely: not only do both ends belong to the
  subnet, every address between them does.
\<close>

theorem sn_Validate_pool_inside:
  assumes "sn_Validate s = None" "TrimSpace (sn_Subnet s) = ip4_String b @ CHR ''/'' # nat_str n" "length b = 4" "n \<le> 32"
  shows "\<exists>lo hi. IP4ToInt (sn_PoolStart s) = Some lo \<and> IP4ToInt (sn_PoolEnd s) = Some hi \<and> lo \<le> hi
    \<and> (\<forall>v. lo \<le> v \<and> v \<le> hi \<longrightarrow> Contains (ip4_net b n) (u32_bytes v) \<and> IP4ToInt (IntToIP4 v) = Some v)"
proof -
  have addr: "\<exists>x. length x = 4 \<and> v = uint (u32_of x) \<and> Contains (ip4_net b n) x"
    if v: "IP4ToInt a = Some v" and c: "contains_str (ip4_net b n) a" for a v
  proof -
    have "length (fst (networkNumberAndMask (ip4_net b n))) \<noteq> 0"
      using assms(3) by (simp add: networkNumberAndMask_def ip4_net_def)
    with c obtain ip where ip: "ParseIP a = Some ip" "Contains (ip4_net b n) ip"
      by (auto simp: contains_str_def split: option.splits)
    then have "TrimSpace a = a" using ParseIP_graph [of a] by simp
    with v ip(1) obtain x where x: "To4 ip = Some x" "v = uint (u32_of x)"
      by (auto simp: IP4ToInt_def split: option.splits)
    then have "length x = 4" "Contains (ip4_net b n) x"
      using ip(2) by (auto simp: To4_def Contains_def split: if_splits)
    with x(2) show ?thesis by blast
  qed
  from assms obtain lo hi where v: "IP4ToInt (sn_PoolStart s) = Some lo" "IP4ToInt (sn_PoolEnd s) = Some hi" "lo \<le> hi"
    "contains_str (ip4_net b n) (sn_PoolStart s)" "contains_str (ip4_net b n) (sn_PoolEnd s)"
    by (auto simp: sn_Validate_def split: option.splits if_splits)
  from addr [OF v(1,4)] addr [OF v(2,5)] obtain x y where
    x: "length x = 4" "lo = uint (u32_of x)" "Contains (ip4_net b n) x" and
    y: "length y = 4" "hi = uint (u32_of y)" "Contains (ip4_net b n) y" by blast
  let ?K = "2 ^ (32 - n) :: int"
  have "Contains (ip4_net b n) (u32_bytes v) \<and> IP4ToInt (IntToIP4 v) = Some v" if "lo \<le> v" "v \<le> hi" for v
  proof -
    have "0 \<le> lo" "hi < 2 ^ 32" using x(2) y(2) uint_bounded [of "u32_of y"] by simp_all
    with that have r: "0 \<le> v" "v < 2 ^ 32" by linarith+
    note u = uint_u32_bytes [OF r]
    have "lo div ?K \<le> v div ?K" "v div ?K \<le> hi div ?K" using that by (simp_all add: zdiv_mono1)
    then have "v div ?K = uint (u32_of b) div ?K" using x y assms(3,4) by (simp add: Contains_uint)
    then have "Contains (ip4_net b n) (u32_bytes v)" using assms(3,4) u by (simp only: Contains_uint length_u32_bytes)
    moreover have "IP4ToInt (IntToIP4 v) = Some v" unfolding IntToIP4_def using IP4ToInt_dotted [of "u32_bytes v"] u by simp
    ultimately show ?thesis ..
  qed
  with v(1-3) show ?thesis by blast
qed

definition ex_subnet :: SubnetSpec where
  "ex_subnet = \<lparr> sn_Subnet = ip4_String [10, 0, 0, 0] @ CHR ''/'' # nat_str 24, sn_PoolStart = ip4_String [10, 0, 0, 10],
     sn_PoolEnd = ip4_String [10, 0, 0, 99], sn_Router = [], sn_Domain = [], sn_DNSServers = [], sn_Interface = [] \<rparr>"

lemma ex_subnet_trim: "TrimSpace (sn_Subnet ex_subnet) = ip4_String [10, 0, 0, 0] @ CHR ''/'' # nat_str 24"
proof -
  have "list_all is_graph (ip4_String [10, 0, 0, 0] @ CHR ''/'' # nat_str 24)"
    using ip4_String_is_graph [of "[10, 0, 0, 0]"] nat_str_graph [of 24] by (simp add: is_graph_def)
  then show ?thesis by (simp add: ex_subnet_def)
qed

lemma ex_subnet_valid: "sn_Validate ex_subnet = None"
proof -
  have p: "ParseCIDR (TrimSpace (sn_Subnet ex_subnet)) = Some (v4_in_v6_prefix @ [10, 0, 0, 0], ip4_net [10, 0, 0, 0] 24)"
    unfolding ex_subnet_trim by (rule ParseCIDR_ip4) simp_all
  have f: "sn_PoolStart ex_subnet = ip4_String [10, 0, 0, 10]" "sn_PoolEnd ex_subnet = ip4_String [10, 0, 0, 99]"
    "sn_Router ex_subnet = []" "sn_DNSServers ex_subnet = []" "sn_Interface ex_subnet = []"
    by (simp_all add: ex_subnet_def)
  have c: "contains_str (ip4_net [10, 0, 0, 0] 24) (ip4_String x)" if "x = [10, 0, 0, 10] \<or> x = [10, 0, 0, 99]" for x
    using that by (auto simp: contains_str_def Contains_ip4_net(2)) (simp_all add: Contains_uint uint_u32_of)
  have t: "To4 (net_IP (ip4_net [10, 0, 0, 0] 24)) \<noteq> None" by (simp add: net_IP_ip4)
  show ?thesis
    unfolding sn_Validate_def p f using c t by (simp add: IP4ToInt_dotted uint_u32_of del: not_None_eq)
qed

theorem sn_Validate_pool_inside_witness:
  "Contains (ip4_net [10, 0, 0, 0] 24) (u32_bytes (uint (u32_of [10, 0, 0, 50])))"
proof -
  have v: "IP4ToInt (sn_PoolStart ex_subnet) = Some (uint (u32_of [10, 0, 0, 10]))"
    "IP4ToInt (sn_PoolEnd ex_subnet) = Some (uint (u32_of [10, 0, 0, 99]))"
    by (simp_all add: ex_subnet_def IP4ToInt_dotted)
  have "\<forall>v. uint (u32_of [10, 0, 0, 10]) \<le> v \<and> v \<le> uint (u32_of [10, 0, 0, 99]) \<longrightarrow>
      Contains (ip4_net [10, 0, 0, 0] 24) (u32_bytes v) \<and> IP4ToInt (IntToIP4 v) = Some v"
    using sn_Validate_pool_inside [OF ex_subnet_valid ex_subnet_trim] v by auto
  moreover have "uint (u32_of [10, 0, 0, 10]) \<le> uint (u32_of [10, 0, 0, 50])"
    "uint (u32_of [10, 0, 0, 50]) \<le> uint (u32_of [10, 0, 0, 99])" by (simp_all add: uint_u32_of)
  ultimately show ?thesis by blast
qed

section \<open>The edits keep the subnets disjoint\<close>

text \<open>Subnet identifiers are unique and no two subnets overlap.\<close>

definition subnets_ok :: "obj \<Rightarrow> bool" where
  "subnets_ok d \<longleftrightarrow> distinct (map subnetID (subnetSlice d))
     \<and> sorted_wrt (\<lambda>x y. \<not> CIDRsOverlap (entryCIDR x) (entryCIDR y)) (subnetSlice d)"

lemma subnetSlice_other:
  "subnetSlice (EnsureDefaults d) = subnetSlice d" "subnetSlice (EnsureInterface d i) = subnetSlice d"
  "subnetSlice (SetDropClass d macs) = subnetSlice d" "subnetSlice (obj_put ''subnet4'' (JArr l) d) = l"
  by (simp_all add: subnetSlice_def EnsureDefaults_def EnsureInterface_def SetDropClass_def Let_def)
     (simp add: get_arr_def map_of_obj_del)

lemma entryCIDR_overlap: "\<not> (\<exists>m. e = JObj m) \<Longrightarrow> \<not> CIDRsOverlap (entryCIDR e) c"
  by (cases e) (auto simp: entryCIDR_def CIDRsOverlap_def ParseCIDR_def)

lemma add_loop_Inr:
  "add_loop c k l = Inr k' \<Longrightarrow> k \<le> k' \<and> (\<forall>e \<in> set l. subnetID e \<le> k' \<and> \<not> CIDRsOverlap (entryCIDR e) c)"
proof (induction c k l rule: add_loop.induct)
  case (2 c k e rest)
  let ?k = "if subnetID e > k then subnetID e else k"
  from 2(2) have step: "add_loop c ?k rest = Inr k'" and e: "\<not> CIDRsOverlap (entryCIDR e) c"
    using entryCIDR_overlap [of e c]
    by (cases e; auto simp: entryCIDR_def Let_def split: if_splits)+
  show ?case using "2.IH" [OF step] e by (auto split: if_splits)
qed simp

lemma update_loop_Return:
  "update_loop i s l = Return l' \<Longrightarrow> map subnetID l' = map subnetID l \<and> map entryCIDR l' = map entryCIDR l"
proof (induction i s l arbitrary: l' rule: update_loop.induct)
  case (2 i s e rest)
  have keep: "subnetID (JObj (update_entry s m)) = subnetID (JObj m) \<and> entryCIDR (JObj (update_entry s m)) = entryCIDR (JObj m)" for m
    by (simp add: update_entry_def subnetID_def entryCIDR_def get_str_def map_of_obj_put map_of_obj_del Let_def)
  show ?case
  proof (cases "subnetID e = i")
    case True
    with "2.prems" keep show ?thesis by (cases e) (auto split: if_splits)
  next
    case False
    with "2.prems" obtain r where "update_loop i s rest = Return r" "l' = e # r" by (auto split: outcome.splits)
    with "2.IH" [OF False] show ?thesis by simp
  qed
qed simp

lemma AddSubnet_slice:
  assumes "AddSubnet d s = (Inr i, d')"
  shows "\<exists>e. subnetSlice d' = subnetSlice d @ [e] \<and> subnetID e = i \<and> entryCIDR e = sn_Subnet s
    \<and> (\<forall>x \<in> set (subnetSlice d). subnetID x < i \<and> \<not> CIDRsOverlap (entryCIDR x) (sn_Subnet s))"
proof -
  from assms obtain k where "add_loop (sn_Subnet s) 0 (subnetSlice d) = Inr k" "i = k + 1"
    by (auto simp: AddSubnet_def Let_def subnetSlice_other split: option.splits sum.splits)
  then have "\<forall>x \<in> set (subnetSlice d). subnetID x < i \<and> \<not> CIDRsOverlap (entryCIDR x) (sn_Subnet s)"
    using add_loop_Inr by fastforce
  with assms show ?thesis
    by (auto simp: AddSubnet_def Let_def subnetSlice_other subnetID_def entryCIDR_def get_str_def
        split: option.splits sum.splits)
qed

lemma sorted_wrt_map_eq: "map f l = map f l' \<Longrightarrow> sorted_wrt (\<lambda>x y. P (f x) (f y)) l = sorted_wrt (\<lambda>x y. P (f x) (f y)) l'"
  by (metis sorted_wrt_map)

lemma AddSubnet_ok: "AddSubnet d s = (Inr i, d') \<Longrightarrow> subnets_ok d \<Longrightarrow> subnets_ok d'"
  using AddSubnet_slice [of d s i d'] by (fastforce simp: subnets_ok_def sorted_wrt_append)

lemma UpdateSubnet_ok:
  assumes "UpdateSubnet d i s = Return d'" "subnets_ok d"
  shows "subnets_ok d'"
proof -
  from assms(1) obtain l where l: "update_loop i s (subnetSlice d) = Return l" "subnetSlice d' = l"
    by (auto simp: UpdateSubnet_def Let_def subnetSlice_other split: option.splits outcome.splits)
  from update_loop_Return [OF l(1)] assms(2) show ?thesis
    using sorted_wrt_map_eq [of entryCIDR l "subnetSlice d" "\<lambda>x y. \<not> CIDRsOverlap x y"]
    by (simp add: subnets_ok_def l(2))
qed

lemma DeleteSubnet_ok: "DeleteSubnet d i = (found, d') \<Longrightarrow> subnets_ok d \<Longrightarrow> subnets_ok d'"
  by (auto simp: DeleteSubnet_def Let_def subnets_ok_def subnetSlice_other distinct_map_filter sorted_wrt_filter)

lemma SetDropClass_ok: "subnets_ok d \<Longrightarrow> subnets_ok (SetDropClass d macs)"
  by (simp add: subnets_ok_def subnetSlice_other)

end
