(* ===== verification/Dhcp.thy ===== *)
theory Dhcp
  imports Kea Users
begin

text \<open>
  The DHCP handlers of \<open>cmd/saguaro\<close>: the configuration transaction with the Kea server
  (\<open>dhcp.go\<close>), the MAC block list (\<open>dhcp_block.go\<close>), the reservation table
  (\<open>internal/adapters/kea/hosts.go\<close>) and the conflict report (\<open>conflicts.go\<close>).

  The Kea server and the database are not part of the sources. The server is a record of its
  commands on a state, and \<open>kea_contract\<close> is what the transaction relies on: a command
  that reports failure changed nothing. The reservation table is its list of rows, with the
  meaning of the queries the code sends written out; \<open>up\<close> tells whether the database
  answers, \<open>newid\<close> is the identifier it assigns.
\<close>

section \<open>The configuration transaction\<close>

record 'k keaServer =
  kc_get :: "'k \<Rightarrow> json option"
  kc_test :: "'k \<Rightarrow> json \<Rightarrow> bool"
  kc_set :: "'k \<Rightarrow> json \<Rightarrow> bool \<times> 'k"
  kc_status :: "'k \<Rightarrow> bool"
  kc_write :: "'k \<Rightarrow> bool \<times> 'k"

definition kea_contract :: "'k keaServer \<Rightarrow> ('k \<Rightarrow> json) \<Rightarrow> bool" where
  "kea_contract srv running \<longleftrightarrow>
     (\<forall>k c. kc_get srv k = Some c \<longrightarrow> c = running k)
   \<and> (\<forall>k c. running (snd (kc_set srv k c)) = (if fst (kc_set srv k c) then c else running k))
   \<and> (\<forall>k. running (snd (kc_write srv k)) = running k)"

definition ConfigGetRaw :: "'k keaServer \<Rightarrow> 'k \<Rightarrow> obj option" where
  "ConfigGetRaw srv k =
     (case kc_get srv k of
        Some (JObj cfg) \<Rightarrow> (case map_of cfg ''Dhcp4'' of Some (JObj _) \<Rightarrow> Some cfg | _ \<Rightarrow> None)
      | _ \<Rightarrow> None)"

datatype TxnError = TUnavailable | TGet | TMutate KeaError | TTest | TSet | TRestored | TRollbackFailed

text \<open>
  The mutation works on the decoded configuration; the backup is its encoding before, so the
  rollback sends the configuration that was read. A failed write to disk is only logged.
\<close>

definition keaSubnetTxn ::
  "'k keaServer option \<Rightarrow> (obj \<Rightarrow> (KeaError, obj) outcome) \<Rightarrow> 'k \<Rightarrow> (TxnError, unit) outcome \<times> 'k" where
  "keaSubnetTxn client mutate k =
     (case client of
        None \<Rightarrow> (Error TUnavailable, k)
      | Some srv \<Rightarrow>
          (case ConfigGetRaw srv k of
             None \<Rightarrow> (Error TGet, k)
           | Some cfg \<Rightarrow>
               (case mutate (get_obj cfg ''Dhcp4'') of
                  Panic \<Rightarrow> (Panic, k)
                | Error e \<Rightarrow> (Error (TMutate e), k)
                | Return dhcp4 \<Rightarrow>
                    let cfg' = JObj (obj_put ''Dhcp4'' (JObj dhcp4) cfg)
                    in if \<not> kc_test srv k cfg' then (Error TTest, k)
                       else let (ok, k1) = kc_set srv k cfg'
                            in if \<not> ok then (Error TSet, k1)
                               else if \<not> kc_status srv k1 then
                                 (let (rb, k2) = kc_set srv k1 (JObj cfg)
                                  in if \<not> rb then (Error TRollbackFailed, k2) else (Error TRestored, k2))
                               else (Return (), snd (kc_write srv k1)))))"

definition mut_add :: "SubnetSpec \<Rightarrow> obj \<Rightarrow> (KeaError, obj) outcome" where
  "mut_add s d = (case AddSubnet d s of (Inl e, _) \<Rightarrow> Error e | (Inr _, d') \<Rightarrow> Return d')"

definition mut_delete :: "int \<Rightarrow> obj \<Rightarrow> (KeaError, obj) outcome" where
  "mut_delete i d = (case DeleteSubnet d i of (found, d') \<Rightarrow> if found then Return d' else Error (KNotFound i))"

definition mut_drop :: "string list \<Rightarrow> obj \<Rightarrow> (KeaError, obj) outcome" where
  "mut_drop macs d = Return (SetDropClass d macs)"

section \<open>Handlers\<close>

record 'k dhcpApp =
  dh_kea :: 'k
  dh_blocked :: "string list"
  dh_audit :: "auditEvent list"

datatype dresponse = DOk | DBlocked "string list" | DBadRequest TxnError | DBadGateway TxnError | DErr int string | DPanic

definition subnet_result ::
  "reqctx \<Rightarrow> string \<Rightarrow> string \<Rightarrow> string \<Rightarrow> (TxnError, unit) outcome \<times> 'k \<Rightarrow> 'k dhcpApp \<Rightarrow> dresponse \<times> 'k dhcpApp" where
  "subnet_result rq action target severity res a =
     (case res of
        (Panic, k) \<Rightarrow> (DPanic, a \<lparr> dh_kea := k \<rparr>)
      | (Error e, k) \<Rightarrow>
          (DBadRequest e, a \<lparr> dh_kea := k, dh_audit := record_info rq (actor rq) action target ''failed'' (dh_audit a) \<rparr>)
      | (Return _, k) \<Rightarrow>
          (DOk, a \<lparr> dh_kea := k,
                    dh_audit := recordSev rq (actor rq) action target ''success'' severity (dh_audit a) \<rparr>))"

definition apiDHCPSubnetAdd ::
  "'k keaServer option \<Rightarrow> reqctx \<Rightarrow> string + SubnetSpec \<Rightarrow> 'k dhcpApp \<Rightarrow> dresponse \<times> 'k dhcpApp" where
  "apiDHCPSubnetAdd client rq input a =
     (case input of
        Inl msg \<Rightarrow> (DErr 400 msg, a)
      | Inr s \<Rightarrow> subnet_result rq ''dhcp-subnet-add'' (sn_Subnet s) ''info''
                   (keaSubnetTxn client (mut_add s) (dh_kea a)) a)"

definition apiDHCPSubnetUpdate ::
  "'k keaServer option \<Rightarrow> reqctx \<Rightarrow> string \<Rightarrow> string + SubnetSpec \<Rightarrow> 'k dhcpApp \<Rightarrow> dresponse \<times> 'k dhcpApp" where
  "apiDHCPSubnetUpdate client rq pid input a =
     (case Atoi pid of
        None \<Rightarrow> (DErr 400 ''invalid subnet id'', a)
      | Some i \<Rightarrow>
          if i \<le> 0 then (DErr 400 ''invalid subnet id'', a)
          else (case input of
             Inl msg \<Rightarrow> (DErr 400 msg, a)
           | Inr s \<Rightarrow> subnet_result rq ''dhcp-subnet-update'' (sn_Subnet s) ''info''
                        (keaSubnetTxn client (\<lambda>d. UpdateSubnet d i s) (dh_kea a)) a))"

text \<open>\<open>reservations\<close>: how many the table lists for the subnet, when there is a table that answers.\<close>

definition apiDHCPSubnetDelete ::
  "'k keaServer option \<Rightarrow> reqctx \<Rightarrow> string \<Rightarrow> bool \<Rightarrow> (int \<Rightarrow> nat option) \<Rightarrow> 'k dhcpApp \<Rightarrow> dresponse \<times> 'k dhcpApp" where
  "apiDHCPSubnetDelete client rq pid force reservations a =
     (case Atoi pid of
        None \<Rightarrow> (DErr 400 ''invalid subnet id'', a)
      | Some i \<Rightarrow>
          if i \<le> 0 then (DErr 400 ''invalid subnet id'', a)
          else let n = (case reservations i of None \<Rightarrow> 0 | Some n \<Rightarrow> n)
               in if \<not> force \<and> n > 0 then
                    (DErr 409 (''subnet has '' @ nat_str n
                       @ '' reservations; delete them first or repeat with ?force=true''), a)
                  else subnet_result rq ''dhcp-subnet-delete'' (Itoa i) ''warning''
                         (keaSubnetTxn client (mut_delete i) (dh_kea a)) a)"

definition block_commit ::
  "'k keaServer option \<Rightarrow> reqctx \<Rightarrow> string \<Rightarrow> string \<Rightarrow> string \<Rightarrow> string list \<Rightarrow> bool \<Rightarrow> 'k dhcpApp \<Rightarrow> dresponse \<times> 'k dhcpApp" where
  "block_commit client rq action mac severity macs saved a =
     (case keaSubnetTxn client (mut_drop macs) (dh_kea a) of
        (Return _, k) \<Rightarrow>
          if \<not> saved then (DErr 500 ''cannot persist blocklist'', a \<lparr> dh_kea := k, dh_blocked := macs \<rparr>)
          else (DBlocked macs, a \<lparr> dh_kea := k, dh_blocked := macs,
                  dh_audit := recordSev rq (actor rq) action mac ''success'' severity (dh_audit a) \<rparr>)
      | (Panic, k) \<Rightarrow> (DPanic, a \<lparr> dh_kea := k \<rparr>)
      | (Error e, k) \<Rightarrow> (DBadGateway e, a \<lparr> dh_kea := k \<rparr>))"

definition apiDHCPBlockAdd ::
  "'k keaServer option \<Rightarrow> reqctx \<Rightarrow> string + string \<Rightarrow> bool \<Rightarrow> 'k dhcpApp \<Rightarrow> dresponse \<times> 'k dhcpApp" where
  "apiDHCPBlockAdd client rq input saved a =
     (case input of
        Inl msg \<Rightarrow> (DErr 400 msg, a)
      | Inr m \<Rightarrow>
          (case NormalizeMAC m of
             None \<Rightarrow> (DErr 400 (''invalid MAC address '' @ Quote (ToLower (TrimSpace m)) @ '' (expected aa:bb:cc:dd:ee:ff)''), a)
           | Some h \<Rightarrow>
               let mac = FormatMACHex h; macs = dh_blocked a
               in if mac \<in> set macs then (DBlocked macs, a)
                  else block_commit client rq ''dhcp-block-add'' mac ''warning'' (macs @ [mac]) saved a))"

definition apiDHCPBlockDelete ::
  "'k keaServer option \<Rightarrow> reqctx \<Rightarrow> string \<Rightarrow> bool \<Rightarrow> 'k dhcpApp \<Rightarrow> dresponse \<times> 'k dhcpApp" where
  "apiDHCPBlockDelete client rq m saved a =
     (case NormalizeMAC m of
        None \<Rightarrow> (DErr 400 (''invalid MAC address '' @ Quote (ToLower (TrimSpace m)) @ '' (expected aa:bb:cc:dd:ee:ff)''), a)
      | Some h \<Rightarrow>
          let mac = FormatMACHex h; macs = dh_blocked a
          in if mac \<notin> set macs then (DErr 404 ''MAC is not blocked'', a)
             else block_commit client rq ''dhcp-block-remove'' mac ''info'' (filter (\<lambda>x. x \<noteq> mac) macs) saved a)"

section \<open>Reservations\<close>

record Reservation =
  rv_ID :: int
  rv_MAC :: string
  rv_IP :: string
  rv_Hostname :: string
  rv_SubnetID :: int

record hostRow =
  ho_id :: int
  ho_type :: int
  ho_ident :: string
  ho_subnet :: int
  ho_ip :: int
  ho_name :: string

datatype HostError = HMAC | HIP | HSubnet | HDB | HExists

definition hosts_List :: "bool \<Rightarrow> int \<Rightarrow> hostRow list \<Rightarrow> Reservation list option" where
  "hosts_List up subnet rows =
     (if \<not> up then None
      else Some (map (\<lambda>h. \<lparr> rv_ID = ho_id h, rv_MAC = FormatMACHex (ho_ident h), rv_IP = IntToIP4 (ho_ip h),
                   rv_Hostname = ho_name h, rv_SubnetID = ho_subnet h \<rparr>)
             (sort_key ho_ip (filter (\<lambda>h. ho_type h = 0 \<and> (if subnet > 0 then ho_subnet h = subnet else True)) rows))))"

definition dupes :: "string \<Rightarrow> int \<Rightarrow> int \<Rightarrow> hostRow list \<Rightarrow> nat" where
  "dupes mac subnet ip rows =
     length (filter (\<lambda>h. ho_type h = 0 \<and> (ho_ident h = mac \<and> ho_subnet h = subnet \<or> ho_ip h = ip)) rows)"

definition hosts_Add :: "bool \<Rightarrow> int \<Rightarrow> Reservation \<Rightarrow> hostRow list \<Rightarrow> (HostError + int) \<times> hostRow list" where
  "hosts_Add up newid r rows =
     (case NormalizeMAC (rv_MAC r) of
        None \<Rightarrow> (Inl HMAC, rows)
      | Some macHex \<Rightarrow>
          (case IP4ToInt (rv_IP r) of
             None \<Rightarrow> (Inl HIP, rows)
           | Some ipInt \<Rightarrow>
               if rv_SubnetID r \<le> 0 then (Inl HSubnet, rows)
               else if \<not> up then (Inl HDB, rows)
               else if dupes macHex (rv_SubnetID r) ipInt rows > 0 then (Inl HExists, rows)
               else (Inr newid, rows @ [\<lparr> ho_id = newid, ho_type = 0, ho_ident = macHex,
                       ho_subnet = rv_SubnetID r, ho_ip = ipInt, ho_name = rv_Hostname r \<rparr>])))"

definition hosts_Delete :: "bool \<Rightarrow> int \<Rightarrow> hostRow list \<Rightarrow> (unit + bool) \<times> hostRow list" where
  "hosts_Delete up i rows =
     (if \<not> up then (Inl (), rows)
      else (Inr (list_ex (\<lambda>h. ho_id h = i \<and> ho_type h = 0) rows),
            filter (\<lambda>h. \<not> (ho_id h = i \<and> ho_type h = 0)) rows))"

text \<open>The reservation handlers; \<open>db\<close> is \<open>None\<close> when no host database is configured.\<close>

record hostApp =
  ha_rows :: "hostRow list"
  ha_audit :: "auditEvent list"

datatype hresponse = HErr int string | HHost int HostError | HList "Reservation list" | HAdded int | HDeleted

definition keaDBUnavailable :: string where
  "keaDBUnavailable = ''Kea host database is not configured (SAGUARO_KEA_DB_DSN)''"

definition apiDHCPReservations :: "bool option \<Rightarrow> string \<Rightarrow> hostApp \<Rightarrow> hresponse" where
  "apiDHCPReservations db query a =
     (case db of
        None \<Rightarrow> HErr 503 keaDBUnavailable
      | Some up \<Rightarrow>
          (case hosts_List up (ParseInt64_value query) (ha_rows a) of
             None \<Rightarrow> HHost 500 HDB
           | Some out \<Rightarrow> HList out))"

definition apiDHCPReservationAdd ::
  "bool option \<Rightarrow> int \<Rightarrow> reqctx \<Rightarrow> string + Reservation \<Rightarrow> hostApp \<Rightarrow> hresponse \<times> hostApp" where
  "apiDHCPReservationAdd db newid rq input a =
     (case db of
        None \<Rightarrow> (HErr 503 keaDBUnavailable, a)
      | Some up \<Rightarrow>
          (case input of
             Inl msg \<Rightarrow> (HErr 400 msg, a)
           | Inr r \<Rightarrow>
               (case hosts_Add up newid r (ha_rows a) of
                  (Inl e, rows) \<Rightarrow>
                    (HHost 400 e, a \<lparr> ha_rows := rows,
                       ha_audit := record_info rq (actor rq) ''dhcp-reservation-add'' (rv_IP r) ''failed'' (ha_audit a) \<rparr>)
                | (Inr i, rows) \<Rightarrow>
                    (HAdded i, a \<lparr> ha_rows := rows,
                       ha_audit := record_info rq (actor rq) ''dhcp-reservation-add'' (rv_IP r) ''success'' (ha_audit a) \<rparr>))))"

definition apiDHCPReservationDelete :: "bool option \<Rightarrow> reqctx \<Rightarrow> string \<Rightarrow> hostApp \<Rightarrow> hresponse \<times> hostApp" where
  "apiDHCPReservationDelete db rq pid a =
     (case db of
        None \<Rightarrow> (HErr 503 keaDBUnavailable, a)
      | Some up \<Rightarrow>
          (case Atoi pid of
             None \<Rightarrow> (HErr 400 ''invalid reservation id'', a)
           | Some i \<Rightarrow>
               if i \<le> 0 then (HErr 400 ''invalid reservation id'', a)
               else (case hosts_Delete up i (ha_rows a) of
                  (Inl _, rows) \<Rightarrow> (HHost 500 HDB, a \<lparr> ha_rows := rows \<rparr>)
                | (Inr False, rows) \<Rightarrow> (HErr 404 ''reservation not found'', a \<lparr> ha_rows := rows \<rparr>)
                | (Inr True, rows) \<Rightarrow>
                    (HDeleted, a \<lparr> ha_rows := rows,
                       ha_audit := record_info rq (actor rq) ''dhcp-reservation-delete'' (Itoa i) ''success'' (ha_audit a) \<rparr>))))"

section \<open>The transaction is atomic\<close>

definition top_obj :: "json \<Rightarrow> obj" where
  "top_obj c = (case c of JObj m \<Rightarrow> m | _ \<Rightarrow> [])"

definition dhcp4_of :: "json \<Rightarrow> obj" where
  "dhcp4_of c = get_obj (top_obj c) ''Dhcp4''"

definition with_dhcp4 :: "obj \<Rightarrow> json \<Rightarrow> json" where
  "with_dhcp4 d c = JObj (obj_put ''Dhcp4'' (JObj d) (top_obj c))"

lemma dhcp4_of_with [simp]: "dhcp4_of (with_dhcp4 d c) = d"
  by (simp add: dhcp4_of_def with_dhcp4_def top_obj_def)

lemma ConfigGetRaw_running:
  "kea_contract srv running \<Longrightarrow> ConfigGetRaw srv k = Some cfg \<Longrightarrow> running k = JObj cfg"
  by (auto simp: ConfigGetRaw_def kea_contract_def split: option.splits json.splits)

lemma txn_atomic:
  assumes "kea_contract srv running" "keaSubnetTxn (Some srv) mutate k = (res, k')"
  shows "(case res of
      Return _ \<Rightarrow> \<exists>d. mutate (dhcp4_of (running k)) = Return d \<and> running k' = with_dhcp4 d (running k)
    | Error TRollbackFailed \<Rightarrow> \<exists>d. mutate (dhcp4_of (running k)) = Return d \<and> running k' = with_dhcp4 d (running k)
    | _ \<Rightarrow> running k' = running k)"
proof (cases "ConfigGetRaw srv k")
  case None
  with assms(2) show ?thesis by (auto simp: keaSubnetTxn_def)
next
  case (Some cfg)
  note r = ConfigGetRaw_running [OF assms(1) Some]
  have st: "running (snd (kc_set srv q c)) = (if fst (kc_set srv q c) then c else running q)"
    "running (snd (kc_write srv q)) = running q" for q c
    using assms(1) by (simp_all add: kea_contract_def)
  have d: "dhcp4_of (JObj cfg) = get_obj cfg ''Dhcp4''" by (simp add: dhcp4_of_def top_obj_def)
  show ?thesis
  proof (cases "mutate (get_obj cfg ''Dhcp4'')")
    case (Return x)
    let ?c = "JObj (obj_put ''Dhcp4'' (JObj x) cfg)"
    have w: "with_dhcp4 x (JObj cfg) = ?c" by (simp add: with_dhcp4_def top_obj_def)
    show ?thesis
      using assms(2) Some Return st(1) [of k ?c] st(1) [of "snd (kc_set srv k ?c)" "JObj cfg"] st(2)
      by (auto simp: keaSubnetTxn_def d w r Let_def split: if_splits prod.splits)
  qed (use assms(2) Some in \<open>auto simp: keaSubnetTxn_def\<close>)
qed


text \<open>A server that keeps one configuration, accepts everything and always verifies.\<close>

definition ex_kea :: "json keaServer" where
  "ex_kea = \<lparr> kc_get = Some, kc_test = (\<lambda>_ _. True), kc_set = (\<lambda>_ c. (True, c)), kc_status = (\<lambda>_. True),
     kc_write = (\<lambda>k. (True, k)) \<rparr>"

lemma ex_kea_contract: "kea_contract ex_kea id"
  by (simp add: kea_contract_def ex_kea_def)

definition ex_kcfg :: json where
  "ex_kcfg = JObj [(''Dhcp4'', JObj [(''subnet4'', JArr [])])]"


section \<open>What the handlers keep\<close>

text \<open>One request of the DHCP pages; \<open>Q\<close> restricts the responses of a run.\<close>

inductive dhcp_reach :: "'k keaServer \<Rightarrow> (dresponse \<Rightarrow> bool) \<Rightarrow> 'k dhcpApp \<Rightarrow> 'k dhcpApp \<Rightarrow> bool"
  for srv Q a0 where
  start: "dhcp_reach srv Q a0 a0"
| add: "dhcp_reach srv Q a0 a \<Longrightarrow> apiDHCPSubnetAdd (Some srv) rq s a = (resp, a') \<Longrightarrow> Q resp \<Longrightarrow> dhcp_reach srv Q a0 a'"
| update: "dhcp_reach srv Q a0 a \<Longrightarrow> apiDHCPSubnetUpdate (Some srv) rq i s a = (resp, a') \<Longrightarrow> Q resp
    \<Longrightarrow> dhcp_reach srv Q a0 a'"
| delete: "dhcp_reach srv Q a0 a \<Longrightarrow> apiDHCPSubnetDelete (Some srv) rq i f n a = (resp, a') \<Longrightarrow> Q resp
    \<Longrightarrow> dhcp_reach srv Q a0 a'"
| block: "dhcp_reach srv Q a0 a \<Longrightarrow> apiDHCPBlockAdd (Some srv) rq m saved a = (resp, a') \<Longrightarrow> Q resp
    \<Longrightarrow> dhcp_reach srv Q a0 a'"
| unblock: "dhcp_reach srv Q a0 a \<Longrightarrow> apiDHCPBlockDelete (Some srv) rq m' saved a = (resp, a') \<Longrightarrow> Q resp
    \<Longrightarrow> dhcp_reach srv Q a0 a'"

text \<open>
  Every handler either leaves the server alone or runs one transaction with one of the four
  mutations; the block list changes only with the DROP mutation, when it succeeded.
\<close>

definition subnet_mut :: "(obj \<Rightarrow> (KeaError, obj) outcome) \<Rightarrow> bool" where
  "subnet_mut f \<longleftrightarrow> (\<exists>s. f = mut_add s) \<or> (\<exists>i s. f = (\<lambda>d. UpdateSubnet d i s)) \<or> (\<exists>i. f = mut_delete i)"

definition dhcp_effect :: "'k keaServer \<Rightarrow> 'k dhcpApp \<Rightarrow> dresponse \<Rightarrow> 'k dhcpApp \<Rightarrow> bool" where
  "dhcp_effect srv a resp a' \<longleftrightarrow>
     dh_kea a' = dh_kea a \<and> dh_blocked a' = dh_blocked a
   \<or> (\<exists>f res. subnet_mut f \<and> keaSubnetTxn (Some srv) f (dh_kea a) = (res, dh_kea a') \<and> dh_blocked a' = dh_blocked a
        \<and> (res = Error TRollbackFailed \<longrightarrow> resp = DBadRequest TRollbackFailed))
   \<or> (\<exists>macs res. keaSubnetTxn (Some srv) (mut_drop macs) (dh_kea a) = (res, dh_kea a')
        \<and> dh_blocked a' = (if res = Return () then macs else dh_blocked a)
        \<and> (res = Error TRollbackFailed \<longrightarrow> resp = DBadGateway TRollbackFailed))"

lemma subnet_result_effect:
  assumes "subnet_mut f" "subnet_result rq act t sev (keaSubnetTxn (Some srv) f (dh_kea a)) a = (resp, a')"
  shows "dhcp_effect srv a resp a'"
proof -
  obtain res k where t: "keaSubnetTxn (Some srv) f (dh_kea a) = (res, k)" by (cases "keaSubnetTxn (Some srv) f (dh_kea a)")
  with assms(2) have "dh_kea a' = k \<and> dh_blocked a' = dh_blocked a \<and> (res = Error TRollbackFailed \<longrightarrow> resp = DBadRequest TRollbackFailed)"
    by (cases res) (auto simp: subnet_result_def)
  with t assms(1) show ?thesis by (auto simp: dhcp_effect_def)
qed

lemma block_commit_effect:
  assumes "block_commit (Some srv) rq act mac sev macs saved a = (resp, a')"
  shows "dhcp_effect srv a resp a'"
proof -
  let ?t = "keaSubnetTxn (Some srv) (mut_drop macs) (dh_kea a)"
  obtain res k where t: "?t = (res, k)" by (cases ?t)
  with assms have "dh_kea a' = k \<and> dh_blocked a' = (if res = Return () then macs else dh_blocked a)
      \<and> (res = Error TRollbackFailed \<longrightarrow> resp = DBadGateway TRollbackFailed)"
    by (cases res) (auto simp: block_commit_def split: if_splits)
  with t show ?thesis unfolding dhcp_effect_def by blast
qed

lemma no_effect: "dhcp_effect srv a resp a"
  by (simp add: dhcp_effect_def)

lemma handler_effects:
  "apiDHCPSubnetAdd (Some srv) rq s a = (resp, a') \<Longrightarrow> dhcp_effect srv a resp a'"
  "apiDHCPSubnetUpdate (Some srv) rq i s a = (resp, a') \<Longrightarrow> dhcp_effect srv a resp a'"
  "apiDHCPSubnetDelete (Some srv) rq i f n a = (resp, a') \<Longrightarrow> dhcp_effect srv a resp a'"
  "apiDHCPBlockAdd (Some srv) rq m saved a = (resp, a') \<Longrightarrow> dhcp_effect srv a resp a'"
  "apiDHCPBlockDelete (Some srv) rq m' saved a = (resp, a') \<Longrightarrow> dhcp_effect srv a resp a'"
proof -
  have m: "subnet_mut (mut_add s)" "subnet_mut (\<lambda>d. UpdateSubnet d i s)" "subnet_mut (mut_delete i)" for s i
    by (auto simp: subnet_mut_def)
  show "apiDHCPSubnetAdd (Some srv) rq s a = (resp, a') \<Longrightarrow> dhcp_effect srv a resp a'"
    using subnet_result_effect [OF m(1)] no_effect by (auto simp: apiDHCPSubnetAdd_def split: sum.splits)
  show "apiDHCPSubnetUpdate (Some srv) rq i s a = (resp, a') \<Longrightarrow> dhcp_effect srv a resp a'"
    using subnet_result_effect [OF m(2)] no_effect
    by (auto simp: apiDHCPSubnetUpdate_def split: sum.splits option.splits if_splits)
  show "apiDHCPSubnetDelete (Some srv) rq i f n a = (resp, a') \<Longrightarrow> dhcp_effect srv a resp a'"
    using subnet_result_effect [OF m(3)] no_effect
    by (auto simp: apiDHCPSubnetDelete_def Let_def split: option.splits if_splits)
  show "apiDHCPBlockAdd (Some srv) rq m saved a = (resp, a') \<Longrightarrow> dhcp_effect srv a resp a'"
    using block_commit_effect no_effect
    by (auto simp: apiDHCPBlockAdd_def Let_def split: option.splits sum.splits if_splits)
  show "apiDHCPBlockDelete (Some srv) rq m' saved a = (resp, a') \<Longrightarrow> dhcp_effect srv a resp a'"
    using block_commit_effect no_effect
    by (auto simp: apiDHCPBlockDelete_def Let_def split: option.splits if_splits)
qed

lemma dhcp_reach_invariant:
  assumes "dhcp_reach srv Q a0 a" "P a0"
    and "\<And>b resp b'. P b \<Longrightarrow> dhcp_effect srv b resp b' \<Longrightarrow> Q resp \<Longrightarrow> P b'"
  shows "P a"
  using assms(1,2) by (induction rule: dhcp_reach.induct) (auto intro: assms(3) handler_effects)

lemma txn_invariant:
  assumes "kea_contract srv running" "keaSubnetTxn (Some srv) f k = (res, k')" "P (dhcp4_of (running k))"
    "\<And>d d'. P d \<Longrightarrow> f d = Return d' \<Longrightarrow> P d'"
  shows "P (dhcp4_of (running k'))"
  using txn_atomic [OF assms(1,2)] assms(3,4) by (auto split: outcome.splits TxnError.splits)

lemma subnet_mut_ok: "subnet_mut f \<Longrightarrow> f d = Return d' \<Longrightarrow> subnets_ok d \<Longrightarrow> subnets_ok d'"
  by (auto simp: subnet_mut_def mut_add_def mut_delete_def split: prod.splits sum.splits if_splits
      dest: AddSubnet_ok UpdateSubnet_ok DeleteSubnet_ok)


definition ex_dhcp :: "json dhcpApp" where
  "ex_dhcp = \<lparr> dh_kea = ex_kcfg, dh_blocked = [], dh_audit = [] \<rparr>"

lemma ex_dhcp_subnets: "subnets_ok (dhcp4_of (dh_kea ex_dhcp))"
  by (simp add: ex_dhcp_def ex_kcfg_def dhcp4_of_def top_obj_def get_obj_def subnets_ok_def subnetSlice_def get_arr_def)


text \<open>The managed DROP class of a configuration, and the one the block list asks for.\<close>

definition drop_classes :: "obj \<Rightarrow> json list" where
  "drop_classes d = filter is_drop (get_arr d ''client-classes'')"

definition wanted_drop :: "string list \<Rightarrow> json list" where
  "wanted_drop macs = only_if (macs \<noteq> []) [JObj [(''name'', JStr ''DROP''), (''test'', JStr (DropClassTest macs))]]"

lemma drop_classes_put: "k \<noteq> ''client-classes'' \<Longrightarrow> drop_classes (obj_put k v d) = drop_classes d"
  by (simp add: drop_classes_def)

lemma drop_classes_ensure:
  "drop_classes (EnsureDefaults d) = drop_classes d" "drop_classes (EnsureInterface d i) = drop_classes d"
  by (simp_all add: EnsureDefaults_def EnsureInterface_def drop_classes_put Let_def)

lemma subnet_mut_drop: "subnet_mut f \<Longrightarrow> f d = Return d' \<Longrightarrow> drop_classes d' = drop_classes d"
  by (auto simp: subnet_mut_def mut_add_def mut_delete_def AddSubnet_def UpdateSubnet_def DeleteSubnet_def Let_def
      drop_classes_put drop_classes_ensure split: prod.splits sum.splits if_splits option.splits outcome.splits)

lemma SetDropClass_drop: "drop_classes (SetDropClass d macs) = wanted_drop macs"
proof -
  have f: "filter is_drop (filter (\<lambda>c. \<not> is_drop c) l) = []" for l by (induction l) auto
  have d: "is_drop (JObj [(''name'', JStr ''DROP''), x])" for x by (simp add: is_drop_def get_str_def)
  show ?thesis
    by (cases "macs = []")
       (auto simp: drop_classes_def SetDropClass_def wanted_drop_def Let_def f d get_arr_def map_of_obj_del map_of_obj_put)
qed



end
