(* ===== verification/Conflicts.thy ===== *)
theory Conflicts
  imports Dhcp
begin

text \<open>
  Reservations stay unique, and \<open>cmd/saguaro/conflicts.go\<close>: the report of overlapping
  subnets and pools, duplicate or misplaced reservations and contradictory blocks. The loops
  of \<open>detectConflicts\<close> are folds over the same lists, in the same order.
\<close>

section \<open>Reservations are unique\<close>

definition managed :: "hostRow list \<Rightarrow> hostRow list" where
  "managed rows = filter (\<lambda>h. ho_type h = 0) rows"

definition hosts_unique :: "hostRow list \<Rightarrow> bool" where
  "hosts_unique rows \<longleftrightarrow> distinct (map ho_ip (managed rows)) \<and> distinct (map (\<lambda>h. (ho_ident h, ho_subnet h)) (managed rows))"

inductive hosts_reach :: "hostRow list \<Rightarrow> hostRow list \<Rightarrow> bool" for rows0 where
  start: "hosts_reach rows0 rows0"
| add: "hosts_reach rows0 rows \<Longrightarrow> hosts_reach rows0 (snd (hosts_Add up newid r rows))"
| delete: "hosts_reach rows0 rows \<Longrightarrow> hosts_reach rows0 (snd (hosts_Delete up i rows))"

lemma hosts_Add_unique: "hosts_unique rows \<Longrightarrow> hosts_unique (snd (hosts_Add up newid r rows))"
  by (auto simp: hosts_Add_def hosts_unique_def managed_def dupes_def filter_empty_conv split: option.split)

lemma hosts_Delete_unique: "hosts_unique rows \<Longrightarrow> hosts_unique (snd (hosts_Delete up i rows))"
proof -
  have "managed (filter (\<lambda>h. \<not> (ho_id h = i \<and> ho_type h = 0)) rows) = filter (\<lambda>h. ho_id h \<noteq> i) (managed rows)"
    by (auto simp: managed_def intro: filter_cong)
  then show "hosts_unique rows \<Longrightarrow> ?thesis"
    by (auto simp: hosts_Delete_def hosts_unique_def distinct_map_filter)
qed

text \<open>
  Reservations are unique and are listed as they were made: from a table with one managed
  reservation per address and per MAC and subnet, every sequence of additions and deletions
  keeps it so, and right after a successful addition the listing of its subnet has the
  reservation, with the address it was given and the canonical form of the MAC.
\<close>

theorem reservations_unique:
  assumes "hosts_reach rows0 rows" "hosts_unique rows0"
  shows "hosts_unique rows \<and>
    (case hosts_Add True newid r rows of
       (Inr i, rows') \<Rightarrow> \<exists>h v out. NormalizeMAC (rv_MAC r) = Some h \<and> IP4ToInt (rv_IP r) = Some v
           \<and> hosts_List True (rv_SubnetID r) rows' = Some out
           \<and> \<lparr> rv_ID = newid, rv_MAC = FormatMACHex h, rv_IP = IntToIP4 v, rv_Hostname = rv_Hostname r,
               rv_SubnetID = rv_SubnetID r \<rparr> \<in> set out
     | (Inl _, rows') \<Rightarrow> rows' = rows)"
proof
  show "hosts_unique rows"
    using assms by (induction rule: hosts_reach.induct) (auto intro: hosts_Add_unique hosts_Delete_unique)
  show "case hosts_Add True newid r rows of
       (Inr i, rows') \<Rightarrow> \<exists>h v out. NormalizeMAC (rv_MAC r) = Some h \<and> IP4ToInt (rv_IP r) = Some v
           \<and> hosts_List True (rv_SubnetID r) rows' = Some out
           \<and> \<lparr> rv_ID = newid, rv_MAC = FormatMACHex h, rv_IP = IntToIP4 v, rv_Hostname = rv_Hostname r,
               rv_SubnetID = rv_SubnetID r \<rparr> \<in> set out
     | (Inl _, rows') \<Rightarrow> rows' = rows"
    by (auto simp: hosts_Add_def hosts_List_def image_iff split: option.splits)
qed

definition ex_resv :: Reservation where
  "ex_resv = \<lparr> rv_ID = 0, rv_MAC = ''AA:BB:CC:DD:EE:0F'', rv_IP = ''10.0.0.9'', rv_Hostname = ''nas'', rv_SubnetID = 1 \<rparr>"

theorem reservations_unique_witness:
  "hosts_unique (snd (hosts_Add True 8 ex_resv (snd (hosts_Add True 7 ex_resv []))))"
  using reservations_unique [OF hosts_reach.add [OF hosts_reach.add [OF hosts_reach.start]]]
  by (simp add: hosts_unique_def managed_def)

section \<open>The conflict report\<close>

record KSubnetInfo =
  ki_ID :: int
  ki_Subnet :: string
  ki_Pools :: "string list"

record conflict =
  co_Severity :: string
  co_Kind :: string
  co_Message :: string

definition mk_conflict :: "string \<Rightarrow> string \<Rightarrow> string \<Rightarrow> conflict" where
  "mk_conflict sev kind msg = \<lparr> co_Severity = sev, co_Kind = kind, co_Message = msg \<rparr>"

definition parsePool :: "string \<Rightarrow> (int \<times> int) option" where
  "parsePool pool =
     (case cut (CHR ''-'') (ReplaceAllChar (CHR '' '') [] pool) of
        None \<Rightarrow> None
      | Some (l, h) \<Rightarrow>
          (case IP4ToInt l of
             None \<Rightarrow> None
           | Some lo \<Rightarrow> (case IP4ToInt h of None \<Rightarrow> None | Some hi \<Rightarrow> Some (lo, hi))))"

definition cidrsOverlap :: "IPNet \<Rightarrow> IPNet \<Rightarrow> bool" where
  "cidrsOverlap a b \<longleftrightarrow> Contains a (net_IP b) \<or> Contains b (net_IP a)"

text \<open>The map from subnet identifiers to networks; a later subnet of the same identifier wins.\<close>

definition nets_of :: "KSubnetInfo list \<Rightarrow> int \<rightharpoonup> IPNet" where
  "nets_of subnets =
     foldl (\<lambda>m s. case ParseCIDR (ki_Subnet s) of None \<Rightarrow> m | Some (_, n) \<Rightarrow> m(ki_ID s \<mapsto> n)) Map.empty subnets"

definition invalid_subnets :: "KSubnetInfo list \<Rightarrow> conflict list" where
  "invalid_subnets subnets =
     map (\<lambda>s. mk_conflict ''warning'' ''subnet''
            (''subnet '' @ Itoa (ki_ID s) @ '' has an invalid CIDR '' @ Quote (ki_Subnet s)))
         (filter (\<lambda>s. ParseCIDR (ki_Subnet s) = None) subnets)"

definition pair_overlap :: "(int \<rightharpoonup> IPNet) \<Rightarrow> KSubnetInfo \<Rightarrow> KSubnetInfo \<Rightarrow> bool" where
  "pair_overlap nets s t =
     (case (nets (ki_ID s), nets (ki_ID t)) of (Some a, Some b) \<Rightarrow> cidrsOverlap a b | _ \<Rightarrow> False)"

fun overlap_pairs :: "(int \<rightharpoonup> IPNet) \<Rightarrow> KSubnetInfo list \<Rightarrow> conflict list" where
  "overlap_pairs nets [] = []"
| "overlap_pairs nets (s # ss) =
     map (\<lambda>t. mk_conflict ''critical'' ''subnet-overlap''
            (''subnets '' @ ki_Subnet s @ '' and '' @ ki_Subnet t @ '' overlap'')) (filter (pair_overlap nets s) ss)
   @ overlap_pairs nets ss"

definition pool_warn :: "string \<Rightarrow> string \<Rightarrow> string \<Rightarrow> string \<Rightarrow> conflict" where
  "pool_warn kind cidr p txt = mk_conflict ''warning'' kind (''subnet '' @ cidr @ '' pool '' @ Quote p @ txt)"

fun pool_loop :: "IPNet option \<Rightarrow> string \<Rightarrow> (int \<times> int) list \<Rightarrow> string list \<Rightarrow> conflict list" where
  "pool_loop ipnet cidr ranges [] = []"
| "pool_loop ipnet cidr ranges (p # ps) =
     (case parsePool p of
        None \<Rightarrow> mk_conflict ''warning'' ''pool'' (''subnet '' @ cidr @ '' has a malformed pool '' @ Quote p)
                # pool_loop ipnet cidr ranges ps
      | Some (lo, hi) \<Rightarrow>
          only_if (lo > hi) [pool_warn ''pool'' cidr p '' start is after its end'']
        @ (case ipnet of
             None \<Rightarrow> []
           | Some n \<Rightarrow>
               if \<not> contains_str n (IntToIP4 lo) then [pool_warn ''pool-outside'' cidr p '' starts outside the subnet'']
               else if \<not> contains_str n (IntToIP4 hi) then [pool_warn ''pool-outside'' cidr p '' ends outside the subnet'']
               else [])
        @ only_if (list_ex (\<lambda>(rlo, rhi). lo \<le> rhi \<and> rlo \<le> hi) ranges)
            [mk_conflict ''warning'' ''pool-overlap'' (''subnet '' @ cidr @ '' has overlapping pools'')]
        @ pool_loop ipnet cidr (ranges @ [(lo, hi)]) ps)"

definition mac_key :: "Reservation \<Rightarrow> string" where
  "mac_key r = Itoa (rv_SubnetID r) @ ''/'' @ rv_MAC r"

fun resv_loop :: "(int \<rightharpoonup> IPNet) \<Rightarrow> string set \<Rightarrow> string set \<Rightarrow> string set \<Rightarrow> Reservation list \<Rightarrow> conflict list" where
  "resv_loop nets ipSeen ipDup macSeen [] = []"
| "resv_loop nets ipSeen ipDup macSeen (r # rs) =
     only_if (rv_IP r \<in> ipSeen \<and> rv_IP r \<notin> ipDup)
       [mk_conflict ''critical'' ''dup-ip'' (''IP '' @ rv_IP r @ '' is reserved more than once'')]
   @ only_if (mac_key r \<in> macSeen)
       [mk_conflict ''critical'' ''dup-mac'' (''MAC '' @ rv_MAC r @ '' has more than one reservation in subnet '' @ Itoa (rv_SubnetID r))]
   @ (case nets (rv_SubnetID r) of
        None \<Rightarrow> []
      | Some n \<Rightarrow> only_if (\<not> contains_str n (rv_IP r))
          [mk_conflict ''warning'' ''reservation-outside''
             (''reservation '' @ rv_IP r @ '' ('' @ rv_MAC r @ '') is outside its subnet '' @ Itoa (rv_SubnetID r))])
   @ resv_loop nets (insert (rv_IP r) ipSeen)
       (if rv_IP r \<in> ipSeen \<and> rv_IP r \<notin> ipDup then insert (rv_IP r) ipDup else ipDup)
       (insert (mac_key r) macSeen) rs"

definition in_pools :: "KSubnetInfo list \<Rightarrow> Reservation \<Rightarrow> conflict list" where
  "in_pools subnets r =
     (case IP4ToInt (rv_IP r) of
        None \<Rightarrow> []
      | Some v \<Rightarrow>
          concat (map (\<lambda>s. map (\<lambda>p. mk_conflict ''info'' ''reservation-in-pool''
               (''reservation '' @ rv_IP r @ '' sits inside dynamic pool '' @ Quote p @ ''; consider moving it outside''))
             (filter (\<lambda>p. case parsePool p of None \<Rightarrow> False | Some (lo, hi) \<Rightarrow> v \<ge> lo \<and> v \<le> hi) (ki_Pools s)))
           (filter (\<lambda>s. ki_ID s = rv_SubnetID r) subnets)))"

definition detectConflicts :: "KSubnetInfo list \<Rightarrow> Reservation list \<Rightarrow> string list \<Rightarrow> conflict list" where
  "detectConflicts subnets resv blocked =
     (let nets = nets_of subnets
      in invalid_subnets subnets
       @ overlap_pairs nets subnets
       @ concat (map (\<lambda>s. pool_loop (nets (ki_ID s)) (ki_Subnet s) [] (ki_Pools s)) subnets)
       @ resv_loop nets {} {} {} resv
       @ concat (map (in_pools subnets) resv)
       @ map (\<lambda>r. mk_conflict ''warning'' ''blocked-reserved''
                (''MAC '' @ rv_MAC r @ '' is both blocked and reserved ('' @ rv_IP r @ '')''))
             (filter (\<lambda>r. ToLower (rv_MAC r) \<in> ToLower ` set blocked) resv))"

section \<open>When the report is critical\<close>

definition critical :: "conflict \<Rightarrow> bool" where
  "critical c \<longleftrightarrow> co_Severity c = ''critical''"

lemma critical_mk [simp]: "critical (mk_conflict s k m) \<longleftrightarrow> s = ''critical''"
  by (simp add: critical_def mk_conflict_def)

lemma pool_warn_critical [simp]: "\<not> critical (pool_warn k c p t)"
  by (simp add: pool_warn_def)

lemma pool_loop_critical: "c \<in> set (pool_loop n cidr rs ps) \<Longrightarrow> \<not> critical c"
  by (induction n cidr rs ps rule: pool_loop.induct) (auto split: option.splits if_splits)

lemma overlap_pairs_critical:
  "(\<exists>c \<in> set (overlap_pairs nets ss). critical c) \<longleftrightarrow>
     (\<exists>i j. i < j \<and> j < length ss \<and> pair_overlap nets (ss ! i) (ss ! j))"
proof (induction ss)
  case (Cons s ss)
  have "(\<exists>i j. i < j \<and> j < length (s # ss) \<and> pair_overlap nets ((s # ss) ! i) ((s # ss) ! j)) \<longleftrightarrow>
      (\<exists>t \<in> set ss. pair_overlap nets s t) \<or> (\<exists>i j. i < j \<and> j < length ss \<and> pair_overlap nets (ss ! i) (ss ! j))"
    (is "?L \<longleftrightarrow> ?R")
  proof
    assume ?L
    then obtain i j where ij: "i < j" "j < length (s # ss)" "pair_overlap nets ((s # ss) ! i) ((s # ss) ! j)" by blast
    then obtain j' where "j = Suc j'" by (cases j) auto
    with ij show ?R by (cases i) (auto intro: nth_mem)
  next
    assume ?R
    then show ?L
    proof
      assume "\<exists>t \<in> set ss. pair_overlap nets s t"
      then obtain j where "j < length ss" "pair_overlap nets s (ss ! j)" by (auto simp: in_set_conv_nth)
      then show ?L by (intro exI [of _ 0] exI [of _ "Suc j"]) simp
    next
      assume "\<exists>i j. i < j \<and> j < length ss \<and> pair_overlap nets (ss ! i) (ss ! j)"
      then obtain i j where "i < j" "j < length ss" "pair_overlap nets (ss ! i) (ss ! j)" by blast
      then show ?L by (intro exI [of _ "Suc i"] exI [of _ "Suc j"]) simp
    qed
  qed
  moreover have "(\<exists>c \<in> set (overlap_pairs nets (s # ss)). critical c) \<longleftrightarrow>
      (\<exists>t \<in> set ss. pair_overlap nets s t) \<or> (\<exists>c \<in> set (overlap_pairs nets ss). critical c)"
    by (simp add: bex_Un) blast
  ultimately show ?case using Cons.IH by blast
qed simp

lemma resv_loop_critical:
  "(\<forall>c \<in> set (resv_loop nets S {} M rs). \<not> critical c) \<longleftrightarrow>
     distinct (map rv_IP rs) \<and> rv_IP ` set rs \<inter> S = {} \<and> distinct (map mac_key rs) \<and> mac_key ` set rs \<inter> M = {}"
proof (induction rs arbitrary: S M)
  case (Cons r rs)
  have nc: "\<forall>c \<in> set (case nets (rv_SubnetID r) of None \<Rightarrow> [] | Some n \<Rightarrow> only_if (\<not> contains_str n (rv_IP r))
      [mk_conflict ''warning'' ''reservation-outside'' m]). \<not> critical c" for m by (auto split: option.split)
  show ?case
  proof (cases "rv_IP r \<in> S \<or> mac_key r \<in> M")
    case True
    then show ?thesis by (auto simp: ball_Un)
  next
    case False
    then have "(\<forall>c \<in> set (resv_loop nets S {} M (r # rs)). \<not> critical c) \<longleftrightarrow>
        (\<forall>c \<in> set (resv_loop nets (insert (rv_IP r) S) {} (insert (mac_key r) M) rs). \<not> critical c)"
      using nc by (simp add: ball_Un)
    with False Cons.IH show ?thesis by auto
  qed
qed simp

lemma mac_key_inj: "mac_key r = mac_key q \<longleftrightarrow> (rv_SubnetID r, rv_MAC r) = (rv_SubnetID q, rv_MAC q)"
proof -
  have "\<not> is_digit (CHR ''/'')" by (simp add: is_digit_def)
  then have no: "CHR ''/'' \<notin> set (Itoa i)" for i using nat_str_no by (auto simp: Itoa_def)
  have "cut (CHR ''/'') (mac_key r) = Some (Itoa (rv_SubnetID r), rv_MAC r)" for r
    using no by (simp add: mac_key_def)
  then have "mac_key r = mac_key q \<Longrightarrow> Itoa (rv_SubnetID r) = Itoa (rv_SubnetID q) \<and> rv_MAC r = rv_MAC q"
    by (metis option.inject prod.inject)
  then show ?thesis by (auto simp: Itoa_inj) (simp add: mac_key_def)
qed

lemma distinct_mac_key: "distinct (map mac_key rs) \<longleftrightarrow> distinct (map (\<lambda>r. (rv_SubnetID r, rv_MAC r)) rs)"
  by (simp only: distinct_map inj_on_def mac_key_inj)

lemma nets_fold_other:
  "k \<notin> ki_ID ` set ss \<Longrightarrow>
   foldl (\<lambda>m s. case ParseCIDR (ki_Subnet s) of None \<Rightarrow> m | Some (_, n) \<Rightarrow> m(ki_ID s \<mapsto> n)) m ss k = m k"
  by (induction ss arbitrary: m) (auto split: option.split)

lemma nets_of_unique:
  assumes "distinct (map ki_ID ss)" "s \<in> set ss"
  shows "nets_of ss (ki_ID s) = map_option snd (ParseCIDR (ki_Subnet s))"
proof -
  have "foldl (\<lambda>m s. case ParseCIDR (ki_Subnet s) of None \<Rightarrow> m | Some (_, n) \<Rightarrow> m(ki_ID s \<mapsto> n)) m ss (ki_ID s)
      = (case ParseCIDR (ki_Subnet s) of None \<Rightarrow> m (ki_ID s) | Some (_, n) \<Rightarrow> Some n)" for m
    using assms by (induction ss arbitrary: m) (auto simp: nets_fold_other split: option.split, metis imageI)
  then show ?thesis by (auto simp: nets_of_def split: option.split)
qed

lemma pair_overlap_unique:
  assumes "distinct (map ki_ID ss)" "s \<in> set ss" "t \<in> set ss"
  shows "pair_overlap (nets_of ss) s t = CIDRsOverlap (ki_Subnet s) (ki_Subnet t)"
  using nets_of_unique [OF assms(1,2)] nets_of_unique [OF assms(1,3)]
  by (auto simp: pair_overlap_def CIDRsOverlap_def cidrsOverlap_def split: option.splits)

lemma detectConflicts_critical:
  "(\<exists>c \<in> set (detectConflicts subnets resv blocked). critical c) \<longleftrightarrow>
     (\<exists>c \<in> set (overlap_pairs (nets_of subnets) subnets). critical c)
     \<or> (\<exists>c \<in> set (resv_loop (nets_of subnets) {} {} {} resv). critical c)"
proof -
  have "\<not> critical c" if "c \<in> set (in_pools subnets r)" for c r
    using that by (auto simp: in_pools_def split: option.splits)
  moreover have "\<not> critical c" if "c \<in> set (invalid_subnets subnets)" for c
    using that by (auto simp: invalid_subnets_def)
  ultimately show ?thesis
    using pool_loop_critical by (auto simp: detectConflicts_def Let_def bex_Un)
qed

text \<open>
  C39. The conflict report is sound and complete for critical conflicts. For subnets with
  unique identifiers it has a critical entry exactly when two listed subnets overlap, an
  address is reserved twice, or a MAC has two reservations in one subnet.
\<close>

theorem detectConflicts_critical_iff:
  assumes "distinct (map ki_ID subnets)"
  shows "(\<exists>c \<in> set (detectConflicts subnets resv blocked). co_Severity c = ''critical'') \<longleftrightarrow>
     (\<exists>i j. i < j \<and> j < length subnets \<and> CIDRsOverlap (ki_Subnet (subnets ! i)) (ki_Subnet (subnets ! j)))
     \<or> \<not> distinct (map rv_IP resv) \<or> \<not> distinct (map (\<lambda>r. (rv_SubnetID r, rv_MAC r)) resv)"
proof -
  have "i < j \<and> j < length subnets \<and> pair_overlap (nets_of subnets) (subnets ! i) (subnets ! j) \<longleftrightarrow>
      i < j \<and> j < length subnets \<and> CIDRsOverlap (ki_Subnet (subnets ! i)) (ki_Subnet (subnets ! j))" for i j
    using pair_overlap_unique [OF assms, of "subnets ! i" "subnets ! j"] by auto
  then have "(\<exists>c \<in> set (overlap_pairs (nets_of subnets) subnets). critical c) \<longleftrightarrow>
     (\<exists>i j. i < j \<and> j < length subnets \<and> CIDRsOverlap (ki_Subnet (subnets ! i)) (ki_Subnet (subnets ! j)))"
    by (simp only: overlap_pairs_critical)
  moreover have "(\<exists>c \<in> set (resv_loop (nets_of subnets) {} {} {} resv). critical c) \<longleftrightarrow>
      \<not> distinct (map rv_IP resv) \<or> \<not> distinct (map (\<lambda>r. (rv_SubnetID r, rv_MAC r)) resv)"
    using resv_loop_critical [of "nets_of subnets" "{}" "{}" resv] by (simp add: distinct_mac_key) blast
  ultimately have "(\<exists>c \<in> set (detectConflicts subnets resv blocked). critical c) \<longleftrightarrow>
     (\<exists>i j. i < j \<and> j < length subnets \<and> CIDRsOverlap (ki_Subnet (subnets ! i)) (ki_Subnet (subnets ! j)))
     \<or> \<not> distinct (map rv_IP resv) \<or> \<not> distinct (map (\<lambda>r. (rv_SubnetID r, rv_MAC r)) resv)"
    unfolding detectConflicts_critical by blast
  then show ?thesis by (simp add: critical_def)
qed

theorem detectConflicts_critical_iff_witness:
  "\<exists>c \<in> set (detectConflicts [\<lparr> ki_ID = 1, ki_Subnet = ''10.0.0.0/24'', ki_Pools = [] \<rparr>] [ex_resv, ex_resv] []).
     co_Severity c = ''critical''"
  by (subst detectConflicts_critical_iff) simp_all

end
