(* ===== verification/WireGuard.thy ===== *)
theory WireGuard
  imports Netplan
begin

text \<open>
  \<open>wireguard.go\<close>: validation of the road-warrior VPN, the server's address, the
  allocation of peer addresses, and the server and client configurations. Key generation
  (random bytes and curve25519) is outside the model; keys are strings the caller passes in.
  A time is its number of nanoseconds, and 0 is the zero time.
\<close>

section \<open>Definitions\<close>

datatype WgError = WgSubnet | WgTooSmall | WgPort | WgEndpoint | WgDNS | WgSplit string
  | WgPeerName string | WgPeerKey string | WgPeerAddress string | WgParse | WgFull string
  | WgServerKey | WgClientKey

definition b64_char :: "char \<Rightarrow> bool" where
  "b64_char c \<longleftrightarrow> is_upper c \<or> is_lower c \<or> is_digit c \<or> c = CHR ''+'' \<or> c = CHR ''/''"

definition ValidKey :: "string \<Rightarrow> bool" where
  "ValidKey s \<longleftrightarrow> length s = 44 \<and> list_all b64_char (take 42 s)
     \<and> s ! 42 \<in> set ''AEIMQUYcgkosw048'' \<and> s ! 43 = CHR ''=''"

definition name_alnum :: "char \<Rightarrow> bool" where
  "name_alnum c \<longleftrightarrow> is_lower c \<or> is_digit c"

definition peerNameRe :: "string \<Rightarrow> bool" where
  "peerNameRe s \<longleftrightarrow> s \<noteq> [] \<and> length s \<le> 32 \<and> name_alnum (hd s) \<and> name_alnum (last s)
     \<and> list_all (\<lambda>c. name_alnum c \<or> c = CHR ''.'' \<or> c = CHR ''_'' \<or> c = CHR ''-'') s"

record Peer =
  pe_Name :: string
  pe_PubKey :: string
  pe_Address :: string
  pe_FullTunnel :: bool
  pe_CreatedAt :: int
  pe_ExpiresAt :: int

definition Expired :: "Peer \<Rightarrow> int \<Rightarrow> bool" where
  "Expired p t \<longleftrightarrow> pe_ExpiresAt p \<noteq> 0 \<and> pe_ExpiresAt p < t"

record WgConfig =
  wg_Enabled :: bool
  wg_Subnet :: string
  wg_ListenPort :: int
  wg_Endpoint :: string
  wg_DNS :: string
  wg_SplitNetworks :: "string list"
  wg_ServerPub :: string
  wg_ServerPrivEnc :: string
  wg_Peers :: "Peer list"

definition endpoint_ok :: "string \<Rightarrow> bool" where
  "endpoint_ok e =
     (case SplitHostPort (TrimSpace e) of None \<Rightarrow> False | Some (host, port) \<Rightarrow> host \<noteq> [] \<and> port \<noteq> [])"

definition peer_check :: "IPNet \<Rightarrow> Peer \<Rightarrow> WgError option" where
  "peer_check ipnet p =
     (if \<not> peerNameRe (pe_Name p) then Some (WgPeerName (pe_Name p))
      else if \<not> ValidKey (pe_PubKey p) then Some (WgPeerKey (pe_Name p))
      else if (case ParseIP (pe_Address p) of None \<Rightarrow> True | Some ip \<Rightarrow> \<not> Contains ipnet ip)
        then Some (WgPeerAddress (pe_Name p))
      else None)"

definition wg_Validate :: "WgConfig \<Rightarrow> WgError option" where
  "wg_Validate c =
     (case ParseCIDR (TrimSpace (wg_Subnet c)) of
        None \<Rightarrow> Some WgSubnet
      | Some (ip, ipnet) \<Rightarrow>
          if To4 ip = None then Some WgSubnet
          else if fst (mask_Size (net_Mask ipnet)) > 30 then Some WgTooSmall
          else if wg_ListenPort c < 1 \<or> wg_ListenPort c > 65535 then Some WgPort
          else if wg_Enabled c \<and> \<not> endpoint_ok (wg_Endpoint c) then Some WgEndpoint
          else if wg_DNS c \<noteq> [] \<and> ParseIP (wg_DNS c) = None then Some WgDNS
          else err_then (first_err (\<lambda>s. fail_if (ParseCIDR (TrimSpace s) = None) (WgSplit s)) (wg_SplitNetworks c))
                        (first_err (peer_check ipnet) (wg_Peers c)))"

text \<open>
  \<open>v4[3]++\<close> on a nil slice panics: \<open>To4\<close> of the masked address is nil when the subnet
  is not written in dotted form and its prefix is shorter than 96 bits.
\<close>

definition ServerAddress :: "WgConfig \<Rightarrow> (WgError, string) outcome" where
  "ServerAddress c =
     (case ParseCIDR (wg_Subnet c) of
        None \<Rightarrow> Error WgParse
      | Some (ip, ipnet) \<Rightarrow>
          (case To4 (ip_Mask ip (net_Mask ipnet)) of
             None \<Rightarrow> Panic
           | Some v4 \<Rightarrow>
               Return (ip4_String (v4 [3 := v4 ! 3 + 1]) @ ''/''
                 @ nat_str (fst (mask_Size (net_Mask ipnet))))))"

text \<open>The search loop: the first candidate offset whose address is not used.\<close>

definition candidate :: "bytes \<Rightarrow> int \<Rightarrow> string" where
  "candidate base i = ip4_String (u32_bytes (uint (u32_of base) + i))"

fun alloc_loop :: "string set \<Rightarrow> bytes \<Rightarrow> int list \<Rightarrow> string option" where
  "alloc_loop used base [] = None"
| "alloc_loop used base (i # js) =
     (if candidate base i \<notin> used then Some (candidate base i) else alloc_loop used base js)"

definition AllocateAddress :: "WgConfig \<Rightarrow> (WgError, string) outcome" where
  "AllocateAddress c =
     (case ParseCIDR (wg_Subnet c) of
        None \<Rightarrow> Error WgParse
      | Some (ip, ipnet) \<Rightarrow>
          (case ServerAddress c of
             Panic \<Rightarrow> Panic
           | server \<Rightarrow>
               (let srv = (case server of Return s \<Rightarrow> s | _ \<Rightarrow> []);
                    used = insert (hd (Split (CHR ''/'') srv)) (pe_Address ` set (wg_Peers c));
                    (ones, bits) = mask_Size (net_Mask ipnet);
                    hostCount = 2 ^ (bits - ones) :: int
                in case To4 (ip_Mask ip (net_Mask ipnet)) of
                     None \<Rightarrow> Panic
                   | Some base \<Rightarrow>
                       (case alloc_loop used base [2..hostCount - 2] of
                          Some a \<Rightarrow> Return a
                        | None \<Rightarrow> Error (WgFull (wg_Subnet c))))))"

definition server_peer_lines :: "Peer \<Rightarrow> string list" where
  "server_peer_lines p =
     ['''', ''# peer: '' @ pe_Name p, ''[Peer]'', ''PublicKey = '' @ pe_PubKey p,
      ''AllowedIPs = '' @ pe_Address p @ ''/32'']"

definition server_lines :: "WgConfig \<Rightarrow> string \<Rightarrow> string \<Rightarrow> int \<Rightarrow> string list" where
  "server_lines c addr serverPriv t =
     [managed_header, ''[Interface]'', ''Address = '' @ addr, ''ListenPort = '' @ Itoa (wg_ListenPort c),
      ''PrivateKey = '' @ serverPriv]
   @ concat (map server_peer_lines (filter (\<lambda>p. \<not> Expired p t) (wg_Peers c)))"

definition GenerateServerConf :: "WgConfig \<Rightarrow> string \<Rightarrow> int \<Rightarrow> (WgError, string) outcome" where
  "GenerateServerConf c serverPriv t =
     (case wg_Validate c of
        Some e \<Rightarrow> Error e
      | None \<Rightarrow>
          if \<not> ValidKey serverPriv then Error WgServerKey
          else (case ServerAddress c of
                  Panic \<Rightarrow> Panic
                | Error e \<Rightarrow> Error e
                | Return addr \<Rightarrow> Return (unlines (server_lines c addr serverPriv t))))"

definition GenerateClientConf :: "WgConfig \<Rightarrow> string \<Rightarrow> Peer \<Rightarrow> WgError + string" where
  "GenerateClientConf c clientPriv p =
     (if \<not> ValidKey clientPriv then Inl WgClientKey
      else let allowed = (if \<not> pe_FullTunnel p then Join (wg_Subnet c # wg_SplitNetworks c) '', ''
                          else ''0.0.0.0/0'')
           in Inr (unlines
                ([''[Interface]'', ''PrivateKey = '' @ clientPriv, ''Address = '' @ pe_Address p @ ''/32'']
                 @ only_if (wg_DNS c \<noteq> []) [''DNS = '' @ wg_DNS c]
                 @ ['''', ''[Peer]'', ''PublicKey = '' @ wg_ServerPub c, ''AllowedIPs = '' @ allowed,
                    ''Endpoint = '' @ wg_Endpoint c, ''PersistentKeepalive = 25''])))"

section \<open>Address allocation\<close>

text \<open>The address at an offset of a dotted network.\<close>

definition host_addr :: "bytes \<Rightarrow> nat \<Rightarrow> int \<Rightarrow> string" where
  "host_addr b n i = candidate (map2 (AND) b (CIDRMask n 32)) i"

lemma host_addr_inj:
  assumes "length b = 4" "n \<le> 32" "0 \<le> i" "i < 2 ^ (32 - n)" "0 \<le> j" "j < 2 ^ (32 - n)"
    and "host_addr b n i = host_addr b n j"
  shows "i = j"
proof -
  let ?base = "uint (u32_of (map2 (AND) b (CIDRMask n 32)))"
  have "u32_bytes (?base + i) = u32_bytes (?base + j)"
    using assms(7) by (simp add: host_addr_def candidate_def ip4_String_inj)
  then have "?base + i = ?base + j"
    using host_bounds(1,2) [OF assms(1-4)] host_bounds(1,2) [OF assms(1,2,5,6)] u32_bytes_inj by blast
  then show ?thesis by simp
qed

lemma alloc_loop_Some:
  "alloc_loop used base js = Some a \<Longrightarrow>
     \<exists>xs i ys. js = xs @ i # ys \<and> a = candidate base i \<and> a \<notin> used \<and> (\<forall>j \<in> set xs. candidate base j \<in> used)"
proof (induction js)
  case (Cons j js)
  show ?case
  proof (cases "candidate base j \<in> used")
    case True
    with Cons obtain xs i ys where "js = xs @ i # ys" "a = candidate base i" "a \<notin> used"
      "\<forall>j \<in> set xs. candidate base j \<in> used" by auto
    with True show ?thesis by (intro exI [of _ "j # xs"] exI [of _ i] exI [of _ ys]) simp
  next
    case False
    with Cons.prems show ?thesis by (intro exI [of _ "[]"] exI [of _ j] exI [of _ js]) simp
  qed
qed simp

lemma alloc_loop_None: "alloc_loop used base js = None \<longleftrightarrow> (\<forall>i \<in> set js. candidate base i \<in> used)"
  by (induction used base js rule: alloc_loop.induct) auto

lemma upto_split:
  assumes "[2..m] = xs @ i # ys"
  shows "2 \<le> i" "i \<le> m" "set xs = {2..<i}"
proof -
  have st: "sorted_wrt (<) (xs @ i # ys)" using assms by (metis sorted_upto distinct_upto strict_sorted_iff)
  have se: "set (xs @ i # ys) = {2..m}" by (simp flip: assms)
  from se show "2 \<le> i" "i \<le> m" by auto
  show "set xs = {2..<i}"
  proof
    show "set xs \<subseteq> {2..<i}" using st se by (auto simp: sorted_wrt_append)
    show "{2..<i} \<subseteq> set xs"
    proof
      fix x assume x: "x \<in> {2..<i}"
      with se \<open>i \<le> m\<close> have "x \<in> set (xs @ i # ys)" by auto
      with x st show "x \<in> set xs" by (auto simp: sorted_wrt_append)
    qed
  qed
qed

lemma masked_len: "length b = 4 \<Longrightarrow> length (map2 (AND) b (CIDRMask n 32)) = 4"
  by simp

lemma ServerAddress_dotted:
  assumes "wg_Subnet c = ip4_String b @ CHR ''/'' # nat_str n" "length b = 4" "n \<le> 30"
  shows "ServerAddress c = Return (host_addr b n 1 @ ''/'' @ nat_str n)"
proof -
  have "ParseCIDR (wg_Subnet c) = Some (v4_in_v6_prefix @ b, ip4_net b n)"
    using assms by simp
  moreover have "net_Mask (ip4_net b n) = CIDRMask n 32" by (simp add: ip4_net_def)
  ultimately show ?thesis
    using assms(2,3) first_host [OF assms(2,3)]
    by (simp add: ServerAddress_def host_addr_def candidate_def)
qed

lemma hd_Split_slash: "length x = 4 \<Longrightarrow> hd (Split (CHR ''/'') (ip4_String x @ ''/'' @ r)) = ip4_String x"
proof -
  assume "length x = 4"
  then have "CHR ''/'' \<notin> set (ip4_String x)"
    using ip4_String_graph by (fastforce simp: list_all_iff is_digit_def)
  then show ?thesis by (simp add: Split_append_sep)
qed

definition wg_used :: "WgConfig \<Rightarrow> bytes \<Rightarrow> nat \<Rightarrow> string set" where
  "wg_used c b n = insert (host_addr b n 1) (pe_Address ` set (wg_Peers c))"

lemma AllocateAddress_dotted:
  assumes "wg_Subnet c = ip4_String b @ CHR ''/'' # nat_str n" "length b = 4" "n \<le> 30"
  shows "AllocateAddress c =
    (case alloc_loop (wg_used c b n) (map2 (AND) b (CIDRMask n 32)) [2..2 ^ (32 - n) - 2] of
       Some a \<Rightarrow> Return a | None \<Rightarrow> Error (WgFull (wg_Subnet c)))"
proof -
  have p: "ParseCIDR (wg_Subnet c) = Some (v4_in_v6_prefix @ b, ip4_net b n)"
    using assms by simp
  have m: "net_Mask (ip4_net b n) = CIDRMask n 32" by (simp add: ip4_net_def)
  have u: "hd (Split (CHR ''/'') (host_addr b n 1 @ ''/'' @ nat_str n)) = host_addr b n 1"
    unfolding host_addr_def candidate_def by (rule hd_Split_slash) simp
  show ?thesis
    unfolding AllocateAddress_def p ServerAddress_dotted [OF assms] wg_used_def
    using assms(2,3) u by (simp add: m)
qed

text \<open>
  Peer address allocation on a subnet in dotted form with at most 30 prefix bits. It
  returns the lowest free host address: an address of the subnet at an offset between 2 and
  the one before broadcast, different from the server's address (the first host) and from the
  address of every peer, such that every lower candidate is taken. It fails exactly when
  every candidate is taken, and it never panics.
\<close>

theorem AllocateAddress_lowest_free:
  assumes "wg_Subnet c = ip4_String b @ CHR ''/'' # nat_str n" "length b = 4" "n \<le> 30"
  shows "case AllocateAddress c of
      Return a \<Rightarrow> \<exists>i. 2 \<le> i \<and> i \<le> 2 ^ (32 - n) - 2 \<and> a = host_addr b n i
        \<and> (\<exists>ip. ParseIP a = Some ip \<and> Contains (ip4_net b n) ip)
        \<and> a \<noteq> host_addr b n 1 \<and> a \<notin> pe_Address ` set (wg_Peers c)
        \<and> host_addr b n ` {2..<i} \<subseteq> pe_Address ` set (wg_Peers c)
    | Error e \<Rightarrow> e = WgFull (wg_Subnet c) \<and> host_addr b n ` {2..2 ^ (32 - n) - 2} \<subseteq> pe_Address ` set (wg_Peers c)
    | Panic \<Rightarrow> False"
proof -
  let ?base = "map2 (AND) b (CIDRMask n 32)" and ?m = "2 ^ (32 - n) - 2 :: int"
  have srv: "host_addr b n i \<noteq> host_addr b n 1" if "2 \<le> i" "i \<le> ?m" for i
    using host_addr_inj [of b n i 1] assms(2,3) that by auto
  show ?thesis
  proof (cases "alloc_loop (wg_used c b n) ?base [2..?m]")
    case None
    then have "host_addr b n ` {2..?m} \<subseteq> wg_used c b n"
      by (auto simp: alloc_loop_None host_addr_def)
    with srv have "host_addr b n ` {2..?m} \<subseteq> pe_Address ` set (wg_Peers c)"
      by (auto simp: wg_used_def)
    with None show ?thesis by (simp add: AllocateAddress_dotted [OF assms])
  next
    case (Some a)
    then obtain xs i ys where i: "[2..?m] = xs @ i # ys" "a = candidate ?base i" "a \<notin> wg_used c b n"
      "\<forall>j \<in> set xs. candidate ?base j \<in> wg_used c b n"
      using alloc_loop_Some by blast
    note sp = upto_split [OF i(1)]
    have a: "a = host_addr b n i" using i(2) by (simp add: host_addr_def)
    have "Contains (ip4_net b n) (v4_in_v6_prefix @ u32_bytes (uint (u32_of ?base) + i))"
      using host_in_net [of b n i] assms(2,3) sp by (simp add: Contains_def)
    then have c: "\<exists>ip. ParseIP a = Some ip \<and> Contains (ip4_net b n) ip"
      by (simp add: a host_addr_def candidate_def)
    have "host_addr b n ` {2..<i} \<subseteq> wg_used c b n" using i(4) sp(3) by (auto simp: host_addr_def)
    with srv sp(2) have low: "host_addr b n ` {2..<i} \<subseteq> pe_Address ` set (wg_Peers c)"
      by (force simp: wg_used_def)
    show ?thesis
      using Some sp(1,2) a c low i(3) by (auto simp: AllocateAddress_dotted [OF assms] wg_used_def)
  qed
qed

definition ex_wg :: WgConfig where
  "ex_wg = \<lparr> wg_Enabled = False, wg_Subnet = ip4_String [10, 8, 0, 0] @ CHR ''/'' # nat_str 24,
     wg_ListenPort = 51820, wg_Endpoint = [], wg_DNS = [], wg_SplitNetworks = [], wg_ServerPub = [],
     wg_ServerPrivEnc = [], wg_Peers = [] \<rparr>"

theorem AllocateAddress_lowest_free_witness:
  "AllocateAddress ex_wg = Return (host_addr [10, 8, 0, 0] 24 2)"
proof -
  have s: "wg_Subnet ex_wg = ip4_String [10, 8, 0, 0] @ CHR ''/'' # nat_str 24" "wg_Peers ex_wg = []"
    by (simp_all add: ex_wg_def)
  have "case AllocateAddress ex_wg of
      Return a \<Rightarrow> \<exists>i. 2 \<le> i \<and> i \<le> 2 ^ (32 - 24) - 2 \<and> a = host_addr [10, 8, 0, 0] 24 i
        \<and> (\<exists>ip. ParseIP a = Some ip \<and> Contains (ip4_net [10, 8, 0, 0] 24) ip)
        \<and> a \<noteq> host_addr [10, 8, 0, 0] 24 1 \<and> a \<notin> pe_Address ` set (wg_Peers ex_wg)
        \<and> host_addr [10, 8, 0, 0] 24 ` {2..<i} \<subseteq> pe_Address ` set (wg_Peers ex_wg)
    | Error e \<Rightarrow> e = WgFull (wg_Subnet ex_wg)
        \<and> host_addr [10, 8, 0, 0] 24 ` {2..2 ^ (32 - 24) - 2} \<subseteq> pe_Address ` set (wg_Peers ex_wg)
    | Panic \<Rightarrow> False"
    by (rule AllocateAddress_lowest_free [OF s(1)]) simp_all
  moreover have "i = 2" if "{2..<i} = {}" "2 \<le> i" for i :: int using that by simp
  ultimately show ?thesis unfolding s(2) by (auto split: outcome.splits)
qed

section \<open>The server configuration\<close>

lemma ValidKey_graph: "ValidKey k \<Longrightarrow> list_all is_graph k"
proof -
  assume k: "ValidKey k"
  then have l: "length k = 44" and t: "list_all b64_char (take 42 k)"
    and e: "k ! 42 \<in> set ''AEIMQUYcgkosw048''" "k ! 43 = CHR ''=''" by (auto simp: ValidKey_def)
  have "k = take 42 k @ [k ! 42, k ! 43]"
    using l by (intro nth_equalityI) (auto simp: nth_append less_Suc_eq nth_Cons' numeral_eq_Suc)
  moreover have "list_all is_graph (take 42 k)"
    using t is_graph_upper is_graph_lower is_graph_digit
    by (auto simp: list_all_iff b64_char_def) (auto simp: is_graph_def)
  moreover have "is_graph (k ! 42)" "is_graph (k ! 43)" using e by (auto simp: is_graph_def)
  ultimately show ?thesis by (metis list_all_append list.pred_inject)
qed

lemma peerNameRe_graph: "peerNameRe s \<Longrightarrow> list_all is_graph s"
  using is_graph_lower is_graph_digit
  by (auto simp: peerNameRe_def name_alnum_def list_all_iff is_graph_dot) (auto simp: is_graph_def)

lemma server_peer_lines_ok:
  "peer_check ipnet p = None \<Longrightarrow> l \<in> set (server_peer_lines p) \<Longrightarrow> CHR 0x0A \<notin> set l"
  using graph_no_newline [OF peerNameRe_graph] graph_no_newline [OF ValidKey_graph]
    graph_no_newline [OF ParseIP_graph]
  by (auto simp: peer_check_def server_peer_lines_def split: if_splits option.splits)

lemma ServerAddress_graph: "ServerAddress c = Return a \<Longrightarrow> list_all is_graph a"
proof -
  have sl: "is_graph (CHR ''/'')" by (simp add: is_graph_def)
  have "length v = 4" if "To4 x = Some v" for x v :: bytes using that by (auto simp: To4_def split: if_splits)
  then show "ServerAddress c = Return a \<Longrightarrow> ?thesis"
    using ip4_String_is_graph nat_str_graph sl
    by (auto simp: ServerAddress_def split: option.splits)
qed

text \<open>
  The server configuration: when it is generated, the configuration and the key are
  valid, and its lines are the interface section followed by one section per peer that has
  not expired at the given time, in order, and no other; expired peers are dropped. No name,
  key or address breaks a line.
\<close>

theorem GenerateServerConf_peers:
  assumes "GenerateServerConf c serverPriv t = Return s"
  shows "wg_Validate c = None \<and> ValidKey serverPriv \<and>
    (\<exists>addr. ServerAddress c = Return addr
      \<and> Split (CHR 0x0A) s =
          [managed_header, ''[Interface]'', ''Address = '' @ addr,
           ''ListenPort = '' @ Itoa (wg_ListenPort c), ''PrivateKey = '' @ serverPriv]
          @ concat (map server_peer_lines
              (filter (\<lambda>p. pe_ExpiresAt p = 0 \<or> t \<le> pe_ExpiresAt p) (wg_Peers c))) @ [[]])"
proof -
  from assms obtain addr where v: "wg_Validate c = None" "ValidKey serverPriv"
    "ServerAddress c = Return addr" "s = unlines (server_lines c addr serverPriv t)"
    by (auto simp: GenerateServerConf_def split: option.splits if_splits outcome.splits)
  have p: "\<exists>ipnet. peer_check ipnet p = None" if "p \<in> set (wg_Peers c)" for p
    using v(1) that by (auto simp: wg_Validate_def split: option.splits if_splits) blast+
  have "CHR 0x0A \<notin> set l" if "l \<in> set (server_lines c addr serverPriv t)" for l
    using that p server_peer_lines_ok graph_no_newline [OF ServerAddress_graph [OF v(3)]]
      graph_no_newline [OF ValidKey_graph [OF v(2)]] graph_no_newline [OF Itoa_graph] managed_header_line
    by (auto simp: server_lines_def)
  then have "Split (CHR 0x0A) s = server_lines c addr serverPriv t @ [[]]"
    unfolding v(4) by (intro Split_unlines) blast
  moreover have "(\<lambda>p. \<not> Expired p t) = (\<lambda>p. pe_ExpiresAt p = 0 \<or> t \<le> pe_ExpiresAt p)"
    by (auto simp: Expired_def fun_eq_iff)
  ultimately show ?thesis using v(1-3) by (simp add: server_lines_def)
qed

definition ex_key :: string where
  "ex_key = replicate 42 (CHR ''A'') @ ''A=''"

lemma ex_key_valid: "ValidKey ex_key"
  by code_simp

lemma ex_wg_valid: "wg_Validate ex_wg = None"
proof -
  have sub: "wg_Subnet ex_wg = ip4_String [10, 8, 0, 0] @ CHR ''/'' # nat_str 24" by (simp add: ex_wg_def)
  have "list_all is_graph (ip4_String [10, 8, 0, 0] @ CHR ''/'' # nat_str 24)"
    using ip4_String_is_graph [of "[10, 8, 0, 0]"] nat_str_graph [of 24] by (simp add: is_graph_def)
  then have "TrimSpace (wg_Subnet ex_wg) = ip4_String [10, 8, 0, 0] @ CHR ''/'' # nat_str 24"
    unfolding sub by (rule TrimSpace_all_graph)
  then have "ParseCIDR (TrimSpace (wg_Subnet ex_wg)) = Some (v4_in_v6_prefix @ [10, 8, 0, 0], ip4_net [10, 8, 0, 0] 24)"
    using ParseCIDR_ip4 [of "[10, 8, 0, 0]" 24] by simp
  then show ?thesis by (simp add: wg_Validate_def) (simp add: ex_wg_def ip4_net_def)
qed

theorem GenerateServerConf_peers_witness:
  "\<exists>s addr. GenerateServerConf ex_wg ex_key 7 = Return s \<and> ServerAddress ex_wg = Return addr
     \<and> Split (CHR 0x0A) s = [managed_header, ''[Interface]'', ''Address = '' @ addr,
           ''ListenPort = '' @ Itoa 51820, ''PrivateKey = '' @ ex_key, []]"
proof -
  have a: "ServerAddress ex_wg = Return (host_addr [10, 8, 0, 0] 24 1 @ ''/'' @ nat_str 24)"
    by (rule ServerAddress_dotted) (simp_all add: ex_wg_def)
  have g: "GenerateServerConf ex_wg ex_key 7 = Return (unlines (server_lines ex_wg
      (host_addr [10, 8, 0, 0] 24 1 @ ''/'' @ nat_str 24) ex_key 7))"
    by (simp add: GenerateServerConf_def ex_wg_valid ex_key_valid a)
  have "wg_Peers ex_wg = []" "wg_ListenPort ex_wg = 51820" by (simp_all add: ex_wg_def)
  with GenerateServerConf_peers [OF g] g show ?thesis by auto
qed

section \<open>A subnet that validates and crashes the generator\<close>

lemma mapped_groups:
  "v6_group ''ffff:10.0.0.0'' 0 0 = Some (4, 0xffff, '':10.0.0.0'')"
  "v6_group ''10.0.0.0'' 0 0 = Some (2, 16, ''.0.0.0'')"
  by (simp_all add: hex_val_def char_class_defs digit_val_def)

lemma mapped_v4: "parse_v4_fields ''10.0.0.0'' = Some [10, 0, 0, 0]"
  by (simp add: parse_v4_fields_def char_class_defs digit_val_def)

lemma mapped_loop2: "v6_loop ''10.0.0.0'' [255, 255] (Some 0) = Some ([], [255, 255, 10, 0, 0, 0], Some 0)"
  by (subst v6_loop.simps) (simp add: mapped_groups mapped_v4 del: v6_group.simps)

lemma mapped_loop1: "v6_loop ''ffff:10.0.0.0'' [] (Some 0) = Some ([], [255, 255, 10, 0, 0, 0], Some 0)"
  by (subst v6_loop.simps) (simp add: mapped_groups mapped_loop2 del: v6_group.simps)

lemma mapped_addr: "parse_addr ''::ffff:10.0.0.0'' = Some (False, v4_in_v6_prefix @ [10, 0, 0, 0])"
  by (simp add: parse_addr_def parse_v6_def mapped_loop1 v4_in_v6_prefix_def eval_nat_numeral)

lemma mask_20_128: "CIDRMask 20 128 = [255, 255, 240, 0, 0, 0, 0, 0, 0, 0, 0, 0, 0, 0, 0, 0]"
  by (simp add: CIDRMask_def CIDRMask_loop_map upt_rec mask_byte_def)

lemma mapped_cidr:
  "ParseCIDR ''::ffff:10.0.0.0/20'' = Some (v4_in_v6_prefix @ [10, 0, 0, 0],
     \<lparr> net_IP = ip_Mask (v4_in_v6_prefix @ [10, 0, 0, 0]) (CIDRMask 20 128), net_Mask = CIDRMask 20 128 \<rparr>)"
proof -
  have c: "cut (CHR ''/'') ''::ffff:10.0.0.0/20'' = Some (''::ffff:10.0.0.0'', ''20'')" by simp
  have d: "dtoi ''20'' = Some 20" by (simp add: dtoi_def char_class_defs digits_val_def digit_val_def)
  show ?thesis unfolding ParseCIDR_def c by (simp add: mapped_addr d)
qed

definition mapped_wg :: WgConfig where
  "mapped_wg = ex_wg \<lparr> wg_Subnet := ''::ffff:10.0.0.0/20'' \<rparr>"

text \<open>
  The validation accepts a subnet written as an IPv4-mapped IPv6 network with a short
  prefix, for which the server address is computed by indexing a nil slice: generating the
  configuration panics.
\<close>

theorem validated_subnet_panics:
  "\<exists>c key t. wg_Validate c = None \<and> ValidKey key \<and> GenerateServerConf c key t = Panic
     \<and> AllocateAddress c = Panic"
proof (intro exI conjI)
  have t: "TrimSpace ''::ffff:10.0.0.0/20'' = ''::ffff:10.0.0.0/20''" by (simp add: is_graph_def)
  have sz: "fst (mask_Size (CIDRMask 20 128)) = 20"
    unfolding mask_20_128 by (simp add: mask_Size_def mask_bits_def upt_rec Let_def)
  show v: "wg_Validate mapped_wg = None"
    by (simp add: wg_Validate_def mapped_wg_def t mapped_cidr sz) (simp add: ex_wg_def)
  have m: "To4 (ip_Mask (v4_in_v6_prefix @ [10, 0, 0, 0]) (CIDRMask 20 128)) = None"
    unfolding mask_20_128 by (simp add: ip_Mask_def v4_in_v6_prefix_def To4_def)
  show "ValidKey ex_key" by (rule ex_key_valid)
  have p: "ServerAddress mapped_wg = Panic"
    by (simp add: ServerAddress_def mapped_wg_def mapped_cidr m)
  then show "GenerateServerConf mapped_wg ex_key 0 = Panic"
    by (simp add: GenerateServerConf_def v ex_key_valid)
  show "AllocateAddress mapped_wg = Panic"
    unfolding AllocateAddress_def p by (simp add: mapped_wg_def mapped_cidr)
qed

end
