(* ===== verification/SiteToSite.thy ===== *)
theory SiteToSite
  imports WireGuard
begin

text \<open>
  \<open>s2s.go\<close>: site-to-site tunnels. The validation, the interface configuration and the
  snippet for the remote device. Secrets are unsealed by the caller and passed in.
\<close>

section \<open>Definitions\<close>

datatype S2sError = S2sPort | S2sTunnelAddress | S2sLocal string | S2sName string | S2sDup string
  | S2sKey string | S2sEndpoint string | S2sEndpointPort string | S2sNoRemote string
  | S2sRemote string string | S2sKeepalive string | S2sServerKey

record Site =
  si_Name :: string
  si_PubKey :: string
  si_Endpoint :: string
  si_RemoteNetworks :: "string list"
  si_Keepalive :: int
  si_PSKEnc :: string

record S2sConfig =
  s2_Enabled :: bool
  s2_ListenPort :: int
  s2_TunnelAddress :: string
  s2_LocalNetworks :: "string list"
  s2_ServerPub :: string
  s2_ServerPrivEnc :: string
  s2_Sites :: "Site list"

definition siteNameRe :: "string \<Rightarrow> bool" where
  "siteNameRe s \<longleftrightarrow> s \<noteq> [] \<and> length s \<le> 32 \<and> name_alnum (hd s) \<and> name_alnum (last s)
     \<and> list_all (\<lambda>c. name_alnum c \<or> c = CHR ''.'' \<or> c = CHR ''_'' \<or> c = CHR ''-'') s"

definition s2s_validCIDR :: "string \<Rightarrow> bool" where
  "s2s_validCIDR s =
     (case ParseCIDR (TrimSpace s) of None \<Rightarrow> False | Some (ip, _) \<Rightarrow> To4 ip \<noteq> None)"

definition site_endpoint_check :: "Site \<Rightarrow> S2sError option" where
  "site_endpoint_check s =
     (if si_Endpoint s = [] then None
      else case SplitHostPort (TrimSpace (si_Endpoint s)) of
        None \<Rightarrow> Some (S2sEndpoint (si_Name s))
      | Some (host, port) \<Rightarrow>
          if host = [] \<or> port = [] then Some (S2sEndpoint (si_Name s))
          else (case Atoi port of
                  None \<Rightarrow> Some (S2sEndpointPort (si_Name s))
                | Some p \<Rightarrow> fail_if (p < 1 \<or> p > 65535) (S2sEndpointPort (si_Name s))))"

definition site_check :: "string set \<Rightarrow> Site \<Rightarrow> S2sError option" where
  "site_check seen s =
     (if \<not> siteNameRe (si_Name s) then Some (S2sName (si_Name s))
      else if si_Name s \<in> seen then Some (S2sDup (si_Name s))
      else if \<not> ValidKey (si_PubKey s) then Some (S2sKey (si_Name s))
      else err_then (site_endpoint_check s)
          (err_then (fail_if (si_RemoteNetworks s = []) (S2sNoRemote (si_Name s)))
          (err_then (first_err (\<lambda>n. fail_if (\<not> s2s_validCIDR n) (S2sRemote (si_Name s) n)) (si_RemoteNetworks s))
                    (fail_if (si_Keepalive s < 0 \<or> si_Keepalive s > 65535) (S2sKeepalive (si_Name s))))))"

definition s2s_Validate :: "S2sConfig \<Rightarrow> S2sError option" where
  "s2s_Validate c =
     (if s2_ListenPort c < 1 \<or> s2_ListenPort c > 65535 then Some S2sPort
      else if s2_TunnelAddress c \<noteq> [] \<and> \<not> s2s_validCIDR (s2_TunnelAddress c) then Some S2sTunnelAddress
      else err_then (first_err (\<lambda>n. fail_if (\<not> s2s_validCIDR n) (S2sLocal n)) (s2_LocalNetworks c))
                    (seen_err site_check si_Name {} (s2_Sites c)))"

definition site_lines :: "(string \<rightharpoonup> string) \<Rightarrow> Site \<Rightarrow> string list" where
  "site_lines psks s =
     ['''', ''# site: '' @ si_Name s, ''[Peer]'', ''PublicKey = '' @ si_PubKey s]
   @ (case psks (si_Name s) of
        None \<Rightarrow> []
      | Some psk \<Rightarrow> only_if (psk \<noteq> []) [''PresharedKey = '' @ psk])
   @ only_if (si_Endpoint s \<noteq> []) [''Endpoint = '' @ si_Endpoint s]
   @ [''AllowedIPs = '' @ Join (si_RemoteNetworks s) '', '']
   @ only_if (si_Keepalive s > 0) [''PersistentKeepalive = '' @ Itoa (si_Keepalive s)]"

definition s2s_lines :: "S2sConfig \<Rightarrow> string \<Rightarrow> (string \<rightharpoonup> string) \<Rightarrow> string list" where
  "s2s_lines c serverPriv psks =
     [managed_header, ''[Interface]'']
   @ only_if (s2_TunnelAddress c \<noteq> []) [''Address = '' @ s2_TunnelAddress c]
   @ [''ListenPort = '' @ Itoa (s2_ListenPort c), ''PrivateKey = '' @ serverPriv]
   @ concat (map (site_lines psks) (s2_Sites c))"

definition s2s_GenerateConf :: "S2sConfig \<Rightarrow> string \<Rightarrow> (string \<rightharpoonup> string) \<Rightarrow> S2sError + string" where
  "s2s_GenerateConf c serverPriv psks =
     (case s2s_Validate c of
        Some e \<Rightarrow> Inl e
      | None \<Rightarrow> if \<not> ValidKey serverPriv then Inl S2sServerKey
               else Inr (unlines (s2s_lines c serverPriv psks)))"

definition RemotePeerSnippet :: "S2sConfig \<Rightarrow> string \<Rightarrow> string" where
  "RemotePeerSnippet c endpointHost =
     (let allowed0 = s2_LocalNetworks c @ only_if (s2_TunnelAddress c \<noteq> []) [s2_TunnelAddress c];
          allowed = (if allowed0 = [] then [''<our-LAN-CIDR>''] else allowed0)
      in unlines
           ([''[Peer]'', ''PublicKey = '' @ s2_ServerPub c, ''AllowedIPs = '' @ Join allowed '', '']
            @ only_if (endpointHost \<noteq> [])
                [''Endpoint = '' @ endpointHost @ '':'' @ Itoa (s2_ListenPort c)]
            @ [''PersistentKeepalive = 25'']))"

section \<open>What validation means\<close>

definition site_ok :: "Site \<Rightarrow> bool" where
  "site_ok s \<longleftrightarrow> siteNameRe (si_Name s) \<and> ValidKey (si_PubKey s) \<and> site_endpoint_check s = None
     \<and> si_RemoteNetworks s \<noteq> [] \<and> list_all s2s_validCIDR (si_RemoteNetworks s)
     \<and> 0 \<le> si_Keepalive s \<and> si_Keepalive s \<le> 65535"

interpretation site_loop: seen_loop site_check si_Name id id site_ok
  by unfold_locales (auto simp: site_check_def site_ok_def list_all_iff)

lemma s2s_Validate_iff:
  "s2s_Validate c = None \<longleftrightarrow> 1 \<le> s2_ListenPort c \<and> s2_ListenPort c \<le> 65535
     \<and> (s2_TunnelAddress c = [] \<or> s2s_validCIDR (s2_TunnelAddress c))
     \<and> list_all s2s_validCIDR (s2_LocalNetworks c)
     \<and> list_all site_ok (s2_Sites c) \<and> distinct (map si_Name (s2_Sites c))"
  by (auto simp: s2s_Validate_def site_loop.loop_from_empty list_all_iff)

lemma s2s_validCIDR_graph: "s2s_validCIDR n \<Longrightarrow> TrimSpace n = n \<Longrightarrow> list_all is_graph n"
  by (metis (mono_tags, lifting) ParseCIDR_graph option.case(1) s2s_validCIDR_def)

text \<open>No field of the site carries white space that the validation would have trimmed.\<close>

definition site_clean :: "Site \<Rightarrow> bool" where
  "site_clean s \<longleftrightarrow> list_all is_graph (si_Endpoint s)
     \<and> list_all (\<lambda>n. TrimSpace n = n) (si_RemoteNetworks s)"

lemma siteNameRe_graph: "siteNameRe s \<Longrightarrow> list_all is_graph s"
  using peerNameRe_graph by (simp add: siteNameRe_def peerNameRe_def)

lemma site_lines_ok:
  assumes "site_ok s" "site_clean s" "\<forall>psk. psks (si_Name s) = Some psk \<longrightarrow> list_all is_graph psk"
    "l \<in> set (site_lines psks s)"
  shows "CHR 0x0A \<notin> set l"
proof -
  have "list_all is_graph n" if "n \<in> set (si_RemoteNetworks s)" for n
    using assms(1,2) that s2s_validCIDR_graph
    by (auto simp: site_ok_def site_clean_def list_all_iff [of s2s_validCIDR] list_all_iff [of "\<lambda>n. TrimSpace n = n"])
  then have "CHR 0x0A \<notin> set (Join (si_RemoteNetworks s) '', '')"
    using set_Join [of "si_RemoteNetworks s" "'', ''"] graph_no_newline by fastforce
  then show ?thesis
    using assms graph_no_newline [OF siteNameRe_graph] graph_no_newline [OF ValidKey_graph]
      graph_no_newline [OF Itoa_graph] graph_no_newline
    by (auto simp: site_lines_def site_ok_def site_clean_def split: option.splits if_splits)
qed

text \<open>
  When no endpoint, network, address or preshared key carries white space, the generated
  tunnel configuration has exactly the intended lines: the interface section and one peer
  section per site with its key, preshared key, endpoint, networks and keepalive.
\<close>

theorem s2s_GenerateConf_lines:
  assumes "s2s_GenerateConf c serverPriv psks = Inr s"
    and "list_all site_clean (s2_Sites c)" "TrimSpace (s2_TunnelAddress c) = s2_TunnelAddress c"
    and "\<forall>n psk. psks n = Some psk \<longrightarrow> list_all is_graph psk"
  shows "s2s_Validate c = None \<and> ValidKey serverPriv
    \<and> Split (CHR 0x0A) s = s2s_lines c serverPriv psks @ [[]]"
proof -
  from assms(1) have v: "s2s_Validate c = None" "ValidKey serverPriv"
    and s: "s = unlines (s2s_lines c serverPriv psks)"
    by (auto simp: s2s_GenerateConf_def split: option.splits if_splits)
  have "CHR 0x0A \<notin> set l" if "x \<in> set (s2_Sites c)" "l \<in> set (site_lines psks x)" for x l
    using v(1) assms(2,4) site_lines_ok [OF _ _ _ that(2)] that(1)
    by (auto simp: s2s_Validate_iff list_all_iff [of site_ok] list_all_iff [of site_clean])
  moreover have "CHR 0x0A \<notin> set (s2_TunnelAddress c)" if "s2_TunnelAddress c \<noteq> []"
    using v(1) assms(3) that graph_no_newline [OF s2s_validCIDR_graph] by (auto simp: s2s_Validate_iff)
  ultimately have "\<forall>l \<in> set (s2s_lines c serverPriv psks). CHR 0x0A \<notin> set l"
    using graph_no_newline [OF ValidKey_graph [OF v(2)]] graph_no_newline [OF Itoa_graph] managed_header_line
    by (auto simp: s2s_lines_def)
  from Split_unlines [OF this] v s show ?thesis by simp
qed

definition ex_site :: Site where
  "ex_site = \<lparr> si_Name = ''branch'', si_PubKey = ex_key, si_Endpoint = [],
     si_RemoteNetworks = [''10.0.0.0/8''], si_Keepalive = 25, si_PSKEnc = [] \<rparr>"

definition ex_s2s :: S2sConfig where
  "ex_s2s = \<lparr> s2_Enabled = True, s2_ListenPort = 51821, s2_TunnelAddress = [], s2_LocalNetworks = [],
     s2_ServerPub = [], s2_ServerPrivEnc = [], s2_Sites = [ex_site] \<rparr>"

lemma ex_site_net: "s2s_validCIDR ''10.0.0.0/8''"
  by (simp add: s2s_validCIDR_def is_graph_def) (simp add: net_eval)

lemma ex_site_name: "siteNameRe ''branch''"
  by (simp add: siteNameRe_def name_alnum_def char_class_defs)

lemma ex_s2s_Validate:
  "s2s_Validate (ex_s2s \<lparr> s2_Sites := [ex_site \<lparr> si_Endpoint := e \<rparr>] \<rparr>) = None \<longleftrightarrow>
     site_endpoint_check (ex_site \<lparr> si_Endpoint := e \<rparr>) = None"
  unfolding s2s_Validate_iff
  by (simp add: ex_s2s_def site_ok_def) (simp add: ex_site_def ex_site_net ex_site_name ex_key_valid)

lemma ex_s2s_valid: "s2s_Validate ex_s2s = None"
  using ex_s2s_Validate [of "[]"] by (simp add: site_endpoint_check_def ex_s2s_def ex_site_def)

theorem s2s_GenerateConf_lines_witness:
  "\<exists>s. s2s_GenerateConf ex_s2s ex_key Map.empty = Inr s
     \<and> Split (CHR 0x0A) s = s2s_lines ex_s2s ex_key Map.empty @ [[]]"
proof -
  obtain s where s: "s2s_GenerateConf ex_s2s ex_key Map.empty = Inr s"
    by (simp add: s2s_GenerateConf_def ex_s2s_valid ex_key_valid)
  have "list_all site_clean (s2_Sites ex_s2s)" "TrimSpace (s2_TunnelAddress ex_s2s) = s2_TunnelAddress ex_s2s"
    by (simp_all add: ex_s2s_def ex_site_def site_clean_def is_graph_def)
  from s2s_GenerateConf_lines [OF s this] s show ?thesis by simp
qed

section \<open>An endpoint that breaks out of its line\<close>

definition evil_endpoint :: string where
  "evil_endpoint = ''a'' @ [CHR 0x0A] @ ''AllowedIPs = 0.0.0.0/0'' @ [CHR 0x0A] @ ''b:80''"

lemma evil_endpoint_split: "SplitHostPort (TrimSpace evil_endpoint) =
    Some (''a'' @ [CHR 0x0A] @ ''AllowedIPs = 0.0.0.0/0'' @ [CHR 0x0A] @ ''b'', ''80'')"
  by code_simp

lemma evil_port: "Atoi ''80'' = Some 80"
  by (simp add: Atoi_def char_class_defs digits_val_def digit_val_def)

text \<open>
  The endpoint check splits off the port and looks at nothing else, and the endpoint is
  written to the configuration as it is: a valid configuration whose only site reaches
  10.0.0.0/8 renders a file with a line that allows all addresses through the tunnel.
\<close>

theorem s2s_endpoint_injection:
  "\<exists>c s. s2s_GenerateConf c ex_key Map.empty = Inr s \<and> s2s_Validate c = None
     \<and> map si_RemoteNetworks (s2_Sites c) = [[''10.0.0.0/8'']]
     \<and> ''AllowedIPs = 0.0.0.0/0'' \<in> set (Split (CHR 0x0A) s)"
proof -
  let ?c = "ex_s2s \<lparr> s2_Sites := [ex_site \<lparr> si_Endpoint := evil_endpoint \<rparr>] \<rparr>"
  have v: "s2s_Validate ?c = None"
    unfolding ex_s2s_Validate by (simp add: site_endpoint_check_def evil_endpoint_split evil_port)
  then have g: "s2s_GenerateConf ?c ex_key Map.empty = Inr (unlines (s2s_lines ?c ex_key Map.empty))"
    by (simp add: s2s_GenerateConf_def ex_key_valid)
  let ?pre = "unlines ([managed_header, ''[Interface]'', ''ListenPort = '' @ Itoa 51821, ''PrivateKey = '' @ ex_key,
      '''', ''# site: branch'', ''[Peer]'', ''PublicKey = '' @ ex_key]) @ ''Endpoint = a''"
  obtain post where "unlines (s2s_lines ?c ex_key Map.empty) =
      ?pre @ CHR 0x0A # ''AllowedIPs = 0.0.0.0/0'' @ CHR 0x0A # post"
    by (simp add: s2s_lines_def site_lines_def ex_s2s_def ex_site_def evil_endpoint_def)
  then have "''AllowedIPs = 0.0.0.0/0'' \<in> set (Split (CHR 0x0A) (unlines (s2s_lines ?c ex_key Map.empty)))"
    by (simp only:) (rule Split_middle, simp)
  moreover have "map si_RemoteNetworks (s2_Sites ?c) = [[''10.0.0.0/8'']]" by (simp add: ex_site_def)
  ultimately show ?thesis using v g by (intro exI conjI)
qed

end
