(* ===== verification/Ipsec.thy ===== *)
theory Ipsec
  imports SiteToSite
begin

text \<open>
  \<open>internal/adapters/ipsec/ipsec.go\<close>: validation of IKEv2 connections and the rendered
  \<open>swanctl.conf\<close>. Preshared keys are unsealed by the caller and passed in as a map.
\<close>

section \<open>Definitions\<close>

datatype IpsError = IpsName string | IpsDup string | IpsRemoteAddr string | IpsLocalID string | IpsRemoteID string
  | IpsNoSubnets string | IpsSubnet string string | IpsProposal string | IpsCertIDs string | IpsLocalCert string
  | IpsRemoteCA string | IpsAuth string

record Connection =
  cn_Name :: string
  cn_RemoteAddr :: string
  cn_LocalID :: string
  cn_RemoteID :: string
  cn_LocalSubnets :: "string list"
  cn_RemoteSubnets :: "string list"
  cn_IKEProposal :: string
  cn_ESPProposal :: string
  cn_Initiate :: bool
  cn_Auth :: string
  cn_PSKEnc :: string
  cn_LocalCert :: string
  cn_LocalKeyEnc :: string
  cn_RemoteCA :: string

record IpsConfig =
  ip_Enabled :: bool
  ip_Connections :: "Connection list"

definition ips_nameRe :: "string \<Rightarrow> bool" where
  "ips_nameRe s \<longleftrightarrow> s \<noteq> [] \<and> length s \<le> 32 \<and> name_alnum (hd s) \<and> name_alnum (last s)
     \<and> list_all (\<lambda>c. name_alnum c \<or> c = CHR ''-'') s"

text \<open>\<open>^[a-z0-9]+(-[a-z0-9]+)*$\<close>: non-empty words of lower-case letters and digits between dashes.\<close>

definition proposalRe :: "string \<Rightarrow> bool" where
  "proposalRe s \<longleftrightarrow> list_all (\<lambda>w. w \<noteq> [] \<and> list_all name_alnum w) (Split (CHR ''-'') s)"

definition ips_alnum :: "char \<Rightarrow> bool" where
  "ips_alnum c \<longleftrightarrow> is_upper c \<or> is_lower c \<or> is_digit c"

definition idRe :: "string \<Rightarrow> bool" where
  "idRe = re_rep (\<lambda>c. ips_alnum c \<or> c \<in> set ''.@_:-'') 1 128"

definition ips_hostRe :: "string \<Rightarrow> bool" where
  "ips_hostRe = re_rep (\<lambda>c. ips_alnum c \<or> c = CHR ''.'' \<or> c = CHR ''-'') 1 253"

definition IsCert :: "Connection \<Rightarrow> bool" where
  "IsCert c \<longleftrightarrow> cn_Auth c = ''cert''"

definition CertFile :: "string \<Rightarrow> string" where
  "CertFile name = ''saguaro-'' @ name @ ''.pem''"

definition ips_validCIDR :: "string \<Rightarrow> bool" where
  "ips_validCIDR s = (case ParseCIDR (TrimSpace s) of None \<Rightarrow> False | Some (ip, _) \<Rightarrow> To4 ip \<noteq> None)"

definition DefaultProposal :: string where
  "DefaultProposal = ''aes256-sha256-modp2048''"

definition proposals :: "Connection \<Rightarrow> string \<times> string" where
  "proposals c = (if cn_IKEProposal c = [] then DefaultProposal else cn_IKEProposal c,
                  if cn_ESPProposal c = [] then DefaultProposal else cn_ESPProposal c)"

definition auth_check :: "Connection \<Rightarrow> IpsError option" where
  "auth_check c =
     (if cn_Auth c = [] \<or> cn_Auth c = ''psk'' then None
      else if cn_Auth c = ''cert'' then
        (if cn_LocalID c = [] \<or> cn_RemoteID c = [] then Some (IpsCertIDs (cn_Name c))
         else if \<not> Contains_str (cn_LocalCert c) ''BEGIN CERTIFICATE'' then Some (IpsLocalCert (cn_Name c))
         else if \<not> Contains_str (cn_RemoteCA c) ''BEGIN CERTIFICATE'' then Some (IpsRemoteCA (cn_Name c))
         else None)
      else Some (IpsAuth (cn_Name c)))"

definition conn_check :: "string set \<Rightarrow> Connection \<Rightarrow> IpsError option" where
  "conn_check seen c =
     (if \<not> ips_nameRe (cn_Name c) then Some (IpsName (cn_Name c))
      else if cn_Name c \<in> seen then Some (IpsDup (cn_Name c))
      else if ParseIP (TrimSpace (cn_RemoteAddr c)) = None \<and> \<not> ips_hostRe (TrimSpace (cn_RemoteAddr c))
        then Some (IpsRemoteAddr (cn_Name c))
      else if cn_LocalID c \<noteq> [] \<and> \<not> idRe (cn_LocalID c) then Some (IpsLocalID (cn_Name c))
      else if cn_RemoteID c \<noteq> [] \<and> \<not> idRe (cn_RemoteID c) then Some (IpsRemoteID (cn_Name c))
      else if cn_LocalSubnets c = [] \<or> cn_RemoteSubnets c = [] then Some (IpsNoSubnets (cn_Name c))
      else err_then (first_err (\<lambda>s. fail_if (\<not> ips_validCIDR s) (IpsSubnet (cn_Name c) s))
                       (cn_LocalSubnets c @ cn_RemoteSubnets c))
          (err_then (fail_if (\<not> proposalRe (fst (proposals c)) \<or> \<not> proposalRe (snd (proposals c)))
                       (IpsProposal (cn_Name c)))
             (auth_check c)))"

definition ips_Validate :: "IpsConfig \<Rightarrow> IpsError option" where
  "ips_Validate c = seen_err conn_check cn_Name {} (ip_Connections c)"

definition remoteID :: "Connection \<Rightarrow> string" where
  "remoteID c = (if cn_RemoteID c \<noteq> [] then cn_RemoteID c else cn_RemoteAddr c)"

definition conn_lines :: "Connection \<Rightarrow> string list" where
  "conn_lines c =
     [''   conn-'' @ cn_Name c @ '' {'', ''      version = 2'', ''      local_addrs = %any'',
      ''      remote_addrs = '' @ cn_RemoteAddr c, ''      proposals = '' @ fst (proposals c), ''      dpd_delay = 30s'']
   @ (if IsCert c then
        [''      local {'', ''         auth = pubkey'', ''         certs = '' @ CertFile (cn_Name c),
         ''         id = '' @ cn_LocalID c, ''      }'', ''      remote {'', ''         auth = pubkey'',
         ''         id = '' @ cn_RemoteID c, ''      }'']
      else
        [''      local {'', ''         auth = psk'']
        @ only_if (cn_LocalID c \<noteq> []) [''         id = '' @ cn_LocalID c]
        @ [''      }'', ''      remote {'', ''         auth = psk'', ''         id = '' @ remoteID c, ''      }''])
   @ [''      children {'', ''         '' @ cn_Name c @ '' {'',
      ''            local_ts = '' @ Join (cn_LocalSubnets c) '', '',
      ''            remote_ts = '' @ Join (cn_RemoteSubnets c) '', '',
      ''            esp_proposals = '' @ snd (proposals c),
      ''            start_action = '' @ (if cn_Initiate c then ''start'' else ''trap''),
      ''            dpd_action = restart'', ''            rekey_time = 1h'',
      ''         }'', ''      }'', ''   }'']"

text \<open>A key missing from the map reads as the empty string.\<close>

definition psk_of :: "(string \<rightharpoonup> string) \<Rightarrow> string \<Rightarrow> string" where
  "psk_of psks n = (case psks n of None \<Rightarrow> [] | Some k \<Rightarrow> k)"

definition secret_lines :: "(string \<rightharpoonup> string) \<Rightarrow> Connection \<Rightarrow> string list" where
  "secret_lines psks c =
     [''   ike-'' @ cn_Name c @ '' {'', ''      id = '' @ remoteID c]
   @ only_if (cn_LocalID c \<noteq> []) [''      id = '' @ cn_LocalID c]
   @ [''      secret = '' @ dq (psk_of psks (cn_Name c)), ''   }'']"

definition swanctl_lines :: "IpsConfig \<Rightarrow> (string \<rightharpoonup> string) \<Rightarrow> string list" where
  "swanctl_lines c psks =
     [managed_header, ''connections {''] @ concat (map conn_lines (ip_Connections c)) @ [''}'', ''secrets {'']
   @ concat (map (secret_lines psks) (filter (\<lambda>k. \<not> IsCert k) (ip_Connections c))) @ [''}'']"

definition ips_GenerateConf :: "IpsConfig \<Rightarrow> (string \<rightharpoonup> string) \<Rightarrow> IpsError + string" where
  "ips_GenerateConf c psks =
     (case ips_Validate c of Some e \<Rightarrow> Inl e | None \<Rightarrow> Inr (unlines (swanctl_lines c psks)))"

section \<open>What validation means\<close>

definition conn_ok :: "Connection \<Rightarrow> bool" where
  "conn_ok c \<longleftrightarrow> ips_nameRe (cn_Name c)
     \<and> (ParseIP (TrimSpace (cn_RemoteAddr c)) \<noteq> None \<or> ips_hostRe (TrimSpace (cn_RemoteAddr c)))
     \<and> (cn_LocalID c = [] \<or> idRe (cn_LocalID c)) \<and> (cn_RemoteID c = [] \<or> idRe (cn_RemoteID c))
     \<and> cn_LocalSubnets c \<noteq> [] \<and> cn_RemoteSubnets c \<noteq> []
     \<and> (\<forall>s \<in> set (cn_LocalSubnets c) \<union> set (cn_RemoteSubnets c). ips_validCIDR s)
     \<and> proposalRe (fst (proposals c)) \<and> proposalRe (snd (proposals c)) \<and> auth_check c = None"

interpretation conn_loop: seen_loop conn_check cn_Name id id conn_ok
  by unfold_locales (auto simp: conn_check_def conn_ok_def)

lemma ips_Validate_iff:
  "ips_Validate c = None \<longleftrightarrow> (\<forall>k \<in> set (ip_Connections c). conn_ok k) \<and> distinct (map cn_Name (ip_Connections c))"
  unfolding ips_Validate_def using conn_loop.loop_from_empty [of "ip_Connections c"] by simp

section \<open>The configuration has the intended lines\<close>

lemma re_rep_graph: "re_rep p lo hi s \<Longrightarrow> (\<And>c. p c \<Longrightarrow> is_graph c) \<Longrightarrow> list_all is_graph s"
  by (auto simp: re_rep_def list_all_iff)

lemma name_alnum_graph: "name_alnum c \<Longrightarrow> is_graph c"
  by (auto simp: name_alnum_def is_graph_lower is_graph_digit)

lemma ips_alnum_graph: "ips_alnum c \<Longrightarrow> is_graph c"
  by (auto simp: ips_alnum_def is_graph_lower is_graph_digit is_graph_upper)

lemma proposalRe_graph: "proposalRe s \<Longrightarrow> list_all is_graph s"
proof -
  assume p: "proposalRe s"
  have "set s \<subseteq> (\<Union>w \<in> set (Split (CHR ''-'') s). set w) \<union> set [CHR ''-'']"
    using set_Join [of "Split (CHR ''-'') s" "[CHR ''-'']"] by (simp add: Join_Split)
  moreover have "is_graph (CHR ''-'')" by (simp add: is_graph_def)
  ultimately show ?thesis using p name_alnum_graph by (fastforce simp: proposalRe_def list_all_iff)
qed

lemma is_graph_dash: "is_graph (CHR ''-'')"
  by (simp add: is_graph_def)

lemma ips_nameRe_graph: "ips_nameRe s \<Longrightarrow> list_all is_graph s"
  unfolding ips_nameRe_def list_all_iff using name_alnum_graph is_graph_dash by blast

lemma id_char_graph: "c \<in> set ''.@_:-'' \<Longrightarrow> is_graph c"
  unfolding list.set insert_iff empty_iff by (elim disjE FalseE; simp add: is_graph_def)

lemma idRe_graph: "idRe s \<Longrightarrow> list_all is_graph s"
  unfolding idRe_def by (erule re_rep_graph) (metis ips_alnum_graph id_char_graph)

lemma ips_hostRe_graph: "ips_hostRe s \<Longrightarrow> list_all is_graph s"
proof -
  have "is_graph (CHR ''-'')" by (simp add: is_graph_def)
  then show "ips_hostRe s \<Longrightarrow> ?thesis"
    unfolding ips_hostRe_def by (elim re_rep_graph) (auto simp: ips_alnum_graph is_graph_dot)
qed

text \<open>Fields the renderer writes untrimmed although they were validated trimmed.\<close>

definition conn_trimmed :: "Connection \<Rightarrow> bool" where
  "conn_trimmed c \<longleftrightarrow> (\<forall>s \<in> insert (cn_RemoteAddr c) (set (cn_LocalSubnets c) \<union> set (cn_RemoteSubnets c)). TrimSpace s = s)"

lemma conn_values_graph:
  assumes "conn_ok c" "conn_trimmed c"
  shows "\<forall>s \<in> {cn_Name c, cn_RemoteAddr c, cn_LocalID c, cn_RemoteID c, remoteID c, fst (proposals c), snd (proposals c)}.
           list_all is_graph s"
    and "\<forall>s \<in> set (cn_LocalSubnets c) \<union> set (cn_RemoteSubnets c). list_all is_graph s"
proof -
  have a: "list_all is_graph (cn_RemoteAddr c)"
    using assms ParseIP_graph ips_hostRe_graph by (auto simp: conn_ok_def conn_trimmed_def)
  have "list_all is_graph (cn_Name c)" "list_all is_graph (fst (proposals c))" "list_all is_graph (snd (proposals c))"
    using assms(1) ips_nameRe_graph proposalRe_graph by (simp_all add: conn_ok_def)
  moreover have "list_all is_graph (cn_LocalID c)" "list_all is_graph (cn_RemoteID c)"
    using assms(1) idRe_graph by (auto simp: conn_ok_def)
  ultimately show "\<forall>s \<in> {cn_Name c, cn_RemoteAddr c, cn_LocalID c, cn_RemoteID c, remoteID c, fst (proposals c), snd (proposals c)}.
      list_all is_graph s"
    using a by (simp add: remoteID_def)
  show "\<forall>s \<in> set (cn_LocalSubnets c) \<union> set (cn_RemoteSubnets c). list_all is_graph s"
  proof
    fix s assume s: "s \<in> set (cn_LocalSubnets c) \<union> set (cn_RemoteSubnets c)"
    then have "ips_validCIDR s" "TrimSpace s = s" using assms by (auto simp: conn_ok_def conn_trimmed_def)
    then show "list_all is_graph s" using ParseCIDR_graph [of s] by (auto simp: ips_validCIDR_def split: option.splits)
  qed
qed

text \<open>Texts without a line break.\<close>

definition one_line :: "string \<Rightarrow> bool" where
  "one_line l \<longleftrightarrow> CHR 0x0A \<notin> set l"

lemma one_line_simps [simp]:
  "one_line []" "one_line (c # l) \<longleftrightarrow> c \<noteq> CHR 0x0A \<and> one_line l" "one_line (a @ b) \<longleftrightarrow> one_line a \<and> one_line b"
  "one_line (if q then a else b) \<longleftrightarrow> (if q then one_line a else one_line b)"
  by (auto simp: one_line_def)

lemma one_line_only_if [simp]: "list_all one_line (only_if q xs) \<longleftrightarrow> (q \<longrightarrow> list_all one_line xs)"
  by (cases q) simp_all

lemma one_line_graph: "list_all is_graph s \<Longrightarrow> one_line s"
  by (simp add: one_line_def graph_no_newline)

lemma one_line_Join: "\<forall>s \<in> set xs. list_all is_graph s \<Longrightarrow> one_line (Join xs '', '')"
  using set_Join [of xs "'', ''"] graph_no_newline by (fastforce simp: one_line_def)

lemma conn_lines_one_line:
  assumes "conn_ok c" "conn_trimmed c"
  shows "list_all one_line (conn_lines c)"
proof -
  note g = conn_values_graph [OF assms]
  have n: "one_line (cn_Name c)" "one_line (cn_RemoteAddr c)" "one_line (cn_LocalID c)" "one_line (cn_RemoteID c)"
    "one_line (remoteID c)" "one_line (fst (proposals c))" "one_line (snd (proposals c))"
    using g(1) one_line_graph by blast+
  have j: "one_line (Join (cn_LocalSubnets c) '', '')" "one_line (Join (cn_RemoteSubnets c) '', '')"
    using g(2) by (simp_all add: one_line_Join)
  show ?thesis by (simp add: conn_lines_def n j CertFile_def)
qed

lemma secret_lines_one_line:
  assumes "conn_ok c" "conn_trimmed c" "one_line (psk_of psks (cn_Name c))"
  shows "list_all one_line (secret_lines psks c)"
proof -
  have n: "one_line (cn_Name c)" "one_line (cn_LocalID c)" "one_line (remoteID c)"
    using conn_values_graph(1) [OF assms(1,2)] one_line_graph by blast+
  with assms(3) show ?thesis by (simp add: secret_lines_def dq_def)
qed

text \<open>
  The IPsec configuration: it is generated exactly for connections that are well formed
  with unique names, and when addresses and subnets carry no surrounding white space and keys
  no line break, its lines are one section per connection and one secret per connection that
  authenticates with a preshared key, in order; a certificate connection has no secret.
\<close>

theorem swanctl_conf_lines:
  assumes "\<forall>k \<in> set (ip_Connections c). conn_trimmed k" "\<forall>n. one_line (psk_of psks n)"
  shows "case ips_GenerateConf c psks of
      Inl e \<Rightarrow> \<not> ((\<forall>k \<in> set (ip_Connections c). conn_ok k) \<and> distinct (map cn_Name (ip_Connections c)))
    | Inr s \<Rightarrow> (\<forall>k \<in> set (ip_Connections c). conn_ok k) \<and> distinct (map cn_Name (ip_Connections c))
        \<and> Split (CHR 0x0A) s =
            [managed_header, ''connections {''] @ concat (map conn_lines (ip_Connections c)) @ [''}'', ''secrets {'']
            @ concat (map (secret_lines psks) (filter (\<lambda>k. cn_Auth k \<noteq> ''cert'') (ip_Connections c))) @ [''}'', []]"
proof (cases "ips_Validate c")
  case (Some e)
  then have "\<not> ((\<forall>k \<in> set (ip_Connections c). conn_ok k) \<and> distinct (map cn_Name (ip_Connections c)))"
    using ips_Validate_iff [of c] by auto
  with Some show ?thesis by (simp add: ips_GenerateConf_def)
next
  case None
  then have v: "\<forall>k \<in> set (ip_Connections c). conn_ok k" "distinct (map cn_Name (ip_Connections c))"
    using ips_Validate_iff by auto
  have "CHR 0x0A \<notin> set l" if "l \<in> set (swanctl_lines c psks)" for l
  proof -
    have b: "one_line ''}''" "one_line ''secrets {''" "one_line ''connections {''" by simp_all
    have m: "one_line managed_header" using managed_header_line by (simp add: one_line_def)
    have c: "list_all one_line (conn_lines k)" "list_all one_line (secret_lines psks k)" if "k \<in> set (ip_Connections c)" for k
      using that v(1) assms conn_lines_one_line secret_lines_one_line by auto
    from that consider "l \<in> {managed_header, ''connections {'', ''}'', ''secrets {''}"
      | k where "k \<in> set (ip_Connections c)" "l \<in> set (conn_lines k)"
      | k where "k \<in> set (ip_Connections c)" "l \<in> set (secret_lines psks k)"
      unfolding swanctl_lines_def by auto
    then have "one_line l"
    proof cases
      case 1 with b m show ?thesis by blast
    next
      case 2 with c(1) show ?thesis by (auto simp: list_all_iff)
    next
      case 3 with c(2) show ?thesis by (auto simp: list_all_iff)
    qed
    then show ?thesis by (simp add: one_line_def)
  qed
  then have "Split (CHR 0x0A) (unlines (swanctl_lines c psks)) = swanctl_lines c psks @ [[]]"
    by (intro Split_unlines) blast
  with None v show ?thesis by (simp add: ips_GenerateConf_def swanctl_lines_def IsCert_def)
qed

definition ex_conn :: Connection where
  "ex_conn = \<lparr> cn_Name = ''hq'', cn_RemoteAddr = ''192.0.2.1'', cn_LocalID = [], cn_RemoteID = [],
     cn_LocalSubnets = [''10.0.0.0/8''], cn_RemoteSubnets = [''10.9.0.0/16''], cn_IKEProposal = [], cn_ESPProposal = [],
     cn_Initiate = True, cn_Auth = ''psk'', cn_PSKEnc = [], cn_LocalCert = [], cn_LocalKeyEnc = [], cn_RemoteCA = [] \<rparr>"

theorem swanctl_conf_lines_witness:
  "\<exists>s. ips_GenerateConf \<lparr> ip_Enabled = True, ip_Connections = [ex_conn] \<rparr> (\<lambda>_. Some ''k'') = Inr s
     \<and> Split (CHR 0x0A) s = [managed_header, ''connections {''] @ conn_lines ex_conn @ [''}'', ''secrets {'']
         @ secret_lines (\<lambda>_. Some ''k'') ex_conn @ [''}'', []]"
proof -
  let ?c = "\<lparr> ip_Enabled = True, ip_Connections = [ex_conn] \<rparr>" and ?p = "\<lambda>_. Some ''k''"
  have g: "TrimSpace ''192.0.2.1'' = ''192.0.2.1''" "TrimSpace ''10.0.0.0/8'' = ''10.0.0.0/8''"
    "TrimSpace ''10.9.0.0/16'' = ''10.9.0.0/16''" by (simp_all add: is_graph_def)
  have t: "\<forall>k \<in> set (ip_Connections ?c). conn_trimmed k" by (simp add: conn_trimmed_def ex_conn_def g)
  have o: "\<forall>n. one_line (psk_of ?p n)" by (simp add: psk_of_def)
  have a: "ips_hostRe ''192.0.2.1''" by code_simp
  have s: "ips_validCIDR ''10.0.0.0/8''" "ips_validCIDR ''10.9.0.0/16''"
    by (simp_all add: ips_validCIDR_def g net_eval)
  have r: "ips_nameRe ''hq''" "proposalRe DefaultProposal" by code_simp+
  have "ips_Validate ?c = None"
    by (simp add: ips_Validate_def conn_check_def ex_conn_def g a s r proposals_def auth_check_def)
  then obtain s where "ips_GenerateConf ?c ?p = Inr s" by (simp add: ips_GenerateConf_def)
  with swanctl_conf_lines [OF t o] show ?thesis by (simp add: ex_conn_def)
qed

end
