(* ===== verification/OpenVpn.thy ===== *)
theory OpenVpn
  imports Ipsec
begin

text \<open>
  \<open>internal/adapters/openvpn/openvpn.go\<close>: validation, tunnel address allocation, the
  server configuration, the per-client files and profiles. The certificate authority (keys,
  signatures, the revocation list) is not modelled; certificates are strings of the caller.
\<close>

unbundle bit_operations_syntax

section \<open>The text form of any address\<close>

text \<open>
  \<open>net.IP.String\<close>: dotted for addresses with a four-byte form, otherwise eight hexadecimal
  groups with the leftmost longest run of at least two zero groups written as \<open>::\<close>.
\<close>

definition ip6_groups :: "bytes \<Rightarrow> nat list" where
  "ip6_groups ip = map (\<lambda>i. unat (ip ! (2 * i)) * 256 + unat (ip ! (2 * i + 1))) [0..<8]"

definition zero_run :: "nat list \<Rightarrow> nat \<times> nat" where
  "zero_run gs = foldl (\<lambda>(s, l) i. let r = length (takeWhile (\<lambda>g. g = 0) (drop i gs))
                                   in if 2 \<le> r \<and> l < r then (i, r) else (s, l)) (0, 0) [0..<8]"

definition ip_String :: "bytes \<Rightarrow> string" where
  "ip_String ip =
     (if ip = [] then ''<nil>''
      else case To4 ip of
        Some b \<Rightarrow> ip4_String b
      | None \<Rightarrow>
          if length ip \<noteq> 16 then
            CHR ''?'' # concat (map (\<lambda>b. [hex_digit (unat b div 16), hex_digit (unat b mod 16)]) ip)
          else let gs = ip6_groups ip; (s, l) = zero_run gs
               in if l = 0 then Join (map hex_str gs) '':''
                  else Join (map hex_str (take s gs)) '':'' @ ''::'' @ Join (map hex_str (drop (s + l) gs)) '':'')"

section \<open>Data\<close>

datatype OvError = OvSubnet | OvPort | OvEndpoint | OvDNS | OvSplit string

record AccessRule =
  ar_Dest :: string
  ar_DestAlias :: string
  ar_Proto :: string
  ar_Port :: int

record OvClient =
  ov_Name :: string
  ov_Serial :: string
  ov_CertPEM :: string
  ov_PassHash :: string
  ov_VPNAddr :: string
  ov_Access :: "AccessRule list"
  ov_Revoked :: bool
  ov_CreatedAt :: int
  ov_ExpiresAt :: int

record OvConfig =
  oc_Enabled :: bool
  oc_Subnet :: string
  oc_Port :: int
  oc_Endpoint :: string
  oc_DNS :: string
  oc_SplitNetworks :: "string list"
  oc_CACertPEM :: string
  oc_CAKeyEnc :: string
  oc_ServerCertPEM :: string
  oc_ServerKeyEnc :: string
  oc_TLSCryptEnc :: string
  oc_Clients :: "OvClient list"

definition DefaultPort :: int where
  "DefaultPort = 1194"

definition PortOrDefault :: "OvConfig \<Rightarrow> int" where
  "PortOrDefault c = (if oc_Port c \<le> 0 then DefaultPort else oc_Port c)"

definition ov_validCIDR4 :: "string \<Rightarrow> bool" where
  "ov_validCIDR4 s = (case ParseCIDR (TrimSpace s) of None \<Rightarrow> False | Some (ip, _) \<Rightarrow> To4 ip \<noteq> None)"

definition ov_Validate :: "OvConfig \<Rightarrow> OvError option" where
  "ov_Validate c =
     (if \<not> oc_Enabled c then None
      else if \<not> ov_validCIDR4 (oc_Subnet c) then Some OvSubnet
      else if PortOrDefault c < 1 \<or> PortOrDefault c > 65535 then Some OvPort
      else if oc_Endpoint c = [] then Some OvEndpoint
      else if oc_DNS c \<noteq> [] \<and> ParseIP (oc_DNS c) = None then Some OvDNS
      else first_err (\<lambda>s. fail_if (\<not> ov_validCIDR4 s) (OvSplit s)) (oc_SplitNetworks c))"

section \<open>Tunnel addresses\<close>

text \<open>
  \<open>incIP\<close> indexes the four bytes of its base, and panics when there are none: when the
  subnet has no four-byte form.
\<close>

definition incIP :: "bytes \<Rightarrow> int \<Rightarrow> string" where
  "incIP base n = ip4_String (u32_bytes (uint (u32_of base) + n))"

fun next_loop :: "string set \<Rightarrow> IPNet \<Rightarrow> bytes \<Rightarrow> int list \<Rightarrow> string" where
  "next_loop used ipnet base [] = []"
| "next_loop used ipnet base (i # js) =
     (let cand = incIP base i
      in if cand = [] \<or> \<not> Contains ipnet (case ParseIP cand of None \<Rightarrow> [] | Some ip \<Rightarrow> ip) then []
         else if cand \<notin> used then cand
         else next_loop used ipnet base js)"

definition active_addrs :: "OvConfig \<Rightarrow> string set" where
  "active_addrs c = set (map ov_VPNAddr (filter (\<lambda>cl. ov_VPNAddr cl \<noteq> [] \<and> \<not> ov_Revoked cl) (oc_Clients c)))"

definition NextFreeAddr :: "OvConfig \<Rightarrow> (unit, string) outcome" where
  "NextFreeAddr c =
     (case ParseCIDR (TrimSpace (oc_Subnet c)) of
        None \<Rightarrow> Return []
      | Some (ip, ipnet) \<Rightarrow>
          (case To4 (ip_Mask ip (net_Mask ipnet)) of
             None \<Rightarrow> Panic
           | Some base \<Rightarrow>
               Return (next_loop (insert (incIP base 1) (active_addrs c)) ipnet base [2..253])))"

definition GenerateCCD :: "OvConfig \<Rightarrow> OvClient \<Rightarrow> string" where
  "GenerateCCD c cl =
     (case ParseCIDR (TrimSpace (oc_Subnet c)) of
        None \<Rightarrow> []
      | Some (_, ipnet) \<Rightarrow>
          if ov_VPNAddr cl = [] then []
          else unlines [''ifconfig-push '' @ ov_VPNAddr cl @ '' '' @ ip_String (net_Mask ipnet)])"

section \<open>Files\<close>

definition GenerateAuthFile :: "OvClient list \<Rightarrow> string" where
  "GenerateAuthFile clients =
     unlines (map (\<lambda>c. ov_Name c @ '':'' @ ov_PassHash c) (filter (\<lambda>c. \<not> (ov_Revoked c \<or> ov_PassHash c = [])) clients))"

text \<open>The lines of the static key, 32 hexadecimal digits each.\<close>

definition GenerateTLSCrypt :: "string \<Rightarrow> string" where
  "GenerateTLSCrypt h =
     unlines ([''-----BEGIN OpenVPN Static key V1-----'']
              @ map (\<lambda>i. take 32 (drop (32 * i) h)) [0..<length h div 32]
              @ [''-----END OpenVPN Static key V1-----''])"

definition route_line :: "string \<Rightarrow> string list" where
  "route_line n =
     (case ParseCIDR (TrimSpace n) of
        None \<Rightarrow> []
      | Some (sip, snet) \<Rightarrow>
          [''push '' @ dq (''route '' @ ip_String (ip_Mask sip (net_Mask snet)) @ '' '' @ ip_String (net_Mask snet))])"

definition ov_server_lines :: "OvConfig \<Rightarrow> string \<Rightarrow> string \<Rightarrow> string list" where
  "ov_server_lines c server msk =
     [managed_header, ''port '' @ Itoa (PortOrDefault c), ''proto udp'', ''dev ovpn-saguaro'', ''dev-type tun'',
      ''topology subnet'', ''client-config-dir /etc/openvpn/server/saguaro-ccd'',
      ''server '' @ server @ '' '' @ msk,
      ''ca /etc/openvpn/server/saguaro-ca.crt'', ''cert /etc/openvpn/server/saguaro-server.crt'',
      ''key /etc/openvpn/server/saguaro-server.key'', ''dh none'',
      ''tls-crypt /etc/openvpn/server/saguaro-tlscrypt.key'', ''crl-verify /etc/openvpn/server/saguaro-crl.pem'',
      ''auth-user-pass-verify /etc/openvpn/server/saguaro-authverify via-file'', ''script-security 2'',
      ''username-as-common-name'', ''data-ciphers AES-256-GCM'', ''auth SHA256'', ''keepalive 10 60'',
      ''persist-key'', ''persist-tun'', ''user nobody'', ''group nogroup'', ''verb 3'']
   @ concat (map route_line (oc_SplitNetworks c))
   @ only_if (oc_DNS c \<noteq> []) [''push '' @ dq (''dhcp-option DNS '' @ TrimSpace (oc_DNS c))]"

text \<open>The parse error is ignored; without a network the nil mask is dereferenced.\<close>

definition ov_GenerateServerConf :: "OvConfig \<Rightarrow> (OvError, string) outcome" where
  "ov_GenerateServerConf c =
     (case ov_Validate c of
        Some e \<Rightarrow> Error e
      | None \<Rightarrow>
          (case ParseCIDR (TrimSpace (oc_Subnet c)) of
             None \<Rightarrow> Panic
           | Some (ip, ipnet) \<Rightarrow>
               Return (unlines (ov_server_lines c (ip_String (ip_Mask ip (net_Mask ipnet))) (ip_String (net_Mask ipnet))))))"

definition pem_block :: "string \<Rightarrow> string \<Rightarrow> string" where
  "pem_block tag body = unlines [''<'' @ tag @ ''>'', TrimSpace body, ''</'' @ tag @ ''>'']"

definition GenerateClientOVPN :: "OvConfig \<Rightarrow> string \<Rightarrow> string \<Rightarrow> string \<Rightarrow> string" where
  "GenerateClientOVPN c clientCert clientKey tlsCrypt =
     unlines [''client'', ''dev tun'', ''proto udp'', ''remote '' @ oc_Endpoint c @ '' '' @ Itoa (PortOrDefault c),
       ''resolv-retry infinite'', ''nobind'', ''persist-key'', ''persist-tun'', ''remote-cert-tls server'',
       ''auth-user-pass'', ''data-ciphers AES-256-GCM'', ''auth SHA256'', ''verb 3'']
   @ pem_block ''ca'' (oc_CACertPEM c) @ pem_block ''cert'' clientCert @ pem_block ''key'' clientKey
   @ pem_block ''tls-crypt'' tlsCrypt"

section \<open>Allocation\<close>

text \<open>The address at an offset of the tunnel subnet \<open>b/n\<close>.\<close>

definition tun_addr :: "bytes \<Rightarrow> nat \<Rightarrow> int \<Rightarrow> string" where
  "tun_addr b n i = incIP (map2 (AND) b (CIDRMask n 32)) i"

lemma tun_addr_host: "tun_addr b n i = host_addr b n i"
  by (simp add: tun_addr_def host_addr_def incIP_def candidate_def)

lemma incIP_not_Nil: "incIP b i \<noteq> []"
  by (simp add: incIP_def ip4_String_def u32_bytes_def)

lemma tun_inside:
  assumes "length b = 4" "n \<le> 32" "0 \<le> i" "i < 2 ^ (32 - n)"
  shows "Contains (ip4_net b n) (v4_in_v6_prefix @ u32_bytes (uint (u32_of (map2 (AND) b (CIDRMask n 32))) + i))"
  using host_in_net [OF assms] assms by (simp add: Contains_ip4_net(2))

lemma tun_outside:
  assumes "length b = 4" "n \<le> 32" "2 ^ (32 - n) \<le> (253::int)"
  shows "\<not> Contains (ip4_net b n) (v4_in_v6_prefix @ u32_bytes (uint (u32_of (map2 (AND) b (CIDRMask n 32))) + 2 ^ (32 - n)))"
proof
  let ?K = "2 ^ (32 - n) :: int" and ?q = "uint (u32_of b) div 2 ^ (32 - n)"
  let ?v = "uint (u32_of (map2 (AND) b (CIDRMask n 32))) + ?K"
  assume "Contains (ip4_net b n) (v4_in_v6_prefix @ u32_bytes ?v)"
  then have "uint (u32_of (u32_bytes ?v)) div ?K = ?q"
    using assms Contains_ip4_net [OF assms(1) length_u32_bytes assms(2), of ?v]
    by (simp add: word_uint_eq_iff uint_drop_bit)
  moreover have "?v = (?q + 1) * ?K" using uint_masked [OF assms(1,2)] by (simp add: distrib_right)
  moreover have "uint (u32_of (u32_bytes w)) = w mod 2 ^ 32" for w
    by (simp add: uint_word_of_int_eq take_bit_eq_mod)
  ultimately have e: "((?q + 1) * ?K) mod 2 ^ 32 div ?K = ?q" by metis
  have p: "(2::int) ^ 32 = 2 ^ n * ?K" using assms(2) by (simp flip: power_add)
  have "n \<noteq> 0" using assms(3) by (intro notI) simp
  then have "(1::int) < 2 ^ n" by simp
  have "((?q + 1) * ?K) mod (2 ^ n * ?K) = ((?q + 1) mod 2 ^ n) * ?K" by (rule mult_mod_left [symmetric])
  with e p have e2: "(?q + 1) mod 2 ^ n = ?q" by simp
  have "0 \<le> ?q" by (simp add: pos_imp_zdiv_nonneg_iff)
  show False
  proof (cases "?q + 1 < 2 ^ n")
    case True
    with e2 \<open>0 \<le> ?q\<close> show False by simp
  next
    case False
    have "?q < 2 ^ n"
    proof -
      have "uint (u32_of b) < 2 ^ 32" using uint_bounded [of "u32_of b"] by simp
      moreover have "?q * ?K \<le> uint (u32_of b)" by (rule div_times_le) simp
      ultimately have "?q * ?K < 2 ^ n * ?K" unfolding p by linarith
      then show ?thesis by simp
    qed
    with False have "?q + 1 = 2 ^ n" by simp
    with e2 have "?q = 0" by simp
    with \<open>?q + 1 = 2 ^ n\<close> \<open>(1::int) < 2 ^ n\<close> show False by simp
  qed
qed

lemma next_loop_alloc:
  assumes "length b = 4" "n \<le> 32" "0 \<le> k" "k \<le> 2 ^ (32 - n)"
  defines "base \<equiv> map2 (AND) b (CIDRMask n 32)"
  shows "next_loop used (ip4_net b n) base [k..253] =
    (case alloc_loop used base [k..min 253 (2 ^ (32 - n) - 1)] of None \<Rightarrow> [] | Some a \<Rightarrow> a)"
  using assms(3,4)
proof (induction "nat (254 - k)" arbitrary: k)
  case 0
  then show ?case by simp
next
  case (Suc j)
  let ?K = "2 ^ (32 - n) :: int"
  have u: "[k..253] = k # [k + 1..253]" using Suc(2) by (simp add: upto_rec1)
  have ip: "ParseIP (incIP base k) = Some (v4_in_v6_prefix @ u32_bytes (uint (u32_of base) + k))"
    by (simp add: incIP_def)
  show ?case
  proof (cases "k = ?K")
    case True
    with Suc(2) have "?K \<le> 253" by simp
    then have "\<not> Contains (ip4_net b n) (v4_in_v6_prefix @ u32_bytes (uint (u32_of base) + k))"
      using tun_outside [OF assms(1,2)] True by (simp add: base_def)
    with ip u True show ?thesis by simp
  next
    case False
    with Suc(4) have k: "k < ?K" by simp
    have c: "Contains (ip4_net b n) (v4_in_v6_prefix @ u32_bytes (uint (u32_of base) + k))"
      using tun_inside [OF assms(1,2) Suc(3) k] by (simp add: base_def)
    have u2: "[k..min 253 (?K - 1)] = k # [k + 1..min 253 (?K - 1)]" using Suc(2) k by (simp add: upto_rec1)
    have cand: "candidate base k = incIP base k" by (simp add: candidate_def incIP_def)
    have "next_loop used (ip4_net b n) base [k + 1..253] =
        (case alloc_loop used base [k + 1..min 253 (?K - 1)] of None \<Rightarrow> [] | Some a \<Rightarrow> a)"
      using Suc k by (intro Suc(1)) auto
    then show ?thesis unfolding u u2 by (simp add: ip c incIP_not_Nil cand Let_def)
  qed
qed

text \<open>
  Tunnel addresses: for a subnet in dotted form, the allocation never panics and returns
  the lowest address of the subnet at an offset from 2 to 253 that is neither the server's
  (offset 1) nor held by a client that is not revoked; every lower candidate is taken. It
  returns nothing exactly when no such offset is free.
\<close>

theorem NextFreeAddr_lowest:
  assumes "TrimSpace (oc_Subnet c) = ip4_String b @ CHR ''/'' # nat_str n" "length b = 4" "n \<le> 31"
  shows "\<exists>a. NextFreeAddr c = Return a \<and>
    (let m = min 253 (2 ^ (32 - n) - 1); used = insert (tun_addr b n 1) (active_addrs c)
     in if a = [] then tun_addr b n ` {2..m} \<subseteq> used
        else \<exists>i. 2 \<le> i \<and> i \<le> m \<and> a = tun_addr b n i \<and> a \<notin> used \<and> tun_addr b n ` {2..<i} \<subseteq> used)"
proof -
  let ?base = "map2 (AND) b (CIDRMask n 32)" and ?m = "min 253 (2 ^ (32 - n) - 1) :: int"
  let ?used = "insert (tun_addr b n 1) (active_addrs c)"
  have p: "ParseCIDR (TrimSpace (oc_Subnet c)) = Some (v4_in_v6_prefix @ b, ip4_net b n)"
    unfolding assms(1) using assms(2,3) by simp
  have f: "NextFreeAddr c = Return (next_loop ?used (ip4_net b n) ?base [2..253])"
    unfolding NextFreeAddr_def p using assms(2) by (simp add: ip4_net_def tun_addr_def)
  have t: "tun_addr b n i = candidate ?base i" for i by (simp add: tun_addr_host host_addr_def)
  have n: "n \<le> 32" "2 \<le> (2::int) ^ (32 - n)"
    using assms(3) power_increasing [of 1 "32 - n" "2::int"] by auto
  note l = next_loop_alloc [OF assms(2) n(1) _ n(2), of ?used, simplified]
  show ?thesis
  proof (cases "alloc_loop ?used ?base [2..?m]")
    case None
    then have "tun_addr b n ` {2..?m} \<subseteq> ?used" by (auto simp: alloc_loop_None t)
    with None l f show ?thesis by (simp add: Let_def)
  next
    case (Some a)
    then obtain xs i ys where i: "[2..?m] = xs @ i # ys" "a = candidate ?base i" "a \<notin> ?used"
      "\<forall>j \<in> set xs. candidate ?base j \<in> ?used" using alloc_loop_Some by blast
    note sp = upto_split [OF i(1)]
    have "a \<noteq> []" using i(2) t [of i] incIP_not_Nil by (metis tun_addr_def)
    have "tun_addr b n ` {2..<i} \<subseteq> ?used" using i(4) sp(3) by (auto simp: t)
    then have "\<exists>i. 2 \<le> i \<and> i \<le> ?m \<and> a = tun_addr b n i \<and> a \<notin> ?used \<and> tun_addr b n ` {2..<i} \<subseteq> ?used"
      using sp(1,2) i(2,3) t [of i] by (intro exI [of _ i]) simp
    moreover have "NextFreeAddr c = Return a" using Some l f by simp
    ultimately show ?thesis using \<open>a \<noteq> []\<close> by (intro exI [of _ a]) (simp only: Let_def if_False simp_thms)
  qed
qed

definition ex_ovpn :: "nat \<Rightarrow> string list \<Rightarrow> OvConfig" where
  "ex_ovpn n addrs = \<lparr> oc_Enabled = True, oc_Subnet = ip4_String [10, 9, 0, 0] @ CHR ''/'' # nat_str n, oc_Port = 0,
     oc_Endpoint = ''vpn.example'', oc_DNS = [], oc_SplitNetworks = [], oc_CACertPEM = ''ca'', oc_CAKeyEnc = [],
     oc_ServerCertPEM = [], oc_ServerKeyEnc = [], oc_TLSCryptEnc = [],
     oc_Clients = map (\<lambda>a. \<lparr> ov_Name = ''ana'', ov_Serial = [], ov_CertPEM = [], ov_PassHash = ''x'', ov_VPNAddr = a,
       ov_Access = [], ov_Revoked = False, ov_CreatedAt = 0, ov_ExpiresAt = 0 \<rparr>) addrs \<rparr>"

lemma ex_ovpn_trim: "TrimSpace (oc_Subnet (ex_ovpn n addrs)) = ip4_String [10, 9, 0, 0] @ CHR ''/'' # nat_str n"
proof -
  have "list_all is_graph (ip4_String [10, 9, 0, 0] @ CHR ''/'' # nat_str n)"
    using ip4_String_is_graph [of "[10, 9, 0, 0]"] nat_str_graph [of n] by (simp add: is_graph_def)
  then show ?thesis by (simp add: ex_ovpn_def)
qed

lemma active_ex: "active_addrs (ex_ovpn n [a]) = (if a = [] then {} else {a})"
  by (simp add: active_addrs_def ex_ovpn_def)

lemma tun_addr_inj:
  "n \<le> 32 \<Longrightarrow> length b = 4 \<Longrightarrow> 0 \<le> i \<Longrightarrow> i < 2 ^ (32 - n) \<Longrightarrow> 0 \<le> j \<Longrightarrow> j < 2 ^ (32 - n)
     \<Longrightarrow> tun_addr b n i = tun_addr b n j \<longleftrightarrow> i = j"
  using host_addr_inj [of b n i j] by (auto simp: tun_addr_host)

theorem NextFreeAddr_lowest_witness:
  "NextFreeAddr (ex_ovpn 24 []) = Return (tun_addr [10, 9, 0, 0] 24 2)"
proof -
  let ?t = "tun_addr [10, 9, 0, 0] 24"
  have ac: "active_addrs (ex_ovpn 24 []) = {}" by (simp add: active_addrs_def ex_ovpn_def)
  have "\<exists>a. NextFreeAddr (ex_ovpn 24 []) = Return a \<and>
    (let m = min 253 (2 ^ (32 - 24) - 1); used = insert (?t 1) (active_addrs (ex_ovpn 24 []))
     in if a = [] then ?t ` {2..m} \<subseteq> used
        else \<exists>i. 2 \<le> i \<and> i \<le> m \<and> a = ?t i \<and> a \<notin> used \<and> ?t ` {2..<i} \<subseteq> used)"
    by (rule NextFreeAddr_lowest [OF ex_ovpn_trim]) simp_all
  then obtain a where a: "NextFreeAddr (ex_ovpn 24 []) = Return a"
    "if a = [] then ?t ` {2..253} \<subseteq> {?t 1} else \<exists>i. 2 \<le> i \<and> i \<le> 253 \<and> a = ?t i \<and> ?t ` {2..<i} \<subseteq> {?t 1}"
    unfolding ac Let_def by (elim exE conjE) (auto split: if_splits)
  have d: "?t i \<noteq> ?t 1" if "2 \<le> i" "i \<le> 253" for i using tun_addr_inj [of 24 "[10, 9, 0, 0]" i 1] that by simp
  have "a = ?t 2"
  proof (cases "a = []")
    case True
    with a(2) have "?t ` {2..253} \<subseteq> {?t 1}" by simp
    moreover have "?t 2 \<in> ?t ` {2..253}" by (rule imageI) simp
    ultimately have "?t 2 \<in> {?t 1}" by (rule subsetD)
    with d [of 2] show ?thesis by simp
  next
    case False
    with a(2) obtain i where i: "2 \<le> i" "i \<le> 253" "a = ?t i" "?t ` {2..<i} \<subseteq> {?t 1}" by auto
    have "\<not> 2 < i"
    proof
      assume "2 < i"
      then have "?t 2 \<in> ?t ` {2..<i}" by (intro imageI) simp
      with i(4) have "?t 2 \<in> {?t 1}" by (rule subsetD)
      with d [of 2] show False by simp
    qed
    with i(1,3) show ?thesis by simp
  qed
  with a(1) show ?thesis by simp
qed

text \<open>
  The allocation does not exclude the broadcast address: in a subnet of at most 128 addresses
  with every lower host taken, the last address of the subnet is handed out.
\<close>

theorem NextFreeAddr_broadcast:
  "NextFreeAddr (ex_ovpn 30 [tun_addr [10, 9, 0, 0] 30 2]) = Return (tun_addr [10, 9, 0, 0] 30 (2 ^ (32 - 30) - 1))"
proof -
  let ?c = "ex_ovpn 30 [tun_addr [10, 9, 0, 0] 30 2]" and ?b = "map2 (AND) [10, 9, 0, 0] (CIDRMask 30 32)"
  have t: "tun_addr [10, 9, 0, 0] 30 i = candidate ?b i" for i by (simp add: tun_addr_host host_addr_def)
  have ac: "active_addrs ?c = {candidate ?b 2}"
    using incIP_not_Nil [of ?b 2] t [of 2] by (simp only: active_ex tun_addr_def) simp
  have p: "ParseCIDR (TrimSpace (oc_Subnet ?c)) = Some (v4_in_v6_prefix @ [10, 9, 0, 0], ip4_net [10, 9, 0, 0] 30)"
    unfolding ex_ovpn_trim by (rule ParseCIDR_ip4) simp_all
  have b: "To4 (ip_Mask (v4_in_v6_prefix @ [10, 9, 0, 0]) (net_Mask (ip4_net [10, 9, 0, 0] 30))) = Some ?b"
    by (simp add: ip4_net_def del: zip_Cons_Cons list.map)
  have d: "candidate ?b 3 \<noteq> candidate ?b 1" "candidate ?b 3 \<noteq> candidate ?b 2" "candidate ?b 2 \<noteq> []"
    using tun_addr_inj [of 30 "[10, 9, 0, 0]" 3 1] tun_addr_inj [of 30 "[10, 9, 0, 0]" 3 2] incIP_not_Nil [of ?b 2]
    by (simp_all only: t [symmetric]) (simp_all add: tun_addr_def)
  have inc: "incIP ?b 1 = candidate ?b 1" by (simp add: incIP_def candidate_def)
  have "next_loop (insert (incIP ?b 1) (active_addrs ?c)) (ip4_net [10, 9, 0, 0] 30) ?b [2..253] =
      (case alloc_loop (insert (incIP ?b 1) (active_addrs ?c)) ?b [2..min 253 (2 ^ (32 - 30) - 1)] of None \<Rightarrow> [] | Some a \<Rightarrow> a)"
    by (rule next_loop_alloc) simp_all
  also have "[2..min 253 (2 ^ (32 - 30) - 1)] = [2, 3::int]" by (simp add: upto_rec1)
  finally have "next_loop (insert (incIP ?b 1) (active_addrs ?c)) (ip4_net [10, 9, 0, 0] 30) ?b [2..253] = candidate ?b 3"
    unfolding ac inc using d by simp
  then show ?thesis unfolding NextFreeAddr_def p by (simp only: option.case prod.case b t) (simp add: eval_nat_numeral)
qed

end
