(* ===== verification/NetSpecs.thy ===== *)
theory NetSpecs
  imports Netplan
begin

text \<open>
  \<open>routes.go\<close> and \<open>multiwan.go\<close>: static routes and multi-WAN uplinks. Both render a
  spec file with one line of space-separated fields per entry, which a root adapter reads
  field by field; \<open>multiwan.go\<close> also chooses the nexthops of the default route.
\<close>

section \<open>Static routes\<close>

datatype RouteError = BadDestination string | BadGateway string | BadRouteIface string
  | BadMetric | DupRoute string

record Route =
  rt_Destination :: string
  rt_Gateway :: string
  rt_Interface :: string
  rt_Metric :: int

definition rt_validIface :: "string \<Rightarrow> bool" where
  "rt_validIface name =
     (if name = [] then True else if length name > 15 then False else list_all iface_char name)"

definition rt_Validate :: "Route \<Rightarrow> RouteError option" where
  "rt_Validate r =
     (if rt_Destination r \<noteq> ''default'' \<and>
         (case ParseCIDR (TrimSpace (rt_Destination r)) of None \<Rightarrow> True | Some (ip, _) \<Rightarrow> To4 ip = None)
        then Some (BadDestination (rt_Destination r))
      else if (case ParseIP (TrimSpace (rt_Gateway r)) of None \<Rightarrow> True | Some gw \<Rightarrow> To4 gw = None)
        then Some (BadGateway (rt_Gateway r))
      else if \<not> rt_validIface (rt_Interface r) then Some (BadRouteIface (rt_Interface r))
      else if rt_Metric r < 0 \<or> rt_Metric r > 4294967295 then Some BadMetric
      else None)"

definition rt_check :: "string set \<Rightarrow> Route \<Rightarrow> RouteError option" where
  "rt_check seen r =
     err_then (rt_Validate r) (fail_if (rt_Destination r \<in> seen) (DupRoute (rt_Destination r)))"

definition routes_Validate :: "Route list \<Rightarrow> RouteError option" where
  "routes_Validate rs = seen_err rt_check rt_Destination {} rs"

definition rt_fields :: "Route \<Rightarrow> string list" where
  "rt_fields r =
     [rt_Destination r, rt_Gateway r, if rt_Interface r = [] then ''-'' else rt_Interface r,
      Itoa (rt_Metric r)]"

definition spec_head :: string where
  "spec_head = ''# Managed by Saguaro (generated). dest gateway iface metric''"

definition routes_GenerateSpec :: "Route list \<Rightarrow> RouteError + string" where
  "routes_GenerateSpec rs =
     (case routes_Validate rs of
        Some e \<Rightarrow> Inl e
      | None \<Rightarrow> Inr (unlines (spec_head # map (\<lambda>r. Join (rt_fields r) '' '') rs)))"

definition IPRouteArgs :: "Route \<Rightarrow> string list" where
  "IPRouteArgs r =
     [''route'', ''replace'', rt_Destination r, ''via'', rt_Gateway r]
   @ only_if (rt_Interface r \<noteq> []) [''dev'', rt_Interface r]
   @ only_if (rt_Metric r > 0) [''metric'', Itoa (rt_Metric r)]"

interpretation route_loop: seen_loop rt_check rt_Destination id id "\<lambda>r. rt_Validate r = None"
  by unfold_locales (auto simp: rt_check_def)

lemma routes_Validate_iff:
  "routes_Validate rs = None \<longleftrightarrow> (\<forall>r \<in> set rs. rt_Validate r = None) \<and> distinct (map rt_Destination rs)"
  by (simp add: routes_Validate_def route_loop.loop_from_empty)

section \<open>Multi-WAN\<close>

datatype MwanError = MwanMode | MwanTooFew | MwanName | MwanIface string | MwanGateway string
  | MwanWeight string | MwanHealth string | NoHealthyUplinks

record Uplink =
  u_Name :: string
  u_Interface :: string
  u_Gateway :: string
  u_Weight :: int
  u_HealthCheck :: string

record MwanConfig =
  mw_Enabled :: bool
  mw_Mode :: string
  mw_Uplinks :: "Uplink list"

definition mwan_mode :: "MwanConfig \<Rightarrow> string" where
  "mwan_mode c = (if mw_Mode c = ''failover'' then ''failover'' else ''loadbalance'')"

definition GenerateMode :: "MwanConfig \<Rightarrow> string" where
  "GenerateMode c = mwan_mode c"

definition mwan_validIface :: "string \<Rightarrow> bool" where
  "mwan_validIface name = (if name = [] \<or> length name > 15 then False else list_all iface_char name)"

definition uplink_check :: "string set \<Rightarrow> Uplink \<Rightarrow> MwanError option" where
  "uplink_check seen u =
     (if u_Name u = [] \<or> u_Name u \<in> seen then Some MwanName
      else if \<not> mwan_validIface (u_Interface u) then Some (MwanIface (u_Name u))
      else if ParseIP (u_Gateway u) = None then Some (MwanGateway (u_Name u))
      else if u_Weight u < 1 \<or> u_Weight u > 256 then Some (MwanWeight (u_Name u))
      else if u_HealthCheck u \<noteq> [] \<and> ParseIP (u_HealthCheck u) = None then Some (MwanHealth (u_Name u))
      else None)"

definition mwan_Validate :: "MwanConfig \<Rightarrow> MwanError option" where
  "mwan_Validate c =
     (if \<not> mw_Enabled c then None
      else if mw_Mode c \<notin> {'''', ''loadbalance'', ''failover''} then Some MwanMode
      else if length (mw_Uplinks c) < 2 then Some MwanTooFew
      else seen_err uplink_check u_Name {} (mw_Uplinks c))"

text \<open>A nil health map is \<open>None\<close>; a name the map does not have reads as \<open>false\<close>.\<close>

definition skipped :: "(string \<rightharpoonup> bool) option \<Rightarrow> Uplink \<Rightarrow> bool" where
  "skipped healthy u = (case healthy of None \<Rightarrow> False | Some h \<Rightarrow> h (u_Name u) \<noteq> Some True)"

fun failover_args :: "(string \<rightharpoonup> bool) option \<Rightarrow> Uplink list \<Rightarrow> MwanError + string list" where
  "failover_args healthy [] = Inl NoHealthyUplinks"
| "failover_args healthy (u # us) =
     (if skipped healthy u then failover_args healthy us
      else Inr [''route'', ''replace'', ''default'', ''via'', u_Gateway u, ''dev'', u_Interface u])"

definition nexthop_args :: "Uplink \<Rightarrow> string list" where
  "nexthop_args u = [''nexthop'', ''via'', u_Gateway u, ''dev'', u_Interface u, ''weight'', Itoa (u_Weight u)]"

fun balance_loop :: "(string \<rightharpoonup> bool) option \<Rightarrow> string list \<Rightarrow> nat \<Rightarrow> Uplink list \<Rightarrow> string list \<times> nat" where
  "balance_loop healthy args cnt [] = (args, cnt)"
| "balance_loop healthy args cnt (u # us) =
     (if skipped healthy u then balance_loop healthy args cnt us
      else balance_loop healthy (args @ nexthop_args u) (Suc cnt) us)"

definition DefaultRouteArgs :: "MwanConfig \<Rightarrow> (string \<rightharpoonup> bool) option \<Rightarrow> MwanError + string list" where
  "DefaultRouteArgs c healthy =
     (case mwan_Validate c of
        Some e \<Rightarrow> Inl e
      | None \<Rightarrow>
          if mwan_mode c = ''failover'' then failover_args healthy (mw_Uplinks c)
          else let (args, cnt) = balance_loop healthy [''route'', ''replace'', ''default''] 0 (mw_Uplinks c)
               in if cnt = 0 then Inl NoHealthyUplinks else Inr args)"

definition uplink_fields :: "Uplink \<Rightarrow> string list" where
  "uplink_fields u =
     [u_Name u, u_Interface u, u_Gateway u, Itoa (u_Weight u),
      if u_HealthCheck u = [] then ''-'' else u_HealthCheck u]"

definition mwan_GenerateSpec :: "MwanConfig \<Rightarrow> MwanError + string" where
  "mwan_GenerateSpec c =
     (case mwan_Validate c of
        Some e \<Rightarrow> Inl e
      | None \<Rightarrow> Inr (unlines (''# Managed by Saguaro (generated). name iface gateway weight healthcheck''
                            # map (\<lambda>u. Join (uplink_fields u) '' '') (mw_Uplinks c))))"

definition uplink_ok :: "Uplink \<Rightarrow> bool" where
  "uplink_ok u \<longleftrightarrow> u_Name u \<noteq> [] \<and> validIface (u_Interface u) \<and> ParseIP (u_Gateway u) \<noteq> None
     \<and> 1 \<le> u_Weight u \<and> u_Weight u \<le> 256 \<and> (u_HealthCheck u = [] \<or> ParseIP (u_HealthCheck u) \<noteq> None)"

interpretation uplink_loop: seen_loop uplink_check u_Name id id uplink_ok
  by unfold_locales (auto simp: uplink_check_def uplink_ok_def mwan_validIface_def validIface_def)

lemma failover_first:
  "failover_args healthy us =
     (case filter (\<lambda>u. \<not> skipped healthy u) us of
        [] \<Rightarrow> Inl NoHealthyUplinks
      | u # _ \<Rightarrow> Inr [''route'', ''replace'', ''default'', ''via'', u_Gateway u, ''dev'', u_Interface u])"
  by (induction healthy us rule: failover_args.induct) auto

lemma balance_all:
  "balance_loop healthy args n us =
     (args @ concat (map nexthop_args (filter (\<lambda>u. \<not> skipped healthy u) us)),
      n + length (filter (\<lambda>u. \<not> skipped healthy u) us))"
  by (induction healthy args n us rule: balance_loop.induct) auto

text \<open>
  The default route of a valid multi-WAN configuration. With no healthy uplink there is an
  error and no route. In failover mode the route goes through the first healthy uplink in list
  order alone; in load-balancing mode it has one weighted nexthop for every healthy uplink, in
  list order, and for no other. An invalid configuration yields its validation error.
\<close>

theorem DefaultRouteArgs_healthy:
  "DefaultRouteArgs c healthy =
     (case (mwan_Validate c, filter (\<lambda>u. \<not> skipped healthy u) (mw_Uplinks c)) of
        (Some e, _) \<Rightarrow> Inl e
      | (None, []) \<Rightarrow> Inl NoHealthyUplinks
      | (None, u # us) \<Rightarrow>
          if mw_Mode c = ''failover''
          then Inr [''route'', ''replace'', ''default'', ''via'', u_Gateway u, ''dev'', u_Interface u]
          else Inr ([''route'', ''replace'', ''default''] @ concat (map nexthop_args (u # us))))"
  by (auto simp: DefaultRouteArgs_def mwan_mode_def failover_first balance_all Let_def
      split: option.split list.split)

section \<open>Reading a spec back\<close>

text \<open>The rows of a spec file as the adapter reads them: skip the comment, split at spaces.\<close>

definition spec_rows :: "string \<Rightarrow> string list list" where
  "spec_rows s = map (Split (CHR '' '')) (tl (butlast (Split (CHR 0x0A) s)))"

lemma Split_Join_space:
  assumes "fs \<noteq> []" "\<forall>f \<in> set fs. list_all is_graph f"
  shows "Split (CHR '' '') (Join fs '' '') = fs" "CHR 0x0A \<notin> set (Join fs '' '')"
proof -
  have "\<forall>f \<in> set fs. CHR '' '' \<notin> set f" using assms(2) graph_no_space by blast
  then show "Split (CHR '' '') (Join fs '' '') = fs" using assms(1) by (simp add: Split_Join)
  have "set (Join fs '' '') \<subseteq> \<Union> (set ` set fs) \<union> {CHR '' ''}"
    by (induction fs "'' ''" rule: Join.induct) auto
  moreover have "CHR 0x0A \<notin> \<Union> (set ` set fs)" using assms(2) graph_no_newline by blast
  ultimately show "CHR 0x0A \<notin> set (Join fs '' '')" by auto
qed

lemma spec_rows_unlines:
  assumes "CHR 0x0A \<notin> set h" "\<forall>r \<in> set rows. r \<noteq> [] \<and> (\<forall>f \<in> set r. list_all is_graph f)"
  shows "spec_rows (unlines (h # map (\<lambda>r. Join r '' '') rows)) = rows"
proof -
  have "\<forall>l \<in> set (h # map (\<lambda>r. Join r '' '') rows). CHR 0x0A \<notin> set l"
    using assms Split_Join_space(2) by auto
  from Split_unlines [OF this] show ?thesis
    using assms(2) Split_Join_space(1)
    by (simp add: spec_rows_def butlast_append map_idI)
qed

lemma rt_Validate_None:
  "rt_Validate r = None \<longleftrightarrow> (rt_Destination r = ''default'' \<or> validCIDR4 (TrimSpace (rt_Destination r)))
     \<and> is_ip4 (TrimSpace (rt_Gateway r)) \<and> (rt_Interface r = [] \<or> validIface (rt_Interface r))
     \<and> 0 \<le> rt_Metric r \<and> rt_Metric r \<le> 4294967295"
  by (auto simp: rt_Validate_def not_validCIDR4 is_ip4_def rt_validIface_def validIface_def
      split: option.splits if_splits)

lemma rt_fields_graph:
  assumes "rt_Validate r = None" "TrimSpace (rt_Destination r) = rt_Destination r"
    "TrimSpace (rt_Gateway r) = rt_Gateway r" "f \<in> set (rt_fields r)"
  shows "list_all is_graph f"
proof -
  have "list_all is_graph ''default''" "list_all is_graph ''-''" by (simp_all add: is_graph_def)
  with assms show ?thesis
    using is_ip4_graph [of "rt_Gateway r"] validCIDR4_graph [of "rt_Destination r"] Itoa_graph iface_graph
    by (auto simp: rt_fields_def rt_Validate_None)
qed

text \<open>
  Round trip of the route spec: for a valid route list whose destinations and gateways
  carry no surrounding white space, the generated file, read back line by line and field by
  field, gives the fields of the routes in order.
\<close>

theorem routes_spec_roundtrip:
  assumes "routes_Validate rs = None"
    and "list_all (\<lambda>r. TrimSpace (rt_Destination r) = rt_Destination r
                     \<and> TrimSpace (rt_Gateway r) = rt_Gateway r) rs"
  shows "\<exists>s. routes_GenerateSpec rs = Inr s \<and> spec_rows s = map rt_fields rs"
proof -
  have "list_all is_graph f" if "r \<in> set rs" "f \<in> set (rt_fields r)" for r f
    by (rule rt_fields_graph [OF _ _ _ that(2)])
       (use that(1) assms in \<open>simp_all add: routes_Validate_iff list_all_iff [of _ rs]\<close>)
  moreover have "rt_fields r \<noteq> []" for r by (simp add: rt_fields_def)
  ultimately have "\<forall>row \<in> set (map rt_fields rs). row \<noteq> [] \<and> (\<forall>f \<in> set row. list_all is_graph f)"
    by auto
  then have "spec_rows (unlines (spec_head # map (\<lambda>r. Join r '' '') (map rt_fields rs))) = map rt_fields rs"
    by (intro spec_rows_unlines) (simp_all add: spec_head_def)
  with assms(1) show ?thesis by (simp add: routes_GenerateSpec_def comp_def)
qed

definition ex_route :: Route where
  "ex_route = \<lparr> rt_Destination = ''10.0.0.0/8'', rt_Gateway = ''10.0.0.5'', rt_Interface = [], rt_Metric = 5 \<rparr>"

lemma ex_route_valid: "rt_Validate ex_route = None"
  unfolding rt_Validate_None
  by (simp add: ex_route_def TrimSpace_ip is_graph_def) (simp add: validCIDR4_def net_eval)

theorem routes_spec_roundtrip_witness:
  "\<exists>s. routes_GenerateSpec [ex_route] = Inr s \<and> spec_rows s = map rt_fields [ex_route]"
  by (rule routes_spec_roundtrip)
     (simp_all add: routes_Validate_iff ex_route_valid, simp add: ex_route_def is_graph_def)

text \<open>
  Without that condition the spec breaks: the validation trims destinations before it
  checks them and the renderer writes them untrimmed, so a valid route list with a trailing
  line break in a destination gives a file whose rows are not those of the routes.
\<close>

theorem routes_spec_untrimmed_breaks:
  "\<exists>r s. rt_Validate r = None \<and> routes_GenerateSpec [r] = Inr s \<and> spec_rows s \<noteq> map rt_fields [r]
     \<and> length (spec_rows s) = 2"
proof -
  let ?r = "ex_route \<lparr> rt_Destination := ''10.0.0.0/8'' @ [CHR 0x0A] \<rparr>"
  have "TrimSpace (''10.0.0.0/8'' @ [CHR 0x0A]) = ''10.0.0.0/8''" by code_simp
  then have v: "rt_Validate ?r = None"
    using ex_route_valid unfolding rt_Validate_None by (simp add: ex_route_def is_graph_def)
  have "routes_Validate [?r] = None" using v by (simp add: routes_Validate_iff)
  then obtain s where g: "routes_GenerateSpec [?r] = Inr s" and
    s: "s = unlines (spec_head # map (\<lambda>r. Join (rt_fields r) '' '') [?r])"
    by (simp add: routes_GenerateSpec_def)
  have "length (spec_rows s) = 2" unfolding s by code_simp
  then have "spec_rows s \<noteq> map rt_fields [?r]" by auto
  with v g \<open>length (spec_rows s) = 2\<close> show ?thesis by blast
qed

end
