(* ===== verification/Gateway.thy ===== *)
theory Gateway
  imports NftPolicy OpenVpn NetSpecs Users
begin

text \<open>
  The handlers that own the firewall configuration: \<open>gateway.go\<close>, \<open>firewall_objects.go\<close>,
  \<open>firewall_block.go\<close> and \<open>systemprofile.go\<close> of \<open>cmd/saguaro\<close>. The configuration that is
  rendered is the stored one augmented from the VPN and multi-WAN components.

  Effects outside the process are inputs and outputs: \<open>gwIO\<close> says which of them succeed
  (saving the state, staging the ruleset, each action of the root adapter, the resolver
  refresh) and what the country address lists hold; the state records the staged ruleset and
  the sequence of adapter actions with the ruleset that was staged when they ran.
\<close>

section \<open>State\<close>

record gwIO =
  io_saved :: bool
  io_write :: bool
  io_run :: "string \<Rightarrow> bool"
  io_geo :: "string list \<Rightarrow> string list"
  io_dns :: bool

record gwApp =
  ga_gw :: "Config option"
  ga_profile :: string
  ga_s2s :: S2sConfig
  ga_ipsec :: IpsConfig
  ga_wan :: MwanConfig
  ga_vpn :: WgConfig
  ga_ovpn :: OvConfig
  ga_staged :: string
  ga_runs :: "(string \<times> string) list"
  ga_audit :: "auditEvent list"

text \<open>The zero value of \<open>nftgen.Config\<close>.\<close>

definition zero_Config :: Config where
  "zero_Config = \<lparr> c_AdminNetwork = [], c_ClientNetwork = [], c_DHCPInterface = [], c_GatewayEnabled = False,
     c_WANInterface = [], c_LANInterface = [], c_MgmtOnWAN = False, c_MgmtOnLAN = False, c_NATEnabled = False,
     c_PortForwards = [], c_HairpinNAT = False, c_BruteForceProtect = False, c_SNATRules = [], c_NAT11 = [],
     c_IPSEnabled = False, c_Aliases = [], c_Rules = [], c_ServiceACLs = [], c_Zones = [], c_GeoCountries = [],
     c_TunnelNets = [], c_PBRUplinks = [], c_GeoCIDRs = [], c_VPNPorts = [], c_OpenVPNIface = [],
     c_OpenVPNSubnet = [], c_OpenVPNAccess = [] \<rparr>"

definition getGateway :: "gwApp \<Rightarrow> Config \<times> bool" where
  "getGateway a = (case ga_gw a of None \<Rightarrow> (zero_Config, False) | Some c \<Rightarrow> (c, True))"

text \<open>The stored value changes whether or not the state file can be written.\<close>

definition setGateway :: "Config \<Rightarrow> gwApp \<Rightarrow> gwApp" where
  "setGateway c a = a \<lparr> ga_gw := Some c \<rparr>"

definition gw_record :: "reqctx \<Rightarrow> string \<Rightarrow> string \<Rightarrow> string \<Rightarrow> string \<Rightarrow> gwApp \<Rightarrow> gwApp" where
  "gw_record rq action target result severity a =
     a \<lparr> ga_audit := recordSev rq (actor rq) action target result severity (ga_audit a) \<rparr>"

section \<open>The effective configuration\<close>

definition tunnelNets :: "gwApp \<Rightarrow> TunnelNet list" where
  "tunnelNets a =
     only_if (s2_Enabled (ga_s2s a))
       (map (\<lambda>site. \<lparr> tn_Local = s2_LocalNetworks (ga_s2s a), tn_Remote = si_RemoteNetworks site \<rparr>)
         (filter (\<lambda>site. \<not> (s2_LocalNetworks (ga_s2s a) = [] \<or> si_RemoteNetworks site = [])) (s2_Sites (ga_s2s a))))
   @ only_if (ip_Enabled (ga_ipsec a))
       (map (\<lambda>conn. \<lparr> tn_Local = cn_LocalSubnets conn, tn_Remote = cn_RemoteSubnets conn \<rparr>)
         (filter (\<lambda>conn. \<not> (cn_LocalSubnets conn = [] \<or> cn_RemoteSubnets conn = [])) (ip_Connections (ga_ipsec a))))"

definition pbrUplinks :: "gwApp \<Rightarrow> PBRUplink list" where
  "pbrUplinks a =
     only_if (mw_Enabled (ga_wan a))
       (map (\<lambda>(i, u). \<lparr> pb_Interface = u_Interface u, pb_Mark = int i + 1 \<rparr>)
          (enumerate 0 (mw_Uplinks (ga_wan a))))"

definition client_access :: "OvClient \<Rightarrow> OVPNAccess" where
  "client_access c = \<lparr> oa_Addr = ov_VPNAddr c, oa_AllowAll = (ov_Access c = []),
     oa_Rules = map (\<lambda>r. \<lparr> or_Dest = ar_Dest r, or_DestAlias = ar_DestAlias r, or_Proto = ar_Proto r,
                           or_Port = ar_Port r \<rparr>) (ov_Access c) \<rparr>"

definition openvpnFirewall :: "gwApp \<Rightarrow> string \<times> string \<times> OVPNAccess list" where
  "openvpnFirewall a =
     (let ov = ga_ovpn a
      in if \<not> oc_Enabled ov then ([], [], [])
         else (''ovpn-saguaro'', oc_Subnet ov,
               map client_access (filter (\<lambda>c. \<not> (ov_Revoked c \<or> ov_VPNAddr c = [])) (oc_Clients ov))))"

definition vpnPorts :: "gwApp \<Rightarrow> int list" where
  "vpnPorts a =
     only_if (wg_Enabled (ga_vpn a) \<and> wg_ListenPort (ga_vpn a) > 0) [wg_ListenPort (ga_vpn a)]
   @ only_if (oc_Enabled (ga_ovpn a)) [PortOrDefault (ga_ovpn a)]"

definition firewallConfig :: "gwIO \<Rightarrow> gwApp \<Rightarrow> Config \<times> bool" where
  "firewallConfig io a =
     (let (cfg, ok) = getGateway a; (iface, subnet, access) = openvpnFirewall a
      in (cfg \<lparr> c_TunnelNets := tunnelNets a, c_PBRUplinks := pbrUplinks a,
                c_GeoCIDRs := io_geo io (c_GeoCountries cfg), c_VPNPorts := vpnPorts a,
                c_OpenVPNIface := iface, c_OpenVPNSubnet := subnet, c_OpenVPNAccess := access \<rparr>, ok))"

section \<open>Applying\<close>

datatype gwError = GValidation NftError | GStage | GRun string | GUnconfigured | GNftPanic

text \<open>Generate, stage and run one action of the adapter.\<close>

definition stage_run :: "gwIO \<Rightarrow> Config \<Rightarrow> gwApp \<Rightarrow> gwError option \<times> gwApp" where
  "stage_run io cfg a =
     (case Generate cfg of
        Error e \<Rightarrow> (Some (GValidation e), a)
      | Panic \<Rightarrow> (Some GNftPanic, a)
      | Return text \<Rightarrow>
          if \<not> io_write io then (Some GStage, a)
          else let a1 = a \<lparr> ga_staged := text, ga_runs := ga_runs a @ [(''apply'', text)] \<rparr>
               in if \<not> io_run io ''apply'' then (Some (GRun ''apply''), a1) else (None, a1))"

definition run_action :: "gwIO \<Rightarrow> string \<Rightarrow> gwApp \<Rightarrow> bool \<times> gwApp" where
  "run_action io action a = (io_run io action, a \<lparr> ga_runs := ga_runs a @ [(action, ga_staged a)] \<rparr>)"

definition applyAndConfirm :: "gwIO \<Rightarrow> gwApp \<Rightarrow> gwError option \<times> gwApp" where
  "applyAndConfirm io a =
     (let (cfg, ok) = firewallConfig io a
      in if \<not> ok then (Some GUnconfigured, a)
         else (case stage_run io cfg a of
                 (Some e, a1) \<Rightarrow> (Some e, a1)
               | (None, a1) \<Rightarrow>
                   let (okc, a2) = run_action io ''confirm'' a1
                   in if \<not> okc then (Some (GRun ''confirm''), a2) else (None, a2)))"

datatype gresponse = GOk | GError int string | GBad int gwError | GText string | GBlocklist "string list" | GEval RuleEval

definition profileGateway :: string where
  "profileGateway = ''gateway''"

definition profileRouter :: string where
  "profileRouter = ''router''"

definition validProfile :: "string \<Rightarrow> bool" where
  "validProfile p \<longleftrightarrow> p = profileGateway \<or> p = profileRouter"

definition getProfile :: "gwApp \<Rightarrow> string" where
  "getProfile a = (if validProfile (ga_profile a) then ga_profile a else profileGateway)"

definition apiSystemProfilePut :: "gwIO \<Rightarrow> reqctx \<Rightarrow> string + string \<Rightarrow> gwApp \<Rightarrow> gresponse \<times> gwApp" where
  "apiSystemProfilePut io rq input a =
     (case input of
        Inl msg \<Rightarrow> (GError 400 msg, a)
      | Inr p \<Rightarrow>
          if \<not> validProfile p then
            (GError 400 (''profile must be '' @ dq ''gateway'' @ '' or '' @ dq ''router''), a)
          else if p = profileRouter \<and> snd (getGateway a) \<and> c_GatewayEnabled (fst (getGateway a)) then
            (GError 409 ''gateway mode is active; disable Gateway (WAN/NAT) before switching to router profile'', a)
          else let a1 = a \<lparr> ga_profile := p \<rparr>
               in if \<not> io_saved io then (GError 500 ''cannot persist deployment mode'', a1)
                  else (GOk, gw_record rq ''system-profile'' p ''success'' ''warning'' a1))"

section \<open>Editing\<close>

definition apiGatewayPut :: "gwIO \<Rightarrow> reqctx \<Rightarrow> string + Config \<Rightarrow> gwApp \<Rightarrow> gresponse \<times> gwApp" where
  "apiGatewayPut io rq input a =
     (case input of
        Inl msg \<Rightarrow> (GError 400 msg, a)
      | Inr c0 \<Rightarrow>
          (case Validate c0 of
             Some e \<Rightarrow> (GBad 400 (GValidation e), a)
           | None \<Rightarrow>
               if c_GatewayEnabled c0 \<and> getProfile a \<noteq> profileGateway then
                 (GError 409 (''deployment mode is '' @ [CHR 0x27] @ ''router'' @ [CHR 0x27]
                    @ ''; switch System profile to Gateway to enable WAN/NAT''), a)
               else let cur = getGateway a;
                        c1 = (if snd cur
                              then c0 \<lparr> c_Aliases := c_Aliases (fst cur), c_Rules := c_Rules (fst cur),
                                        c_Zones := c_Zones (fst cur), c_IPSEnabled := c_IPSEnabled (fst cur),
                                        c_GeoCountries := c_GeoCountries (fst cur) \<rparr>
                              else c0);
                        a1 = setGateway c1 a
                    in if \<not> io_saved io then (GError 500 ''cannot persist gateway configuration'', a1)
                       else (GOk, gw_record rq ''gateway-config'' ''firewall'' ''success'' ''info'' a1)))"

definition apiGatewayPreview :: "gwIO \<Rightarrow> gwApp \<Rightarrow> gresponse" where
  "apiGatewayPreview io a =
     (let (cfg, ok) = firewallConfig io a
      in if \<not> ok then GError 400 ''gateway is not configured yet''
         else (case Generate cfg of
                 Error e \<Rightarrow> GBad 400 (GValidation e)
               | Panic \<Rightarrow> GBad 500 GNftPanic
               | Return text \<Rightarrow> GText text))"

definition apply_result :: "reqctx \<Rightarrow> gwError option \<times> gwApp \<Rightarrow> gresponse \<times> gwApp" where
  "apply_result rq res =
     (case res of
        (None, a) \<Rightarrow> (GOk, gw_record rq ''firewall-apply'' ''nftables'' ''success'' ''security'' a)
      | (Some (GRun act), a) \<Rightarrow> (GBad 502 (GRun act), gw_record rq ''firewall-apply'' ''nftables'' ''failed'' ''security'' a)
      | (Some GStage, a) \<Rightarrow> (GError 500 ''cannot write staged ruleset'', a)
      | (Some e, a) \<Rightarrow> (GBad 400 e, a))"

definition apiGatewayApply :: "gwIO \<Rightarrow> reqctx \<Rightarrow> gwApp \<Rightarrow> gresponse \<times> gwApp" where
  "apiGatewayApply io rq a =
     (let (cfg, ok) = firewallConfig io a
      in if \<not> ok then (GError 400 ''gateway is not configured yet'', a)
         else apply_result rq (stage_run io cfg a))"

definition apiFirewallApply :: "gwIO \<Rightarrow> reqctx \<Rightarrow> gwApp \<Rightarrow> gresponse \<times> gwApp" where
  "apiFirewallApply io rq a =
     (let (cfg, ok) = firewallConfig io a
      in if \<not> ok \<or> c_ClientNetwork cfg = [] then
           (GError 409 ''configure the Gateway (client network) before applying firewall rules'', a)
         else apply_result rq (stage_run io cfg a))"

definition apiGatewayConfirm :: "gwIO \<Rightarrow> reqctx \<Rightarrow> gwApp \<Rightarrow> gresponse \<times> gwApp" where
  "apiGatewayConfirm io rq a =
     (let (ok, a1) = run_action io ''confirm'' a
      in if \<not> ok then (GBad 502 (GRun ''confirm''), a1)
         else (GOk, gw_record rq ''firewall-confirm'' ''nftables'' ''success'' ''security'' a1))"

definition apiGatewayRollback :: "gwIO \<Rightarrow> reqctx \<Rightarrow> gwApp \<Rightarrow> gresponse \<times> gwApp" where
  "apiGatewayRollback io rq a =
     (let (ok, a1) = run_action io ''rollback'' a
      in if \<not> ok then (GBad 502 (GRun ''rollback''), a1)
         else (GOk, gw_record rq ''firewall-rollback'' ''nftables'' ''success'' ''security'' a1))"

text \<open>The three object editors share their guard and differ in the field they replace.\<close>

definition put_objects ::
  "gwIO \<Rightarrow> reqctx \<Rightarrow> string \<Rightarrow> string \<Rightarrow> (Config \<Rightarrow> Config) \<Rightarrow> gwApp \<Rightarrow> gresponse \<times> gwApp" where
  "put_objects io rq action failure edit a =
     (let cfg = edit (fst (getGateway a))
      in case validateObjects cfg of
           Some e \<Rightarrow> (GBad 400 (GValidation e), a)
         | None \<Rightarrow>
             let a1 = setGateway cfg a
             in if \<not> io_saved io then (GError 500 failure, a1)
                else (GOk, gw_record rq action ''objects'' ''success'' ''info'' a1))"

definition apiFirewallZonesPut :: "gwIO \<Rightarrow> reqctx \<Rightarrow> string + Zone list \<Rightarrow> gwApp \<Rightarrow> gresponse \<times> gwApp" where
  "apiFirewallZonesPut io rq input a =
     (case input of
        Inl msg \<Rightarrow> (GError 400 msg, a)
      | Inr zs \<Rightarrow>
          (case put_objects io rq ''firewall-zones'' ''cannot persist firewall zones'' (\<lambda>c. c \<lparr> c_Zones := zs \<rparr>) a of
             (GOk, a1) \<Rightarrow>
               (GOk, if io_dns io then a1 else gw_record rq ''zone-dns'' ''unbound'' ''failed'' ''warning'' a1)
           | r \<Rightarrow> r))"

definition apiFirewallAliasesPut :: "gwIO \<Rightarrow> reqctx \<Rightarrow> string + Alias list \<Rightarrow> gwApp \<Rightarrow> gresponse \<times> gwApp" where
  "apiFirewallAliasesPut io rq input a =
     (case input of
        Inl msg \<Rightarrow> (GError 400 msg, a)
      | Inr xs \<Rightarrow> put_objects io rq ''firewall-aliases'' ''cannot persist firewall aliases'' (\<lambda>c. c \<lparr> c_Aliases := xs \<rparr>) a)"

definition apiFirewallRulesPut :: "gwIO \<Rightarrow> reqctx \<Rightarrow> string + Rule list \<Rightarrow> gwApp \<Rightarrow> gresponse \<times> gwApp" where
  "apiFirewallRulesPut io rq input a =
     (case input of
        Inl msg \<Rightarrow> (GError 400 msg, a)
      | Inr xs \<Rightarrow> put_objects io rq ''firewall-rules'' ''cannot persist firewall rules'' (\<lambda>c. c \<lparr> c_Rules := xs \<rparr>) a)"

definition apiFirewallTest :: "string + Packet \<Rightarrow> gwApp \<Rightarrow> gresponse" where
  "apiFirewallTest input a =
     (case input of Inl msg \<Rightarrow> GError 400 msg | Inr p \<Rightarrow> GEval (EvaluateForward (fst (getGateway a)) p))"

section \<open>Blocking an address\<close>

definition blocklistAlias :: string where
  "blocklistAlias = ''blocklist''"

definition blockRuleName :: string where
  "blockRuleName = ''Auto-blokada''"

definition blocklistIPs :: "gwApp \<Rightarrow> string list" where
  "blocklistIPs a =
     (if \<not> snd (getGateway a) then []
      else case find (\<lambda>al. al_Name al = blocklistAlias) (c_Aliases (fst (getGateway a))) of
             None \<Rightarrow> [] | Some al \<Rightarrow> al_Values al)"

text \<open>
  The alias loop of \<open>apiFirewallBlockIP\<close>; \<open>already\<close> is set once and stays set over all
  aliases of that name, as in the code.
\<close>

fun block_aliases :: "string \<Rightarrow> bool \<Rightarrow> Alias list \<Rightarrow> bool \<times> Alias list" where
  "block_aliases ip already [] = (False, [])"
| "block_aliases ip already (al # als) =
     (if al_Name al = blocklistAlias then
        (let already' = (already \<or> ip \<in> set (al_Values al));
             al' = (if already' then al else al \<lparr> al_Values := al_Values al @ [ip] \<rparr>)
         in (True, al' # snd (block_aliases ip already' als)))
      else (let (f, r) = block_aliases ip already als in (f, al # r)))"

definition block_rule :: Rule where
  "block_rule = \<lparr> r_Name = blockRuleName, r_Action = ''drop'', r_Proto = ''any'', r_SrcAlias = blocklistAlias,
     r_DstAlias = [], r_DstPort = 0, r_Category = ''other'', r_FromZone = [], r_ToZone = [], r_Log = True,
     r_Enabled = True, r_Schedule = None \<rparr>"

definition block_config :: "string \<Rightarrow> Config \<Rightarrow> Config" where
  "block_config ip c =
     (let (found, als) = block_aliases ip False (c_Aliases c);
          als' = (if found then als else als @ [\<lparr> al_Name = blocklistAlias, al_Type = ''host'', al_Values = [ip] \<rparr>]);
          hasRule = list_ex (\<lambda>r. r_Name r = blockRuleName) (c_Rules c)
      in c \<lparr> c_Aliases := als', c_Rules := (if hasRule then c_Rules c else block_rule # c_Rules c) \<rparr>)"

definition apiFirewallBlockIP :: "gwIO \<Rightarrow> reqctx \<Rightarrow> string + string \<Rightarrow> gwApp \<Rightarrow> gresponse \<times> gwApp" where
  "apiFirewallBlockIP io rq input a =
     (case input of
        Inl msg \<Rightarrow> (GError 400 msg, a)
      | Inr s \<Rightarrow>
          let ip = TrimSpace s
          in if \<not> is_ip4 ip then (GError 400 ''block target must be an IPv4 address'', a)
             else let (cfg, ok) = getGateway a
                  in if \<not> ok \<or> c_ClientNetwork cfg = [] then
                       (GError 409 ''configure the Gateway before blocking traffic'', a)
                     else let a1 = setGateway (block_config ip cfg) a
                          in if \<not> io_saved io then (GError 500 ''cannot persist blocklist'', a1)
                             else (case applyAndConfirm io a1 of
                               (Some e, a2) \<Rightarrow>
                                 (GBad 502 e, gw_record rq ''firewall-block-ip'' ''nftables'' ''failed'' ''security'' a2)
                             | (None, a2) \<Rightarrow>
                                 let a3 = gw_record rq ''firewall-block-ip'' ''nftables'' ''success'' ''security'' a2
                                 in (GBlocklist (blocklistIPs a3), a3)))"

text \<open>\<open>empty\<close> is decided by the last alias of that name.\<close>

definition unblock_aliases :: "string \<Rightarrow> Alias list \<Rightarrow> Alias list" where
  "unblock_aliases ip als =
     map (\<lambda>al. if al_Name al = blocklistAlias then al \<lparr> al_Values := filter (\<lambda>v. v \<noteq> ip) (al_Values al) \<rparr> else al) als"

definition unblock_config :: "string \<Rightarrow> Config \<Rightarrow> Config" where
  "unblock_config ip c =
     (let als = unblock_aliases ip (c_Aliases c);
          empty = foldl (\<lambda>e al. if al_Name al = blocklistAlias then al_Values al = [] else e) False als
      in if empty
         then c \<lparr> c_Aliases := filter (\<lambda>x. al_Name x \<noteq> blocklistAlias) als,
                  c_Rules := filter (\<lambda>x. r_Name x \<noteq> blockRuleName) (c_Rules c) \<rparr>
         else c \<lparr> c_Aliases := als \<rparr>)"

definition apiFirewallUnblockIP :: "gwIO \<Rightarrow> reqctx \<Rightarrow> string + string \<Rightarrow> gwApp \<Rightarrow> gresponse \<times> gwApp" where
  "apiFirewallUnblockIP io rq input a =
     (case input of
        Inl msg \<Rightarrow> (GError 400 msg, a)
      | Inr s \<Rightarrow>
          let (cfg, ok) = getGateway a
          in if \<not> ok then (GError 409 ''gateway is not configured'', a)
             else let a1 = setGateway (unblock_config (TrimSpace s) cfg) a
                  in if \<not> io_saved io then (GError 500 ''cannot persist blocklist'', a1)
                     else (case applyAndConfirm io a1 of
                             (Some e, a2) \<Rightarrow> (GBad 502 e, a2)
                           | (None, a2) \<Rightarrow>
                               let a3 = gw_record rq ''firewall-unblock-ip'' ''nftables'' ''success'' ''security'' a2
                               in (GBlocklist (blocklistIPs a3), a3)))"

section \<open>Blocking takes effect\<close>

lemma is_ip4_trim: "is_ip4 s \<Longrightarrow> TrimSpace s = s"
  using is_ip4_graph by simp

lemma getGateway_simps [simp]:
  "getGateway (setGateway c a) = (c, True)" "getGateway (gw_record rq w t r s a) = getGateway a"
  "getGateway (a \<lparr> ga_runs := x \<rparr>) = getGateway a" "getGateway (a \<lparr> ga_staged := y \<rparr>) = getGateway a"
  by (simp_all add: getGateway_def setGateway_def gw_record_def)

lemma applyAndConfirm_frame:
  assumes "applyAndConfirm io a = (e, a')"
  shows "ga_gw a' = ga_gw a" "ga_profile a' = ga_profile a" "ga_s2s a' = ga_s2s a" "ga_ipsec a' = ga_ipsec a"
    "ga_wan a' = ga_wan a" "ga_vpn a' = ga_vpn a" "ga_ovpn a' = ga_ovpn a"
  using assms
  by (auto simp: applyAndConfirm_def stage_run_def run_action_def Let_def split: prod.splits outcome.splits if_splits)

lemma applyAndConfirm_None:
  assumes "applyAndConfirm io a = (None, a')"
  shows "\<exists>text. Generate (fst (firewallConfig io a)) = Return text
    \<and> ga_runs a' = ga_runs a @ [(''apply'', text), (''confirm'', text)]"
  using assms
  by (auto simp: applyAndConfirm_def stage_run_def run_action_def Let_def
      split: prod.splits outcome.splits if_splits)

lemma block_aliases_found: "fst (block_aliases ip b als) \<longleftrightarrow> blocklistAlias \<in> al_Name ` set als"
  by (induction ip b als rule: block_aliases.induct) (auto simp: Let_def split: prod.split)

lemma block_aliases_id: "blocklistAlias \<notin> al_Name ` set als \<Longrightarrow> snd (block_aliases ip b als) = als"
  by (induction ip b als rule: block_aliases.induct) (auto simp: Let_def split: prod.split)

lemma block_aliases_names: "map al_Name (snd (block_aliases ip b als)) = map al_Name als"
  by (induction ip b als rule: block_aliases.induct) (auto simp: Let_def split: prod.split)

text \<open>What becomes of one alias.\<close>

definition block_alias :: "string \<Rightarrow> Alias \<Rightarrow> Alias" where
  "block_alias ip al =
     (if al_Name al = blocklistAlias \<and> ip \<notin> set (al_Values al) then al \<lparr> al_Values := al_Values al @ [ip] \<rparr> else al)"

lemma block_alias_other: "blocklistAlias \<notin> al_Name ` set als \<Longrightarrow> map (block_alias ip) als = als"
  by (induction als) (auto simp: block_alias_def)

lemma block_aliases_map:
  "distinct (map al_Name als) \<Longrightarrow> snd (block_aliases ip False als) = map (block_alias ip) als"
proof (induction als)
  case (Cons al als)
  show ?case
  proof (cases "al_Name al = blocklistAlias")
    case True
    with Cons.prems have "blocklistAlias \<notin> al_Name ` set als" by auto
    with True show ?thesis by (simp add: block_aliases_id block_alias_other Let_def) (simp add: block_alias_def)
  next
    case False
    with Cons show ?thesis by (simp add: block_alias_def split: prod.split) (metis snd_conv)
  qed
qed simp

lemma alias_map_unique:
  assumes "distinct (map al_Name (c_Aliases c))" "al \<in> set (c_Aliases c)"
  shows "alias_map c (al_Name al) = Some al"
proof -
  have "distinct (map fst (rev (map (\<lambda>a. (al_Name a, a)) (c_Aliases c))))"
    using assms(1) by (simp add: rev_map [symmetric] comp_def)
  moreover have "(al_Name al, al) \<in> set (rev (map (\<lambda>a. (al_Name a, a)) (c_Aliases c)))" using assms(2) by simp
  ultimately show ?thesis unfolding alias_map_def by (rule map_of_is_SomeI)
qed

lemma is_ip4_Equal: "is_ip4 s \<Longrightarrow> \<exists>p. ParseIP s = Some p \<and> p \<noteq> [] \<and> ip_Equal p p"
  by (auto simp: is_ip4_def ip_Equal_def To4_def split: option.splits if_splits)

lemma ip4_alias_host: "is_ip4 v \<Longrightarrow> validAliasValue t v \<Longrightarrow> t = ''host''"
proof -
  assume v: "is_ip4 v" "validAliasValue t v"
  have "\<not> addr_char (CHR ''/'')" "\<not> addr_char (CHR ''-'')"
    by (simp_all add: addr_char_def hex_val_def char_class_defs)
  then have c: "CHR ''/'' \<notin> set v" "CHR ''-'' \<notin> set v"
    using is_ip4_chars [OF v(1)] unfolding list_all_iff by blast+
  have "ParseCIDR v = None" using c by (auto simp: ParseCIDR_def cut_Some_iff split: option.splits)
  moreover have "SplitN2 (CHR ''-'') v = [v]" using c by (auto simp: SplitN2_def cut_Some_iff split: option.splits)
  ultimately show "t = ''host''"
    using v by (auto simp: validAliasValue_def validCIDR4_def is_ip4_trim Let_def split: if_splits)
qed

text \<open>
  What a valid blocked configuration does: the block list alias exists once, is of type host
  and holds the address, so the block rule in front matches every packet from it.
\<close>

definition block_rule_first :: "Rule list \<Rightarrow> bool" where
  "block_rule_first rs \<longleftrightarrow> blockRuleName \<notin> r_Name ` set rs \<or> (\<exists>rest. rs = block_rule # rest)"

lemma block_config_rules:
  assumes "block_rule_first (c_Rules c)"
  shows "\<exists>rest. c_Rules (block_config ip c) = block_rule # rest"
proof -
  have n: "r_Name block_rule = blockRuleName" by (simp add: block_rule_def)
  have "\<not> list_ex (\<lambda>r. r_Name r = blockRuleName) (c_Rules c)" if "blockRuleName \<notin> r_Name ` set (c_Rules c)"
    using that unfolding list_ex_iff by (metis image_eqI)
  with assms n show ?thesis
    by (auto simp: block_rule_first_def block_config_def Let_def split: prod.split)
qed

lemma block_config_aliases: "c_Aliases (block_config ip c) =
    (if blocklistAlias \<in> al_Name ` set (c_Aliases c) then snd (block_aliases ip False (c_Aliases c))
     else c_Aliases c @ [\<lparr> al_Name = blocklistAlias, al_Type = ''host'', al_Values = [ip] \<rparr>])"
  using block_aliases_found [of ip False "c_Aliases c"] block_aliases_id [of "c_Aliases c" ip False]
  by (auto simp: block_config_def Let_def split: prod.split)

lemma blocked_alias:
  assumes "objects_ok (block_config ip c)" "is_ip4 ip"
  shows "distinct (map al_Name (c_Aliases (block_config ip c)))"
    "\<exists>al \<in> set (c_Aliases (block_config ip c)). al_Name al = blocklistAlias \<and> al_Type al = ''host'' \<and> ip \<in> set (al_Values al)"
proof -
  show d: "distinct (map al_Name (c_Aliases (block_config ip c)))" using assms(1) by (simp add: objects_ok_def)
  have "\<exists>al \<in> set (c_Aliases (block_config ip c)). al_Name al = blocklistAlias \<and> ip \<in> set (al_Values al)"
  proof (cases "blocklistAlias \<in> al_Name ` set (c_Aliases c)")
    case True
    then obtain al where al: "al \<in> set (c_Aliases c)" "al_Name al = blocklistAlias" by auto
    from d True have "distinct (map al_Name (c_Aliases c))" by (simp add: block_config_aliases block_aliases_names)
    then have "block_alias ip al \<in> set (c_Aliases (block_config ip c))"
      using al True by (simp add: block_config_aliases block_aliases_map)
    moreover have "al_Name (block_alias ip al) = blocklistAlias" "ip \<in> set (al_Values (block_alias ip al))"
      using al by (auto simp: block_alias_def)
    ultimately show ?thesis by blast
  qed (simp add: block_config_aliases)
  moreover have "al_Type al = ''host''" if "al \<in> set (c_Aliases (block_config ip c))" "ip \<in> set (al_Values al)" for al
    using assms that ip4_alias_host by (auto simp: objects_ok_def alias_ok_def)
  ultimately show "\<exists>al \<in> set (c_Aliases (block_config ip c)). al_Name al = blocklistAlias \<and> al_Type al = ''host''
      \<and> ip \<in> set (al_Values al)" by blast
qed

lemma find_unique:
  assumes "distinct (map f xs)" "x \<in> set xs"
  shows "find (\<lambda>y. f y = f x) xs = Some x"
proof -
  obtain k where k: "k < length xs" "xs ! k = x" using assms(2) by (auto simp: in_set_conv_nth)
  have "f (xs ! j) \<noteq> f x" if "j < k" for j
    using nth_eq_iff_index_eq [OF assms(1), of j k] k that by auto
  with k show ?thesis by (auto simp: find_Some_iff)
qed

lemma block_config_drops:
  assumes "objects_ok (block_config ip c)" "is_ip4 ip" "block_rule_first (c_Rules c)" "TrimSpace (p_Src p) = ip"
  shows "EvaluateForward (block_config ip c) p = \<lparr> re_Matched = True, re_RuleName = blockRuleName, re_RuleIndex = 1,
      re_Action = ''drop'', re_Reason = matched_reason 1 block_rule \<rparr>"
    "\<exists>al. find (\<lambda>al. al_Name al = blocklistAlias) (c_Aliases (block_config ip c)) = Some al \<and> ip \<in> set (al_Values al)"
proof -
  let ?c = "block_config ip c"
  obtain al where al: "al \<in> set (c_Aliases ?c)" "al_Name al = blocklistAlias" "al_Type al = ''host''" "ip \<in> set (al_Values al)"
    using blocked_alias(2) [OF assms(1,2)] by blast
  obtain q where q: "ParseIP ip = Some q" "q \<noteq> []" "ip_Equal q q" using is_ip4_Equal [OF assms(2)] by blast
  have "aliasContains al q"
    unfolding aliasContains_def list_ex_iff
    by (intro bexI [OF _ al(4)]) (simp add: alias_value_contains_def al(3) is_ip4_trim [OF assms(2)] q)
  then have "alias_matches ?c blocklistAlias q"
    using alias_map_unique [OF blocked_alias(1) [OF assms(1,2)] al(1)] al(2) q(2) by (simp add: alias_matches_def)
  then have m: "rule_matches ?c p block_rule"
    using q(1) assms(4) by (simp add: rule_matches_def block_rule_def parse_or_nil_def Let_def)
  obtain rest where r: "c_Rules ?c = block_rule # rest" using block_config_rules [OF assms(3)] by blast
  show "EvaluateForward ?c p = \<lparr> re_Matched = True, re_RuleName = blockRuleName, re_RuleIndex = 1,
      re_Action = ''drop'', re_Reason = matched_reason 1 block_rule \<rparr>"
    using m by (simp add: EvaluateForward_def r) (simp add: block_rule_def)
  show "\<exists>al. find (\<lambda>al. al_Name al = blocklistAlias) (c_Aliases ?c) = Some al \<and> ip \<in> set (al_Values al)"
    using find_unique [OF blocked_alias(1) [OF assms(1,2)] al(1)] al(2,4) by auto
qed

lemma firewallConfig_objects: "objects_ok (fst (firewallConfig io a)) \<longleftrightarrow> objects_ok (fst (getGateway a))"
  by (simp add: firewallConfig_def objects_ok_def Let_def split: prod.split)

lemma firewallConfig_enabled: "c_GatewayEnabled (fst (firewallConfig io a)) = c_GatewayEnabled (fst (getGateway a))"
  by (simp add: firewallConfig_def Let_def split: prod.split)

lemma Generate_Validate: "Generate c = Return t \<Longrightarrow> Validate c = None"
  by (auto simp: Generate_def split: option.splits)


text \<open>A device that is being asked to block its first address.\<close>

definition ex_io :: gwIO where
  "ex_io = \<lparr> io_saved = True, io_write = True, io_run = (\<lambda>_. True), io_geo = (\<lambda>_. []), io_dns = True \<rparr>"

definition ex_gw_rq :: reqctx where
  "ex_gw_rq = \<lparr> rq_user = None, rq_ip = ''10.0.0.9'', rq_now = 0, rq_adminUser = ''admin'' \<rparr>"

definition ex_app :: gwApp where
  "ex_app = \<lparr> ga_gw = Some ex_cfg, ga_profile = profileGateway,
     ga_s2s = \<lparr> s2_Enabled = False, s2_ListenPort = 0, s2_TunnelAddress = [], s2_LocalNetworks = [],
                s2_ServerPub = [], s2_ServerPrivEnc = [], s2_Sites = [] \<rparr>,
     ga_ipsec = \<lparr> ip_Enabled = False, ip_Connections = [] \<rparr>,
     ga_wan = \<lparr> mw_Enabled = False, mw_Mode = [], mw_Uplinks = [] \<rparr>,
     ga_vpn = \<lparr> wg_Enabled = False, wg_Subnet = [], wg_ListenPort = 0, wg_Endpoint = [], wg_DNS = [],
                wg_SplitNetworks = [], wg_ServerPub = [], wg_ServerPrivEnc = [], wg_Peers = [] \<rparr>,
     ga_ovpn = \<lparr> oc_Enabled = False, oc_Subnet = [], oc_Port = 0, oc_Endpoint = [], oc_DNS = [],
                oc_SplitNetworks = [], oc_CACertPEM = [], oc_CAKeyEnc = [], oc_ServerCertPEM = [],
                oc_ServerKeyEnc = [], oc_TLSCryptEnc = [], oc_Clients = [] \<rparr>,
     ga_staged = [], ga_runs = [], ga_audit = [] \<rparr>"

lemma ip_203: "is_ip4 ''203.0.113.9''" "TrimSpace ''203.0.113.9'' = ''203.0.113.9''"
proof -
  show "is_ip4 ''203.0.113.9''" by (simp add: net_eval)
  then show "TrimSpace ''203.0.113.9'' = ''203.0.113.9''" by (rule is_ip4_trim)
qed

section \<open>Stored objects stay valid\<close>

abbreviation stored :: "gwApp \<Rightarrow> Config" where
  "stored a \<equiv> fst (getGateway a)"

text \<open>The block list alias, when there is one, is a list of hosts.\<close>

definition blocklist_hosts :: "Alias list \<Rightarrow> bool" where
  "blocklist_hosts als \<longleftrightarrow> list_all (\<lambda>al. al_Name al = blocklistAlias \<longrightarrow> al_Type al = ''host'') als"

text \<open>No rule but the block rule refers to the block list.\<close>

definition blocklist_private :: "Rule list \<Rightarrow> bool" where
  "blocklist_private rs \<longleftrightarrow>
     list_all (\<lambda>r. r_Name r \<noteq> blockRuleName \<longrightarrow> r_SrcAlias r \<noteq> blocklistAlias \<and> r_DstAlias r \<noteq> blocklistAlias) rs"

lemma rule_ok_mono: "rule_ok A Z r \<Longrightarrow> A \<subseteq> B \<Longrightarrow> rule_ok B Z r"
  by (auto simp: rule_ok_def)

lemma block_rule_ok: "blocklistAlias \<in> A \<Longrightarrow> rule_ok A Z block_rule"
  by (simp add: rule_ok_def block_rule_def nftMatch_def RuleCategories_def)
     (simp add: blockRuleName_def ruleNameRe_def re_rep_def char_class_defs)

lemma aliasNameRe_blocklist: "aliasNameRe blocklistAlias"
  by (simp add: blocklistAlias_def aliasNameRe_def re_head_tail_def char_class_defs)

lemma block_alias_ok:
  "alias_ok al \<Longrightarrow> is_ip4 ip \<Longrightarrow> al_Name al = blocklistAlias \<longrightarrow> al_Type al = ''host'' \<Longrightarrow> alias_ok (block_alias ip al)"
  by (auto simp: alias_ok_def block_alias_def validAliasValue_def is_ip4_trim Let_def)

lemma new_blocklist_ok: "is_ip4 ip \<Longrightarrow> alias_ok \<lparr> al_Name = blocklistAlias, al_Type = ''host'', al_Values = [ip] \<rparr>"
  by (simp add: alias_ok_def validAliasValue_def is_ip4_trim aliasNameRe_blocklist)

lemma block_config_objects:
  assumes o: "objects_ok c" and ip: "is_ip4 ip" and h: "blocklist_hosts (c_Aliases c)"
  shows "objects_ok (block_config ip c)"
proof -
  let ?c = "block_config ip c"
  have d: "distinct (map al_Name (c_Aliases c))" using o by (simp add: objects_ok_def)
  have n: "map al_Name (c_Aliases ?c) = map al_Name (c_Aliases c)
      @ (if blocklistAlias \<in> al_Name ` set (c_Aliases c) then [] else [blocklistAlias])"
    by (simp add: block_config_aliases block_aliases_names)
  have ns: "al_Name ` set (c_Aliases ?c) = insert blocklistAlias (al_Name ` set (c_Aliases c))"
    using arg_cong [OF n, of set] by (auto split: if_splits)
  have a: "alias_ok al" if "al \<in> set (c_Aliases ?c)" for al
    using that o ip h new_blocklist_ok [OF ip]
    by (auto simp: block_config_aliases block_aliases_map [OF d] objects_ok_def blocklist_hosts_def list_all_iff
        intro: block_alias_ok split: if_splits)
  have r: "c_Rules ?c = (if blockRuleName \<in> r_Name ` set (c_Rules c) then c_Rules c else block_rule # c_Rules c)"
  proof -
    have "list_ex (\<lambda>r. r_Name r = blockRuleName) (c_Rules c) \<longleftrightarrow> blockRuleName \<in> r_Name ` set (c_Rules c)"
      unfolding list_ex_iff by (metis imageE image_eqI)
    then show ?thesis by (simp add: block_config_def Let_def split: prod.split)
  qed
  have z: "c_Zones ?c = c_Zones c" by (simp add: block_config_def Let_def split: prod.split)
  have rk: "rule_ok (insert blocklistAlias (al_Name ` set (c_Aliases c))) (z_Name ` set (c_Zones c)) r" if "r \<in> set (c_Rules ?c)" for r
    using that o block_rule_ok
    by (auto simp: r objects_ok_def intro: rule_ok_mono split: if_splits)
  have "distinct (map r_Name (c_Rules ?c))" using o by (auto simp: r objects_ok_def block_rule_def)
  moreover have "distinct (map al_Name (c_Aliases ?c))" using d by (simp add: n)
  ultimately show ?thesis using o a rk by (simp add: objects_ok_def z ns)
qed

lemma last_empty:
  "distinct (map al_Name als) \<Longrightarrow>
   foldl (\<lambda>e al. if al_Name al = blocklistAlias then al_Values al = [] else e) e als =
     ((\<exists>al \<in> set als. al_Name al = blocklistAlias \<and> al_Values al = [])
      \<or> e \<and> \<not> (\<exists>al \<in> set als. al_Name al = blocklistAlias))"
proof (induction als arbitrary: e)
  case (Cons a als)
  have "\<not> (\<exists>al \<in> set als. al_Name al = blocklistAlias)" if "al_Name a = blocklistAlias"
    using Cons.prems that by (auto simp: image_iff)
  with Cons show ?case by (cases "al_Name a = blocklistAlias") auto
qed simp

lemma unblock_aliases_names: "map al_Name (unblock_aliases ip als) = map al_Name als"
  by (simp add: unblock_aliases_def)

lemma unblock_config_objects:
  assumes o: "objects_ok c" and p: "blocklist_private (c_Rules c)"
  shows "objects_ok (unblock_config ip c)"
proof -
  let ?als = "unblock_aliases ip (c_Aliases c)" and ?bl = "\<lambda>al. al_Name al = blocklistAlias \<and> al_Values al = []"
  have d: "distinct (map al_Name ?als)" using o by (simp add: unblock_aliases_names objects_ok_def)
  have ns: "al_Name ` set ?als = al_Name ` set (c_Aliases c)"
    by (metis unblock_aliases_names set_map)
  have ok: "alias_ok al" if "al \<in> set ?als" "\<not> ?bl al" for al
    using that o by (auto simp: unblock_aliases_def objects_ok_def alias_ok_def split: if_splits)
  have e: "foldl (\<lambda>e al. if al_Name al = blocklistAlias then al_Values al = [] else e) False ?als
      \<longleftrightarrow> (\<exists>al \<in> set ?als. ?bl al)"
    using last_empty [OF d, of False] by auto
  show ?thesis
  proof (cases "\<exists>al \<in> set ?als. ?bl al")
    case False
    then show ?thesis using o ok d ns by (auto simp: unblock_config_def e objects_ok_def Let_def)
  next
    case True
    let ?A = "al_Name ` (set ?als \<inter> {x. al_Name x \<noteq> blocklistAlias})"
    have A: "?A = al_Name ` set (c_Aliases c) - {blocklistAlias}" unfolding ns [symmetric] by auto
    have r: "rule_ok ?A (z_Name ` set (c_Zones c)) r" if "r \<in> set (c_Rules c)" "r_Name r \<noteq> blockRuleName" for r
      using that o p unfolding A by (auto simp: objects_ok_def rule_ok_def blocklist_private_def list_all_iff)
    from True have "unblock_config ip c = c \<lparr> c_Aliases := filter (\<lambda>x. al_Name x \<noteq> blocklistAlias) ?als,
        c_Rules := filter (\<lambda>x. r_Name x \<noteq> blockRuleName) (c_Rules c) \<rparr>" by (simp add: unblock_config_def e)
    then show ?thesis using o ok d r by (auto simp: objects_ok_def distinct_map_filter Int_def)
  qed
qed

text \<open>The requests of these components, as the router dispatches them.\<close>

datatype gw_request =
    ReqProfile "string + string" | ReqGateway "string + Config" | ReqZones "string + Zone list"
  | ReqAliases "string + Alias list" | ReqRules "string + Rule list" | ReqBlock "string + string"
  | ReqUnblock "string + string" | ReqGatewayApply | ReqFirewallApply | ReqConfirm | ReqRollback

fun gw_handle :: "gwIO \<Rightarrow> reqctx \<Rightarrow> gw_request \<Rightarrow> gwApp \<Rightarrow> gresponse \<times> gwApp" where
  "gw_handle io rq (ReqProfile x) a = apiSystemProfilePut io rq x a"
| "gw_handle io rq (ReqGateway x) a = apiGatewayPut io rq x a"
| "gw_handle io rq (ReqZones x) a = apiFirewallZonesPut io rq x a"
| "gw_handle io rq (ReqAliases x) a = apiFirewallAliasesPut io rq x a"
| "gw_handle io rq (ReqRules x) a = apiFirewallRulesPut io rq x a"
| "gw_handle io rq (ReqBlock x) a = apiFirewallBlockIP io rq x a"
| "gw_handle io rq (ReqUnblock x) a = apiFirewallUnblockIP io rq x a"
| "gw_handle io rq ReqGatewayApply a = apiGatewayApply io rq a"
| "gw_handle io rq ReqFirewallApply a = apiFirewallApply io rq a"
| "gw_handle io rq ReqConfirm a = apiGatewayConfirm io rq a"
| "gw_handle io rq ReqRollback a = apiGatewayRollback io rq a"

text \<open>
  What a request makes of the stored configuration and the profile, whatever the outcome of
  its effects: it keeps both, or it takes one of the listed edits under its guard.
\<close>

inductive gw_edit :: "string \<Rightarrow> Config option \<Rightarrow> gw_request \<Rightarrow> string \<Rightarrow> Config option \<Rightarrow> bool" where
  same: "gw_edit p g req p g"
| profile: "validProfile q \<Longrightarrow> q = profileRouter \<longrightarrow> (\<forall>c. g = Some c \<longrightarrow> \<not> c_GatewayEnabled c) \<Longrightarrow>
    gw_edit p g (ReqProfile (Inr q)) q g"
| first: "Validate c = None \<Longrightarrow> c_GatewayEnabled c \<longrightarrow> p \<noteq> profileRouter \<Longrightarrow>
    gw_edit p None (ReqGateway (Inr c)) p (Some c)"
| again: "Validate c = None \<Longrightarrow> c_GatewayEnabled c \<longrightarrow> p \<noteq> profileRouter \<Longrightarrow>
    gw_edit p (Some d) (ReqGateway (Inr c)) p
      (Some (c \<lparr> c_Aliases := c_Aliases d, c_Rules := c_Rules d, c_Zones := c_Zones d,
                 c_IPSEnabled := c_IPSEnabled d, c_GeoCountries := c_GeoCountries d \<rparr>))"
| edited: "validateObjects c = None \<Longrightarrow> c_GatewayEnabled c = c_GatewayEnabled (case g of None \<Rightarrow> zero_Config | Some d \<Rightarrow> d) \<Longrightarrow>
    c_IPSEnabled c = c_IPSEnabled (case g of None \<Rightarrow> zero_Config | Some d \<Rightarrow> d) \<Longrightarrow> gw_edit p g req p (Some c)"
| blocked: "is_ip4 (TrimSpace s) \<Longrightarrow> gw_edit p (Some c) (ReqBlock (Inr s)) p (Some (block_config (TrimSpace s) c))"
| unblocked: "gw_edit p (Some c) (ReqUnblock (Inr s)) p (Some (unblock_config (TrimSpace s) c))"

abbreviation gw_edits :: "gwApp \<Rightarrow> gw_request \<Rightarrow> gwApp \<Rightarrow> bool" where
  "gw_edits a req a' \<equiv> gw_edit (ga_profile a) (ga_gw a) req (ga_profile a') (ga_gw a')"

lemma gw_record_frame [simp]: "ga_gw (gw_record rq w t r s a) = ga_gw a" "ga_profile (gw_record rq w t r s a) = ga_profile a"
  by (simp_all add: gw_record_def)

lemma setGateway_frame [simp]: "ga_gw (setGateway c a) = Some c" "ga_profile (setGateway c a) = ga_profile a"
  by (simp_all add: setGateway_def)

lemma put_objects_edit:
  "ga_profile (snd (put_objects io rq act f e a)) = ga_profile a"
  "ga_gw (snd (put_objects io rq act f e a)) = ga_gw a \<or>
   validateObjects (e (stored a)) = None \<and> ga_gw (snd (put_objects io rq act f e a)) = Some (e (stored a))"
  by (auto simp: put_objects_def Let_def split: option.split)

lemma put_objects_edits:
  assumes "\<And>c. c_GatewayEnabled (e c) = c_GatewayEnabled c" "\<And>c. c_IPSEnabled (e c) = c_IPSEnabled c"
  shows "gw_edits a req (snd (put_objects io rq act f e a))"
  using put_objects_edit(2) [of io rq act f e a]
proof
  assume "ga_gw (snd (put_objects io rq act f e a)) = ga_gw a"
  then show ?thesis by (simp add: put_objects_edit(1) gw_edit.same)
next
  assume *: "validateObjects (e (stored a)) = None \<and> ga_gw (snd (put_objects io rq act f e a)) = Some (e (stored a))"
  have "c_GatewayEnabled (e (stored a)) = c_GatewayEnabled (case ga_gw a of None \<Rightarrow> zero_Config | Some d \<Rightarrow> d)"
    "c_IPSEnabled (e (stored a)) = c_IPSEnabled (case ga_gw a of None \<Rightarrow> zero_Config | Some d \<Rightarrow> d)"
    using assms by (simp_all add: getGateway_def split: option.split)
  with * show ?thesis by (simp add: put_objects_edit(1) gw_edit.edited)
qed

lemma stage_run_frame: "ga_gw (snd (stage_run io c a)) = ga_gw a" "ga_profile (snd (stage_run io c a)) = ga_profile a"
  by (auto simp: stage_run_def Let_def split: outcome.split)

lemma apply_result_frame: "ga_gw (snd (apply_result rq r)) = ga_gw (snd r)" "ga_profile (snd (apply_result rq r)) = ga_profile (snd r)"
  by (auto simp: apply_result_def split: prod.split option.split gwError.split)

lemma profile_edits: "gw_edits a (ReqProfile x) (snd (apiSystemProfilePut io rq x a))"
proof (cases x)
  case (Inr q)
  then show ?thesis
    by (auto simp: apiSystemProfilePut_def getGateway_def Let_def gw_edit.same split: option.split intro: gw_edit.profile)
qed (simp add: apiSystemProfilePut_def gw_edit.same)

lemma getProfile_router: "getProfile a = profileGateway \<Longrightarrow> ga_profile a \<noteq> profileRouter"
  by (auto simp: getProfile_def validProfile_def profileGateway_def profileRouter_def)

lemma gateway_edits: "gw_edits a (ReqGateway x) (snd (apiGatewayPut io rq x a))"
proof (cases x)
  case (Inr c)
  show ?thesis
  proof (cases "Validate c = None \<and> (c_GatewayEnabled c \<longrightarrow> getProfile a = profileGateway)")
    case True
    then have "c_GatewayEnabled c \<longrightarrow> ga_profile a \<noteq> profileRouter" using getProfile_router by blast
    with True show ?thesis
      by (cases "ga_gw a") (auto simp: apiGatewayPut_def Inr getGateway_def Let_def intro: gw_edit.first gw_edit.again)
  next
    case False
    then show ?thesis by (auto simp: apiGatewayPut_def Inr gw_edit.same split: option.split)
  qed
qed (simp add: apiGatewayPut_def gw_edit.same)

lemma zones_edits: "gw_edits a (ReqZones x) (snd (apiFirewallZonesPut io rq x a))"
proof (cases x)
  case (Inr zs)
  let ?r = "put_objects io rq ''firewall-zones'' ''cannot persist firewall zones'' (\<lambda>c. c \<lparr> c_Zones := zs \<rparr>) a"
  have "gw_edits a (ReqZones x) (snd ?r)" by (rule put_objects_edits) simp_all
  then show ?thesis by (cases ?r; cases "fst ?r") (simp_all add: apiFirewallZonesPut_def Inr)
qed (simp add: apiFirewallZonesPut_def gw_edit.same)

lemma aliases_edits: "gw_edits a (ReqAliases x) (snd (apiFirewallAliasesPut io rq x a))"
  by (cases x) (simp_all add: apiFirewallAliasesPut_def gw_edit.same put_objects_edits)

lemma rules_edits: "gw_edits a (ReqRules x) (snd (apiFirewallRulesPut io rq x a))"
  by (cases x) (simp_all add: apiFirewallRulesPut_def gw_edit.same put_objects_edits)

lemma block_edits: "gw_edits a (ReqBlock x) (snd (apiFirewallBlockIP io rq x a))"
proof (cases x)
  case (Inr s)
  show ?thesis
  proof (cases "is_ip4 (TrimSpace s) \<and> (\<exists>c. ga_gw a = Some c \<and> c_ClientNetwork c \<noteq> [])")
    case True
    then obtain c where c: "ga_gw a = Some c" "c_ClientNetwork c \<noteq> []" and ip: "is_ip4 (TrimSpace s)" by blast
    obtain e a2 where ap: "applyAndConfirm io (setGateway (block_config (TrimSpace s) c) a) = (e, a2)" by fastforce
    have "ga_gw (snd (apiFirewallBlockIP io rq x a)) = Some (block_config (TrimSpace s) c)"
      "ga_profile (snd (apiFirewallBlockIP io rq x a)) = ga_profile a"
      using c ip applyAndConfirm_frame(1,2) [OF ap]
      by (auto simp: apiFirewallBlockIP_def Inr getGateway_def Let_def ap split: option.split)
    then show ?thesis using c ip Inr by (simp add: gw_edit.blocked)
  next
    case False
    then have "snd (apiFirewallBlockIP io rq x a) = a"
      by (cases "ga_gw a") (auto simp: apiFirewallBlockIP_def Inr getGateway_def Let_def)
    then show ?thesis by (simp add: gw_edit.same)
  qed
qed (simp add: apiFirewallBlockIP_def gw_edit.same)

lemma unblock_edits: "gw_edits a (ReqUnblock x) (snd (apiFirewallUnblockIP io rq x a))"
proof (cases x)
  case (Inr s)
  show ?thesis
  proof (cases "ga_gw a")
    case (Some c)
    obtain e a2 where ap: "applyAndConfirm io (setGateway (unblock_config (TrimSpace s) c) a) = (e, a2)" by fastforce
    have "ga_gw (snd (apiFirewallUnblockIP io rq x a)) = Some (unblock_config (TrimSpace s) c)"
      "ga_profile (snd (apiFirewallUnblockIP io rq x a)) = ga_profile a"
      using Some applyAndConfirm_frame(1,2) [OF ap]
      by (auto simp: apiFirewallUnblockIP_def Inr getGateway_def Let_def ap split: option.split)
    then show ?thesis using Some Inr by (simp add: gw_edit.unblocked)
  qed (simp add: apiFirewallUnblockIP_def Inr getGateway_def gw_edit.same)
qed (simp add: apiFirewallUnblockIP_def gw_edit.same)

lemma gw_handle_edits: "gw_edits a req (snd (gw_handle io rq req a))"
proof (cases req)
  case ReqGatewayApply
  then show ?thesis
    by (simp add: apiGatewayApply_def apply_result_frame stage_run_frame gw_edit.same split: prod.split)
next
  case ReqFirewallApply
  then show ?thesis
    by (simp add: apiFirewallApply_def apply_result_frame stage_run_frame gw_edit.same split: prod.split)
next
  case ReqConfirm
  then show ?thesis by (simp add: apiGatewayConfirm_def run_action_def gw_edit.same)
next
  case ReqRollback
  then show ?thesis by (simp add: apiGatewayRollback_def run_action_def gw_edit.same)
qed (simp_all add: profile_edits gateway_edits zones_edits aliases_edits rules_edits block_edits unblock_edits)

text \<open>The states a device can reach by these requests, with any outcome of their effects.\<close>

inductive gw_reach :: "gwApp \<Rightarrow> gwApp \<Rightarrow> bool" for a0 :: gwApp where
  start: "gw_reach a0 a0"
| request: "gw_reach a0 a \<Longrightarrow> gw_reach a0 (snd (gw_handle io rq req a))"

definition router_ok :: "string \<Rightarrow> Config option \<Rightarrow> bool" where
  "router_ok p g \<longleftrightarrow> p = profileRouter \<longrightarrow> (\<forall>c. g = Some c \<longrightarrow> \<not> c_GatewayEnabled c)"

lemma gw_edit_router: "gw_edit p g req p' g' \<Longrightarrow> router_ok p g \<Longrightarrow> router_ok p' g'"
proof (induction rule: gw_edit.induct)
  case (edited c g p req)
  then show ?case by (cases g) (auto simp: router_ok_def zero_Config_def)
next
  case (unblocked p c s)
  then show ?case by (simp add: router_ok_def unblock_config_def Let_def)
qed (auto simp: router_ok_def block_config_def Let_def split: prod.splits)

text \<open>
  C19. The deployment modes exclude each other: from a device without a stored firewall
  configuration no sequence of profile, gateway, object, block, unblock, apply, confirm and
  rollback requests, with whatever failures of saving and applying, reaches a state in the
  router profile with gateway mode (WAN and NAT) enabled, and what the generator renders
  there is not a gateway ruleset either.
\<close>

theorem router_profile_excludes_gateway:
  assumes "gw_reach a0 a" "ga_gw a0 = None" "getProfile a = profileRouter"
  shows "\<not> c_GatewayEnabled (fst (getGateway a)) \<and> \<not> c_GatewayEnabled (fst (firewallConfig io a))"
proof -
  from assms(1) have "router_ok (ga_profile a) (ga_gw a)"
    by induction (simp add: router_ok_def assms(2), rule gw_edit_router [OF gw_handle_edits])
  moreover have "ga_profile a = profileRouter"
    using assms(3) by (auto simp: getProfile_def profileRouter_def profileGateway_def split: if_splits)
  ultimately have "\<not> c_GatewayEnabled (stored a)"
    by (cases "ga_gw a") (simp_all add: router_ok_def getGateway_def zero_Config_def)
  then show ?thesis by (simp add: firewallConfig_enabled)
qed

text \<open>What a request must meet so that it keeps the stored objects valid.\<close>

definition keeps_objects :: "gw_request \<Rightarrow> Config \<Rightarrow> bool" where
  "keeps_objects req c = (case req of
       ReqBlock _ \<Rightarrow> blocklist_hosts (c_Aliases c)
     | ReqUnblock _ \<Rightarrow> blocklist_private (c_Rules c)
     | _ \<Rightarrow> True)"

lemma objects_valid: "validateObjects c = None \<longleftrightarrow> objects_ok c"
  by (auto simp: validateObjects_def objects_ok_def alias_loop.loop_from_empty
      zone_loop.loop_from_empty rule_loop.loop_from_empty)

lemma gw_edit_objects:
  "gw_edit p g req p' g' \<Longrightarrow> pred_option objects_ok g \<Longrightarrow> pred_option (keeps_objects req) g \<Longrightarrow> pred_option objects_ok g'"
proof (induction rule: gw_edit.induct)
  case (first c p)
  then show ?case by (simp add: Validate_objects)
next
  case (again c p d)
  then show ?case by (simp add: objects_ok_def)
qed (simp_all add: objects_valid block_config_objects unblock_config_objects keeps_objects_def)

text \<open>
  C21. Well-formedness of the stored firewall objects: whatever a request of the profile,
  gateway, zone, alias, rule, block, unblock, apply, confirm or rollback handlers does and
  however its effects fail, valid stored objects stay valid, provided that a block request
  meets a block list of type host and an unblock request meets no foreign rule that refers
  to the block list.
\<close>

theorem stored_objects_valid:
  assumes "objects_ok (fst (getGateway a))" "snd (getGateway a)" "keeps_objects req (fst (getGateway a))"
  shows "objects_ok (fst (getGateway (snd (gw_handle io rq req a)))) \<and> snd (getGateway (snd (gw_handle io rq req a)))"
proof -
  obtain c where c: "ga_gw a = Some c" using assms(2) by (auto simp: getGateway_def split: option.splits)
  have "pred_option objects_ok (ga_gw (snd (gw_handle io rq req a)))"
    using assms(1,3) by (intro gw_edit_objects [OF gw_handle_edits]) (simp_all add: c getGateway_def)
  moreover have "ga_gw (snd (gw_handle io rq req a)) \<noteq> None"
    using gw_handle_edits [of a req io rq] c by (auto elim: gw_edit.cases)
  ultimately show ?thesis by (auto simp: getGateway_def split: option.splits)
qed

section \<open>A valid device accepts a block request\<close>

lemma Validate_iff:
  "Validate c = None \<longleftrightarrow>
     (c_AdminNetwork c \<noteq> [] \<longrightarrow> validCIDR4 (c_AdminNetwork c)) \<and> validCIDR4 (c_ClientNetwork c)
   \<and> list_all geoCodeRe (c_GeoCountries c) \<and> list_all (\<lambda>x. validCIDR4 (TrimSpace x)) (c_GeoCIDRs c)
   \<and> (c_DHCPInterface c \<noteq> [] \<longrightarrow> validIface (c_DHCPInterface c)) \<and> objects_ok c
   \<and> list_all (\<lambda>tn. list_all (\<lambda>x. validCIDR4 (TrimSpace x)) (tn_Local tn @ tn_Remote tn)) (c_TunnelNets c)
   \<and> list_all (\<lambda>p. pbr_check p = None) (c_PBRUplinks c)
   \<and> (if c_GatewayEnabled c then gateway_ok c else c_AdminNetwork c \<noteq> [])"
  unfolding Validate_def Validate_base_def
  by (simp add: objects_valid Validate_gateway_None list_all_iff) blast

lemma block_config_shape: "\<exists>A R. block_config ip c = c \<lparr> c_Aliases := A, c_Rules := R \<rparr>"
  unfolding block_config_def Let_def case_prod_beta by (intro exI) (rule refl)

lemma Validate_objects_update:
  assumes "Validate c = None" "objects_ok (c \<lparr> c_Aliases := A, c_Rules := R \<rparr>)"
  shows "Validate (c \<lparr> c_Aliases := A, c_Rules := R \<rparr>) = None"
proof -
  have acl: "acl_iface (c \<lparr> c_Aliases := A, c_Rules := R \<rparr>) = acl_iface c"
    by (simp add: fun_eq_iff acl_iface_def zoneIfaceMap_def)
  have "gateway_ok (c \<lparr> c_Aliases := A, c_Rules := R \<rparr>) = gateway_ok c"
    using acl by (simp add: gateway_ok_def ManagementReachable_def serviceACLRows_def)
  then show ?thesis using assms by (simp add: Validate_iff)
qed

lemma firewallConfig_update:
  "firewallConfig io (setGateway (c \<lparr> c_Aliases := A, c_Rules := R \<rparr>) a) =
   (fst (firewallConfig io (setGateway c a)) \<lparr> c_Aliases := A, c_Rules := R \<rparr>, True)"
  by (simp add: firewallConfig_def tunnelNets_def pbrUplinks_def openvpnFirewall_def vpnPorts_def setGateway_def
      getGateway_def Let_def)

lemma applyAndConfirm_ok:
  assumes "Validate (fst (firewallConfig io a)) = None" "snd (firewallConfig io a)"
    "io_write io" "io_run io ''apply''" "io_run io ''confirm''"
  shows "\<exists>a'. applyAndConfirm io a = (None, a')"
proof -
  obtain t where "Generate (fst (firewallConfig io a)) = Return t"
    using gen_lines_total [OF assms(1)] assms(1) by (auto simp: Generate_def)
  with assms show ?thesis
    by (simp add: applyAndConfirm_def stage_run_def run_action_def case_prod_beta Let_def)
qed

text \<open>
  A block request gets through: on a device whose effective configuration validates,
  has a client network and no block list of another type than host, a request for any IPv4
  address succeeds as soon as the state file, the staged ruleset and the two adapter actions
  go through. Adding an address never makes the firewall configuration invalid.
\<close>

theorem block_ip_succeeds:
  assumes "getGateway a = (c, True)" "Validate (fst (firewallConfig io a)) = None" "c_ClientNetwork c \<noteq> []"
    "blocklist_hosts (c_Aliases c)" "is_ip4 (TrimSpace s)"
    "io_saved io" "io_write io" "io_run io ''apply''" "io_run io ''confirm''"
  shows "\<exists>ips a'. apiFirewallBlockIP io rq (Inr s) a = (GBlocklist ips, a')
    \<and> Validate (fst (firewallConfig io a')) = None"
proof -
  let ?ip = "TrimSpace s"
  obtain A R where c': "block_config ?ip c = c \<lparr> c_Aliases := A, c_Rules := R \<rparr>" using block_config_shape by blast
  have a: "setGateway c a = a" using assms(1) by (simp add: getGateway_def setGateway_def split: option.splits)
  let ?a1 = "setGateway (block_config ?ip c) a"
  have f: "firewallConfig io ?a1 = (fst (firewallConfig io a) \<lparr> c_Aliases := A, c_Rules := R \<rparr>, True)"
    using firewallConfig_update [where c = c and A = A and R = R and a = a and io = io] by (simp only: c' a)
  have "objects_ok c" using Validate_objects [OF assms(2)] assms(1) by (simp add: firewallConfig_objects)
  then have "objects_ok (block_config ?ip c)" by (rule block_config_objects [OF _ assms(5,4)])
  then have "objects_ok (fst (firewallConfig io ?a1))" unfolding firewallConfig_objects by simp
  then have v: "Validate (fst (firewallConfig io ?a1)) = None"
    unfolding f fst_conv by (rule Validate_objects_update [OF assms(2)])
  obtain a2 where ap: "applyAndConfirm io ?a1 = (None, a2)"
    using applyAndConfirm_ok [OF v] f assms(7-9) by auto
  have "firewallConfig io (gw_record rq w t r sv a2) = firewallConfig io ?a1" for w t r sv
    using applyAndConfirm_frame [OF ap]
    by (simp add: gw_record_def firewallConfig_def tunnelNets_def pbrUplinks_def openvpnFirewall_def vpnPorts_def getGateway_def)
  then show ?thesis using assms(1,3,5,6) v by (simp add: apiFirewallBlockIP_def Let_def ap)
qed

section \<open>Witnesses\<close>

lemma ex_app_simps:
  "getGateway ex_app = (ex_cfg, True)" "fst (firewallConfig ex_io ex_app) = ex_cfg"
  "ga_gw ex_app = Some ex_cfg" "c_ClientNetwork ex_cfg \<noteq> []"
  by (simp_all add: ex_app_def getGateway_def firewallConfig_def tunnelNets_def pbrUplinks_def openvpnFirewall_def
      vpnPorts_def ex_io_def ex_cfg_def)

lemma ex_blocklist: "blocklist_hosts (c_Aliases ex_cfg)" "block_rule_first (c_Rules ex_cfg)" "blocklist_private (c_Rules ex_cfg)"
  by (simp_all add: blocklist_hosts_def block_rule_first_def blocklist_private_def ex_defs blocklistAlias_def blockRuleName_def)

lemma ex_io_ok: "io_saved ex_io" "io_write ex_io" "io_run ex_io x"
  by (simp_all add: ex_io_def)

theorem block_ip_succeeds_witness:
  "\<exists>ips a'. apiFirewallBlockIP ex_io ex_gw_rq (Inr ''203.0.113.9'') ex_app = (GBlocklist ips, a')
     \<and> Validate (fst (firewallConfig ex_io a')) = None"
  by (rule block_ip_succeeds [OF ex_app_simps(1) _ ex_app_simps(4) ex_blocklist(1) _ ex_io_ok(1,2,3,3)])
     (simp_all add: ex_app_simps ex_cfg_valid ip_203)

lemma ex_block: "\<exists>ips a'. apiFirewallBlockIP ex_io ex_gw_rq (Inr ''203.0.113.9'') ex_app = (GBlocklist ips, a')"
proof -
  have v: "Validate (fst (firewallConfig ex_io (setGateway (block_config ''203.0.113.9'' ex_cfg) ex_app))) = None"
  proof -
    obtain A R where c': "block_config ''203.0.113.9'' ex_cfg = ex_cfg \<lparr> c_Aliases := A, c_Rules := R \<rparr>"
      using block_config_shape by blast
    have "setGateway ex_cfg ex_app = ex_app" by (simp add: setGateway_def ex_app_def)
    then have "fst (firewallConfig ex_io (setGateway (block_config ''203.0.113.9'' ex_cfg) ex_app)) = block_config ''203.0.113.9'' ex_cfg"
      using firewallConfig_update [where c = ex_cfg and A = A and R = R and a = ex_app and io = ex_io] by (simp add: c' ex_app_simps)
    then show ?thesis
      using Validate_objects_update [OF ex_cfg_valid] block_config_objects [OF ex_cfg_objects ip_203(1) ex_blocklist(1)]
      by (simp add: c')
  qed
  have "snd (firewallConfig ex_io (setGateway (block_config ''203.0.113.9'' ex_cfg) ex_app))"
    by (simp add: firewallConfig_def split: prod.split)
  then obtain a2 where "applyAndConfirm ex_io (setGateway (block_config ''203.0.113.9'' ex_cfg) ex_app) = (None, a2)"
    using applyAndConfirm_ok [OF v] ex_io_ok by blast
  then show ?thesis using ex_app_simps ip_203 ex_io_ok by (simp add: apiFirewallBlockIP_def Let_def)
qed


theorem stored_objects_valid_witness:
  "objects_ok (fst (getGateway (snd (gw_handle ex_io ex_gw_rq (ReqUnblock (Inr ''203.0.113.9'')) ex_app))))
   \<and> snd (getGateway (snd (gw_handle ex_io ex_gw_rq (ReqUnblock (Inr ''203.0.113.9'')) ex_app)))"
  by (rule stored_objects_valid) (simp_all add: ex_app_simps ex_cfg_objects keeps_objects_def ex_blocklist)

theorem router_profile_excludes_gateway_witness:
  "\<exists>a. gw_reach (ex_app \<lparr> ga_gw := None \<rparr>) a \<and> getProfile a = profileRouter \<and> \<not> c_GatewayEnabled (fst (getGateway a))"
proof -
  let ?s = "ex_app \<lparr> ga_gw := None \<rparr>"
  let ?a = "snd (gw_handle ex_io ex_gw_rq (ReqProfile (Inr profileRouter)) ?s)"
  have r: "gw_reach ?s ?a" by (rule gw_reach.request, rule gw_reach.start)
  have p: "getProfile ?a = profileRouter"
    by (simp add: apiSystemProfilePut_def getGateway_def Let_def ex_io_ok getProfile_def validProfile_def)
  from router_profile_excludes_gateway [OF r _ p] r p show ?thesis by auto
qed

section \<open>Where blocking falls short\<close>

definition ex_blocklist_alias :: Alias where
  "ex_blocklist_alias = \<lparr> al_Name = blocklistAlias, al_Type = ''host'', al_Values = [''203.0.113.9''] \<rparr>"

lemma ex_objects:
  assumes "rule_ok {blocklistAlias} {''office'', ''guest''} r"
  shows "objects_ok (ex_cfg \<lparr> c_Aliases := [ex_blocklist_alias], c_Rules := [r] \<rparr>)"
proof -
  have "alias_ok ex_blocklist_alias" using new_blocklist_ok [OF ip_203(1)] by (simp add: ex_blocklist_alias_def)
  moreover have "IfaceName ex_lan \<noteq> IfaceName ex_guest" "z_Name ex_lan = ''office''" "z_Name ex_guest = ''guest''"
    by simp (simp_all add: ex_defs)
  moreover have "al_Name ex_blocklist_alias = blocklistAlias" "c_Zones ex_cfg = [ex_lan, ex_guest]"
    by (simp_all add: ex_blocklist_alias_def ex_cfg_def)
  ultimately show ?thesis using zone_ok_ex assms by (simp add: objects_ok_def)
qed

text \<open>
  Removing the last address takes the block list and the block rule away; a rule of the
  administrator that refers to the block list stays, so the stored configuration no longer
  validates and no ruleset can be generated from it.
\<close>

theorem unblock_leaves_dangling_reference:
  "\<exists>c. objects_ok c \<and> \<not> objects_ok (unblock_config ''203.0.113.9'' c)
     \<and> (\<forall>io a t. Generate (fst (firewallConfig io (setGateway (unblock_config ''203.0.113.9'' c) a))) \<noteq> Return t)"
proof -
  let ?r = "ex_rule \<lparr> r_DstAlias := blocklistAlias \<rparr>"
  let ?c = "ex_cfg \<lparr> c_Aliases := [ex_blocklist_alias], c_Rules := [?r] \<rparr>"
  have "rule_ok {''srv''} {''office'', ''guest''} ex_rule"
    using ex_cfg_objects by (simp add: objects_ok_def ex_cfg_def ex_alias_def ex_lan_def ex_guest_def)
  then have "rule_ok {blocklistAlias} {''office'', ''guest''} ?r" by (simp add: rule_ok_def) (simp add: ex_rule_def)
  then have o: "objects_ok ?c" by (rule ex_objects)
  have "r_Name ?r \<noteq> blockRuleName" by (simp add: ex_rule_def blockRuleName_def)
  then have "unblock_config ''203.0.113.9'' ?c = ex_cfg \<lparr> c_Aliases := [], c_Rules := [?r] \<rparr>"
    by (simp add: unblock_config_def unblock_aliases_def ex_blocklist_alias_def)
  moreover have "\<not> rule_ok {} Z ?r" for Z by (simp add: rule_ok_def blocklistAlias_def)
  ultimately have n: "\<not> objects_ok (unblock_config ''203.0.113.9'' ?c)" by (simp add: objects_ok_def)
  have "Generate (fst (firewallConfig io (setGateway (unblock_config ''203.0.113.9'' ?c) a))) \<noteq> Return t" for io a t
    using Validate_objects [OF Generate_Validate] n firewallConfig_objects [of io "setGateway (unblock_config ''203.0.113.9'' ?c) a"]
    by fastforce
  with o n show ?thesis by blast
qed

text \<open>
  The block request looks for its rule by name only: when that rule was switched off, the
  address is added to the list and traffic from it is still not matched.
\<close>

theorem disabled_block_rule_is_kept:
  "\<exists>c p. objects_ok c \<and> objects_ok (block_config (p_Src p) c) \<and> \<not> re_Matched (EvaluateForward (block_config (p_Src p) c) p)"
proof -
  let ?r = "block_rule \<lparr> r_Enabled := False \<rparr>" and ?p = "\<lparr> p_Src = ''203.0.113.9'', p_Dst = [], p_Proto = ''tcp'', p_DstPort = 1 \<rparr>"
  let ?c = "ex_cfg \<lparr> c_Aliases := [ex_blocklist_alias], c_Rules := [?r] \<rparr>"
  have "rule_ok {blocklistAlias} {''office'', ''guest''} ?r"
    using block_rule_ok [of "{blocklistAlias}" "{''office'', ''guest''}"] by (simp add: rule_ok_def)
  then have o: "objects_ok ?c" by (rule ex_objects)
  have b: "block_config ''203.0.113.9'' ?c = ?c"
    by (simp add: block_config_def ex_blocklist_alias_def block_rule_def)
  have "\<not> re_Matched (EvaluateForward ?c ?p)"
    by (simp add: EvaluateForward_def rule_matches_def default_eval_def)
  with o b show ?thesis by (intro exI [of _ ?c] exI [of _ ?p]) simp
qed

end
