(* ===== verification/DeviceAccess.thy ===== *)
theory DeviceAccess
  imports Gateway
begin

text \<open>
  \<open>deviceaccess.go\<close>: the matrix of zones and appliance services, the rows it offers, the
  matrix derived from the older management toggles, and its two handlers. Reading the matrix
  is a state change too: the handler builds its answer in the stored slice, whose backing
  array \<open>getGateway\<close> does not copy.
\<close>

section \<open>Rows and the derived matrix\<close>

record accessZone =
  az_Zone :: string
  az_Label :: string
  az_Interface :: string
  az_Kind :: string
  az_Untrusted :: bool

definition accessZones :: "gwApp \<Rightarrow> Config \<Rightarrow> accessZone list" where
  "accessZones a cfg =
     only_if (c_WANInterface cfg \<noteq> [])
       [\<lparr> az_Zone = ''wan'', az_Label = ''WAN (internet)'', az_Interface = c_WANInterface cfg, az_Kind = ''wan'',
          az_Untrusted = True \<rparr>]
   @ only_if (c_LANInterface cfg \<noteq> [])
       [\<lparr> az_Zone = ''lan'', az_Label = ''LAN'', az_Interface = c_LANInterface cfg, az_Kind = ''lan'', az_Untrusted = False \<rparr>]
   @ map (\<lambda>z. \<lparr> az_Zone = z_Name z, az_Label = ToUpper (z_Name z), az_Interface = IfaceName z, az_Kind = z_Kind z,
                az_Untrusted = False \<rparr>)
       (filter (\<lambda>z. z_Kind z \<noteq> ''wan'') (c_Zones cfg))
   @ (let iface = fst (openvpnFirewall a)
      in only_if (iface \<noteq> [])
           [\<lparr> az_Zone = ''vpn'', az_Label = ''VPN (klijenti na daljinu)'', az_Interface = iface, az_Kind = ''vpn'',
              az_Untrusted = False \<rparr>])"

text \<open>A row that allows nothing, the zero value of a row but for its zone.\<close>

definition empty_row :: "string \<Rightarrow> ServiceACL" where
  "empty_row zone = \<lparr> sa_Zone = zone, sa_HTTPS = False, sa_SSH = False, sa_DNS = False, sa_Ping = False,
     sa_DHCP = False, sa_VPN = False \<rparr>"

definition default_row :: "Config \<Rightarrow> accessZone \<Rightarrow> ServiceACL" where
  "default_row cfg z =
     (let row = empty_row (az_Zone z)
      in if az_Kind z = ''wan'' then
           row \<lparr> sa_HTTPS := c_MgmtOnWAN cfg, sa_SSH := c_MgmtOnWAN cfg, sa_Ping := True \<rparr>
         else if az_Kind z = ''lan'' then
           row \<lparr> sa_HTTPS := c_MgmtOnLAN cfg, sa_SSH := c_MgmtOnLAN cfg, sa_DNS := True, sa_Ping := True,
                 sa_DHCP := (c_DHCPInterface cfg = [] \<or> c_DHCPInterface cfg = az_Interface z) \<rparr>
         else if az_Kind z = ''vpn'' then row \<lparr> sa_DNS := True, sa_Ping := True \<rparr>
         else row \<lparr> sa_DNS := True, sa_Ping := True, sa_DHCP := (c_DHCPInterface cfg = az_Interface z) \<rparr>)"

definition defaultACLs :: "Config \<Rightarrow> accessZone list \<Rightarrow> ServiceACL list" where
  "defaultACLs cfg zones = map (default_row cfg) zones"

section \<open>The handlers\<close>

text \<open>The last row of a zone decides, as the Go map does.\<close>

definition align_acls :: "ServiceACL list \<Rightarrow> accessZone list \<Rightarrow> ServiceACL list" where
  "align_acls acls zones =
     map (\<lambda>z. case map_of (rev (map (\<lambda>r. (sa_Zone r, r)) acls)) (az_Zone z) of
                 Some row \<Rightarrow> row | None \<Rightarrow> empty_row (az_Zone z)) zones"

text \<open>
  \<open>acls = acls[:0]\<close> followed by appends writes over the elements of the stored slice, up to
  its length; its length stays.
\<close>

definition overwrite :: "'a list \<Rightarrow> 'a list \<Rightarrow> 'a list" where
  "overwrite old new = take (length old) new @ drop (length new) old"

record aclView =
  av_configured :: bool
  av_zones :: "accessZone list"
  av_acls :: "ServiceACL list"
  av_derived :: bool
  av_adminNetwork :: string

definition apiDeviceAccessGet :: "gwApp \<Rightarrow> aclView \<times> gwApp" where
  "apiDeviceAccessGet a =
     (let (cfg, configured) = getGateway a; zones = accessZones a cfg; acls = c_ServiceACLs cfg
      in if acls = [] then
           (\<lparr> av_configured = configured, av_zones = zones, av_acls = defaultACLs cfg zones, av_derived = True,
              av_adminNetwork = c_AdminNetwork cfg \<rparr>, a)
         else
           (\<lparr> av_configured = configured, av_zones = zones, av_acls = align_acls acls zones, av_derived = False,
              av_adminNetwork = c_AdminNetwork cfg \<rparr>,
            setGateway (cfg \<lparr> c_ServiceACLs := overwrite acls (align_acls acls zones) \<rparr>) a))"

fun clean_rows :: "string set \<Rightarrow> ServiceACL list \<Rightarrow> string + ServiceACL list" where
  "clean_rows known [] = Inr []"
| "clean_rows known (r # rs) =
     (let row = r \<lparr> sa_Zone := TrimSpace (sa_Zone r) \<rparr>
      in if sa_Zone row \<notin> known then Inl (''nepoznata zona: '' @ sa_Zone row)
         else map_sum id ((#) row) (clean_rows known rs))"

definition apiDeviceAccessPut ::
  "gwIO \<Rightarrow> reqctx \<Rightarrow> string + ServiceACL list \<times> string option \<Rightarrow> gwApp \<Rightarrow> gresponse \<times> gwApp" where
  "apiDeviceAccessPut io rq input a =
     (case input of
        Inl msg \<Rightarrow> (GError 400 msg, a)
      | Inr (acls, admin) \<Rightarrow>
          let (cfg, ok) = getGateway a
          in if \<not> ok then (GError 409 ''gateway nije konfiguriran'', a)
             else (case clean_rows (az_Zone ` set (accessZones a cfg)) acls of
                Inl msg \<Rightarrow> (GError 400 msg, a)
              | Inr clean \<Rightarrow>
                  let cfg1 = cfg \<lparr> c_ServiceACLs := clean \<rparr>;
                      cfg2 = (case admin of None \<Rightarrow> cfg1 | Some n \<Rightarrow> cfg1 \<lparr> c_AdminNetwork := TrimSpace n \<rparr>)
                  in (case Validate cfg2 of
                        Some e \<Rightarrow> (GBad 400 (GValidation e), a)
                      | None \<Rightarrow>
                          let a1 = setGateway cfg2 a
                          in if \<not> io_saved io then (GError 500 ''cannot persist device access'', a1)
                             else (GOk, gw_record rq ''device-access'' ''firewall'' ''success'' ''security'' a1))))"

section \<open>A saved matrix keeps the device reachable\<close>

lemma clean_rows_known: "clean_rows known rs = Inr out \<Longrightarrow> sa_Zone ` set out \<subseteq> known \<and> length out = length rs"
  by (induction rs arbitrary: out) (fastforce simp: Let_def map_sum_Inr_iff split: if_splits)+

lemma Validate_reachable: "Validate c = None \<Longrightarrow> c_GatewayEnabled c \<Longrightarrow> ManagementReachable c"
  using Validate_gatewayD by (simp add: gateway_ok_def)

text \<open>
  Saving the device-access matrix: a refused request changes nothing; whatever is stored,
  also when the state file cannot be written, validates as a whole, names only zones the
  device offers, and with gateway mode on leaves management reachable.
\<close>

theorem device_access_put_reachable:
  assumes "apiDeviceAccessPut io rq (Inr (acls, admin)) a = (resp, a')"
  shows "a' = a
    \<or> Validate (fst (getGateway a')) = None
      \<and> sa_Zone ` set (c_ServiceACLs (fst (getGateway a'))) \<subseteq> az_Zone ` set (accessZones a (fst (getGateway a)))
      \<and> (c_GatewayEnabled (fst (getGateway a')) \<longrightarrow> ManagementReachable (fst (getGateway a')))
      \<and> resp = (if io_saved io then GOk else GError 500 ''cannot persist device access'')"
proof (cases "a' = a")
  case False
  from assms False obtain cfg where g: "getGateway a = (cfg, True)"
    by (auto simp: apiDeviceAccessPut_def Let_def split: prod.splits if_splits)
  from assms False obtain clean where cl: "clean_rows (az_Zone ` set (accessZones a cfg)) acls = Inr clean"
    by (auto simp: apiDeviceAccessPut_def g split: sum.splits)
  let ?c2 = "case admin of None \<Rightarrow> cfg \<lparr> c_ServiceACLs := clean \<rparr>
    | Some n \<Rightarrow> cfg \<lparr> c_ServiceACLs := clean, c_AdminNetwork := TrimSpace n \<rparr>"
  from assms False have v: "Validate ?c2 = None"
    by (cases "Validate ?c2") (auto simp: apiDeviceAccessPut_def g cl Let_def)
  have "fst (getGateway a') = ?c2 \<and> resp = (if io_saved io then GOk else GError 500 ''cannot persist device access'')"
    using assms by (auto simp: apiDeviceAccessPut_def g cl v Let_def split: if_splits)
  moreover have "c_ServiceACLs ?c2 = clean" by (simp split: option.split)
  ultimately show ?thesis using v g clean_rows_known [OF cl] Validate_reachable [OF v] by simp
qed simp

section \<open>The derived matrix and the management toggles\<close>

text \<open>The interfaces on which the input chain accepts new management connections, apart from the admin network.\<close>

definition toggle_ifaces :: "Config \<Rightarrow> string set" where
  "toggle_ifaces c = (if c_MgmtOnLAN c \<and> c_LANInterface c \<noteq> [] then {c_LANInterface c} else {})
     \<union> (if c_MgmtOnWAN c \<and> c_WANInterface c \<noteq> [] then {c_WANInterface c} else {})"

definition mgmt_ifaces :: "Config \<Rightarrow> string set" where
  "mgmt_ifaces c =
     (if serviceACLRows c \<noteq> [] then snd ` set (filter (\<lambda>(r, _). sa_HTTPS r \<or> sa_SSH r) (serviceACLRows c))
      else toggle_ifaces c)"

lemma zoneIfaceMap_unique:
  assumes "distinct (map z_Name (c_Zones c))" "z \<in> set (c_Zones c)"
  shows "zoneIfaceMap c (z_Name z) = IfaceName z"
proof -
  let ?l = "rev (map (\<lambda>z. (z_Name z, IfaceName z)) (c_Zones c))"
  have "distinct (map fst ?l)" using assms(1) by (simp add: rev_map [symmetric] comp_def)
  moreover have "(z_Name z, IfaceName z) \<in> set ?l" using assms(2) by auto
  ultimately have "map_of ?l (z_Name z) = Some (IfaceName z)" by (rule map_of_is_SomeI)
  then show ?thesis by (simp add: zoneIfaceMap_def)
qed

definition plain_zone_names :: "Config \<Rightarrow> bool" where
  "plain_zone_names c \<longleftrightarrow> list_all (\<lambda>z. z_Name z \<noteq> ''wan'' \<and> z_Name z \<noteq> ''lan'' \<and> z_Name z \<noteq> ''vpn'') (c_Zones c)"

text \<open>The interface a row of an offered zone is rendered for.\<close>

lemma default_row_zone: "sa_Zone (default_row c z) = az_Zone z"
  by (simp add: default_row_def empty_row_def Let_def)

lemma default_row_mgmt: "sa_HTTPS (default_row c z) \<or> sa_SSH (default_row c z) \<longleftrightarrow>
    az_Kind z = ''wan'' \<and> c_MgmtOnWAN c \<or> az_Kind z = ''lan'' \<and> c_MgmtOnLAN c"
  by (simp add: default_row_def empty_row_def Let_def)

lemma acl_iface_update: "acl_iface (c \<lparr> c_ServiceACLs := m \<rparr>) = acl_iface c"
  by (simp add: fun_eq_iff acl_iface_def zoneIfaceMap_def)

lemma offered_row:
  assumes "objects_ok c" "plain_zone_names c" "z \<in> set (accessZones a c)" "az_Kind z = ''wan'' \<or> az_Kind z = ''lan''"
  shows "acl_iface c (default_row c z) = az_Interface z" "az_Interface z \<noteq> []"
    "az_Kind z = ''wan'' \<Longrightarrow> az_Interface z = c_WANInterface c"
    "az_Interface z = c_LANInterface c \<and> c_LANInterface c \<noteq> [] \<or> az_Kind z = ''wan''
       \<or> (\<exists>y \<in> set (c_Zones c). z_Kind y = ''lan'' \<and> az_Interface z = IfaceName y)"
proof -
  consider (wan) "c_WANInterface c \<noteq> []" "az_Zone z = ''wan''" "az_Interface z = c_WANInterface c" "az_Kind z = ''wan''"
    | (lan) "c_LANInterface c \<noteq> []" "az_Zone z = ''lan''" "az_Interface z = c_LANInterface c" "az_Kind z = ''lan''"
    | (zone) y where "y \<in> set (c_Zones c)" "az_Zone z = z_Name y" "az_Interface z = IfaceName y" "az_Kind z = z_Kind y" "z_Kind y \<noteq> ''wan''"
    using assms(3,4) unfolding accessZones_def Let_def by (auto split: if_splits)
  note cs = this
  show "acl_iface c (default_row c z) = az_Interface z"
    using cs
  proof cases
    case zone
    then have "z_Name y \<noteq> ''wan''" "z_Name y \<noteq> ''lan''" "z_Name y \<noteq> ''vpn''"
      using assms(2) by (simp_all add: plain_zone_names_def list_all_iff)
    then have "acl_iface c (default_row c z) = zoneIfaceMap c (z_Name y)" by (simp add: acl_iface_def default_row_zone zone)
    also have "\<dots> = IfaceName y" using assms(1) zone by (intro zoneIfaceMap_unique) (auto simp: objects_ok_def)
    finally show ?thesis by (simp add: zone)
  qed (simp_all add: acl_iface_def default_row_zone)
  show "az_Interface z \<noteq> []"
    using cs
  proof cases
    case zone
    then have "zone_ok y" using assms(1) by (simp add: objects_ok_def)
    then have "validIface (IfaceName y)" by (simp add: zone_ok_def)
    then show ?thesis by (simp add: validIface_def zone)
  qed simp_all
  show "az_Kind z = ''wan'' \<Longrightarrow> az_Interface z = c_WANInterface c" using cs by cases simp_all
  show "az_Interface z = c_LANInterface c \<and> c_LANInterface c \<noteq> [] \<or> az_Kind z = ''wan''
       \<or> (\<exists>y \<in> set (c_Zones c). z_Kind y = ''lan'' \<and> az_Interface z = IfaceName y)"
    using cs
  proof cases
    case zone
    then have "z_Kind y = ''lan''" using assms(4) by auto
    with zone show ?thesis by auto
  qed simp_all
qed

text \<open>
  Opening the matrix for the first time and saving what it shows closes no management
  access: every interface the toggles open stays open, and the only interfaces added are
  those of zones of kind LAN when management is on for the LAN.
\<close>

theorem derived_matrix_management:
  assumes "objects_ok c" "plain_zone_names c" "c_ServiceACLs c = []"
  shows "mgmt_ifaces c \<subseteq> mgmt_ifaces (c \<lparr> c_ServiceACLs := defaultACLs c (accessZones a c) \<rparr>)
    \<and> mgmt_ifaces (c \<lparr> c_ServiceACLs := defaultACLs c (accessZones a c) \<rparr>)
        \<subseteq> mgmt_ifaces c \<union> {i. c_MgmtOnLAN c \<and> (\<exists>z \<in> set (c_Zones c). z_Kind z = ''lan'' \<and> i = IfaceName z)}"
proof -
  let ?c = "c \<lparr> c_ServiceACLs := defaultACLs c (accessZones a c) \<rparr>"
  have rows: "set (serviceACLRows ?c) =
      {(default_row c z, acl_iface c (default_row c z)) | z. z \<in> set (accessZones a c) \<and> acl_iface c (default_row c z) \<noteq> []}"
    by (auto simp: serviceACLRows_def acl_iface_update defaultACLs_def)
  have old: "mgmt_ifaces c = toggle_ifaces c" using assms(3) by (simp add: mgmt_ifaces_def serviceACLRows_def)
  let ?M = "{acl_iface c (default_row c z) | z. z \<in> set (accessZones a c) \<and> acl_iface c (default_row c z) \<noteq> []
      \<and> (az_Kind z = ''wan'' \<and> c_MgmtOnWAN c \<or> az_Kind z = ''lan'' \<and> c_MgmtOnLAN c)}"
  have M: "snd ` set (filter (\<lambda>(r, _). sa_HTTPS r \<or> sa_SSH r) (serviceACLRows ?c)) = ?M"
    using default_row_mgmt rows by (auto simp: image_iff) blast+
  have "toggle_ifaces c \<subseteq> ?M"
  proof
    fix i
    assume "i \<in> toggle_ifaces c"
    then consider "c_MgmtOnLAN c" "c_LANInterface c \<noteq> []" "i = c_LANInterface c"
      | "c_MgmtOnWAN c" "c_WANInterface c \<noteq> []" "i = c_WANInterface c"
      by (auto simp: toggle_ifaces_def split: if_splits)
    then show "i \<in> ?M"
    proof cases
      case 1
      let ?z = "\<lparr> az_Zone = ''lan'', az_Label = ''LAN'', az_Interface = c_LANInterface c, az_Kind = ''lan'', az_Untrusted = False \<rparr>"
      have z: "?z \<in> set (accessZones a c)" using 1 by (simp add: accessZones_def)
      have "acl_iface c (default_row c ?z) = i" using offered_row(1) [OF assms(1,2) z] 1 by simp
      with z 1 show ?thesis by (intro CollectI exI [of _ ?z]) simp
    next
      case 2
      let ?z = "\<lparr> az_Zone = ''wan'', az_Label = ''WAN (internet)'', az_Interface = c_WANInterface c, az_Kind = ''wan'', az_Untrusted = True \<rparr>"
      have z: "?z \<in> set (accessZones a c)" using 2 by (simp add: accessZones_def)
      have "acl_iface c (default_row c ?z) = i" using offered_row(1) [OF assms(1,2) z] 2 by simp
      with z 2 show ?thesis by (intro CollectI exI [of _ ?z]) simp
    qed
  qed
  moreover have "?M \<subseteq> toggle_ifaces c \<union> {i. c_MgmtOnLAN c \<and> (\<exists>z \<in> set (c_Zones c). z_Kind z = ''lan'' \<and> i = IfaceName z)}"
  proof
    fix i
    assume "i \<in> ?M"
    then obtain z where z: "z \<in> set (accessZones a c)" "i = acl_iface c (default_row c z)"
      "az_Kind z = ''wan'' \<and> c_MgmtOnWAN c \<or> az_Kind z = ''lan'' \<and> c_MgmtOnLAN c" by blast
    note o = offered_row [OF assms(1,2) z(1)]
    show "i \<in> toggle_ifaces c \<union> {i. c_MgmtOnLAN c \<and> (\<exists>z \<in> set (c_Zones c). z_Kind z = ''lan'' \<and> i = IfaceName z)}"
      using o z(2,3) by (auto simp: toggle_ifaces_def)
  qed
  moreover have "mgmt_ifaces ?c = (if serviceACLRows ?c \<noteq> [] then ?M else toggle_ifaces c)"
    unfolding mgmt_ifaces_def M by (simp add: toggle_ifaces_def)
  ultimately show ?thesis unfolding old by (simp split: if_split)
qed

theorem derived_matrix_management_witness:
  "''lan0'' \<in> mgmt_ifaces (ex_cfg \<lparr> c_ServiceACLs := defaultACLs ex_cfg (accessZones ex_app ex_cfg) \<rparr>)"
proof -
  have "plain_zone_names ex_cfg" "c_ServiceACLs ex_cfg = []" "''lan0'' \<in> mgmt_ifaces ex_cfg"
    by (simp_all add: plain_zone_names_def ex_defs mgmt_ifaces_def serviceACLRows_def toggle_ifaces_def)
  with derived_matrix_management [OF ex_cfg_objects, of ex_app] show ?thesis by blast
qed

section \<open>Reading the matrix changes it\<close>

definition ex_row :: ServiceACL where
  "ex_row = (empty_row ''lan'') \<lparr> sa_HTTPS := True \<rparr>"

definition ex_acl_cfg :: Config where
  "ex_acl_cfg = ex_cfg \<lparr> c_ServiceACLs := [ex_row] \<rparr>"

definition ex_acl_app :: gwApp where
  "ex_acl_app = ex_app \<lparr> ga_gw := Some ex_acl_cfg \<rparr>"

lemma objects_ok_acls: "objects_ok (c \<lparr> c_ServiceACLs := m \<rparr>) = objects_ok c"
  by (simp add: objects_ok_def)

lemma ex_acl_rows: "serviceACLRows ex_acl_cfg = [(ex_row, ''lan0'')]"
  by (simp add: serviceACLRows_def ex_acl_cfg_def acl_iface_def ex_row_def empty_row_def ex_cfg_def)

lemma ex_acl_valid: "Validate ex_acl_cfg = None"
proof -
  have "gateway_ok ex_acl_cfg"
    using Validate_gatewayD [OF ex_cfg_valid]
    by (simp add: gateway_ok_def ManagementReachable_def ex_acl_rows) (simp add: ex_row_def ex_acl_cfg_def ex_cfg_def)
  moreover have "objects_ok ex_acl_cfg" using ex_cfg_objects by (simp add: ex_acl_cfg_def objects_ok_acls)
  ultimately show ?thesis
    using ex_cfg_valid by (simp add: Validate_iff) (simp add: ex_acl_cfg_def ex_cfg_def)
qed

theorem device_access_put_reachable_witness:
  "apiDeviceAccessPut ex_io ex_gw_rq (Inr ([ex_row], None)) ex_app
     = (GOk, gw_record ex_gw_rq ''device-access'' ''firewall'' ''success'' ''security'' (setGateway ex_acl_cfg ex_app))
   \<and> ManagementReachable ex_acl_cfg"
proof -
  have z: "''lan'' \<in> az_Zone ` set (accessZones ex_app ex_cfg)" by (simp add: accessZones_def ex_cfg_def)
  have t: "ex_row \<lparr> sa_Zone := TrimSpace (sa_Zone ex_row) \<rparr> = ex_row" "sa_Zone ex_row = ''lan''"
    by (simp_all add: ex_row_def empty_row_def is_graph_def)
  have p: "apiDeviceAccessPut ex_io ex_gw_rq (Inr ([ex_row], None)) ex_app
     = (GOk, gw_record ex_gw_rq ''device-access'' ''firewall'' ''success'' ''security'' (setGateway ex_acl_cfg ex_app))"
    using z t ex_acl_valid ex_io_ok by (simp add: apiDeviceAccessPut_def ex_app_simps ex_acl_cfg_def Let_def)
  have "c_ServiceACLs ex_acl_cfg \<noteq> c_ServiceACLs ex_cfg" by (simp add: ex_acl_cfg_def ex_cfg_def)
  then have "Some ex_acl_cfg \<noteq> ga_gw ex_app" using ex_app_simps(3) by auto
  then have n: "gw_record ex_gw_rq w t r v (setGateway ex_acl_cfg ex_app) \<noteq> ex_app" for w t r v
    using gw_record_frame(1) setGateway_frame(1) by metis
  from device_access_put_reachable [OF p] n p show ?thesis by (simp add: ex_acl_cfg_def ex_cfg_def)
qed

text \<open>
  A stored matrix with one row for the LAN is in force and valid. Displaying the page, a
  read request, replaces that row by the denied row of the WAN in the stored configuration:
  the management row is gone, and the configuration no longer validates.
\<close>

theorem reading_matrix_overwrites:
  "Validate (fst (getGateway ex_acl_app)) = None
   \<and> c_ServiceACLs (fst (getGateway (snd (apiDeviceAccessGet ex_acl_app)))) = [empty_row ''wan'']
   \<and> \<not> ManagementReachable (fst (getGateway (snd (apiDeviceAccessGet ex_acl_app))))
   \<and> Validate (fst (getGateway (snd (apiDeviceAccessGet ex_acl_app)))) \<noteq> None"
proof -
  let ?c = "ex_cfg \<lparr> c_ServiceACLs := [empty_row ''wan''] \<rparr>"
  have g: "getGateway ex_acl_app = (ex_acl_cfg, True)" by (simp add: getGateway_def ex_acl_app_def)
  have z: "accessZones ex_acl_app ex_acl_cfg \<noteq> []" "az_Zone (hd (accessZones ex_acl_app ex_acl_cfg)) = ''wan''"
    by (simp_all add: accessZones_def ex_acl_cfg_def ex_cfg_def)
  then obtain y ys where y: "accessZones ex_acl_app ex_acl_cfg = y # ys" "az_Zone y = ''wan''" by (cases "accessZones ex_acl_app ex_acl_cfg") auto
  have o: "overwrite [ex_row] (align_acls [ex_row] (accessZones ex_acl_app ex_acl_cfg)) = [empty_row ''wan'']"
    by (simp add: y overwrite_def align_acls_def) (simp add: ex_row_def empty_row_def)
  have s: "fst (getGateway (snd (apiDeviceAccessGet ex_acl_app))) = ?c"
    using o by (simp add: apiDeviceAccessGet_def g ex_acl_cfg_def Let_def)
  have m: "\<not> ManagementReachable ?c"
    by (simp add: ManagementReachable_def serviceACLRows_def acl_iface_def empty_row_def ex_cfg_def)
  then have "Validate ?c \<noteq> None" using Validate_reachable [of ?c] by (auto simp: ex_cfg_def)
  with m s g ex_acl_valid show ?thesis by simp
qed

end
