(* ===== verification/Events.thy ===== *)
theory Events
  imports Kea
begin

text \<open>
  The event pipeline's pure part, \<open>internal/events\<close>: severities and their order, the
  translation of journal entries and Suricata alerts into events, and the monthly partitions
  of the event table with their retention.

  Go's JSON decoder turns a line into a record; the parsers below start at that record. Times
  are microseconds since the epoch where only their order matters, and calendar dates where
  months are computed.
\<close>

section \<open>Severities\<close>

definition severities :: "string list" where
  "severities = [''info'', ''notice'', ''warning'', ''error'', ''critical'', ''security'']"

fun rank_loop :: "int \<Rightarrow> string list \<Rightarrow> string \<Rightarrow> int" where
  "rank_loop i [] sev = -1"
| "rank_loop i (s # ss) sev = (if s = sev then i else rank_loop (i + 1) ss sev)"

definition Rank :: "string \<Rightarrow> int" where
  "Rank sev = rank_loop 0 severities sev"

definition ValidSeverity :: "string \<Rightarrow> bool" where
  "ValidSeverity s \<longleftrightarrow> Rank s \<ge> 0"

text \<open>\<open>None\<close> is the nil slice for an unknown severity.\<close>

definition SeveritiesAtLeast :: "string \<Rightarrow> string list option" where
  "SeveritiesAtLeast m = (let r = Rank m in if r < 0 then None else Some (drop (nat r) severities))"

definition FromJournalPriority :: "int \<Rightarrow> string" where
  "FromJournalPriority p =
     (if p \<le> 2 then ''critical'' else if p = 3 then ''error'' else if p = 4 then ''warning''
      else if p = 5 then ''notice'' else ''info'')"

definition SeverityFromSuricata :: "int \<Rightarrow> string" where
  "SeverityFromSuricata s = (if s = 1 then ''security'' else if s = 2 then ''warning'' else ''notice'')"

section \<open>Events\<close>

record Event =
  ev_ID :: int
  ev_TS :: int
  ev_Module :: string
  ev_Severity :: string
  ev_Host :: string
  ev_Username :: string
  ev_SrcIP :: string
  ev_DstIP :: string
  ev_MAC :: string
  ev_Iface :: string
  ev_Action :: string
  ev_Result :: string
  ev_Message :: string
  ev_Raw :: obj

text \<open>Times are microseconds since the epoch; the zero \<open>time.Time\<close> is the start of year one.\<close>

definition zero_time :: int where
  "zero_time = - 62135596800000000"

definition zero_Event :: Event where
  "zero_Event = \<lparr> ev_ID = 0, ev_TS = zero_time, ev_Module = [], ev_Severity = [], ev_Host = [], ev_Username = [], ev_SrcIP = [],
     ev_DstIP = [], ev_MAC = [], ev_Iface = [], ev_Action = [], ev_Result = [], ev_Message = [], ev_Raw = [] \<rparr>"

section \<open>The journal\<close>

definition DefaultUnits :: "string list" where
  "DefaultUnits =
     [''saguaro.service'', ''saguaro-eventd.service'', ''kea-dhcp4-server.service'', ''kea-dhcp-ddns-server.service'',
      ''kea-ctrl-agent.service'', ''unbound.service'', ''pdns.service'', ''nginx.service'', ''step-ca-saguaro.service'',
      ''nftables.service'', ''ssh.service'', ''suricata.service'']"

definition unitModule :: "(string \<times> string) list" where
  "unitModule =
     [(''kea-dhcp4'', ''dhcp''), (''kea-dhcp-ddns'', ''dhcp''), (''kea-ctrl-agent'', ''dhcp''), (''unbound'', ''dns''),
      (''pdns'', ''dns''), (''nginx'', ''proxy''), (''step-ca'', ''certificates''), (''nftables'', ''firewall''),
      (''suricata'', ''ids''), (''ssh'', ''system''), (''saguaro-eventd'', ''control-plane''),
      (''saguaro-backup'', ''backup''), (''saguaro'', ''control-plane'')]"

definition ModuleForUnit :: "string \<Rightarrow> string" where
  "ModuleForUnit unit =
     (let u = TrimSuffix unit ''.service''
      in case find (\<lambda>(p, _). HasPrefix u p) unitModule of None \<Rightarrow> ''system'' | Some (_, m) \<Rightarrow> m)"

text \<open>\<open>je_Message\<close> is the text when the field holds a JSON string.\<close>

record JournalEntry =
  je_Cursor :: string
  je_Realtime :: string
  je_Message :: "string option"
  je_Priority :: string
  je_Unit :: string
  je_Hostname :: string
  je_Identifier :: string

text \<open>Unbound logs policy hits at info priority; they become DNS filter events of at least notice.\<close>

definition promote_rpz :: "string \<Rightarrow> Event \<Rightarrow> Event" where
  "promote_rpz msg e =
     (if ev_Module e = ''dns'' \<and> Contains_str msg ''saguaro-rpz''
      then e \<lparr> ev_Module := ''dns-filter'', ev_Action := ''rpz-block'',
               ev_Severity := (if Rank (ev_Severity e) < Rank ''notice'' then ''notice'' else ev_Severity e) \<rparr>
      else e)"

text \<open>The event, the cursor and whether to keep it; \<open>now\<close> is the clock, for lines without a time stamp.\<close>

definition ParseJournalLine :: "int \<Rightarrow> JournalEntry option \<Rightarrow> Event \<times> string \<times> bool" where
  "ParseJournalLine now line =
     (case line of
        None \<Rightarrow> (zero_Event, [], False)
      | Some je \<Rightarrow>
          (case je_Message je of
             None \<Rightarrow> (zero_Event, je_Cursor je, False)
           | Some msg \<Rightarrow>
               if TrimSpace msg = [] then (zero_Event, je_Cursor je, False)
               else let prio = (case Atoi (je_Priority je) of None \<Rightarrow> 6 | Some p \<Rightarrow> p);
                        ts = (case Atoi (je_Realtime je) of None \<Rightarrow> now | Some us \<Rightarrow> us);
                        unit = (if je_Unit je = [] then je_Identifier je else je_Unit je)
                    in if unit = [] then (zero_Event, je_Cursor je, False)
                       else (promote_rpz msg (zero_Event \<lparr> ev_TS := ts, ev_Module := ModuleForUnit unit,
                               ev_Severity := FromJournalPriority prio, ev_Host := je_Hostname je, ev_Action := ''log'',
                               ev_Message := msg, ev_Raw := [(''unit'', JStr unit)] \<rparr>),
                             je_Cursor je, True)))"

section \<open>Suricata alerts\<close>

text \<open>\<open>er_Time\<close> is the parsed time stamp, when it parses.\<close>

record eveRecord =
  er_Time :: "int option"
  er_EventType :: string
  er_SrcIP :: string
  er_DestIP :: string
  er_Proto :: string
  er_InIface :: string
  er_AlertAction :: string
  er_SignatureID :: int
  er_Signature :: string
  er_Category :: string
  er_AlertSeverity :: int

definition ParseEveLine :: "int \<Rightarrow> eveRecord option \<Rightarrow> Event \<times> bool" where
  "ParseEveLine now line =
     (case line of
        None \<Rightarrow> (zero_Event, False)
      | Some rec \<Rightarrow>
          if er_EventType rec \<noteq> ''alert'' then (zero_Event, False)
          else (zero_Event \<lparr> ev_TS := (case er_Time rec of None \<Rightarrow> now | Some t \<Rightarrow> t), ev_Module := ''ids'',
                  ev_Severity := SeverityFromSuricata (er_AlertSeverity rec), ev_SrcIP := er_SrcIP rec,
                  ev_DstIP := er_DestIP rec, ev_Iface := er_InIface rec, ev_Action := er_AlertAction rec,
                  ev_Result := er_Category rec,
                  ev_Message := (if er_Signature rec = [] then ''suricata alert'' else er_Signature rec),
                  ev_Raw := [(''action'', JStr (er_AlertAction rec)), (''category'', JStr (er_Category rec)),
                             (''proto'', JStr (er_Proto rec)), (''sid'', JNum (er_SignatureID rec))] \<rparr>, True))"

section \<open>What the translation guarantees\<close>

lemma rank_loop_iff: "rank_loop i ss sev \<ge> 0 \<longleftrightarrow> sev \<in> set ss" if "0 \<le> i"
  using that by (induction ss arbitrary: i) auto

lemma ValidSeverity_iff: "ValidSeverity s \<longleftrightarrow> s \<in> set severities"
  by (simp add: ValidSeverity_def Rank_def rank_loop_iff)

lemma rank_loop_nth: "distinct ss \<Longrightarrow> k < length ss \<Longrightarrow> rank_loop i ss (ss ! k) = i + int k"
  by (induction ss arbitrary: i k) (auto simp: nth_Cons split: nat.splits)

lemma distinct_severities: "distinct severities"
  by (simp add: severities_def)

lemma Rank_nth: "k < length severities \<Longrightarrow> Rank (severities ! k) = int k"
  using rank_loop_nth [OF distinct_severities] by (simp add: Rank_def)

text \<open>Filtering by the listed severities is filtering by rank.\<close>

lemma SeveritiesAtLeast_mem:
  assumes "SeveritiesAtLeast m = Some ss"
  shows "s \<in> set ss \<longleftrightarrow> ValidSeverity s \<and> Rank m \<le> Rank s"
proof -
  from assms have r: "0 \<le> Rank m" and ss: "ss = drop (nat (Rank m)) severities"
    by (auto simp: SeveritiesAtLeast_def Let_def split: if_splits)
  show ?thesis
  proof
    assume "s \<in> set ss"
    then obtain k where k: "k < length severities - nat (Rank m)" "s = severities ! (nat (Rank m) + k)"
      using ss by (auto simp: in_set_conv_nth)
    then have "Rank s = int (nat (Rank m) + k)" by (intro Rank_nth [of "nat (Rank m) + k", folded k(2)]) simp
    then show "ValidSeverity s \<and> Rank m \<le> Rank s" using r by (simp add: ValidSeverity_def)
  next
    assume *: "ValidSeverity s \<and> Rank m \<le> Rank s"
    then obtain k where k: "k < length severities" "s = severities ! k" by (auto simp: ValidSeverity_iff in_set_conv_nth)
    then have "nat (Rank m) \<le> k" using * Rank_nth [OF k(1)] by (simp add: nat_le_iff)
    then have "drop (nat (Rank m)) severities ! (k - nat (Rank m)) = s" "k - nat (Rank m) < length (drop (nat (Rank m)) severities)"
      using k by auto
    then show "s \<in> set ss" unfolding ss by (metis nth_mem)
  qed
qed

lemma Rank_values: "Rank ''info'' = 0" "Rank ''notice'' = 1" "Rank ''warning'' = 2" "Rank ''error'' = 3"
  "Rank ''critical'' = 4" "Rank ''security'' = 5"
  by (simp_all add: Rank_def severities_def)

lemma FromJournalPriority_valid: "ValidSeverity (FromJournalPriority p)"
  by (simp add: FromJournalPriority_def ValidSeverity_def Rank_values)

text \<open>
  Every event the journal and the IDS translation keep can be stored: its severity is one
  of the six the table's check admits, its module and message are not empty, and a policy hit
  of the resolver is never below notice. Nothing is kept of a line that does not decode, has
  no text message or no unit, or is not an alert.
\<close>

theorem parsed_events_storable:
  "(case ParseJournalLine now line of (e, cursor, keep) \<Rightarrow>
      (keep \<longleftrightarrow> (\<exists>je msg. line = Some je \<and> je_Message je = Some msg \<and> TrimSpace msg \<noteq> []
                   \<and> (je_Unit je \<noteq> [] \<or> je_Identifier je \<noteq> [])))
    \<and> (keep \<longrightarrow> ValidSeverity (ev_Severity e) \<and> ev_Message e \<noteq> [] \<and> ev_Module e \<noteq> []
         \<and> (ev_Module e = ''dns-filter'' \<longrightarrow> Rank ''notice'' \<le> Rank (ev_Severity e))
         \<and> (ev_Module e = ''dns'' \<longrightarrow> \<not> Contains_str (ev_Message e) ''saguaro-rpz'')))
   \<and> (case ParseEveLine now eve of (e, keep) \<Rightarrow>
        (keep \<longleftrightarrow> (\<exists>r. eve = Some r \<and> er_EventType r = ''alert''))
      \<and> (keep \<longrightarrow> ValidSeverity (ev_Severity e) \<and> ev_Message e \<noteq> [] \<and> ev_Module e = ''ids''))"
proof -
  have notice: "ValidSeverity ''notice''" by (simp add: ValidSeverity_def Rank_values)
  have mods: "ModuleForUnit u \<noteq> []" "ModuleForUnit u \<noteq> ''dns-filter''" for u
  proof -
    have "m \<noteq> [] \<and> m \<noteq> ''dns-filter''" if "find P unitModule = Some (p, m)" for P p m
    proof -
      from that have "(p, m) \<in> set unitModule" by (metis find_Some_iff nth_mem)
      then show ?thesis unfolding unitModule_def by simp (elim disjE; simp)
    qed
    then show "ModuleForUnit u \<noteq> []" "ModuleForUnit u \<noteq> ''dns-filter''"
      by (auto simp: ModuleForUnit_def Let_def split: option.split)
  qed
  have j: "case ParseJournalLine now line of (e, cursor, keep) \<Rightarrow>
      (keep \<longleftrightarrow> (\<exists>je msg. line = Some je \<and> je_Message je = Some msg \<and> TrimSpace msg \<noteq> []
                   \<and> (je_Unit je \<noteq> [] \<or> je_Identifier je \<noteq> [])))
    \<and> (keep \<longrightarrow> ValidSeverity (ev_Severity e) \<and> ev_Message e \<noteq> [] \<and> ev_Module e \<noteq> []
         \<and> (ev_Module e = ''dns-filter'' \<longrightarrow> Rank ''notice'' \<le> Rank (ev_Severity e))
         \<and> (ev_Module e = ''dns'' \<longrightarrow> \<not> Contains_str (ev_Message e) ''saguaro-rpz''))"
  proof (cases line)
    case (Some je)
    show ?thesis
    proof (cases "je_Message je")
      case (Some msg)
      have "msg \<noteq> []" if "TrimSpace msg \<noteq> []" using that by auto
      then show ?thesis
        using \<open>line = Some je\<close> Some mods FromJournalPriority_valid notice
        by (simp add: ParseJournalLine_def Let_def promote_rpz_def)
    qed (simp add: ParseJournalLine_def \<open>line = Some je\<close>)
  qed (simp add: ParseJournalLine_def)
  have "case ParseEveLine now eve of (e, keep) \<Rightarrow>
        (keep \<longleftrightarrow> (\<exists>r. eve = Some r \<and> er_EventType r = ''alert''))
      \<and> (keep \<longrightarrow> ValidSeverity (ev_Severity e) \<and> ev_Message e \<noteq> [] \<and> ev_Module e = ''ids'')"
    by (cases eve) (simp_all add: ParseEveLine_def SeverityFromSuricata_def ValidSeverity_def Rank_values)
  with j show ?thesis by blast
qed

definition ex_journal :: JournalEntry where
  "ex_journal = \<lparr> je_Cursor = ''s=1'', je_Realtime = ''7'', je_Message = Some ''rpz: applied [saguaro-rpz]'',
     je_Priority = ''6'', je_Unit = ''unbound.service'', je_Hostname = ''gw'', je_Identifier = [] \<rparr>"

theorem parsed_events_storable_witness:
  "Rank ''notice'' \<le> Rank (ev_Severity (fst (ParseJournalLine 0 (Some ex_journal))))"
proof -
  have "snd (snd (ParseJournalLine 0 (Some ex_journal)))" "ev_Module (fst (ParseJournalLine 0 (Some ex_journal))) = ''dns-filter''"
    by code_simp+
  then show ?thesis using parsed_events_storable [where now = 0 and line = "Some ex_journal" and eve = None] by (auto split: prod.splits)
qed

end
