(* ===== verification/Partitions.thy ===== *)
theory Partitions
  imports Events
begin

text \<open>
  The monthly partitions of the event table (\<open>internal/events/events.go\<close>): their names and
  bounds, creation for the current and the next month, and retention by dropping old ones.
  Dates are Gregorian calendar dates of the years 0 to 9999 in UTC; \<open>AddDate\<close> normalizes a day
  that the target month does not have into the month after, as \<open>time.Date\<close> does.
  The database is the list of its partitions; which statements succeed is a parameter.
\<close>

section \<open>Calendar\<close>

record date =
  d_Year :: int
  d_Month :: int
  d_Day :: int

definition leap :: "int \<Rightarrow> bool" where
  "leap y \<longleftrightarrow> y mod 4 = 0 \<and> (y mod 100 \<noteq> 0 \<or> y mod 400 = 0)"

definition days_in :: "int \<Rightarrow> int \<Rightarrow> int" where
  "days_in y m = (if m = 2 then (if leap y then 29 else 28) else if m \<in> {4, 6, 9, 11} then 30 else 31)"

definition valid_date :: "date \<Rightarrow> bool" where
  "valid_date t \<longleftrightarrow> 1 \<le> d_Month t \<and> d_Month t \<le> 12 \<and> 1 \<le> d_Day t \<and> d_Day t \<le> days_in (d_Year t) (d_Month t)"

text \<open>Months counted from year zero.\<close>

definition month_index :: "date \<Rightarrow> int" where
  "month_index t = 12 * d_Year t + d_Month t - 1"

definition month_start :: "int \<Rightarrow> date" where
  "month_start k = \<lparr> d_Year = k div 12, d_Month = k mod 12 + 1, d_Day = 1 \<rparr>"

text \<open>\<open>t.AddDate(0, n, 0)\<close>.\<close>

definition AddMonths :: "int \<Rightarrow> date \<Rightarrow> date" where
  "AddMonths n t =
     (let k = month_index t + n; dim = days_in (d_Year (month_start k)) (d_Month (month_start k))
      in if d_Day t \<le> dim then (month_start k) \<lparr> d_Day := d_Day t \<rparr>
         else (month_start (k + 1)) \<lparr> d_Day := d_Day t - dim \<rparr>)"

section \<open>Names and bounds\<close>

fun pad_digits :: "nat \<Rightarrow> nat \<Rightarrow> string" where
  "pad_digits 0 n = []"
| "pad_digits (Suc w) n = pad_digits w (n div 10) @ [digit_char (n mod 10)]"

definition PartitionName :: "date \<Rightarrow> string" where
  "PartitionName t = ''events_'' @ pad_digits 4 (nat (d_Year t)) @ pad_digits 2 (nat (d_Month t))"

definition PartitionBounds :: "date \<Rightarrow> date \<times> date" where
  "PartitionBounds t =
     (let from = t \<lparr> d_Day := 1 \<rparr> in (from, AddMonths 1 from))"

record partition =
  pt_Name :: string
  pt_From :: date
  pt_To :: date

definition partition_of :: "date \<Rightarrow> partition" where
  "partition_of t = \<lparr> pt_Name = PartitionName t, pt_From = fst (PartitionBounds t), pt_To = snd (PartitionBounds t) \<rparr>"

text \<open>\<open>CREATE TABLE IF NOT EXISTS\<close> for the month of one date; an error stops the loop.\<close>

fun ensure_loop :: "(string \<Rightarrow> bool) \<Rightarrow> date list \<Rightarrow> partition list \<Rightarrow> string option \<times> partition list" where
  "ensure_loop exec [] db = (None, db)"
| "ensure_loop exec (t # ts) db =
     (if \<not> exec (PartitionName t) then (Some (PartitionName t), db)
      else ensure_loop exec ts (if PartitionName t \<in> pt_Name ` set db then db else db @ [partition_of t]))"

definition EnsurePartitions :: "(string \<Rightarrow> bool) \<Rightarrow> date \<Rightarrow> partition list \<Rightarrow> string option \<times> partition list" where
  "EnsurePartitions exec now db = ensure_loop exec [now, AddMonths 1 now] db"

text \<open>\<open>^events_(\d{6})$\<close> and \<open>time.Parse("200601", ...)\<close>: the month a name stands for.\<close>

definition partition_month :: "string \<Rightarrow> int option" where
  "partition_month name =
     (let ds = drop 7 name
      in if take 7 name = ''events_'' \<and> length ds = 6 \<and> list_all is_digit ds
         then let m = digits_val (drop 4 ds)
              in if 1 \<le> m \<and> m \<le> 12 then Some (12 * int (digits_val (take 4 ds)) + int m - 1) else None
         else None)"

fun drop_loop :: "(string \<Rightarrow> bool) \<Rightarrow> string list \<Rightarrow> string list \<Rightarrow> partition list \<Rightarrow> string list \<times> string option \<times> partition list" where
  "drop_loop exec dropped [] db = (dropped, None, db)"
| "drop_loop exec dropped (n # ns) db =
     (if \<not> exec n then (dropped, Some n, db)
      else drop_loop exec (dropped @ [n]) ns (filter (\<lambda>p. pt_Name p \<noteq> n) db))"

definition prune_cutoff :: "date \<Rightarrow> int \<Rightarrow> int" where
  "prune_cutoff now keepMonths = month_index (fst (PartitionBounds (AddMonths (- max 1 keepMonths) now)))"

definition PruneOldPartitions ::
  "bool \<Rightarrow> (string \<Rightarrow> bool) \<Rightarrow> date \<Rightarrow> int \<Rightarrow> partition list \<Rightarrow> string list \<times> string option \<times> partition list" where
  "PruneOldPartitions listed exec now keepMonths db =
     (if \<not> listed then ([], Some ''pg_tables'', db)
      else drop_loop exec []
       (filter (\<lambda>n. case partition_month n of None \<Rightarrow> False | Some k \<Rightarrow> k < prune_cutoff now keepMonths) (map pt_Name db)) db)"

section \<open>Round trip of the names\<close>

lemma pad_digits_val: "digits_val (pad_digits w n) = n mod 10 ^ w"
proof (induction w arbitrary: n)
  case (Suc w)
  have "n mod 10 ^ Suc w = 10 * (n div 10 mod 10 ^ w) + n mod 10" by (simp add: mod_mult2_eq)
  with Suc show ?case by simp
qed simp

lemma pad_digits_props: "length (pad_digits w n) = w" "list_all is_digit (pad_digits w n)"
  by (induction w arbitrary: n) auto

lemma days_in_bounds: "28 \<le> days_in y m" "days_in y m \<le> 31"
  by (simp_all add: days_in_def)

lemma month_start_index: "month_index (month_start k) = k"
  by (simp add: month_index_def month_start_def)

lemma partition_month_name:
  assumes "valid_date t" "0 \<le> d_Year t" "d_Year t \<le> 9999"
  shows "partition_month (PartitionName t) = Some (month_index t)"
proof -
  have "nat (d_Year t) < 10 ^ 4" "nat (d_Month t) < 10 ^ 2"
    using assms by (auto simp: valid_date_def nat_less_iff)
  then have "nat (d_Year t) mod 10 ^ 4 = nat (d_Year t)" "nat (d_Month t) mod 10 ^ 2 = nat (d_Month t)"
    by simp_all
  moreover have "Suc 0 \<le> nat (d_Month t)" "nat (d_Month t) \<le> 12"
    using assms(1) by (auto simp: valid_date_def)
  ultimately show ?thesis
    using assms pad_digits_props [of 4 "nat (d_Year t)"] pad_digits_props [of 2 "nat (d_Month t)"]
    by (simp add: partition_month_def PartitionName_def pad_digits_val valid_date_def month_index_def Let_def del: pad_digits.simps)
qed

text \<open>
  The name of a partition determines its month: reading a partition's name back gives the
  month it was made for.
\<close>

theorem partition_name_roundtrip:
  assumes "valid_date t" "0 \<le> d_Year t" "d_Year t \<le> 9999"
  shows "partition_month (PartitionName t) = Some (month_index t)"
  by (rule partition_month_name [OF assms])

theorem partition_name_roundtrip_witness:
  "partition_month (PartitionName \<lparr> d_Year = 2026, d_Month = 7, d_Day = 31 \<rparr>) = Some (12 * 2026 + 6)"
  using partition_name_roundtrip [of "\<lparr> d_Year = 2026, d_Month = 7, d_Day = 31 \<rparr>"]
  by (simp add: valid_date_def days_in_def month_index_def)

section \<open>Retention\<close>

lemma month_index_day [simp]: "month_index (t \<lparr> d_Day := d \<rparr>) = month_index t"
  by (simp add: month_index_def)

lemma AddMonths_index:
  "month_index (AddMonths n t) = month_index t + n
     + (if d_Day t \<le> days_in (d_Year (month_start (month_index t + n))) (d_Month (month_start (month_index t + n))) then 0 else 1)"
  by (simp add: AddMonths_def Let_def month_start_index)

lemma AddMonths_28: "d_Day t \<le> 28 \<Longrightarrow> month_index (AddMonths n t) = month_index t + n"
  using days_in_bounds(1) order_trans by (simp add: AddMonths_index) blast

lemma cutoff_bounds:
  "month_index now - max 1 k \<le> prune_cutoff now k" "prune_cutoff now k \<le> month_index now - max 1 k + 1"
  by (simp_all add: prune_cutoff_def PartitionBounds_def AddMonths_index Let_def)

text \<open>The partitions of the table, as the collector makes them.\<close>

definition monthly :: "partition list \<Rightarrow> bool" where
  "monthly db \<longleftrightarrow> (\<forall>p \<in> set db. \<exists>t. p = partition_of t \<and> valid_date t \<and> 0 \<le> d_Year t \<and> d_Year t \<le> 9999)"

lemma monthly_name: "monthly db \<Longrightarrow> p \<in> set db \<Longrightarrow> partition_month (pt_Name p) = Some (month_index (pt_From p))"
  using partition_month_name by (auto simp: monthly_def partition_of_def PartitionBounds_def Let_def)

lemma drop_loop_result:
  assumes "drop_loop exec dr ns db = (dr', err, db')"
  shows "set db' \<subseteq> set db" "p \<in> set db \<Longrightarrow> pt_Name p \<notin> set ns \<Longrightarrow> p \<in> set db'"
    "err = None \<Longrightarrow> p \<in> set db' \<Longrightarrow> pt_Name p \<notin> set ns" "set dr' \<subseteq> set dr \<union> set ns"
  using assms by (induction exec dr ns db rule: drop_loop.induct) (auto split: if_splits)

text \<open>
  C37. Retention: with a limit of \<open>k\<close> months (at least one) the current month and the \<open>k - 1\<close>
  months before it are never dropped, whatever statement fails, and when all statements
  succeed nothing older than \<open>k\<close> months before the current one is left.
\<close>

theorem retention_window:
  assumes "monthly db" "PruneOldPartitions listed exec now k db = (dropped, err, db')"
  shows "set db' \<subseteq> set db
    \<and> (\<forall>p \<in> set db. month_index now - max 1 k < month_index (pt_From p) \<longrightarrow> p \<in> set db')
    \<and> (err = None \<longrightarrow> (\<forall>p \<in> set db'. month_index now - max 1 k \<le> month_index (pt_From p)))"
proof -
  let ?ns = "filter (\<lambda>n. case partition_month n of None \<Rightarrow> False | Some j \<Rightarrow> j < prune_cutoff now k) (map pt_Name db)"
  show ?thesis
  proof (cases listed)
    case False
    with assms(2) show ?thesis by (auto simp: PruneOldPartitions_def)
  next
    case True
    from assms(2) True have d: "drop_loop exec [] ?ns db = (dropped, err, db')" by (simp add: PruneOldPartitions_def)
    note r = drop_loop_result [OF d] and cut = cutoff_bounds [of now k]
    have n: "pt_Name p \<in> set ?ns \<longleftrightarrow> month_index (pt_From p) < prune_cutoff now k" if "p \<in> set db" for p
      using monthly_name [OF assms(1) that] that by auto
    have "p \<in> set db'" if "p \<in> set db" "month_index now - max 1 k < month_index (pt_From p)" for p
      using r(2) n that cut by simp
    moreover have "month_index now - max 1 k \<le> month_index (pt_From p)" if "err = None" "p \<in> set db'" for p
      using r(1,3) n that cut by (meson not_less order_trans subsetD)
    ultimately show ?thesis using r(1) by blast
  qed
qed

definition ex_db :: "partition list" where
  "ex_db = map (\<lambda>m. partition_of \<lparr> d_Year = 2025, d_Month = m, d_Day = 1 \<rparr>) [1, 2, 3, 4, 5]"

lemma ex_db_monthly: "monthly ex_db"
  by (auto simp: monthly_def ex_db_def valid_date_def days_in_def)

theorem retention_window_witness:
  "partition_of \<lparr> d_Year = 2025, d_Month = 4, d_Day = 1 \<rparr>
     \<in> set (snd (snd (PruneOldPartitions True (\<lambda>_. True) \<lparr> d_Year = 2025, d_Month = 5, d_Day = 31 \<rparr> 2 ex_db)))"
proof -
  let ?now = "\<lparr> d_Year = 2025, d_Month = 5, d_Day = 31 \<rparr>" and ?p = "partition_of \<lparr> d_Year = 2025, d_Month = 4, d_Day = 1 \<rparr>"
  obtain dr err db' where r: "PruneOldPartitions True (\<lambda>_. True) ?now 2 ex_db = (dr, err, db')" by (metis prod_cases3)
  have "?p \<in> set ex_db" by (simp add: ex_db_def)
  moreover have "month_index ?now - max 1 2 < month_index (pt_From ?p)"
    by (simp add: month_index_def partition_of_def PartitionBounds_def Let_def)
  ultimately show ?thesis using retention_window [OF ex_db_monthly r] r by simp
qed

section \<open>The current and the next month\<close>

lemma ensure_loop_result:
  assumes "ensure_loop exec ts db = (None, db')"
  shows "set db \<subseteq> set db' \<and> (\<forall>t \<in> set ts. PartitionName t \<in> pt_Name ` set db')
    \<and> set db' \<subseteq> set db \<union> partition_of ` set ts"
  using assms
proof (induction exec ts db rule: ensure_loop.induct)
  case (2 exec t ts db)
  let ?db = "if PartitionName t \<in> pt_Name ` set db then db else db @ [partition_of t]"
  from "2.prems" have e: "exec (PartitionName t)" "ensure_loop exec ts ?db = (None, db')"
    by (simp_all split: if_splits)
  from "2.IH" e have ih: "set ?db \<subseteq> set db'" "\<forall>t \<in> set ts. PartitionName t \<in> pt_Name ` set db'"
    "set db' \<subseteq> set ?db \<union> partition_of ` set ts" by auto
  have "PartitionName t \<in> pt_Name ` set ?db" by (simp add: partition_of_def)
  with ih(1) have "PartitionName t \<in> pt_Name ` set db'" by blast
  moreover have "set db \<subseteq> set ?db" "set ?db \<subseteq> insert (partition_of t) (set db)" by auto
  ultimately show ?case using ih by auto
qed simp

text \<open>\<open>AddDate(0, 1, 0)\<close> reaches the next month only from a day that the next month has.\<close>

definition next_has_day :: "date \<Rightarrow> bool" where
  "next_has_day t \<longleftrightarrow>
     d_Day t \<le> days_in (d_Year (month_start (month_index t + 1))) (d_Month (month_start (month_index t + 1)))"

lemma month_index_eq: "valid_date s \<Longrightarrow> valid_date t \<Longrightarrow> month_index s = month_index t \<Longrightarrow> d_Year s = d_Year t \<and> d_Month s = d_Month t"
  unfolding valid_date_def month_index_def by presburger

lemma mod_12_le: "(k::int) mod 12 \<le> 11"
  by presburger

lemma AddMonths_valid: "valid_date t \<Longrightarrow> valid_date (AddMonths n t)"
  using days_in_bounds [of "d_Year (month_start (month_index t + n))" "d_Month (month_start (month_index t + n))"]
    days_in_bounds(1) [of "d_Year (month_start (month_index t + n + 1))" "d_Month (month_start (month_index t + n + 1))"]
    days_in_bounds(2) [of "d_Year t" "d_Month t"]
  by (simp add: AddMonths_def valid_date_def month_start_def mod_12_le Let_def)

lemma AddMonths_year:
  assumes "valid_date t" "0 \<le> d_Year t" "d_Year t \<le> 9998"
  shows "0 \<le> d_Year (AddMonths 1 t)" "d_Year (AddMonths 1 t) \<le> 9999"
  using assms AddMonths_index [of 1 t] AddMonths_valid [OF assms(1), of 1]
  unfolding valid_date_def month_index_def by (auto split: if_splits)

text \<open>
  When the collector has ensured the partitions, the table has one for the month of
  \<open>now\<close>, and one for the next month if that month has the day of \<open>now\<close>; no partition is
  lost and every new one spans the month that its name states.
\<close>

theorem partitions_ready:
  assumes "monthly db" "valid_date now" "0 \<le> d_Year now" "d_Year now \<le> 9998"
    and "EnsurePartitions exec now db = (None, db')"
  shows "monthly db' \<and> set db \<subseteq> set db'
    \<and> (\<exists>p \<in> set db'. month_index (pt_From p) = month_index now \<and> month_index (pt_To p) = month_index now + 1)
    \<and> (next_has_day now \<longrightarrow>
         (\<exists>p \<in> set db'. month_index (pt_From p) = month_index now + 1 \<and> month_index (pt_To p) = month_index now + 2))"
proof -
  let ?next = "AddMonths 1 now"
  note r = ensure_loop_result [OF assms(5) [unfolded EnsurePartitions_def]]
  have v: "valid_date ?next" "0 \<le> d_Year ?next" "d_Year ?next \<le> 9999"
    using AddMonths_valid AddMonths_year assms by simp_all
  from r assms(1-4) v have m: "monthly db'" unfolding monthly_def by fastforce
  have ex: "\<exists>p \<in> set db'. month_index (pt_From p) = month_index t \<and> month_index (pt_To p) = month_index t + 1"
    if "valid_date t" "0 \<le> d_Year t" "d_Year t \<le> 9999" "PartitionName t \<in> pt_Name ` set db'" for t
  proof -
    from that(4) obtain p where p: "p \<in> set db'" "pt_Name p = PartitionName t" by auto
    with m obtain u where u: "p = partition_of u" by (auto simp: monthly_def)
    have "month_index (pt_From p) = month_index t"
      using monthly_name [OF m p(1)] partition_month_name [OF that(1-3)] p(2) by simp
    moreover have "month_index (pt_To p) = month_index (pt_From p) + 1"
      using u AddMonths_28 [of "u \<lparr> d_Day := 1 \<rparr>" 1] by (simp add: partition_of_def PartitionBounds_def Let_def)
    ultimately show ?thesis using p(1) by auto
  qed
  have "next_has_day now \<Longrightarrow> month_index ?next = month_index now + 1"
    by (simp add: AddMonths_index next_has_day_def)
  with ex [of now] ex [of ?next] assms(2-4) v r m show ?thesis by auto
qed

theorem partitions_ready_witness:
  "\<exists>p \<in> set (snd (EnsurePartitions (\<lambda>_. True) \<lparr> d_Year = 2025, d_Month = 12, d_Day = 31 \<rparr> ex_db)). month_index (pt_From p) = 12 * 2026"
proof -
  let ?now = "\<lparr> d_Year = 2025, d_Month = 12, d_Day = 31 \<rparr>"
  obtain db' where e: "EnsurePartitions (\<lambda>_. True) ?now ex_db = (None, db')"
    by (simp add: EnsurePartitions_def)
  have "valid_date ?now" "next_has_day ?now" "month_index ?now + 1 = 12 * 2026"
    by (simp_all add: valid_date_def days_in_def next_has_day_def month_start_def month_index_def)
  with partitions_ready [OF ex_db_monthly _ _ _ e] e show ?thesis by auto
qed

text \<open>
  On 30 January 2025 the loop makes the partitions of January and of March: February has no
  30th day and \<open>AddDate\<close> moves on to 2 March. The partition of February is only made by a run
  in February.
\<close>

theorem january_skips_february:
  "ensure_loop (\<lambda>_. True) [\<lparr> d_Year = 2025, d_Month = 1, d_Day = 30 \<rparr>, AddMonths 1 \<lparr> d_Year = 2025, d_Month = 1, d_Day = 30 \<rparr>] []
     = (None, [partition_of \<lparr> d_Year = 2025, d_Month = 1, d_Day = 1 \<rparr>, partition_of \<lparr> d_Year = 2025, d_Month = 3, d_Day = 1 \<rparr>])"
  by code_simp

end
