(* ===== verification/Collector.thy ===== *)
theory Collector
  imports Events "HOL-Library.Sublist"
begin

text \<open>
  The event store (\<open>internal/events/events.go\<close>) and the collector daemon
  (\<open>cmd/saguaro-eventd/main.go\<close>). The event table is the list of its rows, numbered by the
  sequence that the identity column draws from; whether a statement succeeds and which rows the
  table's checks accept are parameters. The daemon is a step relation over its bounded channel,
  the batch under construction and the table: the journal reader, the IDS tailer and the
  batcher are goroutines, and each step is one of them handling one line, one receive or one
  tick.
\<close>

section \<open>The event table\<close>

record estore =
  es_rows :: "Event list"
  es_seq :: int

record db_io =
  io_begin :: bool
  io_prepare :: bool
  io_accepts :: "Event \<Rightarrow> bool"
  io_commit :: bool

text \<open>A row without a time stamp gets the current time.\<close>

definition stamp :: "int \<Rightarrow> Event \<Rightarrow> Event" where
  "stamp now e = (if ev_TS e = zero_time then e \<lparr> ev_TS := now \<rparr> else e)"

definition Insert :: "(Event \<Rightarrow> bool) \<Rightarrow> int \<Rightarrow> Event \<Rightarrow> estore \<Rightarrow> bool \<times> estore" where
  "Insert accepts now e st =
     (let e' = stamp now e
      in if accepts e' then (True, \<lparr> es_rows = es_rows st @ [e' \<lparr> ev_ID := es_seq st \<rparr>], es_seq = es_seq st + 1 \<rparr>)
         else (False, st \<lparr> es_seq := es_seq st + 1 \<rparr>))"

fun insert_rows :: "(Event \<Rightarrow> bool) \<Rightarrow> int \<Rightarrow> Event list \<Rightarrow> estore \<Rightarrow> bool \<times> estore" where
  "insert_rows accepts now [] st = (True, st)"
| "insert_rows accepts now (e # es) st =
     (case Insert accepts now e st of
        (False, st') \<Rightarrow> (False, st')
      | (True, st') \<Rightarrow> insert_rows accepts now es st')"

text \<open>One transaction: a rollback keeps the rows, but not the numbers drawn.\<close>

definition InsertBatch :: "db_io \<Rightarrow> int \<Rightarrow> Event list \<Rightarrow> estore \<Rightarrow> bool \<times> estore" where
  "InsertBatch io now batch st =
     (if batch = [] then (True, st)
      else if \<not> io_begin io \<or> \<not> io_prepare io then (False, st)
      else case insert_rows (io_accepts io) now batch st of
             (ok, st') \<Rightarrow> if ok \<and> io_commit io then (True, st') else (False, st \<lparr> es_seq := es_seq st' \<rparr>))"

definition MaxID :: "bool \<Rightarrow> estore \<Rightarrow> int option" where
  "MaxID ok st =
     (if \<not> ok then None
      else Some (case es_rows st of [] \<Rightarrow> 0 | r # rs \<Rightarrow> fold max (map ev_ID rs) (ev_ID r)))"

text \<open>The listings do not select the raw column.\<close>

definition listed_row :: "Event \<Rightarrow> Event" where
  "listed_row e = e \<lparr> ev_Raw := [] \<rparr>"

definition after_rows :: "int \<Rightarrow> string list \<Rightarrow> estore \<Rightarrow> Event list" where
  "after_rows after sevs st = sort_key ev_ID (filter (\<lambda>e. after < ev_ID e \<and> ev_Severity e \<in> set sevs) (es_rows st))"

definition QueryAfter :: "bool \<Rightarrow> int \<Rightarrow> string list \<Rightarrow> int \<Rightarrow> estore \<Rightarrow> string + Event list" where
  "QueryAfter ok after sevs limit st =
     (if sevs = [] then Inr []
      else case find (\<lambda>sv. \<not> ValidSeverity sv) sevs of
             Some sv \<Rightarrow> Inl (''invalid severity '' @ Quote sv)
           | None \<Rightarrow>
               let limit' = (if limit \<le> 0 \<or> 500 < limit then 500 else limit)
               in if \<not> ok then Inl ''query failed''
                  else Inr (map listed_row (take (nat limit') (after_rows after sevs st))))"

definition ModuleStats :: "bool \<Rightarrow> string \<Rightarrow> int \<Rightarrow> estore \<Rightarrow> (string \<rightharpoonup> nat) option" where
  "ModuleStats ok module since st =
     (if \<not> ok then None
      else Some (\<lambda>sev. let n = length (filter (\<lambda>e. ev_Module e = module \<and> since \<le> ev_TS e \<and> ev_Severity e = sev) (es_rows st))
                       in if n = 0 then None else Some n))"

record QueryOpts =
  qo_Module :: string
  qo_Severity :: string
  qo_Since :: int
  qo_Limit :: int

definition query_match :: "QueryOpts \<Rightarrow> Event \<Rightarrow> bool" where
  "query_match q e \<longleftrightarrow>
     (qo_Module q \<noteq> [] \<longrightarrow> ev_Module e = qo_Module q) \<and> (qo_Severity q \<noteq> [] \<longrightarrow> ev_Severity e = qo_Severity q)
     \<and> (qo_Since q \<noteq> zero_time \<longrightarrow> qo_Since q \<le> ev_TS e)"

definition Query :: "bool \<Rightarrow> QueryOpts \<Rightarrow> estore \<Rightarrow> Event list option" where
  "Query ok q st =
     (let limit = (if qo_Limit q \<le> 0 \<or> 1000 < qo_Limit q then 100 else qo_Limit q)
      in if \<not> ok then None
         else Some (map listed_row (take (nat limit) (sort_key (\<lambda>e. - ev_TS e) (filter (query_match q) (es_rows st))))))"

text \<open>Rows are numbered in the order of their insertion, below the next number.\<close>

definition estore_ok :: "estore \<Rightarrow> bool" where
  "estore_ok st \<longleftrightarrow> sorted_wrt (<) (map ev_ID (es_rows st)) \<and> (\<forall>e \<in> set (es_rows st). ev_ID e < es_seq st)"

section \<open>The collector\<close>

record collector =
  cl_cursor :: string
  cl_chan :: "Event list"
  cl_batch :: "Event list"
  cl_store :: estore
  cl_live :: bool

definition chan_cap :: nat where
  "chan_cap = 1024"

definition batchSize :: nat where
  "batchSize = 100"

text \<open>The non-blocking send: a full channel drops the event.\<close>

definition send_or_drop :: "Event \<Rightarrow> collector \<Rightarrow> collector" where
  "send_or_drop e c = (if length (cl_chan c) < chan_cap then c \<lparr> cl_chan := cl_chan c @ [e] \<rparr> else c)"

text \<open>One line of the journal stream in \<open>follow\<close>.\<close>

definition follow_line :: "int \<Rightarrow> int \<Rightarrow> JournalEntry option \<Rightarrow> collector \<Rightarrow> collector" where
  "follow_line minRank now line c =
     (case ParseJournalLine now line of (e, cur, ok) \<Rightarrow>
        let c' = (if cur \<noteq> [] then c \<lparr> cl_cursor := cur \<rparr> else c)
        in if \<not> ok \<or> Rank (ev_Severity e) < minRank then c' else send_or_drop e c')"

text \<open>The arguments of the \<open>journalctl\<close> process that \<open>follow\<close> starts.\<close>

definition follow_args :: "string list \<Rightarrow> string \<Rightarrow> string list" where
  "follow_args units cursor =
     [''-f'', ''-o'', ''json'', ''--no-pager'']
     @ (if cursor \<noteq> [] then [''--after-cursor'', cursor] else [''--since'', ''now''])
     @ concat (map (\<lambda>u. if TrimSpace u \<noteq> [] then [''-u'', TrimSpace u] else []) units)"

definition eve_line :: "int \<Rightarrow> int \<Rightarrow> eveRecord option \<Rightarrow> collector \<Rightarrow> collector" where
  "eve_line minRank now line c =
     (case ParseEveLine now line of (e, ok) \<Rightarrow>
        if \<not> ok \<or> Rank (ev_Severity e) < minRank then c else send_or_drop e c)"

definition flush :: "db_io \<Rightarrow> int \<Rightarrow> collector \<Rightarrow> collector" where
  "flush io now c =
     (if cl_batch c = [] then c
      else c \<lparr> cl_store := snd (InsertBatch io now (cl_batch c) (cl_store c)), cl_batch := [] \<rparr>)"

definition receive :: "db_io \<Rightarrow> int \<Rightarrow> collector \<Rightarrow> collector" where
  "receive io now c =
     (case cl_chan c of
        [] \<Rightarrow> c
      | e # es \<Rightarrow>
          let c' = c \<lparr> cl_chan := es, cl_batch := cl_batch c @ [e] \<rparr>
          in if batchSize \<le> length (cl_batch c') then flush io now c' else c')"

text \<open>The batcher's last act: it flushes and returns; the channel is not drained.\<close>

definition shutdown :: "db_io \<Rightarrow> int \<Rightarrow> collector \<Rightarrow> collector" where
  "shutdown io now c = (flush io now c) \<lparr> cl_live := False \<rparr>"

datatype cl_act =
    Journal int "JournalEntry option"
  | Eve int "eveRecord option"
  | Receive db_io int
  | FlushTick db_io int
  | Stop db_io int

fun cl_do :: "int \<Rightarrow> cl_act \<Rightarrow> collector \<Rightarrow> collector" where
  "cl_do minRank (Journal now line) c = follow_line minRank now line c"
| "cl_do minRank (Eve now line) c = eve_line minRank now line c"
| "cl_do minRank (Receive io now) c = (if cl_live c then receive io now c else c)"
| "cl_do minRank (FlushTick io now) c = (if cl_live c then flush io now c else c)"
| "cl_do minRank (Stop io now) c = (if cl_live c then shutdown io now c else c)"

definition cl_run :: "int \<Rightarrow> cl_act list \<Rightarrow> collector \<Rightarrow> collector" where
  "cl_run minRank acts c = fold (cl_do minRank) acts c"

definition cl_init :: "estore \<Rightarrow> collector" where
  "cl_init st = \<lparr> cl_cursor = [], cl_chan = [], cl_batch = [], cl_store = st, cl_live = True \<rparr>"

section \<open>All or nothing\<close>

definition row_body :: "Event \<Rightarrow> Event" where
  "row_body e = e \<lparr> ev_ID := 0 \<rparr>"

definition table_bodies :: "estore \<Rightarrow> Event list" where
  "table_bodies st = map row_body (es_rows st)"

text \<open>An event as the two parsers make it: not numbered, with a time stamp.\<close>

definition timed :: "Event \<Rightarrow> bool" where
  "timed e \<longleftrightarrow> ev_ID e = 0 \<and> ev_TS e \<noteq> zero_time"

definition io_good :: "db_io \<Rightarrow> Event list \<Rightarrow> bool" where
  "io_good io b \<longleftrightarrow> io_begin io \<and> io_prepare io \<and> io_commit io \<and> (\<forall>e \<in> set b. io_accepts io e)"

text \<open>What the batcher relies on in a store of events.\<close>

locale batch_store =
  fixes insert_batch :: "'io \<Rightarrow> int \<Rightarrow> 'e list \<Rightarrow> 's \<Rightarrow> bool \<times> 's"
    and content :: "'s \<Rightarrow> 'e list"
    and wf :: "'s \<Rightarrow> bool"
    and dated :: "'e \<Rightarrow> bool"
    and ready :: "'io \<Rightarrow> 'e list \<Rightarrow> bool"
  assumes success: "insert_batch io now b st = (True, st') \<Longrightarrow> \<forall>e \<in> set b. dated e \<Longrightarrow> content st' = content st @ b"
    and failure: "insert_batch io now b st = (False, st') \<Longrightarrow> content st' = content st"
    and keeps_wf: "wf st \<Longrightarrow> wf (snd (insert_batch io now b st))"
    and accepts: "ready io b \<Longrightarrow> \<forall>e \<in> set b. dated e \<Longrightarrow> fst (insert_batch io now b st)"
begin

text \<open>A flush stores the whole batch or none of it, so the order of arrival survives.\<close>

lemma flush_subseq:
  assumes "content st = base @ new" "subseq (new @ b @ rest) all" "\<forall>e \<in> set b. dated e"
  shows "\<exists>new'. content (snd (insert_batch io now b st)) = base @ new' \<and> subseq (new' @ rest) all"
proof (cases "insert_batch io now b st")
  case (Pair ok st')
  show ?thesis
  proof (cases ok)
    case True
    with Pair success assms have "content st' = base @ (new @ b)" by auto
    with assms(2) Pair show ?thesis by auto
  next
    case False
    with Pair failure assms(1) have "content st' = base @ new" by auto
    moreover have "subseq (new @ rest) (new @ b @ rest)" by (simp add: subseq_append' list_emb_append2)
    ultimately show ?thesis using assms(2) Pair subseq_order.trans by auto
  qed
qed

lemma flush_all:
  assumes "content st = base @ new" "ready io b" "\<forall>e \<in> set b. dated e"
  shows "content (snd (insert_batch io now b st)) = base @ (new @ b)"
proof (cases "insert_batch io now b st")
  case (Pair ok st')
  with accepts [OF assms(2,3), of now st] have "ok" by simp
  with Pair success [of io now b st st'] assms show ?thesis by simp
qed

end

lemma stamp_timed [simp]: "timed e \<Longrightarrow> stamp now e = e"
  by (simp add: timed_def stamp_def)

lemma row_body_timed [simp]: "timed e \<Longrightarrow> row_body (e \<lparr> ev_ID := i \<rparr>) = e"
  by (simp add: row_body_def timed_def)

lemma insert_rows_result:
  assumes "insert_rows acc now b st = (ok, st')" "\<forall>e \<in> set b. timed e" "ok"
  shows "table_bodies st' = table_bodies st @ b"
  using assms
  by (induction acc now b st rule: insert_rows.induct)
    (auto simp: Insert_def table_bodies_def Let_def split: if_splits bool.splits prod.splits)

lemma Insert_ok: "estore_ok st \<Longrightarrow> estore_ok (snd (Insert acc now e st))"
  by (auto simp: Insert_def estore_ok_def Let_def sorted_wrt_append)

lemma Insert_seq: "es_seq (snd (Insert acc now e st)) = es_seq st + 1"
  by (simp add: Insert_def Let_def)

lemma insert_rows_ok: "estore_ok st \<Longrightarrow> estore_ok (snd (insert_rows acc now b st))"
proof (induction acc now b st rule: insert_rows.induct)
  case (2 acc now e es st)
  then show ?case using Insert_ok [of st acc now e] by (cases "Insert acc now e st") (auto split: bool.splits)
qed simp

lemma insert_rows_seq: "es_seq st \<le> es_seq (snd (insert_rows acc now b st))"
proof (induction acc now b st rule: insert_rows.induct)
  case (2 acc now e es st)
  obtain ok st' where i: "Insert acc now e st = (ok, st')" by fastforce
  with Insert_seq [of acc now e st] have "es_seq st' = es_seq st + 1" by simp
  with "2.IH" [of ok st'] i show ?case by (cases ok) simp_all
qed simp

lemma insert_rows_accepts:
  "\<forall>e \<in> set b. timed e \<and> acc e \<Longrightarrow> fst (insert_rows acc now b st)"
  by (induction acc now b st rule: insert_rows.induct) (auto simp: Insert_def Let_def)

lemma estore_ok_seq: "estore_ok st \<Longrightarrow> es_seq st \<le> n \<Longrightarrow> estore_ok (st \<lparr> es_seq := n \<rparr>)"
  by (auto simp: estore_ok_def)

interpretation es: batch_store InsertBatch table_bodies estore_ok timed io_good
proof
  fix io now b st st'
  assume a: "InsertBatch io now b st = (True, st')" "\<forall>e \<in> set b. timed e"
  show "table_bodies st' = table_bodies st @ b"
  proof (cases "b = []")
    case False
    with a(1) have "insert_rows (io_accepts io) now b st = (True, st')"
      by (auto simp: InsertBatch_def split: if_splits prod.splits)
    with a(2) show ?thesis using insert_rows_result by blast
  qed (use a in \<open>simp add: InsertBatch_def\<close>)
next
  fix io now b st st'
  assume "InsertBatch io now b st = (False, st')"
  then show "table_bodies st' = table_bodies st"
    by (auto simp: InsertBatch_def table_bodies_def split: if_splits prod.splits)
next
  fix io now b st
  assume "estore_ok st"
  then show "estore_ok (snd (InsertBatch io now b st))"
    using insert_rows_ok [of st "io_accepts io" now b] insert_rows_seq [of st "io_accepts io" now b]
    by (auto simp: InsertBatch_def estore_ok_seq split: prod.splits)
next
  fix io now b st
  assume "io_good io b" "\<forall>e \<in> set b. timed e"
  then show "fst (InsertBatch io now b st)"
    using insert_rows_accepts [of b "io_accepts io" now st] by (auto simp: InsertBatch_def io_good_def split: prod.splits)
qed

section \<open>Order, bounds and losses\<close>

text \<open>What the two readers hand to the channel, line by line.\<close>

fun produced :: "int \<Rightarrow> cl_act \<Rightarrow> Event list" where
  "produced minRank (Journal now line) =
     (case ParseJournalLine now line of (e, cur, ok) \<Rightarrow> if ok \<and> minRank \<le> Rank (ev_Severity e) then [e] else [])"
| "produced minRank (Eve now line) =
     (case ParseEveLine now line of (e, ok) \<Rightarrow> if ok \<and> minRank \<le> Rank (ev_Severity e) then [e] else [])"
| "produced minRank _ = []"

definition stream :: "int \<Rightarrow> cl_act list \<Rightarrow> Event list" where
  "stream minRank acts = concat (map (produced minRank) acts)"

fun act_io :: "cl_act \<Rightarrow> db_io option" where
  "act_io (Receive io now) = Some io"
| "act_io (FlushTick io now) = Some io"
| "act_io (Stop io now) = Some io"
| "act_io _ = None"

fun is_stop :: "cl_act \<Rightarrow> bool" where
  "is_stop (Stop io now) = True"
| "is_stop _ = False"

text \<open>The invariant of a run: \<open>base\<close> is the table at the start, \<open>all\<close> the stream so far.\<close>

definition cl_inv :: "Event list \<Rightarrow> Event list \<Rightarrow> collector \<Rightarrow> bool" where
  "cl_inv base all c \<longleftrightarrow>
     length (cl_chan c) \<le> chan_cap \<and> length (cl_batch c) < batchSize \<and> estore_ok (cl_store c)
     \<and> (\<forall>e \<in> set (cl_batch c) \<union> set (cl_chan c). timed e)
     \<and> (\<exists>new. table_bodies (cl_store c) = base @ new \<and> subseq (new @ cl_batch c @ cl_chan c) all)"

lemma flush_fields [simp]: "cl_chan (flush io now c) = cl_chan c" "cl_batch (flush io now c) = []" "cl_live (flush io now c) = cl_live c"
  by (simp_all add: flush_def)

lemma flush_inv:
  assumes "estore_ok (cl_store c)" "\<forall>e \<in> set (cl_batch c). timed e"
    "table_bodies (cl_store c) = base @ new" "subseq (new @ cl_batch c @ cl_chan c) all"
  shows "estore_ok (cl_store (flush io now c))
    \<and> (\<exists>new'. table_bodies (cl_store (flush io now c)) = base @ new' \<and> subseq (new' @ cl_chan c) all)"
proof (cases "cl_batch c = []")
  case True
  with assms show ?thesis by (auto simp: flush_def)
next
  case False
  with assms(1) es.keeps_wf es.flush_subseq [OF assms(3,4,2), of io now] show ?thesis by (auto simp: flush_def)
qed

lemma flush_cl_inv: "cl_inv base all c \<Longrightarrow> cl_inv base all (flush io now c)"
  using flush_inv [of c base _ all io now] by (fastforce simp: cl_inv_def batchSize_def)

lemma receive_cl_inv:
  assumes "cl_inv base all c" shows "cl_inv base all (receive io now c)"
proof (cases "cl_chan c")
  case Nil
  with assms show ?thesis by (simp add: receive_def)
next
  case (Cons e es)
  let ?c = "c \<lparr> cl_chan := es, cl_batch := cl_batch c @ [e] \<rparr>"
  obtain new where n: "table_bodies (cl_store c) = base @ new" "subseq (new @ cl_batch c @ cl_chan c) all"
    using assms by (auto simp: cl_inv_def)
  have p: "length es \<le> chan_cap" "estore_ok (cl_store ?c)" "\<forall>e \<in> set (cl_batch ?c) \<union> set es. timed e"
    "table_bodies (cl_store ?c) = base @ new" "subseq (new @ cl_batch ?c @ cl_chan ?c) all"
    using assms Cons n by (auto simp: cl_inv_def)
  show ?thesis
  proof (cases "batchSize \<le> length (cl_batch ?c)")
    case True
    then have "receive io now c = flush io now ?c" using Cons by (simp add: receive_def Let_def)
    moreover have "cl_inv base all (flush io now ?c)"
      using flush_inv [OF p(2) _ p(4,5), of io now] p by (auto simp: cl_inv_def batchSize_def)
    ultimately show ?thesis by simp
  next
    case False
    then have "receive io now c = ?c" using Cons by (simp add: receive_def Let_def)
    with False p show ?thesis by (auto simp: cl_inv_def)
  qed
qed

lemma send_cl_inv:
  assumes "cl_inv base all c" "timed e"
  shows "cl_inv base (all @ [e]) (send_or_drop e c)"
proof -
  obtain new where n: "table_bodies (cl_store c) = base @ new" "subseq (new @ cl_batch c @ cl_chan c) all"
    using assms(1) by (auto simp: cl_inv_def)
  have "subseq (new @ cl_batch c @ cl_chan c @ [e]) (all @ [e])" "subseq (new @ cl_batch c @ cl_chan c) (all @ [e])"
    using n(2) list_emb_append_mono [OF n(2), of "[e]" "[e]"] by (simp_all add: subseq_rev_drop_many)
  with n(1) assms show ?thesis by (auto simp: cl_inv_def send_or_drop_def)
qed

lemma cursor_cl_inv [simp]: "cl_inv base all (c \<lparr> cl_cursor := s \<rparr>) = cl_inv base all c"
  by (simp add: cl_inv_def)

lemma cl_do_inv:
  assumes "cl_inv base all c" "\<forall>e \<in> set (produced minRank act). timed e"
  shows "cl_inv base (all @ produced minRank act) (cl_do minRank act c)"
  using assms
proof (cases act)
  case (Journal now line)
  with assms show ?thesis
    by (cases "ParseJournalLine now line") (auto simp: follow_line_def Let_def send_cl_inv)
next
  case (Eve now line)
  with assms show ?thesis by (cases "ParseEveLine now line") (auto simp: eve_line_def send_cl_inv)
next
  case (Stop io now)
  have "cl_inv base all (shutdown io now c)"
    using flush_cl_inv [OF assms(1), of io now] by (simp add: cl_inv_def shutdown_def)
  with Stop assms show ?thesis by simp
qed (simp_all add: receive_cl_inv flush_cl_inv)

lemma cl_run_inv:
  assumes "cl_inv base all c" "\<forall>e \<in> set (stream minRank acts). timed e"
  shows "cl_inv base (all @ stream minRank acts) (cl_run minRank acts c)"
  using assms
proof (induction acts arbitrary: all c)
  case (Cons act acts)
  then have "cl_inv base ((all @ produced minRank act) @ stream minRank acts) (cl_run minRank acts (cl_do minRank act c))"
    by (intro Cons.IH cl_do_inv) (auto simp: stream_def)
  then show ?case by (simp add: stream_def cl_run_def)
qed (simp add: stream_def cl_run_def)

text \<open>
  C35. Whatever the order in which the readers, the batcher and the ticker run, and whichever
  statements fail: the channel never holds more than 1024 events and the batch fewer than 100,
  rows are numbered in order, and the events stored, batched and queued are in this order a
  subsequence of what the readers produced. So an event may be lost, but none is stored twice
  and none overtakes another.
\<close>

theorem collector_order:
  assumes "estore_ok st" "\<forall>e \<in> set (stream minRank acts). timed e"
    and "c = cl_run minRank acts (cl_init st)"
  shows "length (cl_chan c) \<le> 1024 \<and> length (cl_batch c) < 100 \<and> estore_ok (cl_store c)
    \<and> (\<exists>new. table_bodies (cl_store c) = table_bodies st @ new
           \<and> subseq (new @ cl_batch c @ cl_chan c) (stream minRank acts))"
proof -
  have "cl_inv (table_bodies st) [] (cl_init st)"
    using assms(1) by (simp add: cl_inv_def cl_init_def chan_cap_def batchSize_def)
  from cl_run_inv [OF this assms(2)] assms(3) show ?thesis by (simp add: cl_inv_def chan_cap_def batchSize_def)
qed

definition ex_eve :: eveRecord where
  "ex_eve = \<lparr> er_Time = Some 5, er_EventType = ''alert'', er_SrcIP = ''10.0.0.9'', er_DestIP = ''10.0.0.1'', er_Proto = ''TCP'',
     er_InIface = ''eth0'', er_AlertAction = ''allowed'', er_SignatureID = 7, er_Signature = ''scan'', er_Category = ''recon'',
     er_AlertSeverity = 1 \<rparr>"

definition ex_db_io :: db_io where
  "ex_db_io = \<lparr> io_begin = True, io_prepare = True, io_accepts = (\<lambda>e. ValidSeverity (ev_Severity e)), io_commit = True \<rparr>"

definition ex_acts :: "cl_act list" where
  "ex_acts = [Eve 9 (Some ex_eve), Journal 9 (Some ex_journal), Receive ex_db_io 10, FlushTick ex_db_io 11]"

lemma ex_acts_stream: "length (stream 1 ex_acts) = 2" "\<forall>e \<in> set (stream 1 ex_acts). timed e"
  by code_simp+

theorem collector_order_witness:
  "\<exists>new. table_bodies (cl_store (cl_run 1 ex_acts (cl_init \<lparr> es_rows = [], es_seq = 1 \<rparr>))) = new \<and> subseq new (stream 1 ex_acts)"
proof -
  have "estore_ok \<lparr> es_rows = [], es_seq = 1 \<rparr>" by (simp add: estore_ok_def)
  from collector_order [OF this ex_acts_stream(2) refl] obtain new rest where
    n: "table_bodies (cl_store (cl_run 1 ex_acts (cl_init \<lparr> es_rows = [], es_seq = 1 \<rparr>))) = new"
      "subseq (new @ rest) (stream 1 ex_acts)"
    by (auto simp: table_bodies_def)
  have "subseq new (new @ rest)" by (simp add: subseq_rev_drop_many)
  with n show ?thesis using subseq_order.trans by blast
qed

section \<open>Nothing is lost when nothing fails\<close>

definition cl_full :: "Event list \<Rightarrow> Event list \<Rightarrow> collector \<Rightarrow> bool" where
  "cl_full base all c \<longleftrightarrow>
     cl_live c \<and> (\<forall>e \<in> set all. timed e)
     \<and> (\<exists>new. table_bodies (cl_store c) = base @ new \<and> new @ cl_batch c @ cl_chan c = all)"

lemma flush_full:
  assumes "cl_full base all c" "io_good io all"
  shows "cl_full base all (flush io now c)"
proof -
  from assms(1) obtain new where n: "table_bodies (cl_store c) = base @ new" "new @ cl_batch c @ cl_chan c = all" "cl_live c"
    "\<forall>e \<in> set all. timed e" by (auto simp: cl_full_def)
  have b: "set (cl_batch c) \<subseteq> set all" using n(2) by auto
  then have "io_good io (cl_batch c)" "\<forall>e \<in> set (cl_batch c). timed e"
    using assms(2) n(4) by (auto simp: io_good_def)
  from es.flush_all [OF n(1) this, of now] n show ?thesis by (auto simp: cl_full_def flush_def)
qed

lemma receive_full:
  assumes "cl_full base all c" "io_good io all"
  shows "cl_full base all (receive io now c)"
proof (cases "cl_chan c")
  case (Cons e es)
  let ?c = "c \<lparr> cl_chan := es, cl_batch := cl_batch c @ [e] \<rparr>"
  have "cl_full base all ?c" using assms(1) Cons by (auto simp: cl_full_def)
  with flush_full [OF this assms(2), of now] show ?thesis using Cons by (simp add: receive_def Let_def)
qed (use assms in \<open>simp add: receive_def\<close>)

lemma send_full:
  assumes "cl_full base all c" "timed e" "length all < chan_cap"
  shows "cl_full base (all @ [e]) (send_or_drop e c)"
proof -
  have "length (cl_chan c) < chan_cap" using assms(1,3) by (auto simp: cl_full_def)
  with assms(1,2) show ?thesis by (auto simp: cl_full_def send_or_drop_def)
qed

lemma cl_do_full:
  assumes "cl_full base all c" "\<forall>e \<in> set (produced minRank act). timed e" "\<not> is_stop act"
    and "length (all @ produced minRank act) \<le> chan_cap" "\<forall>io. act_io act = Some io \<longrightarrow> io_good io all"
  shows "cl_full base (all @ produced minRank act) (cl_do minRank act c)"
proof (cases act)
  case (Journal now line)
  have "cl_full base all (c \<lparr> cl_cursor := s \<rparr>)" for s using assms(1) by (simp add: cl_full_def)
  with Journal assms show ?thesis
    by (cases "ParseJournalLine now line") (auto simp: follow_line_def Let_def send_full)
next
  case (Eve now line)
  with assms show ?thesis by (cases "ParseEveLine now line") (auto simp: eve_line_def send_full)
qed (use assms in \<open>simp_all add: receive_full flush_full\<close>)

lemma cl_run_full:
  assumes "cl_full base all c" "\<forall>e \<in> set (stream minRank acts). timed e" "\<forall>a \<in> set acts. \<not> is_stop a"
    and "length (all @ stream minRank acts) \<le> chan_cap"
    and "\<forall>a \<in> set acts. \<forall>io. act_io a = Some io \<longrightarrow> io_good io (all @ stream minRank acts)"
  shows "cl_full base (all @ stream minRank acts) (cl_run minRank acts c)"
  using assms
proof (induction acts arbitrary: all c)
  case (Cons act acts)
  have s: "stream minRank (act # acts) = produced minRank act @ stream minRank acts" by (simp add: stream_def)
  have "cl_full base (all @ produced minRank act) (cl_do minRank act c)"
    using Cons.prems by (intro cl_do_full) (auto simp: s io_good_def)
  from Cons.IH [OF this] Cons.prems show ?case by (simp add: s cl_run_def)
qed (simp add: stream_def cl_run_def)

lemma drain:
  assumes "cl_full base all c" "io_good io all" "length (cl_chan c) \<le> n"
  shows "cl_full base all (cl_run r (replicate n (Receive io now)) c) \<and> cl_chan (cl_run r (replicate n (Receive io now)) c) = []"
  using assms
proof (induction n arbitrary: c)
  case (Suc n)
  have "cl_full base all (receive io now c)" by (rule receive_full [OF Suc.prems(1,2)])
  moreover have "length (cl_chan (receive io now c)) \<le> n"
    using Suc.prems(3) by (cases "cl_chan c") (auto simp: receive_def Let_def)
  moreover have "cl_live c" using Suc.prems(1) by (simp add: cl_full_def)
  ultimately show ?case using Suc.IH [of "receive io now c"] Suc.prems(2) by (simp add: cl_run_def)
qed (simp add: cl_run_def)

text \<open>
  C36. The collector stores everything when the database does its part: if the readers produced
  at most 1024 events and every transaction succeeds, then once the batcher has received what
  was queued and ticked, the table holds exactly its old rows and then the produced events in
  order, and nothing is left queued or batched.
\<close>

theorem collector_stores_all:
  assumes "\<forall>e \<in> set (stream minRank acts). timed e" "\<forall>a \<in> set acts. \<not> is_stop a"
    and "length (stream minRank acts) \<le> 1024" "io_good io (stream minRank acts)"
    and "\<forall>a \<in> set acts. \<forall>io'. act_io a = Some io' \<longrightarrow> io_good io' (stream minRank acts)"
    and "c = cl_run minRank (acts @ replicate 1024 (Receive io now) @ [FlushTick io now]) (cl_init st)"
  shows "table_bodies (cl_store c) = table_bodies st @ stream minRank acts \<and> cl_batch c = [] \<and> cl_chan c = []"
proof -
  let ?all = "stream minRank acts"
  let ?c1 = "cl_run minRank acts (cl_init st)"
  let ?c2 = "cl_run minRank (replicate 1024 (Receive io now)) ?c1"
  have "cl_full (table_bodies st) [] (cl_init st)" by (simp add: cl_full_def cl_init_def)
  from cl_run_full [OF this assms(1,2)] assms(3,5) have f1: "cl_full (table_bodies st) ?all ?c1"
    by (simp add: chan_cap_def)
  then obtain new where "new @ cl_batch ?c1 @ cl_chan ?c1 = ?all" by (auto simp: cl_full_def)
  then have "length (cl_chan ?c1) \<le> length ?all" by (metis length_append le_add2 le_trans)
  with assms(3) have "length (cl_chan ?c1) \<le> 1024" by simp
  from drain [OF f1 assms(4) this] have f2: "cl_full (table_bodies st) ?all ?c2" "cl_chan ?c2 = []" by simp_all
  have "c = flush io now ?c2" using f2(1) by (simp add: assms(6) cl_run_def cl_full_def)
  with flush_full [OF f2(1) assms(4), of now] f2(2) show ?thesis by (auto simp: cl_full_def)
qed

theorem collector_stores_all_witness:
  "table_bodies (cl_store (cl_run 1 (ex_acts @ replicate 1024 (Receive ex_db_io 12) @ [FlushTick ex_db_io 12]) (cl_init \<lparr> es_rows = [], es_seq = 1 \<rparr>)))
     = stream 1 ex_acts"
proof -
  have g: "io_good ex_db_io (stream 1 ex_acts)" by code_simp
  have stop: "\<forall>a \<in> set ex_acts. \<not> is_stop a" by (simp add: ex_acts_def)
  have "\<forall>a \<in> set ex_acts. \<forall>io'. act_io a = Some io' \<longrightarrow> io' = ex_db_io"
    by (simp add: ex_acts_def)
  then have "\<forall>a \<in> set ex_acts. \<forall>io'. act_io a = Some io' \<longrightarrow> io_good io' (stream 1 ex_acts)" using g by blast
  from collector_stores_all [OF ex_acts_stream(2) stop _ g this refl] ex_acts_stream(1) show ?thesis
    by (simp add: table_bodies_def)
qed

end
