(* ===== verification/Alerts.thy ===== *)
theory Alerts
  imports Collector Users "HOL-Library.AList"
begin

text \<open>
  Mail alerts: the mail configuration and its validation (\<open>internal/mail/mail.go\<close>), its
  handlers and the alert loop (\<open>cmd/saguaro/mail.go\<close>), and the aggregation rule
  (\<open>internal/mail/aggregate.go\<close>). Times are integers in one unit; the window of the loop is a
  parameter of the aggregator as in the code. The map of the aggregator is an association list;
  Go iterates over it in no particular order, and no statement below depends on the order.
  Password encryption and the rendering of time stamps are parameters.
\<close>

section \<open>Configuration\<close>

record Mail_Config =
  mc_Enabled :: bool
  mc_Host :: string
  mc_Port :: int
  mc_TLSMode :: string
  mc_From :: string
  mc_Username :: string
  mc_PasswordEnc :: string
  mc_Recipients :: "string list"
  mc_MinSeverity :: string

definition mail_Validate :: "Mail_Config \<Rightarrow> string option" where
  "mail_Validate c =
     err_then (fail_if (mc_Host c = []) ''SMTP host is required'')
    (err_then (fail_if (mc_Port c < 1 \<or> 65535 < mc_Port c) ''SMTP port must be 1-65535'')
    (err_then (fail_if (mc_TLSMode c \<notin> {''starttls'', ''tls'', ''none''}) ''tlsMode must be starttls, tls or none'')
    (err_then (fail_if (\<not> Contains_str (mc_From c) ''@'') ''from address is invalid'')
    (err_then (fail_if (mc_Recipients c = []) ''at least one recipient is required'')
      (first_err (\<lambda>r. fail_if (\<not> Contains_str r ''@'') (''recipient '' @ Quote r @ '' is invalid'')) (mc_Recipients c))))))"

text \<open>The message that \<open>Send\<close> writes.\<close>

definition crlf :: string where
  "crlf = [CHR 0x0D, CHR 0x0A]"

definition mail_message :: "Mail_Config \<Rightarrow> string \<Rightarrow> string \<Rightarrow> string" where
  "mail_message cfg subject body =
     ''From: '' @ mc_From cfg @ crlf @ ''To: '' @ Join (mc_Recipients cfg) '', '' @ crlf @ ''Subject: '' @ subject @ crlf
     @ ''MIME-Version: 1.0'' @ crlf @ ''Content-Type: text/plain; charset=utf-8'' @ crlf @ crlf @ body @ crlf"

record mailView =
  mv_Enabled :: bool
  mv_Host :: string
  mv_Port :: int
  mv_TLSMode :: string
  mv_From :: string
  mv_Username :: string
  mv_HasPassword :: bool
  mv_Recipients :: "string list"
  mv_MinSeverity :: string

definition toView :: "Mail_Config \<Rightarrow> mailView" where
  "toView cfg = \<lparr> mv_Enabled = mc_Enabled cfg, mv_Host = mc_Host cfg, mv_Port = mc_Port cfg, mv_TLSMode = mc_TLSMode cfg,
     mv_From = mc_From cfg, mv_Username = mc_Username cfg, mv_HasPassword = (mc_PasswordEnc cfg \<noteq> []),
     mv_Recipients = mc_Recipients cfg, mv_MinSeverity = mc_MinSeverity cfg \<rparr>"

definition default_mail :: Mail_Config where
  "default_mail = \<lparr> mc_Enabled = False, mc_Host = [], mc_Port = 587, mc_TLSMode = ''starttls'', mc_From = [], mc_Username = [],
     mc_PasswordEnc = [], mc_Recipients = [], mc_MinSeverity = ''error'' \<rparr>"

definition apiMailGet :: "Mail_Config option \<Rightarrow> mailView" where
  "apiMailGet stored_cfg = toView (case stored_cfg of None \<Rightarrow> default_mail | Some cfg \<Rightarrow> cfg)"

datatype mail_error = BadRequest string | Internal string

text \<open>
  \<open>enc\<close> is the encryption with the appliance's key (\<open>None\<close> without a key), itself fallible;
  \<open>saved\<close> says whether the store could be written. The request carries the plain password in
  the field of the encrypted one. A failed write leaves the new value in memory.
\<close>

type_synonym mail_state = "Mail_Config option \<times> auditEvent list"

definition apiMailPut ::
  "(string \<Rightarrow> string option) option \<Rightarrow> bool \<Rightarrow> reqctx \<Rightarrow> Mail_Config \<Rightarrow> mail_state \<Rightarrow> (mail_error + mailView) \<times> mail_state" where
  "apiMailPut enc saved rq req s =
     (let old = fst s; sev = (if mc_MinSeverity req = [] then ''error'' else mc_MinSeverity req)
      in if \<not> ValidSeverity sev then (Inl (BadRequest ''invalid minSeverity''), s)
         else let pw = mc_PasswordEnc req;
                  sealed = (if pw \<noteq> []
                            then (case enc of
                                    None \<Rightarrow> Inl (Internal ''secret key unavailable; cannot store SMTP password'')
                                  | Some f \<Rightarrow> (case f pw of None \<Rightarrow> Inl (Internal ''cannot encrypt SMTP password'') | Some k \<Rightarrow> Inr k))
                            else Inr (case old of None \<Rightarrow> [] | Some o' \<Rightarrow> mc_PasswordEnc o'))
              in case sealed of
                   Inl e \<Rightarrow> (Inl e, s)
                 | Inr k \<Rightarrow>
                     let cfg = req \<lparr> mc_MinSeverity := sev, mc_PasswordEnc := k \<rparr>
                     in case mail_Validate cfg of
                          Some m \<Rightarrow> (Inl (BadRequest m), s)
                        | None \<Rightarrow> if saved then (Inr (toView cfg), Some cfg, recordSev rq (actor rq) ''mail-config'' ''mail'' ''success'' ''info'' (snd s))
                                  else (Inl (Internal ''cannot persist mail configuration''), Some cfg, snd s))"

section \<open>Aggregation\<close>

record aggState =
  ag_firstSent :: int
  ag_suppressed :: nat
  ag_last :: string

record Aggregator =
  ag_window :: int
  ag_seen :: "(string \<times> aggState) list"

record Summary =
  sm_Key :: string
  sm_Count :: nat
  sm_Last :: string

definition ten_minutes :: int where
  "ten_minutes = 600000"

definition NewAggregator :: "int \<Rightarrow> Aggregator" where
  "NewAggregator window = \<lparr> ag_window = (if window \<le> 0 then ten_minutes else window), ag_seen = [] \<rparr>"

definition Offer :: "string \<Rightarrow> string \<Rightarrow> int \<Rightarrow> Aggregator \<Rightarrow> bool \<times> Aggregator" where
  "Offer key message now a =
     (let fresh = (True, a \<lparr> ag_seen := AList.update key \<lparr> ag_firstSent = now, ag_suppressed = 0, ag_last = [] \<rparr> (ag_seen a) \<rparr>)
      in case map_of (ag_seen a) key of
           None \<Rightarrow> fresh
         | Some st \<Rightarrow>
             if ag_window a < now - ag_firstSent st then fresh
             else (False, a \<lparr> ag_seen := AList.update key (st \<lparr> ag_suppressed := ag_suppressed st + 1, ag_last := message \<rparr>) (ag_seen a) \<rparr>))"

definition expired :: "int \<Rightarrow> Aggregator \<Rightarrow> string \<times> aggState \<Rightarrow> bool" where
  "expired now a p \<longleftrightarrow> \<not> now - ag_firstSent (snd p) < ag_window a"

definition agg_Flush :: "int \<Rightarrow> Aggregator \<Rightarrow> Summary list \<times> Aggregator" where
  "agg_Flush now a =
     (map (\<lambda>(key, st). \<lparr> sm_Key = key, sm_Count = ag_suppressed st, sm_Last = ag_last st \<rparr>)
        (filter (\<lambda>p. expired now a p \<and> 0 < ag_suppressed (snd p)) (ag_seen a)),
      a \<lparr> ag_seen := filter (\<lambda>p. \<not> expired now a p) (ag_seen a) \<rparr>)"

section \<open>The alert loop\<close>

definition truncate_text :: "string \<Rightarrow> nat \<Rightarrow> string" where
  "truncate_text s n = (if length s \<le> n then s else take n s @ [CHR 0xE2, CHR 0x80, CHR 0xA6])"

definition alert_key :: "Event \<Rightarrow> string" where
  "alert_key e = ev_Module e @ ''|'' @ ev_Severity e @ ''|'' @ ev_Action e @ ''|'' @ truncate_text (ev_Message e) 120"

fun offer_loop :: "int \<Rightarrow> Event list \<Rightarrow> int \<times> Aggregator \<Rightarrow> Event list \<times> int \<times> Aggregator" where
  "offer_loop now [] (cursor, a) = ([], cursor, a)"
| "offer_loop now (e # es) (cursor, a) =
     (case Offer (alert_key e) (ev_Message e) now a of
        (send, a') \<Rightarrow> (case offer_loop now es (ev_ID e, a') of (fresh, st) \<Rightarrow> (if send then e # fresh else fresh, st)))"

definition alert_subject :: "string \<Rightarrow> Event list \<Rightarrow> string" where
  "alert_subject minSev fresh =
     (if 1 < length fresh then ''[SNA] '' @ nat_str (length fresh) @ '' new alerts ('' @ minSev @ '' and above)''
      else ''[SNA]['' @ ToUpper (ev_Severity (hd fresh)) @ ''] '' @ ev_Module (hd fresh) @ '': '' @ truncate_text (ev_Message (hd fresh)) 80)"

definition nl :: string where
  "nl = [CHR 0x0A]"

definition alert_body :: "(int \<Rightarrow> string) \<Rightarrow> Event list \<Rightarrow> string" where
  "alert_body rfc3339 fresh =
     concat (map (\<lambda>e. rfc3339 (ev_TS e) @ ''  ['' @ ev_Severity e @ ''] '' @ ev_Module e @ '': '' @ ev_Message e @ nl) fresh)
     @ nl @ ''Duplicates of these events are aggregated for 10 minutes.'' @ nl"

definition summary_body :: "Summary list \<Rightarrow> string" where
  "summary_body sums =
     concat (map (\<lambda>s. nat_str (sm_Count s) @ ''x  '' @ sm_Key s @ nl @ ''     last: '' @ truncate_text (sm_Last s) 200 @ nl) sums)"

definition summary_subject :: "Summary list \<Rightarrow> string" where
  "summary_subject sums =
     ''[SNA] summary: '' @ nat_str (sum_list (map sm_Count sums)) @ '' suppressed duplicate events''"

text \<open>One tick: the mail configuration, the outcome of the query and the clock come from outside.\<close>

record tick_io =
  ti_cfg :: "Mail_Config option"
  ti_query_ok :: bool
  ti_now :: int

record tick_out =
  to_offered :: "Event list"
  to_fresh :: "Event list"
  to_sums :: "Summary list"
  to_mails :: "(string \<times> string) list"

definition idle_tick :: tick_out where
  "idle_tick = \<lparr> to_offered = [], to_fresh = [], to_sums = [], to_mails = [] \<rparr>"

definition alert_sevs :: "Mail_Config \<Rightarrow> string list" where
  "alert_sevs cfg =
     (case SeveritiesAtLeast (mc_MinSeverity cfg) of
        Some ss \<Rightarrow> ss
      | None \<Rightarrow> (case SeveritiesAtLeast ''error'' of Some ss \<Rightarrow> ss | None \<Rightarrow> []))"

definition alert_tick :: "(int \<Rightarrow> string) \<Rightarrow> tick_io \<Rightarrow> estore \<Rightarrow> int \<times> Aggregator \<Rightarrow> tick_out \<times> int \<times> Aggregator" where
  "alert_tick rfc3339 io st s =
     (case ti_cfg io of
        None \<Rightarrow> (idle_tick, s)
      | Some cfg \<Rightarrow>
          if \<not> mc_Enabled cfg then (idle_tick, s)
          else case QueryAfter (ti_query_ok io) (fst s) (alert_sevs cfg) 500 st of
                 Inl _ \<Rightarrow> (idle_tick, s)
               | Inr evs \<Rightarrow>
                   (case offer_loop (ti_now io) evs s of (fresh, cursor, a) \<Rightarrow>
                      case agg_Flush (ti_now io) a of (sums, a') \<Rightarrow>
                        (\<lparr> to_offered = evs, to_fresh = fresh, to_sums = sums,
                           to_mails = only_if (fresh \<noteq> []) [(alert_subject (mc_MinSeverity cfg) fresh, alert_body rfc3339 fresh)]
                                      @ only_if (sums \<noteq> []) [(summary_subject sums, summary_body sums)] \<rparr>,
                         cursor, a')))"

text \<open>The loop: each tick meets the table as it is then.\<close>

fun alert_run :: "(int \<Rightarrow> string) \<Rightarrow> (tick_io \<times> estore) list \<Rightarrow> int \<times> Aggregator \<Rightarrow> tick_out list \<times> int \<times> Aggregator" where
  "alert_run rfc3339 [] s = ([], s)"
| "alert_run rfc3339 ((io, st) # ts) s =
     (case alert_tick rfc3339 io st s of (out, s') \<Rightarrow> case alert_run rfc3339 ts s' of (outs, s'') \<Rightarrow> (out # outs, s''))"

text \<open>The loop starts behind the newest event, or at zero when that cannot be read.\<close>

definition alert_start :: "bool \<Rightarrow> estore \<Rightarrow> int \<times> Aggregator" where
  "alert_start ok st = (case MaxID ok st of None \<Rightarrow> 0 | Some i \<Rightarrow> i, NewAggregator ten_minutes)"

section \<open>At most one alert per key and window\<close>

text \<open>
  \<open>H\<close> are the alerts sent so far as pairs of time and key, \<open>live\<close> the keys whose window is open
  with the time it opened: every alert sent is remembered, or its window is over.
\<close>

definition spaced :: "int \<Rightarrow> ('k \<rightharpoonup> int) \<Rightarrow> (int \<times> 'k) set \<Rightarrow> int \<Rightarrow> bool" where
  "spaced W live H now \<longleftrightarrow>
     (\<forall>(t, k) \<in> H. t \<le> now \<and> (t + W \<le> now \<or> (\<exists>t0. live k = Some t0 \<and> t \<le> t0)))"

lemma spaced_later: "spaced W live H now \<Longrightarrow> now \<le> now' \<Longrightarrow> spaced W live H now'"
  unfolding spaced_def by fastforce

text \<open>What the loop relies on in an aggregator.\<close>

locale alert_window =
  fixes offer :: "'k \<Rightarrow> 'm \<Rightarrow> int \<Rightarrow> 's \<Rightarrow> bool \<times> 's"
    and flush_due :: "int \<Rightarrow> 's \<Rightarrow> 'o \<times> 's"
    and live :: "'s \<Rightarrow> 'k \<rightharpoonup> int"
    and window :: "'s \<Rightarrow> int"
    and wf :: "'s \<Rightarrow> bool"
  assumes offer_sends: "wf s \<Longrightarrow> fst (offer k m now s) \<longleftrightarrow> (case live s k of None \<Rightarrow> True | Some t \<Rightarrow> window s < now - t)"
    and offer_live: "wf s \<Longrightarrow> live (snd (offer k m now s)) = (if fst (offer k m now s) then (live s)(k \<mapsto> now) else live s)"
    and flush_live: "wf s \<Longrightarrow> live (snd (flush_due now s)) k = (case live s k of None \<Rightarrow> None | Some t \<Rightarrow> if now - t < window s then Some t else None)"
    and offer_keeps: "wf s \<Longrightarrow> wf (snd (offer k m now s)) \<and> window (snd (offer k m now s)) = window s"
    and flush_keeps: "wf s \<Longrightarrow> wf (snd (flush_due now s)) \<and> window (snd (flush_due now s)) = window s"
begin

lemma offer_spaced:
  assumes "wf s" "0 < window s" "spaced (window s) (live s) H now" "offer k m now s = (send, s')"
  shows "spaced (window s) (live s') (if send then insert (now, k) H else H) now"
    and "send \<Longrightarrow> (t, k) \<in> H \<Longrightarrow> t + window s \<le> now"
proof -
  from assms(1,4) have l: "live s' = (if send then (live s)(k \<mapsto> now) else live s)"
    and b: "send \<longleftrightarrow> (case live s k of None \<Rightarrow> True | Some t \<Rightarrow> window s < now - t)"
    using offer_live [of s k m now] offer_sends [of s k m now] by simp_all
  show due: "t + window s \<le> now" if "send" "(t, k) \<in> H" for t
    using that b assms(3) by (cases "live s k") (fastforce simp: spaced_def)+
  show "spaced (window s) (live s') (if send then insert (now, k) H else H) now"
    using assms(3) due unfolding spaced_def l by (fastforce split: if_splits)
qed

lemma flush_spaced:
  assumes "wf s" "spaced (window s) (live s) H now" "flush_due now s = (x, s')"
  shows "spaced (window s) (live s') H now"
  unfolding spaced_def
proof clarify
  fix t k assume "(t, k) \<in> H"
  with assms(2) have t: "t \<le> now" "t + window s \<le> now \<or> (\<exists>t0. live s k = Some t0 \<and> t \<le> t0)" by (auto simp: spaced_def)
  from assms(1,3) have "live s' k = (case live s k of None \<Rightarrow> None | Some t \<Rightarrow> if now - t < window s then Some t else None)"
    using flush_live [of s now k] by simp
  with t show "t \<le> now \<and> (t + window s \<le> now \<or> (\<exists>t0. live s' k = Some t0 \<and> t \<le> t0))" by auto
qed

end

definition agg_live :: "Aggregator \<Rightarrow> string \<rightharpoonup> int" where
  "agg_live a = map_option ag_firstSent \<circ> map_of (ag_seen a)"

definition agg_ok :: "Aggregator \<Rightarrow> bool" where
  "agg_ok a \<longleftrightarrow> distinct (map fst (ag_seen a))"

text \<open>With unique keys, expiry decides about each entry alone.\<close>

lemma kept_entry_iff:
  assumes "distinct (map fst entries)"
  shows "map_of (filter keep entries) key = Some st \<longleftrightarrow> map_of entries key = Some st \<and> keep (key, st)"
proof -
  have "distinct (map fst (filter keep entries))" using assms by (rule distinct_map_filter)
  then show ?thesis using assms by (auto simp: map_of_eq_Some_iff)
qed

interpretation agg: alert_window Offer agg_Flush agg_live ag_window agg_ok
proof
  fix s k m now
  assume ok: "agg_ok s"
  show "fst (Offer k m now s) \<longleftrightarrow> (case agg_live s k of None \<Rightarrow> True | Some t \<Rightarrow> ag_window s < now - t)"
    by (simp add: Offer_def agg_live_def Let_def split: option.split)
  show "agg_live (snd (Offer k m now s)) = (if fst (Offer k m now s) then (agg_live s)(k \<mapsto> now) else agg_live s)"
    by (auto simp: Offer_def agg_live_def Let_def update_conv' fun_eq_iff split: option.split)
  show "agg_ok (snd (Offer k m now s)) \<and> ag_window (snd (Offer k m now s)) = ag_window s"
    using ok by (simp add: Offer_def agg_ok_def Let_def distinct_update split: option.split)
next
  fix s now k
  assume ok: "agg_ok s"
  show "agg_live (snd (agg_Flush now s)) k = (case agg_live s k of None \<Rightarrow> None | Some t \<Rightarrow> if now - t < ag_window s then Some t else None)"
  proof (cases "map_of (ag_seen s) k")
    case None
    then have "map_of (filter keep (ag_seen s)) k = None" for keep
      using kept_entry_iff [of "ag_seen s" keep k] ok by (cases "map_of (filter keep (ag_seen s)) k") (auto simp: agg_ok_def)
    with None show ?thesis by (simp add: agg_Flush_def agg_live_def)
  next
    case (Some st)
    let ?keep = "\<lambda>p. \<not> expired now s p"
    have iff: "map_of (filter ?keep (ag_seen s)) k = Some x \<longleftrightarrow> x = st \<and> ?keep (k, x)" for x
      using kept_entry_iff [of "ag_seen s" ?keep k x] ok Some unfolding agg_ok_def by (metis option.inject)
    have "map_of (filter ?keep (ag_seen s)) k = (if ?keep (k, st) then Some st else None)"
    proof (cases "map_of (filter ?keep (ag_seen s)) k")
      case None
      with iff [of st] show ?thesis by simp
    next
      case (Some x)
      with iff [of x] have "x = st" "?keep (k, st)" by auto
      with Some show ?thesis by simp
    qed
    with Some show ?thesis by (simp add: agg_Flush_def agg_live_def expired_def)
  qed
next
  fix s now
  assume ok: "agg_ok s"
  then show "agg_ok (snd (agg_Flush now s)) \<and> ag_window (snd (agg_Flush now s)) = ag_window s"
    by (simp add: agg_Flush_def agg_ok_def distinct_map_filter)
qed

abbreviation alerts_at :: "int \<Rightarrow> Event list \<Rightarrow> (int \<times> string) set" where
  "alerts_at now fresh \<equiv> (\<lambda>e. (now, alert_key e)) ` set fresh"

definition agg_inv :: "Aggregator \<Rightarrow> (int \<times> string) set \<Rightarrow> int \<Rightarrow> bool" where
  "agg_inv a H now \<longleftrightarrow> agg_ok a \<and> 0 < ag_window a \<and> spaced (ag_window a) (agg_live a) H now"

lemma offer_loop_spaced:
  assumes "agg_inv a H now" "offer_loop now es (cursor, a) = (fresh, cursor', a')"
  shows "agg_inv a' (H \<union> alerts_at now fresh) now \<and> ag_window a' = ag_window a \<and> distinct (map alert_key fresh)
    \<and> (\<forall>e \<in> set fresh. \<forall>t. (t, alert_key e) \<in> H \<longrightarrow> t + ag_window a \<le> now)"
  using assms
proof (induction es arbitrary: cursor a H fresh)
  case (Cons e es)
  obtain send a1 where o: "Offer (alert_key e) (ev_Message e) now a = (send, a1)" by fastforce
  obtain fresh1 where l: "offer_loop now es (ev_ID e, a1) = (fresh1, cursor', a')" and f: "fresh = (if send then e # fresh1 else fresh1)"
    using Cons.prems(2) o by (auto split: prod.splits)
  let ?H = "if send then insert (now, alert_key e) H else H"
  from Cons.prems(1) have a: "agg_ok a" "0 < ag_window a" "spaced (ag_window a) (agg_live a) H now" by (auto simp: agg_inv_def)
  have w: "agg_ok a1" "ag_window a1 = ag_window a" using agg.offer_keeps [OF a(1), of "alert_key e" "ev_Message e" now] o by simp_all
  have i: "agg_inv a1 ?H now" using agg.offer_spaced(1) [OF a o] w a(2) by (simp add: agg_inv_def)
  note ih = Cons.IH [OF i l]
  have "?H \<union> alerts_at now fresh1 = H \<union> alerts_at now fresh" using f by auto
  moreover have "alert_key e \<notin> alert_key ` set fresh1" if send
  proof
    assume "alert_key e \<in> alert_key ` set fresh1"
    then obtain e' where "e' \<in> set fresh1" "alert_key e' = alert_key e" by auto
    with ih that have "now + ag_window a1 \<le> now" by auto
    with w a(2) show False by simp
  qed
  moreover have "\<forall>t. (t, alert_key e) \<in> H \<longrightarrow> t + ag_window a \<le> now" if send using agg.offer_spaced(2) [OF a o that] by blast
  ultimately show ?case using ih f w by (auto split: if_splits)
qed simp

lemma alert_tick_spaced:
  assumes "agg_inv a H t0" "t0 \<le> ti_now io" "alert_tick rfc io st (cursor, a) = (out, cursor', a')"
  shows "agg_inv a' (H \<union> alerts_at (ti_now io) (to_fresh out)) (ti_now io) \<and> ag_window a' = ag_window a
    \<and> distinct (map alert_key (to_fresh out))
    \<and> (\<forall>e \<in> set (to_fresh out). \<forall>t. (t, alert_key e) \<in> H \<longrightarrow> t + ag_window a \<le> ti_now io)"
proof -
  have i: "agg_inv a H (ti_now io)" using assms(1,2) spaced_later by (auto simp: agg_inv_def)
  show ?thesis
  proof (cases "out = idle_tick \<and> a' = a")
    case True
    with i show ?thesis by (simp add: idle_tick_def)
  next
    case False
    with assms(3) obtain evs fresh c1 a1 sums where l: "offer_loop (ti_now io) evs (cursor, a) = (fresh, c1, a1)"
      and fl: "agg_Flush (ti_now io) a1 = (sums, a')" and f: "to_fresh out = fresh"
      by (auto simp: alert_tick_def split: option.splits if_splits sum.splits prod.splits)
    note r = offer_loop_spaced [OF i l]
    then have "agg_inv a' (H \<union> alerts_at (ti_now io) fresh) (ti_now io) \<and> ag_window a' = ag_window a1"
      using agg.flush_spaced [of a1 _ "ti_now io" sums a', OF _ _ fl] agg.flush_keeps [of a1 "ti_now io"] fl
      by (auto simp: agg_inv_def)
    with r f show ?thesis by simp
  qed
qed

text \<open>The alerts of a run, tick by tick with the time; \<open>apart\<close> is the required distance.\<close>

definition alert_log :: "(tick_io \<times> estore) list \<Rightarrow> tick_out list \<Rightarrow> (int \<times> Event list) list" where
  "alert_log ts outs = zip (map (\<lambda>x. ti_now (fst x)) ts) (map to_fresh outs)"

definition apart :: "int \<Rightarrow> int \<times> Event list \<Rightarrow> int \<times> Event list \<Rightarrow> bool" where
  "apart W p q \<longleftrightarrow> (\<forall>e \<in> set (snd p). \<forall>e' \<in> set (snd q). alert_key e = alert_key e' \<longrightarrow> fst p + W \<le> fst q)"

lemma alert_run_spaced:
  assumes "agg_inv a H t0" "sorted (t0 # map (\<lambda>x. ti_now (fst x)) ts)" "alert_run rfc ts (cursor, a) = (outs, s)"
  shows "sorted_wrt (apart (ag_window a)) (alert_log ts outs)
    \<and> (\<forall>p \<in> set (alert_log ts outs). distinct (map alert_key (snd p))
         \<and> (\<forall>e \<in> set (snd p). \<forall>t. (t, alert_key e) \<in> H \<longrightarrow> t + ag_window a \<le> fst p))"
  using assms
proof (induction ts arbitrary: a H t0 cursor outs)
  case (Cons x ts)
  obtain io st where x: "x = (io, st)" by fastforce
  obtain out cursor1 a1 where t: "alert_tick rfc io st (cursor, a) = (out, cursor1, a1)" by (metis prod_cases3)
  obtain outs1 where r: "alert_run rfc ts (cursor1, a1) = (outs1, s)" and o: "outs = out # outs1"
    using Cons.prems(3) t x by (auto split: prod.splits)
  let ?H = "H \<union> alerts_at (ti_now io) (to_fresh out)"
  from Cons.prems(2) x have le: "t0 \<le> ti_now io" and srt: "sorted (ti_now io # map (\<lambda>x. ti_now (fst x)) ts)" by auto
  note k = alert_tick_spaced [OF Cons.prems(1) le t]
  note ih = Cons.IH [OF conjunct1 [OF k] srt r]
  have log: "alert_log (x # ts) outs = (ti_now io, to_fresh out) # alert_log ts outs1"
    using x o by (simp add: alert_log_def)
  have "apart (ag_window a) (ti_now io, to_fresh out) q" if "q \<in> set (alert_log ts outs1)" for q
    unfolding apart_def
  proof (intro ballI impI)
    fix e e' assume e: "e \<in> set (snd (ti_now io, to_fresh out))" "e' \<in> set (snd q)" "alert_key e = alert_key e'"
    then have "(ti_now io, alert_key e') \<in> ?H" by (metis UnI2 image_eqI snd_conv)
    with ih that e(2) have "ti_now io + ag_window a1 \<le> fst q" by blast
    with k show "fst (ti_now io, to_fresh out) + ag_window a \<le> fst q" by simp
  qed
  moreover have "\<forall>p \<in> set (alert_log ts outs1). \<forall>e \<in> set (snd p). \<forall>t. (t, alert_key e) \<in> H \<longrightarrow> t + ag_window a \<le> fst p"
    using ih k by simp
  ultimately show ?case using ih k unfolding log by simp
qed (simp add: alert_log_def)

text \<open>
  C34. Alert spacing: while the clock does not run backwards, two alerts of the same kind of event
  (module, severity, action and the start of the message) are never mailed less than ten
  minutes apart, whatever happens in between: events of other kinds, ticks with mail disabled,
  failing queries or changed settings; and one mail names no kind twice.
\<close>

theorem alerts_apart:
  assumes "alert_run rfc ts (alert_start ok st) = (outs, s)" "sorted (map (\<lambda>x. ti_now (fst x)) ts)"
  shows "sorted_wrt (apart ten_minutes) (alert_log ts outs) \<and> (\<forall>p \<in> set (alert_log ts outs). distinct (map alert_key (snd p)))"
proof -
  have "agg_inv (NewAggregator ten_minutes) {} t" for t
    by (simp add: agg_inv_def agg_ok_def NewAggregator_def ten_minutes_def spaced_def)
  moreover obtain t0 where "sorted (t0 # map (\<lambda>x. ti_now (fst x)) ts)"
    using assms(2) by (cases ts) (fastforce, force)
  ultimately show ?thesis
    using alert_run_spaced [of "NewAggregator ten_minutes" "{}" t0 ts rfc _ outs s] assms(1)
    by (simp add: alert_start_def NewAggregator_def ten_minutes_def)
qed

definition ex_mail :: Mail_Config where
  "ex_mail = \<lparr> mc_Enabled = True, mc_Host = ''mx'', mc_Port = 25, mc_TLSMode = ''none'', mc_From = ''gw@example'', mc_Username = [],
     mc_PasswordEnc = [], mc_Recipients = [''ops@example''], mc_MinSeverity = ''error'' \<rparr>"

definition ex_storm :: "int \<Rightarrow> Event" where
  "ex_storm i = zero_Event \<lparr> ev_ID := i, ev_TS := 0, ev_Module := ''dns'', ev_Severity := ''error'', ev_Message := ''down'' \<rparr>"

definition ex_store :: "int \<Rightarrow> estore" where
  "ex_store n = \<lparr> es_rows = map ex_storm [1..n], es_seq = n + 1 \<rparr>"

text \<open>Two ticks, 29.99 and 629.99 seconds after the loop began, with new events before each.\<close>

definition ex_ticks :: "(tick_io \<times> estore) list" where
  "ex_ticks = [(\<lparr> ti_cfg = Some ex_mail, ti_query_ok = True, ti_now = 29990 \<rparr>, ex_store 3),
               (\<lparr> ti_cfg = Some ex_mail, ti_query_ok = True, ti_now = 629995 \<rparr>, ex_store 5)]"

theorem alerts_apart_witness:
  "sorted_wrt (apart ten_minutes)
     (alert_log ex_ticks (fst (alert_run (\<lambda>_. []) ex_ticks (alert_start True (ex_store 0)))))"
  using alerts_apart [of "\<lambda>_. []" ex_ticks True "ex_store 0"
      "fst (alert_run (\<lambda>_. []) ex_ticks (alert_start True (ex_store 0)))" "snd (alert_run (\<lambda>_. []) ex_ticks (alert_start True (ex_store 0)))"]
  by (simp add: ex_ticks_def)

text \<open>
  A storm that goes on over the end of the window: the first tick mails one event and counts two
  duplicates, the second offers before it flushes, so it mails again and the two duplicates
  are in no summary.
\<close>

theorem storm_summary_lost:
  "map (\<lambda>t. (length (to_offered t), length (to_fresh t), to_sums t))
     (fst (alert_run (\<lambda>_. []) ex_ticks (alert_start True (ex_store 0)))) = [(3, 1, []), (2, 1, [])]"
  by code_simp

section \<open>Every event is offered once\<close>

text \<open>The table as insertions leave it: old rows stay, new ones carry higher numbers.\<close>

definition grows :: "estore \<Rightarrow> estore \<Rightarrow> bool" where
  "grows st st' \<longleftrightarrow>
     es_seq st \<le> es_seq st' \<and> (\<exists>more. es_rows st' = es_rows st @ more \<and> (\<forall>e \<in> set more. es_seq st \<le> ev_ID e))"

lemma grows_refl: "grows st st"
  by (simp add: grows_def)

lemma grows_trans: "grows a b \<Longrightarrow> grows b c \<Longrightarrow> grows a c"
  unfolding grows_def by (elim conjE exE) (auto intro: order_trans)

lemma Insert_grows: "grows st (snd (Insert acc now e st))"
  by (simp add: grows_def Insert_def Let_def)

lemma insert_rows_grows: "grows st (snd (insert_rows acc now b st))"
proof (induction acc now b st rule: insert_rows.induct)
  case (2 acc now e es st)
  obtain ok st' where i: "Insert acc now e st = (ok, st')" by fastforce
  with Insert_grows [of st acc now e] have "grows st st'" by simp
  with "2.IH" [of ok st'] i show ?case by (cases ok) (auto intro: grows_trans)
qed (simp add: grows_refl)

lemma InsertBatch_grows: "grows st (snd (InsertBatch io now b st))"
proof -
  have "grows st (snd (insert_rows (io_accepts io) now b st))" by (rule insert_rows_grows)
  moreover from this have "grows st (st \<lparr> es_seq := es_seq (snd (insert_rows (io_accepts io) now b st)) \<rparr>)"
    by (simp add: grows_def)
  ultimately show ?thesis by (auto simp: InsertBatch_def grows_refl split: prod.splits)
qed

definition matching :: "int \<Rightarrow> int \<Rightarrow> string list \<Rightarrow> estore \<Rightarrow> Event list" where
  "matching lo hi sevs st = filter (\<lambda>e. lo < ev_ID e \<and> ev_ID e \<le> hi \<and> ev_Severity e \<in> set sevs) (es_rows st)"

lemma sort_key_filter_sorted:
  "sorted_wrt (<) (map f xs) \<Longrightarrow> sort_key f (filter P xs) = filter P xs" for f :: "'a \<Rightarrow> int"
  by (intro sort_key_id_if_sorted sorted_filter strict_sorted_imp_sorted)

lemma after_rows_sorted:
  "estore_ok st \<Longrightarrow> after_rows after sevs st = filter (\<lambda>e. after < ev_ID e \<and> ev_Severity e \<in> set sevs) (es_rows st)"
  by (simp add: after_rows_def estore_ok_def sort_key_filter_sorted)

lemma last_is_max: "sorted_wrt (<) (map f ys) \<Longrightarrow> e \<in> set ys \<Longrightarrow> f e \<le> f (last ys)" for f :: "'a \<Rightarrow> int"
  by (induction ys) (auto intro: order.strict_implies_order)

text \<open>A prefix of what is pending is what matches up to the prefix's last number.\<close>

lemma take_pending:
  assumes "sorted_wrt (<) (map ev_ID rows)" "ys = take n (filter (\<lambda>e. lo < ev_ID e \<and> P e) rows)" "ys \<noteq> []"
  shows "ys = filter (\<lambda>e. lo < ev_ID e \<and> ev_ID e \<le> ev_ID (last ys) \<and> P e) rows"
proof -
  let ?f = "filter (\<lambda>e. lo < ev_ID e \<and> P e) rows"
  let ?zs = "drop n ?f" and ?Q = "\<lambda>e. ev_ID e \<le> ev_ID (last ys)"
  have f: "?f = ys @ ?zs" using assms(2) by simp
  have "sorted_wrt (<) (map ev_ID ?f)" using assms(1) by (simp add: sorted_wrt_map sorted_wrt_filter)
  with f have s: "sorted_wrt (<) (map ev_ID (ys @ ?zs))" by metis
  have z: "\<forall>e \<in> set ?zs. \<not> ?Q e"
    using s last_in_set [OF assms(3)] by (simp add: sorted_wrt_append not_le)
  have "\<forall>e \<in> set ys. ?Q e" using s by (simp add: sorted_wrt_append last_is_max)
  with z have "filter ?Q (ys @ ?zs) = ys" by (simp add: filter_id_conv)
  then have "filter ?Q ?f = ys" using f by simp
  then show ?thesis by (simp add: conj_ac)
qed

lemma matching_same [simp]: "matching c c sevs st = []"
  by (simp add: matching_def filter_empty_conv)

lemma filter_split_sorted:
  fixes f :: "'a \<Rightarrow> int"
  assumes "sorted_wrt (<) (map f xs)" "lo \<le> mid" "mid \<le> hi"
  shows "filter (\<lambda>e. lo < f e \<and> f e \<le> mid \<and> P e) xs @ filter (\<lambda>e. mid < f e \<and> f e \<le> hi \<and> P e) xs
    = filter (\<lambda>e. lo < f e \<and> f e \<le> hi \<and> P e) xs"
  using assms
proof (induction xs)
  case (Cons x xs)
  have "filter (\<lambda>e. lo < f e \<and> f e \<le> mid \<and> P e) xs = []" if "mid < f x"
    using Cons.prems(1) that by (auto simp: filter_empty_conv)
  with Cons show ?case by (cases "mid < f x") auto
qed simp

lemma matching_split:
  "estore_ok st \<Longrightarrow> lo \<le> mid \<Longrightarrow> mid \<le> hi \<Longrightarrow> matching lo mid sevs st @ matching mid hi sevs st = matching lo hi sevs st"
  unfolding matching_def estore_ok_def by (rule filter_split_sorted) auto

lemma matching_grows: "grows st st' \<Longrightarrow> hi < es_seq st \<Longrightarrow> matching lo hi sevs st' = matching lo hi sevs st"
  by (fastforce simp: grows_def matching_def filter_empty_conv)

lemma offer_loop_cursor:
  "offer_loop now es (c, a) = (fresh, c', a') \<Longrightarrow> c' = (if es = [] then c else ev_ID (last es))"
  by (induction es arbitrary: c a fresh) (auto split: prod.splits)

lemma error_severities: "\<exists>ss. SeveritiesAtLeast ''error'' = Some ss"
  by (simp add: SeveritiesAtLeast_def Rank_values Let_def)

lemma alert_sevs_valid: "s \<in> set (alert_sevs cfg) \<Longrightarrow> ValidSeverity s"
  using error_severities by (auto simp: alert_sevs_def SeveritiesAtLeast_mem split: option.splits)

lemma QueryAfter_alerts:
  assumes "QueryAfter ok c (alert_sevs cfg) 500 st = Inr evs" "estore_ok st"
  shows "evs = map listed_row (take 500 (filter (\<lambda>e. c < ev_ID e \<and> ev_Severity e \<in> set (alert_sevs cfg)) (es_rows st)))"
proof -
  have "find (\<lambda>sv. \<not> ValidSeverity sv) (alert_sevs cfg) = None"
    using alert_sevs_valid by (auto simp: find_None_iff)
  with assms show ?thesis by (auto simp: QueryAfter_def after_rows_sorted Let_def split: if_splits)
qed

lemma alert_tick_offers:
  assumes "alert_tick rfc io st (c, a) = (out, c', a')" "estore_ok st"
    and "\<forall>cfg. ti_cfg io = Some cfg \<and> mc_Enabled cfg \<longrightarrow> alert_sevs cfg = sevs"
  shows "to_offered out = map listed_row (matching c c' sevs st) \<and> c \<le> c' \<and> (c' = c \<or> c' < es_seq st)"
proof (cases "out = idle_tick \<and> c' = c")
  case True
  then show ?thesis by (simp add: idle_tick_def)
next
  case False
  with assms(1) obtain cfg evs fresh a1 where q: "QueryAfter (ti_query_ok io) c (alert_sevs cfg) 500 st = Inr evs"
    and l: "offer_loop (ti_now io) evs (c, a) = (fresh, c', a1)" and o: "to_offered out = evs"
    and cfg: "ti_cfg io = Some cfg" "mc_Enabled cfg"
    by (auto simp: alert_tick_def split: option.splits if_splits sum.splits prod.splits)
  define ys where "ys = take 500 (filter (\<lambda>e. c < ev_ID e \<and> ev_Severity e \<in> set sevs) (es_rows st))"
  have evs: "evs = map listed_row ys" using QueryAfter_alerts [OF q assms(2)] assms(3) cfg by (simp add: ys_def)
  show ?thesis
  proof (cases "ys = []")
    case True
    with o evs offer_loop_cursor [OF l] show ?thesis by simp
  next
    case ne: False
    with evs offer_loop_cursor [OF l] have c': "c' = ev_ID (last ys)" by (simp add: last_map listed_row_def)
    have "ys = matching c c' sevs st"
      unfolding matching_def c' using take_pending [OF _ ys_def ne] assms(2) by (simp add: estore_ok_def)
    moreover have "last ys \<in> set (es_rows st)" "c < ev_ID (last ys)"
      using last_in_set [OF ne] by (auto simp: ys_def dest!: in_set_takeD)
    ultimately show ?thesis using o evs c' assms(2) by (auto simp: estore_ok_def)
  qed
qed

lemma alert_run_offers:
  assumes "alert_run rfc ts (c, a) = (outs, c', a')" "sorted_wrt grows (st0 # map snd ts)" "\<forall>x \<in> set ts. estore_ok (snd x)"
    and "\<forall>x \<in> set ts. \<forall>cfg. ti_cfg (fst x) = Some cfg \<and> mc_Enabled cfg \<longrightarrow> alert_sevs cfg = sevs" "c < es_seq st0"
  shows "concat (map to_offered outs) = map listed_row (matching c c' sevs (last (st0 # map snd ts)))
    \<and> c \<le> c' \<and> c' < es_seq (last (st0 # map snd ts))"
  using assms
proof (induction ts arbitrary: c a outs st0)
  case (Cons x ts)
  obtain io st where x: "x = (io, st)" by fastforce
  obtain out c1 a1 where t: "alert_tick rfc io st (c, a) = (out, c1, a1)" by (metis prod_cases3)
  obtain outs1 where r: "alert_run rfc ts (c1, a1) = (outs1, c', a')" and o: "outs = out # outs1"
    using Cons.prems(1) t x by (auto split: prod.splits)
  let ?L = "last (st # map snd ts)"
  from Cons.prems x have st: "estore_ok st" "grows st0 st" "sorted_wrt grows (st # map snd ts)" by auto
  have k: "to_offered out = map listed_row (matching c c1 sevs st)" "c \<le> c1" "c1 < es_seq st"
    using alert_tick_offers [OF t st(1), of sevs] Cons.prems(4,5) x st(2) by (auto simp: grows_def)
  have ih: "concat (map to_offered outs1) = map listed_row (matching c1 c' sevs ?L)" "c1 \<le> c'" "c' < es_seq ?L"
    using Cons.IH [OF r st(3) _ _ k(3)] Cons.prems(3,4) by auto
  have "grows st ?L" "estore_ok ?L"
    using st(1,3) Cons.prems(3) last_in_set [of ts] by (auto simp: grows_refl last_map)
  with k(1,3) have "to_offered out = map listed_row (matching c c1 sevs ?L)" by (simp add: matching_grows)
  with ih matching_split [OF \<open>estore_ok ?L\<close> k(2) ih(2), of sevs] show ?case
    using k(2) by (simp add: o x flip: map_append)
qed simp

lemma fold_max_less: "(m::int) < n \<Longrightarrow> \<forall>x \<in> set xs. x < n \<Longrightarrow> fold max xs m < n"
  by (induction xs arbitrary: m) auto

lemma alert_start_behind: "estore_ok st \<Longrightarrow> 0 < es_seq st \<Longrightarrow> fst (alert_start ok st) < es_seq st"
  by (cases "es_rows st") (auto simp: alert_start_def MaxID_def estore_ok_def intro!: fold_max_less)


lemma ex_store_ok: "0 \<le> n \<Longrightarrow> estore_ok (ex_store n)"
  by (auto simp: estore_ok_def ex_store_def ex_storm_def comp_def)

lemma ex_store_grows: "0 \<le> m \<Longrightarrow> m \<le> n \<Longrightarrow> grows (ex_store m) (ex_store n)"
proof -
  assume "0 \<le> m" "m \<le> n"
  then have "[1..n] = [1..m] @ [m + 1..n]" using upto_split2 [of 1 m n] by (cases "m = 0") auto
  with \<open>m \<le> n\<close> show ?thesis by (simp add: grows_def ex_store_def ex_storm_def)
qed


section \<open>The configuration\<close>

text \<open>
  The mail settings handler stores a configuration only if it passes validation and its
  threshold is a severity; a request without a password keeps the stored one, and the reply
  never holds the password.
\<close>

theorem mail_settings_kept:
  assumes "apiMailPut enc saved rq req (old, log) = (Inr view, new, log')"
  shows "\<exists>cfg. new = Some cfg \<and> mail_Validate cfg = None \<and> ValidSeverity (mc_MinSeverity cfg) \<and> view = toView cfg
    \<and> (mc_PasswordEnc req = [] \<longrightarrow> mc_PasswordEnc cfg = (case old of None \<Rightarrow> [] | Some c \<Rightarrow> mc_PasswordEnc c))
    \<and> (mc_PasswordEnc req \<noteq> [] \<longrightarrow> (\<exists>f. enc = Some f \<and> f (mc_PasswordEnc req) = Some (mc_PasswordEnc cfg)))"
  using assms by (auto simp: apiMailPut_def Let_def split: if_splits option.splits sum.splits)

text \<open>
  The subject of a single alert holds the event's message as it is. A message with a line feed,
  as the journal can deliver, ends the subject and starts a header of its own.
\<close>

theorem subject_header_injection:
  "alert_subject ''error'' [ex_storm 1 \<lparr> ev_Message := ''x'' @ nl @ ''Bcc: a@b'' \<rparr>] = ''[SNA][ERROR] dns: x'' @ nl @ ''Bcc: a@b''"
  by code_simp

theorem mail_settings_kept_witness:
  "mc_PasswordEnc (the (fst (snd (apiMailPut None True \<lparr> rq_user = None, rq_ip = [], rq_now = 0, rq_adminUser = ''admin'' \<rparr> ex_mail
      (Some (ex_mail \<lparr> mc_PasswordEnc := ''sealed'' \<rparr>), []))))) = ''sealed''"
proof -
  let ?rq = "\<lparr> rq_user = None, rq_ip = [], rq_now = 0, rq_adminUser = ''admin'' \<rparr>" and ?old = "Some (ex_mail \<lparr> mc_PasswordEnc := ''sealed'' \<rparr>)"
  have "\<exists>view new log. apiMailPut None True ?rq ex_mail (?old, []) = (Inr view, new, log)"
    by (simp add: apiMailPut_def ex_mail_def ValidSeverity_def Rank_values mail_Validate_def err_then_def fail_if_def HasPrefix_def Let_def)
  then obtain view new log where p: "apiMailPut None True ?rq ex_mail (?old, []) = (Inr view, new, log)" by blast
  have "mc_PasswordEnc ex_mail = []" by (simp add: ex_mail_def)
  with mail_settings_kept [OF p] p show ?thesis by auto
qed

end
