(* ===== verification/VpnApi.thy ===== *)
theory VpnApi
  imports Ipsec Users
begin

text \<open>
  The handlers of the three configuration-file tunnels: the WireGuard road-warrior server
  (\<open>cmd/saguaro/vpn.go\<close>), WireGuard site-to-site (\<open>s2s.go\<close>) and IPsec (\<open>ipsec.go\<close>). All of
  them run under the mutation lock, so a sequence of requests is a sequence of handler calls.
  Each renders its configuration, stages it, runs the root adapter and only then stores the
  configuration. The adapter is a parameter: \<open>None\<close> says that it succeeded and the service
  now runs the staged files (or is off), \<open>Some r\<close> that it failed and left the service in state
  \<open>r\<close>. So are the sealing of secrets, key generation, the file system and the clock, in
  seconds. Replies are reduced to their status; a Go panic is a reply of its own.
\<close>

section \<open>Services\<close>

datatype 'f running = Off | Serving 'f

record ('c, 'f) service =
  sv_stored :: "'c option"
  sv_staged :: "'f option"
  sv_running :: "'f running"
  sv_audit :: "auditEvent list"

record 'f svc_io =
  vi_key :: bool
  vi_enc :: "string \<Rightarrow> string option"
  vi_dec :: "string \<Rightarrow> string option"
  vi_keypair :: "(string \<times> string) option"
  vi_stage :: bool
  vi_adapter :: "'f running option"
  vi_save :: bool
  vi_now :: int
  vi_rq :: reqctx

datatype reply = Done | Refused nat | Crashed

text \<open>The two actions of an adapter.\<close>

definition run_disable :: "'f svc_io \<Rightarrow> ('c, 'f) service \<Rightarrow> (unit, unit) outcome \<times> ('c, 'f) service" where
  "run_disable io s =
     (case vi_adapter io of
        None \<Rightarrow> (Return (), s \<lparr> sv_running := Off \<rparr>)
      | Some r \<Rightarrow> (Error (), s \<lparr> sv_running := r \<rparr>))"

definition stage_and_run :: "'f svc_io \<Rightarrow> 'f \<Rightarrow> ('c, 'f) service \<Rightarrow> (unit, unit) outcome \<times> ('c, 'f) service" where
  "stage_and_run io f s =
     (if \<not> vi_stage io then (Error (), s)
      else let s' = s \<lparr> sv_staged := Some f \<rparr>
           in case vi_adapter io of
                None \<Rightarrow> (Return (), s' \<lparr> sv_running := Serving f \<rparr>)
              | Some r \<Rightarrow> (Error (), s' \<lparr> sv_running := r \<rparr>))"

text \<open>The store keeps the new value in memory even when the file cannot be written.\<close>

definition persist :: "'f svc_io \<Rightarrow> 'c \<Rightarrow> ('c, 'f) service \<Rightarrow> reply \<times> ('c, 'f) service" where
  "persist io c s = (if vi_save io then Done else Refused 500, s \<lparr> sv_stored := Some c \<rparr>)"

definition apply_then_persist ::
  "(unit, unit) outcome \<times> ('c, 'f) service \<Rightarrow> 'f svc_io \<Rightarrow> 'c \<Rightarrow> reply \<times> ('c, 'f) service" where
  "apply_then_persist res io c =
     (case res of
        (Return _, s) \<Rightarrow> persist io c s
      | (Error _, s) \<Rightarrow> (Refused 502, s)
      | (Panic, s) \<Rightarrow> (Crashed, s))"

text \<open>
  The audit record of a request: written when it succeeded, and by the requests that apply
  settings also when the adapter failed.
\<close>

definition audited :: "'f svc_io \<Rightarrow> string \<Rightarrow> string \<Rightarrow> string \<Rightarrow> bool \<Rightarrow> reply \<times> ('c, 'f) service \<Rightarrow> reply \<times> ('c, 'f) service" where
  "audited io action target severity onfail res =
     (case res of
        (Done, s) \<Rightarrow> (Done, s \<lparr> sv_audit := recordSev (vi_rq io) (actor (vi_rq io)) action target ''success'' severity (sv_audit s) \<rparr>)
      | (Refused n, s) \<Rightarrow>
          (Refused n, if onfail \<and> n = 502
                      then s \<lparr> sv_audit := recordSev (vi_rq io) (actor (vi_rq io)) action target ''failed'' ''security'' (sv_audit s) \<rparr>
                      else s)
      | (Crashed, s) \<Rightarrow> (Crashed, s))"

section \<open>The road-warrior server\<close>

type_synonym vpn_service = "(WgConfig, string) service"

definition getVPN :: "vpn_service \<Rightarrow> WgConfig" where
  "getVPN s =
     (case sv_stored s of
        Some c \<Rightarrow> c
      | None \<Rightarrow> \<lparr> wg_Enabled = False, wg_Subnet = ''10.8.0.0/24'', wg_ListenPort = 51820, wg_Endpoint = [], wg_DNS = [],
                  wg_SplitNetworks = [], wg_ServerPub = [], wg_ServerPrivEnc = [], wg_Peers = [] \<rparr>)"

definition applyVPN :: "string svc_io \<Rightarrow> WgConfig \<Rightarrow> vpn_service \<Rightarrow> (unit, unit) outcome \<times> vpn_service" where
  "applyVPN io cfg s =
     (if \<not> wg_Enabled cfg then run_disable io s
      else if \<not> vi_key io then (Error (), s)
      else case vi_dec io (wg_ServerPrivEnc cfg) of
             None \<Rightarrow> (Error (), s)
           | Some priv \<Rightarrow>
               (case GenerateServerConf cfg priv (vi_now io) of
                  Error _ \<Rightarrow> (Error (), s)
                | Panic \<Rightarrow> (Panic, s)
                | Return text \<Rightarrow> stage_and_run io text s))"

text \<open>The server key pair is made on the first save and its private half sealed.\<close>

definition sealed_keypair :: "'f svc_io \<Rightarrow> (string \<times> string) option" where
  "sealed_keypair io =
     (if \<not> vi_key io then None
      else case vi_keypair io of
             None \<Rightarrow> None
           | Some (priv, pub) \<Rightarrow> (case vi_enc io priv of None \<Rightarrow> None | Some e \<Rightarrow> Some (e, pub)))"

record vpn_settings =
  vs_Enabled :: bool
  vs_Subnet :: string
  vs_ListenPort :: int
  vs_Endpoint :: string
  vs_DNS :: string
  vs_SplitNetworks :: "string list"

text \<open>\<open>lan\<close> is the client network of the stored gateway, when there is one.\<close>

definition vpn_settings_config :: "string option \<Rightarrow> vpn_settings \<Rightarrow> WgConfig \<Rightarrow> WgConfig" where
  "vpn_settings_config lan r cfg =
     cfg \<lparr> wg_Enabled := vs_Enabled r, wg_Subnet := vs_Subnet r,
           wg_ListenPort := (if vs_ListenPort r = 0 then 51820 else vs_ListenPort r),
           wg_Endpoint := vs_Endpoint r, wg_DNS := vs_DNS r,
           wg_SplitNetworks :=
             (if vs_SplitNetworks r = []
              then (case lan of Some n \<Rightarrow> if n \<noteq> [] then [n] else [] | None \<Rightarrow> [])
              else vs_SplitNetworks r) \<rparr>"

definition vpn_apply :: "string svc_io \<Rightarrow> string option \<Rightarrow> vpn_settings \<Rightarrow> vpn_service \<Rightarrow> reply \<times> vpn_service" where
  "vpn_apply io lan r s =
     (let old = getVPN s
      in if wg_Peers old \<noteq> [] \<and> wg_Subnet old \<noteq> [] \<and> vs_Subnet r \<noteq> wg_Subnet old then (Refused 409, s)
         else let cfg = vpn_settings_config lan r old
              in if wg_Validate cfg \<noteq> None then (Refused 400, s)
                 else if wg_ServerPub cfg = []
                      then (case sealed_keypair io of
                              None \<Rightarrow> (Refused 500, s)
                            | Some (enc, pub) \<Rightarrow>
                                let cfg' = cfg \<lparr> wg_ServerPrivEnc := enc, wg_ServerPub := pub \<rparr>
                                in apply_then_persist (applyVPN io cfg' s) io cfg')
                      else apply_then_persist (applyVPN io cfg s) io cfg)"

definition new_peer :: "string svc_io \<Rightarrow> string \<Rightarrow> string \<Rightarrow> string \<Rightarrow> bool \<Rightarrow> int \<Rightarrow> Peer" where
  "new_peer io name pub addr full days =
     \<lparr> pe_Name = name, pe_PubKey = pub, pe_Address = addr, pe_FullTunnel = full, pe_CreatedAt = vi_now io,
       pe_ExpiresAt = (if 0 < days then vi_now io + 86400 * days else 0) \<rparr>"

text \<open>
  The client configuration is rendered after the peer is stored; it fails only for an invalid
  private key.
\<close>

definition vpn_peer_add :: "string svc_io \<Rightarrow> string \<Rightarrow> bool \<Rightarrow> int \<Rightarrow> vpn_service \<Rightarrow> reply \<times> vpn_service" where
  "vpn_peer_add io rname full days s =
     (let cfg = getVPN s; name = ToLower (TrimSpace rname)
      in if \<not> wg_Enabled cfg \<or> wg_ServerPub cfg = [] then (Refused 409, s)
         else if name \<in> pe_Name ` set (wg_Peers cfg) then (Refused 409, s)
         else case AllocateAddress cfg of
                Error _ \<Rightarrow> (Refused 409, s)
              | Panic \<Rightarrow> (Crashed, s)
              | Return addr \<Rightarrow>
                  (case vi_keypair io of
                     None \<Rightarrow> (Refused 500, s)
                   | Some (priv, pub) \<Rightarrow>
                       let peer = new_peer io name pub addr full days;
                           next = cfg \<lparr> wg_Peers := wg_Peers cfg @ [peer] \<rparr>
                       in if wg_Validate next \<noteq> None then (Refused 400, s)
                          else (case apply_then_persist (applyVPN io next s) io next of
                                  (Done, s') \<Rightarrow>
                                    (case GenerateClientConf next priv peer of Inl _ \<Rightarrow> (Refused 500, s') | Inr _ \<Rightarrow> (Done, s'))
                                | res \<Rightarrow> res)))"

definition vpn_peer_delete :: "string svc_io \<Rightarrow> string \<Rightarrow> vpn_service \<Rightarrow> reply \<times> vpn_service" where
  "vpn_peer_delete io name s =
     (let cfg = getVPN s; next = cfg \<lparr> wg_Peers := filter (\<lambda>p. pe_Name p \<noteq> name) (wg_Peers cfg) \<rparr>
      in if name \<notin> pe_Name ` set (wg_Peers cfg) then (Refused 404, s)
         else if wg_Enabled cfg then apply_then_persist (applyVPN io next s) io next
         else persist io next s)"

definition apiVPNApply :: "string svc_io \<Rightarrow> string option \<Rightarrow> vpn_settings \<Rightarrow> vpn_service \<Rightarrow> reply \<times> vpn_service" where
  "apiVPNApply io lan r s = audited io ''vpn-apply'' ''wireguard'' ''security'' True (vpn_apply io lan r s)"

definition apiVPNPeerAdd :: "string svc_io \<Rightarrow> string \<Rightarrow> bool \<Rightarrow> int \<Rightarrow> vpn_service \<Rightarrow> reply \<times> vpn_service" where
  "apiVPNPeerAdd io name full days s =
     audited io ''vpn-peer-add'' (ToLower (TrimSpace name)) ''info'' False (vpn_peer_add io name full days s)"

definition apiVPNPeerDelete :: "string svc_io \<Rightarrow> string \<Rightarrow> vpn_service \<Rightarrow> reply \<times> vpn_service" where
  "apiVPNPeerDelete io name s = audited io ''vpn-peer-delete'' name ''warning'' False (vpn_peer_delete io name s)"

section \<open>Site-to-site\<close>

type_synonym s2s_service = "(S2sConfig, string) service"

definition getS2S :: "s2s_service \<Rightarrow> S2sConfig" where
  "getS2S s =
     (case sv_stored s of
        Some c \<Rightarrow> c
      | None \<Rightarrow> \<lparr> s2_Enabled = False, s2_ListenPort = 51821, s2_TunnelAddress = [], s2_LocalNetworks = [], s2_ServerPub = [],
                  s2_ServerPrivEnc = [], s2_Sites = [] \<rparr>)"

text \<open>The loop that unseals the preshared keys of the sites that have one.\<close>

fun unseal_sites :: "(string \<Rightarrow> string option) \<Rightarrow> Site list \<Rightarrow> (string \<rightharpoonup> string) \<Rightarrow> (string \<rightharpoonup> string) option" where
  "unseal_sites dec [] m = Some m"
| "unseal_sites dec (x # xs) m =
     (if si_PSKEnc x = [] then unseal_sites dec xs m
      else case dec (si_PSKEnc x) of None \<Rightarrow> None | Some p \<Rightarrow> unseal_sites dec xs (m(si_Name x \<mapsto> p)))"

definition applyS2S :: "string svc_io \<Rightarrow> S2sConfig \<Rightarrow> s2s_service \<Rightarrow> (unit, unit) outcome \<times> s2s_service" where
  "applyS2S io cfg s =
     (if \<not> s2_Enabled cfg then run_disable io s
      else if \<not> vi_key io then (Error (), s)
      else case vi_dec io (s2_ServerPrivEnc cfg) of
             None \<Rightarrow> (Error (), s)
           | Some priv \<Rightarrow>
               (case unseal_sites (vi_dec io) (s2_Sites cfg) Map.empty of
                  None \<Rightarrow> (Error (), s)
                | Some psks \<Rightarrow>
                    (case s2s_GenerateConf cfg priv psks of
                       Inl _ \<Rightarrow> (Error (), s)
                     | Inr text \<Rightarrow> stage_and_run io text s)))"

record s2s_settings =
  ss_Enabled :: bool
  ss_ListenPort :: int
  ss_TunnelAddress :: string
  ss_LocalNetworks :: "string list"

definition s2s_apply :: "string svc_io \<Rightarrow> s2s_settings \<Rightarrow> s2s_service \<Rightarrow> reply \<times> s2s_service" where
  "s2s_apply io r s =
     (let cfg = (getS2S s) \<lparr> s2_Enabled := ss_Enabled r, s2_TunnelAddress := TrimSpace (ss_TunnelAddress r),
                  s2_LocalNetworks := ss_LocalNetworks r,
                  s2_ListenPort := (if ss_ListenPort r = 0 then 51821 else ss_ListenPort r) \<rparr>
      in if s2s_Validate cfg \<noteq> None then (Refused 400, s)
         else if s2_ServerPub cfg = []
              then (case sealed_keypair io of
                      None \<Rightarrow> (Refused 500, s)
                    | Some (enc, pub) \<Rightarrow>
                        let cfg' = cfg \<lparr> s2_ServerPrivEnc := enc, s2_ServerPub := pub \<rparr>
                        in apply_then_persist (applyS2S io cfg' s) io cfg')
              else apply_then_persist (applyS2S io cfg s) io cfg)"

text \<open>Replace every element with the key of the new one, or append it.\<close>

definition put_named :: "('a \<Rightarrow> string) \<Rightarrow> 'a \<Rightarrow> 'a list \<Rightarrow> 'a list" where
  "put_named key x xs =
     (let ys = map (\<lambda>y. if key y = key x then x else y) xs
      in if \<exists>y \<in> set xs. key y = key x then ys else ys @ [x])"

text \<open>The request is a site with the plain preshared key in the field of the sealed one.\<close>

definition site_of_request :: "Site \<Rightarrow> Site" where
  "site_of_request r =
     (let endpoint = TrimSpace (si_Endpoint r)
      in \<lparr> si_Name = ToLower (TrimSpace (si_Name r)), si_PubKey = TrimSpace (si_PubKey r), si_Endpoint = endpoint,
           si_RemoteNetworks = si_RemoteNetworks r,
           si_Keepalive = (if endpoint \<noteq> [] \<and> si_Keepalive r = 0 then 25 else si_Keepalive r), si_PSKEnc = [] \<rparr>)"

definition store_site :: "string svc_io \<Rightarrow> Site \<Rightarrow> s2s_service \<Rightarrow> reply \<times> s2s_service" where
  "store_site io site s =
     (let cfg = getS2S s; next = cfg \<lparr> s2_Sites := put_named si_Name site (s2_Sites cfg) \<rparr>
      in if s2s_Validate next \<noteq> None then (Refused 400, s)
         else apply_then_persist (applyS2S io next s) io next)"

definition s2s_site_add :: "string svc_io \<Rightarrow> Site \<Rightarrow> s2s_service \<Rightarrow> reply \<times> s2s_service" where
  "s2s_site_add io r s =
     (let cfg = getS2S s; psk = TrimSpace (si_PSKEnc r); site = site_of_request r
      in if \<not> s2_Enabled cfg \<or> s2_ServerPub cfg = [] then (Refused 409, s)
         else if psk = [] then store_site io site s
         else if \<not> vi_key io then (Refused 500, s)
         else if \<not> ValidKey psk then (Refused 400, s)
         else case vi_enc io psk of None \<Rightarrow> (Refused 500, s) | Some e \<Rightarrow> store_site io (site \<lparr> si_PSKEnc := e \<rparr>) s)"

definition s2s_site_delete :: "string svc_io \<Rightarrow> string \<Rightarrow> s2s_service \<Rightarrow> reply \<times> s2s_service" where
  "s2s_site_delete io name s =
     (let cfg = getS2S s; next = cfg \<lparr> s2_Sites := filter (\<lambda>x. si_Name x \<noteq> name) (s2_Sites cfg) \<rparr>
      in if name \<notin> si_Name ` set (s2_Sites cfg) then (Refused 404, s)
         else if s2_Enabled cfg then apply_then_persist (applyS2S io next s) io next
         else persist io next s)"

definition apiS2SApply :: "string svc_io \<Rightarrow> s2s_settings \<Rightarrow> s2s_service \<Rightarrow> reply \<times> s2s_service" where
  "apiS2SApply io r s = audited io ''s2s-apply'' ''wireguard'' ''security'' True (s2s_apply io r s)"

definition apiS2SSiteAdd :: "string svc_io \<Rightarrow> Site \<Rightarrow> s2s_service \<Rightarrow> reply \<times> s2s_service" where
  "apiS2SSiteAdd io r s = audited io ''s2s-site-add'' (si_Name (site_of_request r)) ''info'' False (s2s_site_add io r s)"

definition apiS2SSiteDelete :: "string svc_io \<Rightarrow> string \<Rightarrow> s2s_service \<Rightarrow> reply \<times> s2s_service" where
  "apiS2SSiteDelete io name s = audited io ''s2s-site-delete'' name ''warning'' False (s2s_site_delete io name s)"

section \<open>IPsec\<close>

text \<open>The staged files: \<open>swanctl.conf\<close> and the credential files by name.\<close>

type_synonym ips_files = "string \<times> (string \<times> string) list"

type_synonym ips_service = "(IpsConfig, ips_files) service"

text \<open>\<open>^[A-Za-z0-9._~!@#$%^&*()+=:;,/?|-]{8,64}$\<close>\<close>

definition ipsecPSKRe :: "string \<Rightarrow> bool" where
  "ipsecPSKRe = re_rep (\<lambda>c. ips_alnum c \<or> c \<in> set ''._~!@#$%^&*()+=:;,/?|-'') 8 64"

definition getIPsec :: "ips_service \<Rightarrow> IpsConfig" where
  "getIPsec s = (case sv_stored s of Some c \<Rightarrow> c | None \<Rightarrow> \<lparr> ip_Enabled = False, ip_Connections = [] \<rparr>)"

fun unseal_conns :: "(string \<Rightarrow> string option) \<Rightarrow> Connection list \<Rightarrow> (string \<rightharpoonup> string) \<Rightarrow> (string \<rightharpoonup> string) option" where
  "unseal_conns dec [] m = Some m"
| "unseal_conns dec (x # xs) m =
     (if IsCert x then unseal_conns dec xs m
      else if cn_PSKEnc x = [] then None
      else case dec (cn_PSKEnc x) of None \<Rightarrow> None | Some p \<Rightarrow> unseal_conns dec xs (m(cn_Name x \<mapsto> p)))"

text \<open>The credential files of the certificate connections, up to the first key that does not unseal.\<close>

fun stage_creds :: "(string \<Rightarrow> string option) \<Rightarrow> Connection list \<Rightarrow> bool \<times> (string \<times> string) list" where
  "stage_creds dec [] = (True, [])"
| "stage_creds dec (x # xs) =
     (if \<not> IsCert x then stage_creds dec xs
      else case dec (cn_LocalKeyEnc x) of
             None \<Rightarrow> (False, [])
           | Some key \<Rightarrow>
               (case stage_creds dec xs of (ok, fs) \<Rightarrow>
                  (ok, [(cn_Name x @ ''.cert.pem'', cn_LocalCert x), (cn_Name x @ ''.key.pem'', key),
                        (cn_Name x @ ''.ca.pem'', cn_RemoteCA x)] @ fs)))"

definition applyIPsec :: "ips_files svc_io \<Rightarrow> IpsConfig \<Rightarrow> ips_service \<Rightarrow> (unit, unit) outcome \<times> ips_service" where
  "applyIPsec io cfg s =
     (if \<not> ip_Enabled cfg then run_disable io s
      else if \<not> vi_key io then (Error (), s)
      else case unseal_conns (vi_dec io) (ip_Connections cfg) Map.empty of
             None \<Rightarrow> (Error (), s)
           | Some psks \<Rightarrow>
               (case ips_GenerateConf cfg psks of
                  Inl _ \<Rightarrow> (Error (), s)
                | Inr text \<Rightarrow>
                    if \<not> vi_stage io then (Error (), s)
                    else (case stage_creds (vi_dec io) (ip_Connections cfg) of
                            (False, fs) \<Rightarrow> (Error (), s \<lparr> sv_staged := Some (text, fs) \<rparr>)
                          | (True, fs) \<Rightarrow> stage_and_run io (text, fs) s)))"

definition ips_apply :: "ips_files svc_io \<Rightarrow> bool \<Rightarrow> ips_service \<Rightarrow> reply \<times> ips_service" where
  "ips_apply io enabled s =
     (let old = getIPsec s; cfg = old \<lparr> ip_Enabled := enabled \<rparr>
      in if enabled \<and> ip_Connections old = [] then (Refused 409, s)
         else apply_then_persist (applyIPsec io cfg s) io cfg)"

text \<open>
  The secrets of the request, or those of the connection that is edited; \<open>pem_cert\<close> and
  \<open>pem_key\<close> are the PEM checks. The request is a connection with the plain preshared key and
  private key in the fields of the sealed ones.
\<close>

definition seal_secret :: "ips_files svc_io \<Rightarrow> string \<Rightarrow> nat + string" where
  "seal_secret io x =
     (if \<not> vi_key io then Inl 500 else case vi_enc io x of None \<Rightarrow> Inl 500 | Some e \<Rightarrow> Inr e)"

definition conn_secrets ::
  "(string \<Rightarrow> bool) \<Rightarrow> (string \<Rightarrow> bool) \<Rightarrow> ips_files svc_io \<Rightarrow> Connection \<Rightarrow> Connection option \<Rightarrow> Connection \<Rightarrow> nat + Connection" where
  "conn_secrets pem_cert pem_key io r existing conn =
     (if cn_Auth conn = ''cert'' then
        let cert0 = TrimSpace (cn_LocalCert r); ca0 = TrimSpace (cn_RemoteCA r); key = TrimSpace (cn_LocalKeyEnc r);
            cert = (case existing of Some e \<Rightarrow> if cert0 = [] then cn_LocalCert e else cert0 | None \<Rightarrow> cert0);
            ca = (case existing of Some e \<Rightarrow> if ca0 = [] then cn_RemoteCA e else ca0 | None \<Rightarrow> ca0);
            conn' = conn \<lparr> cn_LocalCert := cert, cn_RemoteCA := ca \<rparr>
        in if \<not> pem_cert cert \<or> \<not> pem_cert ca then Inl 400
           else if key \<noteq> [] then
             (if \<not> pem_key key then Inl 400
              else case seal_secret io key of Inl e \<Rightarrow> Inl e | Inr k \<Rightarrow> Inr (conn' \<lparr> cn_LocalKeyEnc := k \<rparr>))
           else (case existing of
                   Some e \<Rightarrow> if cn_LocalKeyEnc e \<noteq> [] then Inr (conn' \<lparr> cn_LocalKeyEnc := cn_LocalKeyEnc e \<rparr>) else Inl 400
                 | None \<Rightarrow> Inl 400)
      else let psk = TrimSpace (cn_PSKEnc r)
           in if psk \<noteq> [] then
                (if \<not> ipsecPSKRe psk then Inl 400
                 else case seal_secret io psk of Inl e \<Rightarrow> Inl e | Inr k \<Rightarrow> Inr (conn \<lparr> cn_PSKEnc := k \<rparr>))
              else (case existing of
                      Some e \<Rightarrow> if cn_PSKEnc e \<noteq> [] then Inr (conn \<lparr> cn_PSKEnc := cn_PSKEnc e \<rparr>) else Inl 400
                    | None \<Rightarrow> Inl 400))"

definition conn_of_request :: "Connection \<Rightarrow> Connection" where
  "conn_of_request r =
     \<lparr> cn_Name = ToLower (TrimSpace (cn_Name r)), cn_RemoteAddr = TrimSpace (cn_RemoteAddr r), cn_LocalID = TrimSpace (cn_LocalID r),
       cn_RemoteID = TrimSpace (cn_RemoteID r), cn_LocalSubnets = cn_LocalSubnets r, cn_RemoteSubnets = cn_RemoteSubnets r,
       cn_IKEProposal = TrimSpace (cn_IKEProposal r), cn_ESPProposal = TrimSpace (cn_ESPProposal r), cn_Initiate = cn_Initiate r,
       cn_Auth = (if cn_Auth r = [] then ''psk'' else cn_Auth r), cn_PSKEnc = [], cn_LocalCert = [], cn_LocalKeyEnc = [], cn_RemoteCA = [] \<rparr>"

definition ips_conn_add ::
  "(string \<Rightarrow> bool) \<Rightarrow> (string \<Rightarrow> bool) \<Rightarrow> ips_files svc_io \<Rightarrow> Connection \<Rightarrow> ips_service \<Rightarrow> reply \<times> ips_service" where
  "ips_conn_add pem_cert pem_key io r s =
     (let cfg = getIPsec s; conn = conn_of_request r;
          same = filter (\<lambda>c. cn_Name c = cn_Name conn) (ip_Connections cfg);
          existing = (if same = [] then None else Some (last same))
      in case conn_secrets pem_cert pem_key io r existing conn of
           Inl st \<Rightarrow> (Refused st, s)
         | Inr conn' \<Rightarrow>
             let next = cfg \<lparr> ip_Connections := put_named cn_Name conn' (ip_Connections cfg) \<rparr>
             in if ips_Validate next \<noteq> None then (Refused 400, s)
                else if ip_Enabled cfg then apply_then_persist (applyIPsec io next s) io next
                else persist io next s)"

definition ips_conn_delete :: "ips_files svc_io \<Rightarrow> string \<Rightarrow> ips_service \<Rightarrow> reply \<times> ips_service" where
  "ips_conn_delete io name s =
     (let cfg = getIPsec s; conns = filter (\<lambda>c. cn_Name c \<noteq> name) (ip_Connections cfg);
          next = \<lparr> ip_Enabled = (conns \<noteq> [] \<and> ip_Enabled cfg), ip_Connections = conns \<rparr>
      in if name \<notin> cn_Name ` set (ip_Connections cfg) then (Refused 404, s)
         else if ip_Enabled cfg then apply_then_persist (applyIPsec io next s) io next
         else persist io next s)"

definition apiIPsecApply :: "ips_files svc_io \<Rightarrow> bool \<Rightarrow> ips_service \<Rightarrow> reply \<times> ips_service" where
  "apiIPsecApply io enabled s = audited io ''ipsec-apply'' ''strongswan'' ''security'' True (ips_apply io enabled s)"

definition apiIPsecConnAdd ::
  "(string \<Rightarrow> bool) \<Rightarrow> (string \<Rightarrow> bool) \<Rightarrow> ips_files svc_io \<Rightarrow> Connection \<Rightarrow> ips_service \<Rightarrow> reply \<times> ips_service" where
  "apiIPsecConnAdd pem_cert pem_key io r s =
     audited io ''ipsec-conn-add'' (cn_Name (conn_of_request r)) ''info'' False (ips_conn_add pem_cert pem_key io r s)"

definition apiIPsecConnDelete :: "ips_files svc_io \<Rightarrow> string \<Rightarrow> ips_service \<Rightarrow> reply \<times> ips_service" where
  "apiIPsecConnDelete io name s = audited io ''ipsec-conn-delete'' name ''warning'' False (ips_conn_delete io name s)"

section \<open>Stored and running configuration\<close>

text \<open>
  The outcomes of a handler: nothing changed, the change was refused or failed with the stored
  configuration kept, the new configuration runs and is stored, or a configuration of a
  service that is off was stored without touching it.
\<close>

definition unchanged :: "('c, 'f) service \<Rightarrow> ('c, 'f) service \<Rightarrow> bool" where
  "unchanged s s' \<longleftrightarrow> sv_stored s' = sv_stored s \<and> sv_running s' = sv_running s"

inductive svc_effect ::
  "('c \<Rightarrow> bool) \<Rightarrow> ('c \<Rightarrow> 'f running \<Rightarrow> bool) \<Rightarrow> (('c, 'f) service \<Rightarrow> bool) \<Rightarrow> reply \<Rightarrow> ('c, 'f) service \<Rightarrow> ('c, 'f) service \<Rightarrow> bool"
  for enabled renders on where
  quiet: "unchanged s s' \<Longrightarrow> r \<noteq> Done \<Longrightarrow> svc_effect enabled renders on r s s'"
| failed: "sv_stored s' = sv_stored s \<Longrightarrow> svc_effect enabled renders on (Refused 502) s s'"
| applied: "sv_stored s' = Some c \<Longrightarrow> renders c (sv_running s') \<Longrightarrow> svc_effect enabled renders on r s s'"
| offline: "sv_stored s' = Some c \<Longrightarrow> \<not> enabled c \<Longrightarrow> \<not> on s \<Longrightarrow> sv_running s' = sv_running s
    \<Longrightarrow> svc_effect enabled renders on r s s'"

text \<open>
  A service whose handlers have these effects. The stored configuration and the running one
  agree when the service runs what the stored configuration renders to, or is off and the
  stored configuration is not enabled.
\<close>

definition agrees :: "('c \<Rightarrow> 'f running \<Rightarrow> bool) \<Rightarrow> ('c, 'f) service \<Rightarrow> bool" where
  "agrees renders s = (case sv_stored s of None \<Rightarrow> sv_running s = Off | Some c \<Rightarrow> renders c (sv_running s))"

fun svc_run :: "('q \<Rightarrow> 's \<Rightarrow> reply \<times> 's) \<Rightarrow> 'q list \<Rightarrow> 's \<Rightarrow> reply list \<times> 's" where
  "svc_run handle [] s = ([], s)"
| "svc_run handle (q # qs) s =
     (case handle q s of (r, s1) \<Rightarrow> case svc_run handle qs s1 of (rs, s2) \<Rightarrow> (r # rs, s2))"

locale apply_service =
  fixes handle :: "'q \<Rightarrow> ('c, 'f) service \<Rightarrow> reply \<times> ('c, 'f) service"
    and enabled :: "'c \<Rightarrow> bool"
    and renders :: "'c \<Rightarrow> 'f running \<Rightarrow> bool"
    and on :: "('c, 'f) service \<Rightarrow> bool"
    and good :: "'c \<Rightarrow> bool"
  assumes effect: "handle q s = (r, s') \<Longrightarrow> (\<And>c. sv_stored s = Some c \<Longrightarrow> good c) \<Longrightarrow> svc_effect enabled renders on r s s'"
    and renders_off: "\<not> enabled c \<Longrightarrow> renders c x \<longleftrightarrow> x = Off"
    and on_stored: "on s \<longleftrightarrow> (\<exists>c. sv_stored s = Some c \<and> enabled c)"
    and keeps_good: "handle q s = (r, s') \<Longrightarrow> (\<And>c. sv_stored s = Some c \<Longrightarrow> good c) \<Longrightarrow> sv_stored s' = Some c' \<Longrightarrow> good c'"
begin

lemma step_agrees:
  assumes "handle q s = (r, s')" "agrees renders s" "r \<noteq> Refused 502" "\<And>c. sv_stored s = Some c \<Longrightarrow> good c"
  shows "agrees renders s'"
proof -
  from effect [OF assms(1)] assms(4) have "svc_effect enabled renders on r s s'" by blast
  then show ?thesis
  proof (cases rule: svc_effect.cases)
    case quiet
    with assms(2) show ?thesis by (simp add: agrees_def unchanged_def split: option.splits)
  next
    case (offline c)
    then have "sv_running s = Off"
      using assms(2) renders_off on_stored [of s] by (auto simp: agrees_def split: option.splits)
    with offline renders_off show ?thesis by (simp add: agrees_def)
  qed (use assms(3) in \<open>auto simp: agrees_def\<close>)
qed

lemma run_in_sync:
  assumes "svc_run handle qs s = (rs, s')" "\<forall>c. sv_stored s = Some c \<longrightarrow> good c"
  shows "(\<forall>c. sv_stored s' = Some c \<longrightarrow> good c) \<and> (agrees renders s \<and> Refused 502 \<notin> set rs \<longrightarrow> agrees renders s')"
  using assms
proof (induction qs arbitrary: s rs)
  case (Cons q qs)
  obtain r s1 where h: "handle q s = (r, s1)" by fastforce
  obtain rs1 where t: "svc_run handle qs s1 = (rs1, s')" "rs = r # rs1" using Cons.prems(1) h by (auto split: prod.splits)
  have g: "\<And>c. sv_stored s = Some c \<Longrightarrow> good c" using Cons.prems(2) by blast
  then have "\<forall>c. sv_stored s1 = Some c \<longrightarrow> good c" using keeps_good [OF h] by blast
  from Cons.IH [OF t(1) this] step_agrees [OF h _ _ g] t(2) show ?case by auto
qed simp

end

section \<open>The three services\<close>

text \<open>Requests with their environment; the key that unseals is the appliance's, the same for all.\<close>

datatype vpn_req = VpnApply "string option" vpn_settings | VpnPeerAdd string bool int | VpnPeerDelete string

fun vpn_handle :: "(string \<Rightarrow> string option) \<Rightarrow> string svc_io \<times> vpn_req \<Rightarrow> vpn_service \<Rightarrow> reply \<times> vpn_service" where
  "vpn_handle dec (io, VpnApply lan r) s = apiVPNApply (io \<lparr> vi_dec := dec \<rparr>) lan r s"
| "vpn_handle dec (io, VpnPeerAdd name full days) s = apiVPNPeerAdd (io \<lparr> vi_dec := dec \<rparr>) name full days s"
| "vpn_handle dec (io, VpnPeerDelete name) s = apiVPNPeerDelete (io \<lparr> vi_dec := dec \<rparr>) name s"

datatype s2s_req = S2sApply s2s_settings | S2sSiteAdd Site | S2sSiteDelete string

fun s2s_handle :: "(string \<Rightarrow> string option) \<Rightarrow> string svc_io \<times> s2s_req \<Rightarrow> s2s_service \<Rightarrow> reply \<times> s2s_service" where
  "s2s_handle dec (io, S2sApply r) s = apiS2SApply (io \<lparr> vi_dec := dec \<rparr>) r s"
| "s2s_handle dec (io, S2sSiteAdd r) s = apiS2SSiteAdd (io \<lparr> vi_dec := dec \<rparr>) r s"
| "s2s_handle dec (io, S2sSiteDelete name) s = apiS2SSiteDelete (io \<lparr> vi_dec := dec \<rparr>) name s"

datatype ips_req = IpsApply bool | IpsConnAdd Connection | IpsConnDelete string

fun ips_handle ::
  "(string \<Rightarrow> bool) \<Rightarrow> (string \<Rightarrow> bool) \<Rightarrow> (string \<Rightarrow> string option) \<Rightarrow> ips_files svc_io \<times> ips_req \<Rightarrow> ips_service \<Rightarrow> reply \<times> ips_service" where
  "ips_handle pc pk dec (io, IpsApply en) s = apiIPsecApply (io \<lparr> vi_dec := dec \<rparr>) en s"
| "ips_handle pc pk dec (io, IpsConnAdd r) s = apiIPsecConnAdd pc pk (io \<lparr> vi_dec := dec \<rparr>) r s"
| "ips_handle pc pk dec (io, IpsConnDelete name) s = apiIPsecConnDelete (io \<lparr> vi_dec := dec \<rparr>) name s"

definition vpn_renders :: "(string \<Rightarrow> string option) \<Rightarrow> WgConfig \<Rightarrow> string running \<Rightarrow> bool" where
  "vpn_renders dec c x \<longleftrightarrow>
     (if wg_Enabled c
      then \<exists>priv now text. dec (wg_ServerPrivEnc c) = Some priv \<and> GenerateServerConf c priv now = Return text \<and> x = Serving text
      else x = Off)"

definition s2s_renders :: "(string \<Rightarrow> string option) \<Rightarrow> S2sConfig \<Rightarrow> string running \<Rightarrow> bool" where
  "s2s_renders dec c x \<longleftrightarrow>
     (if s2_Enabled c
      then \<exists>priv psks text. dec (s2_ServerPrivEnc c) = Some priv \<and> unseal_sites dec (s2_Sites c) Map.empty = Some psks
             \<and> s2s_GenerateConf c priv psks = Inr text \<and> x = Serving text
      else x = Off)"

definition ips_renders :: "(string \<Rightarrow> string option) \<Rightarrow> IpsConfig \<Rightarrow> ips_files running \<Rightarrow> bool" where
  "ips_renders dec c x \<longleftrightarrow>
     (if ip_Enabled c
      then \<exists>psks text fs. unseal_conns dec (ip_Connections c) Map.empty = Some psks \<and> ips_GenerateConf c psks = Inr text
             \<and> stage_creds dec (ip_Connections c) = (True, fs) \<and> x = Serving (text, fs)
      else x = Off)"

text \<open>The shared shape of the apply functions: stored kept, and on success the new configuration runs.\<close>

lemma run_disable_cases:
  "run_disable io s = (o', s') \<Longrightarrow> sv_stored s' = sv_stored s \<and> o' \<noteq> Panic \<and> (o' = Return () \<longrightarrow> sv_running s' = Off)"
  by (auto simp: run_disable_def split: option.splits)

lemma stage_and_run_cases:
  "stage_and_run io f s = (o', s') \<Longrightarrow> sv_stored s' = sv_stored s \<and> o' \<noteq> Panic \<and> (o' = Return () \<longrightarrow> sv_running s' = Serving f)"
  by (auto simp: stage_and_run_def Let_def split: option.splits if_splits)

lemma applyVPN_cases:
  assumes "applyVPN io cfg s = (o', s')"
  shows "sv_stored s' = sv_stored s \<and> (o' = Return () \<longrightarrow> vpn_renders (vi_dec io) cfg (sv_running s')) \<and> (o' = Panic \<longrightarrow> s' = s)"
  using assms run_disable_cases [of io s o' s'] stage_and_run_cases [of io _ s o' s']
  by (auto simp: applyVPN_def vpn_renders_def split: if_splits option.splits outcome.splits)

lemma applyS2S_cases:
  assumes "applyS2S io cfg s = (o', s')"
  shows "sv_stored s' = sv_stored s \<and> (o' = Return () \<longrightarrow> s2s_renders (vi_dec io) cfg (sv_running s')) \<and> (o' = Panic \<longrightarrow> s' = s)"
  using assms run_disable_cases [of io s o' s'] stage_and_run_cases [of io _ s o' s']
  by (auto simp: applyS2S_def s2s_renders_def split: if_splits option.splits sum.splits)

lemma applyIPsec_cases:
  assumes "applyIPsec io cfg s = (o', s')"
  shows "sv_stored s' = sv_stored s \<and> (o' = Return () \<longrightarrow> ips_renders (vi_dec io) cfg (sv_running s')) \<and> (o' = Panic \<longrightarrow> s' = s)"
  using assms run_disable_cases [of io s o' s'] stage_and_run_cases [of io _ s o' s']
  by (auto simp: applyIPsec_def ips_renders_def split: if_splits option.splits sum.splits prod.splits bool.splits)

lemma apply_then_persist_effect:
  assumes "apply_then_persist res io c = (r, s')"
    and "\<And>o' s1. res = (o', s1) \<Longrightarrow> sv_stored s1 = sv_stored s \<and> (o' = Return () \<longrightarrow> renders c (sv_running s1)) \<and> (o' = Panic \<longrightarrow> s1 = s)"
  shows "svc_effect enabled renders on r s s' \<and> (sv_stored s' = sv_stored s \<or> sv_stored s' = Some c)"
proof (cases res)
  case (Pair o' s1)
  note c = assms(2) [OF Pair]
  show ?thesis
  proof (cases o')
    case (Return u)
    with assms(1) Pair have "s' = s1 \<lparr> sv_stored := Some c \<rparr>" by (auto simp: apply_then_persist_def persist_def)
    with c Return show ?thesis by (auto intro: svc_effect.applied)
  next
    case (Error u)
    with assms(1) Pair c show ?thesis by (auto simp: apply_then_persist_def intro: svc_effect.failed)
  next
    case Panic
    with assms(1) Pair c show ?thesis by (auto simp: apply_then_persist_def unchanged_def intro: svc_effect.quiet)
  qed
qed

lemma quiet_refl: "r \<noteq> Done \<Longrightarrow> svc_effect en renders on r s s"
  by (auto intro: svc_effect.quiet simp: unchanged_def)

lemma persist_offline:
  "persist io c s = (r, s') \<Longrightarrow> \<not> en c \<Longrightarrow> \<not> on s \<Longrightarrow> svc_effect en renders on r s s'"
  by (auto simp: persist_def intro: svc_effect.offline)

lemma svc_effect_reply: "svc_effect en renders on Done s s' \<Longrightarrow> svc_effect en renders on r s s'"
  by (erule svc_effect.cases) (auto intro: svc_effect.intros)

lemma vpn_atp:
  "apply_then_persist (applyVPN io c s) io c = (r, s') \<Longrightarrow>
     svc_effect en (vpn_renders (vi_dec io)) on r s s' \<and> (sv_stored s' = sv_stored s \<or> sv_stored s' = Some c)"
  by (rule apply_then_persist_effect) (auto dest: applyVPN_cases)

lemma s2s_atp:
  "apply_then_persist (applyS2S io c s) io c = (r, s') \<Longrightarrow>
     svc_effect en (s2s_renders (vi_dec io)) on r s s' \<and> (sv_stored s' = sv_stored s \<or> sv_stored s' = Some c)"
  by (rule apply_then_persist_effect) (auto dest: applyS2S_cases)

lemma ips_atp:
  "apply_then_persist (applyIPsec io c s) io c = (r, s') \<Longrightarrow>
     svc_effect en (ips_renders (vi_dec io)) on r s s' \<and> (sv_stored s' = sv_stored s \<or> sv_stored s' = Some c)"
  by (rule apply_then_persist_effect) (auto dest: applyIPsec_cases)

text \<open>An audit record changes neither the stored nor the running configuration.\<close>

lemma audited_inner:
  "audited io act t sev f res = (r, s') \<Longrightarrow>
     \<exists>s1. res = (r, s1) \<and> sv_stored s' = sv_stored s1 \<and> sv_running s' = sv_running s1"
  by (auto simp: audited_def split: prod.splits reply.splits if_splits)

lemma svc_effect_same:
  "svc_effect en renders on r s s1 \<Longrightarrow> sv_stored s' = sv_stored s1 \<Longrightarrow> sv_running s' = sv_running s1 \<Longrightarrow>
     svc_effect en renders on r s s'"
  by (erule svc_effect.cases) (auto simp: unchanged_def intro: svc_effect.intros)

text \<open>What each handler may store.\<close>

definition vpn_added :: "WgConfig \<Rightarrow> WgConfig \<Rightarrow> bool" where
  "vpn_added old c \<longleftrightarrow>
     (\<exists>addr p. AllocateAddress old = Return addr \<and> pe_Address p = addr \<and> pe_Name p \<notin> pe_Name ` set (wg_Peers old)
        \<and> c = old \<lparr> wg_Peers := wg_Peers old @ [p] \<rparr> \<and> wg_Validate c = None)"

definition vpn_configured :: "WgConfig \<Rightarrow> WgConfig \<Rightarrow> bool" where
  "vpn_configured old c \<longleftrightarrow> wg_Validate c = None \<and> wg_Peers c = wg_Peers old
     \<and> (wg_Peers old \<noteq> [] \<and> wg_Subnet old \<noteq> [] \<longrightarrow> wg_Subnet c = wg_Subnet old)"

lemma wg_Validate_keys [simp]:
  "wg_Validate (c \<lparr> wg_ServerPrivEnc := e, wg_ServerPub := p \<rparr>) = wg_Validate c"
  by (cases "ParseCIDR (TrimSpace (wg_Subnet c))") (auto simp: wg_Validate_def)

abbreviation vpn_on :: "vpn_service \<Rightarrow> bool" where
  "vpn_on s \<equiv> wg_Enabled (getVPN s)"

lemma vpn_apply_effect:
  assumes "vpn_apply io lan r s = (rep, s')"
  shows "svc_effect wg_Enabled (vpn_renders (vi_dec io)) vpn_on rep s s'
    \<and> (sv_stored s' = sv_stored s \<or> (\<exists>c. sv_stored s' = Some c \<and> vpn_configured (getVPN s) c))"
proof -
  let ?cfg = "vpn_settings_config lan r (getVPN s)"
  consider (refused) n where "rep = Refused n" "s' = s"
    | (new) enc pub where "wg_Validate ?cfg = None" "wg_Peers (getVPN s) \<noteq> [] \<and> wg_Subnet (getVPN s) \<noteq> [] \<longrightarrow> vs_Subnet r = wg_Subnet (getVPN s)"
        "apply_then_persist (applyVPN io (?cfg \<lparr> wg_ServerPrivEnc := enc, wg_ServerPub := pub \<rparr>) s) io
           (?cfg \<lparr> wg_ServerPrivEnc := enc, wg_ServerPub := pub \<rparr>) = (rep, s')"
    | (old) "wg_Validate ?cfg = None" "wg_Peers (getVPN s) \<noteq> [] \<and> wg_Subnet (getVPN s) \<noteq> [] \<longrightarrow> vs_Subnet r = wg_Subnet (getVPN s)"
        "apply_then_persist (applyVPN io ?cfg s) io ?cfg = (rep, s')"
    using assms by (auto simp: vpn_apply_def Let_def split: if_splits option.splits prod.splits)
  then show ?thesis
  proof cases
    case refused
    then show ?thesis by (simp add: quiet_refl)
  next
    case new
    with vpn_atp [OF new(3), of wg_Enabled vpn_on] show ?thesis by (auto simp: vpn_configured_def vpn_settings_config_def)
  next
    case old
    with vpn_atp [OF old(3), of wg_Enabled vpn_on] show ?thesis by (auto simp: vpn_configured_def vpn_settings_config_def)
  qed
qed

lemma vpn_peer_add_effect:
  assumes "vpn_peer_add io rname full days s = (rep, s')"
  shows "svc_effect wg_Enabled (vpn_renders (vi_dec io)) vpn_on rep s s'
    \<and> (sv_stored s' = sv_stored s \<or> (\<exists>c. sv_stored s' = Some c \<and> vpn_added (getVPN s) c))"
proof -
  let ?cfg = "getVPN s" and ?name = "ToLower (TrimSpace rname)"
  let ?next = "\<lambda>pub addr. ?cfg \<lparr> wg_Peers := wg_Peers ?cfg @ [new_peer io ?name pub addr full days] \<rparr>"
  consider (refused) "rep \<noteq> Done" "s' = s"
    | (add) pub addr rep' where "AllocateAddress ?cfg = Return addr" "?name \<notin> pe_Name ` set (wg_Peers ?cfg)"
        "wg_Validate (?next pub addr) = None" "rep' = rep \<or> rep' = Done"
        "apply_then_persist (applyVPN io (?next pub addr) s) io (?next pub addr) = (rep', s')"
    using assms
    by (auto simp: vpn_peer_add_def Let_def split: if_splits option.splits prod.splits outcome.splits reply.splits sum.splits)
  then show ?thesis
  proof cases
    case refused
    then show ?thesis by (simp add: quiet_refl)
  next
    case add
    have "vpn_added ?cfg (?next pub addr)"
      unfolding vpn_added_def using add(1,2,3) by (intro exI conjI) (auto simp: new_peer_def)
    with vpn_atp [OF add(5), of wg_Enabled vpn_on] add(4) show ?thesis using svc_effect_reply by blast
  qed
qed

definition vpn_removed :: "string \<Rightarrow> WgConfig \<Rightarrow> WgConfig \<Rightarrow> bool" where
  "vpn_removed name old c \<longleftrightarrow> c = old \<lparr> wg_Peers := filter (\<lambda>p. pe_Name p \<noteq> name) (wg_Peers old) \<rparr> \<and> wg_Peers old \<noteq> []"

lemma vpn_peer_delete_effect:
  assumes "vpn_peer_delete io name s = (rep, s')"
  shows "svc_effect wg_Enabled (vpn_renders (vi_dec io)) vpn_on rep s s'
    \<and> (sv_stored s' = sv_stored s \<or> (\<exists>c. sv_stored s' = Some c \<and> vpn_removed name (getVPN s) c))"
proof -
  let ?cfg = "getVPN s"
  let ?next = "?cfg \<lparr> wg_Peers := filter (\<lambda>p. pe_Name p \<noteq> name) (wg_Peers ?cfg) \<rparr>"
  show ?thesis
  proof (cases "name \<in> pe_Name ` set (wg_Peers ?cfg)")
    case False
    with assms have "rep = Refused 404" "s' = s" by (simp_all add: vpn_peer_delete_def)
    then show ?thesis by (simp add: quiet_refl)
  next
    case True
    then have ne: "wg_Peers ?cfg \<noteq> []" by auto
    show ?thesis
    proof (cases "wg_Enabled ?cfg")
      case on: True
      with True assms have "apply_then_persist (applyVPN io ?next s) io ?next = (rep, s')" by (simp add: vpn_peer_delete_def Let_def)
      from vpn_atp [OF this, of wg_Enabled vpn_on] ne show ?thesis by (simp add: vpn_removed_def)
    next
      case False
      with True assms have p: "persist io ?next s = (rep, s')" by (simp add: vpn_peer_delete_def Let_def)
      from persist_offline [OF p, of wg_Enabled vpn_on] p ne False show ?thesis
        by (auto simp: vpn_removed_def persist_def)
    qed
  qed
qed

text \<open>
  The invariant of a stored road-warrior configuration: it validates, no two peers share a name
  or an address, and no peer has the server's address.
\<close>

definition vpn_good :: "WgConfig \<Rightarrow> bool" where
  "vpn_good c \<longleftrightarrow> wg_Validate c = None \<and> distinct (map pe_Name (wg_Peers c)) \<and> distinct (map pe_Address (wg_Peers c))
     \<and> (\<forall>srv. ServerAddress c = Return srv \<longrightarrow> hd (Split (CHR ''/'') srv) \<notin> pe_Address ` set (wg_Peers c))"

lemma AllocateAddress_fresh:
  assumes "AllocateAddress c = Return a"
  shows "a \<notin> pe_Address ` set (wg_Peers c)" "ServerAddress c = Return srv \<Longrightarrow> a \<noteq> hd (Split (CHR ''/'') srv)"
  using assms
  by (auto simp: AllocateAddress_def Let_def dest!: alloc_loop_Some split: option.splits outcome.splits prod.splits)

lemma ServerAddress_subnet: "wg_Subnet c = wg_Subnet d \<Longrightarrow> ServerAddress c = ServerAddress d"
  by (simp add: ServerAddress_def)

lemma empty_subnet_invalid: "wg_Subnet c = [] \<Longrightarrow> wg_Validate c \<noteq> None"
  by (simp add: wg_Validate_def ParseCIDR_def)

lemma vpn_good_default: "vpn_good c \<Longrightarrow> wg_Peers c = [] \<or> wg_Subnet c \<noteq> []"
  using empty_subnet_invalid [of c] by (auto simp: vpn_good_def)

lemma vpn_configured_good:
  assumes "vpn_configured old c" "wg_Peers old = [] \<or> vpn_good old"
  shows "vpn_good c"
proof (cases "wg_Peers old = []")
  case True
  with assms(1) show ?thesis by (simp add: vpn_configured_def vpn_good_def)
next
  case False
  with assms have "vpn_good old" by simp
  with assms(1) False vpn_good_default have "wg_Subnet c = wg_Subnet old" by (auto simp: vpn_configured_def)
  from ServerAddress_subnet [OF this] \<open>vpn_good old\<close> assms(1) show ?thesis by (simp add: vpn_configured_def vpn_good_def)
qed

lemma vpn_added_good:
  assumes "vpn_added old c" "wg_Peers old = [] \<or> vpn_good old"
  shows "vpn_good c"
proof -
  from assms(1) obtain p where p: "AllocateAddress old = Return (pe_Address p)" "pe_Name p \<notin> pe_Name ` set (wg_Peers old)"
    "c = old \<lparr> wg_Peers := wg_Peers old @ [p] \<rparr>" "wg_Validate c = None" by (auto simp: vpn_added_def)
  have s: "ServerAddress c = ServerAddress old" using p(3) by (intro ServerAddress_subnet) simp
  have "distinct (map pe_Name (wg_Peers old)) \<and> distinct (map pe_Address (wg_Peers old))
    \<and> (\<forall>srv. ServerAddress old = Return srv \<longrightarrow> hd (Split (CHR ''/'') srv) \<notin> pe_Address ` set (wg_Peers old))"
    using assms(2) by (auto simp: vpn_good_def)
  with p s AllocateAddress_fresh [OF p(1)] show ?thesis by (auto simp: vpn_good_def)
qed

lemma vpn_removed_good:
  assumes "vpn_removed name old c" "vpn_good old"
  shows "vpn_good c"
proof -
  from assms(1) have c: "c = old \<lparr> wg_Peers := filter (\<lambda>p. pe_Name p \<noteq> name) (wg_Peers old) \<rparr>" by (simp add: vpn_removed_def)
  have "wg_Validate c = None"
    using assms(2) c by (cases "ParseCIDR (TrimSpace (wg_Subnet old))") (auto simp: vpn_good_def wg_Validate_def split: if_splits)
  moreover have "ServerAddress c = ServerAddress old" using c by (intro ServerAddress_subnet) simp
  ultimately show ?thesis using assms(2) c by (auto simp: vpn_good_def distinct_map_filter)
qed

lemma vpn_handle_effect:
  assumes "vpn_handle dec q s = (r, s')"
  shows "svc_effect wg_Enabled (vpn_renders dec) vpn_on r s s'
    \<and> (sv_stored s' = sv_stored s \<or> (\<exists>c. sv_stored s' = Some c
          \<and> (vpn_configured (getVPN s) c \<or> vpn_added (getVPN s) c \<or> (\<exists>n. vpn_removed n (getVPN s) c))))"
proof (cases q)
  case (Pair io req)
  show ?thesis
  proof (cases req)
    case (VpnApply lan x)
    with Pair assms have "apiVPNApply (io \<lparr> vi_dec := dec \<rparr>) lan x s = (r, s')" by simp
    from audited_inner [OF this [unfolded apiVPNApply_def]] obtain s1
      where n: "vpn_apply (io \<lparr> vi_dec := dec \<rparr>) lan x s = (r, s1)" "sv_stored s' = sv_stored s1" "sv_running s' = sv_running s1" by blast
    from vpn_apply_effect [OF n(1)] svc_effect_same [OF _ n(2,3)] n(2) show ?thesis by auto
  next
    case (VpnPeerAdd n f d)
    with Pair assms have "apiVPNPeerAdd (io \<lparr> vi_dec := dec \<rparr>) n f d s = (r, s')" by simp
    from audited_inner [OF this [unfolded apiVPNPeerAdd_def]] obtain s1
      where n: "vpn_peer_add (io \<lparr> vi_dec := dec \<rparr>) n f d s = (r, s1)" "sv_stored s' = sv_stored s1" "sv_running s' = sv_running s1" by blast
    from vpn_peer_add_effect [OF n(1)] svc_effect_same [OF _ n(2,3)] n(2) show ?thesis by auto
  next
    case (VpnPeerDelete n)
    with Pair assms have "apiVPNPeerDelete (io \<lparr> vi_dec := dec \<rparr>) n s = (r, s')" by simp
    from audited_inner [OF this [unfolded apiVPNPeerDelete_def]] obtain s1
      where n: "vpn_peer_delete (io \<lparr> vi_dec := dec \<rparr>) n s = (r, s1)" "sv_stored s' = sv_stored s1" "sv_running s' = sv_running s1" by blast
    from vpn_peer_delete_effect [OF n(1)] svc_effect_same [OF _ n(2,3)] n(2) show ?thesis by auto
  qed
qed

interpretation vpn: apply_service "vpn_handle dec" wg_Enabled "vpn_renders dec" vpn_on vpn_good for dec
proof
  fix q s r s'
  assume "vpn_handle dec q s = (r, s')"
  from vpn_handle_effect [OF this] show "svc_effect wg_Enabled (vpn_renders dec) vpn_on r s s'" by blast
next
  fix q s r s' c'
  assume h: "vpn_handle dec q s = (r, s')" and g: "\<And>c. sv_stored s = Some c \<Longrightarrow> vpn_good c" and c': "sv_stored s' = Some c'"
  have old: "wg_Peers (getVPN s) = [] \<or> vpn_good (getVPN s)" using g by (auto simp: getVPN_def split: option.splits)
  from vpn_handle_effect [OF h] c' consider "sv_stored s = Some c'" | "vpn_configured (getVPN s) c'" | "vpn_added (getVPN s) c'"
    | n where "vpn_removed n (getVPN s) c'" by auto
  then show "vpn_good c'"
  proof cases
    case (4 n)
    then have "wg_Peers (getVPN s) \<noteq> []" by (simp add: vpn_removed_def)
    with old 4 vpn_removed_good show ?thesis by blast
  qed (use g old vpn_configured_good vpn_added_good in blast)+
qed (auto simp: vpn_renders_def getVPN_def split: option.splits)

definition s2s_removed :: "string \<Rightarrow> S2sConfig \<Rightarrow> S2sConfig \<Rightarrow> bool" where
  "s2s_removed name old c \<longleftrightarrow> c = old \<lparr> s2_Sites := filter (\<lambda>x. si_Name x \<noteq> name) (s2_Sites old) \<rparr> \<and> s2_Sites old \<noteq> []"

abbreviation s2s_on :: "s2s_service \<Rightarrow> bool" where
  "s2s_on s \<equiv> s2_Enabled (getS2S s)"

lemma s2s_Validate_keys [simp]:
  "s2s_Validate (c \<lparr> s2_ServerPrivEnc := e, s2_ServerPub := p \<rparr>) = s2s_Validate c"
  by (simp add: s2s_Validate_def)

lemma s2s_stores:
  assumes "apply_then_persist (applyS2S io c s) io c = (r, s')" "s2s_Validate c = None"
  shows "svc_effect s2_Enabled (s2s_renders (vi_dec io)) s2s_on r s s'
    \<and> (sv_stored s' = sv_stored s \<or> (\<exists>c. sv_stored s' = Some c \<and> s2s_Validate c = None))"
  using s2s_atp [OF assms(1), of s2_Enabled s2s_on] assms(2) by auto

lemma s2s_apply_effect:
  assumes "s2s_apply io q s = (r, s')"
  shows "svc_effect s2_Enabled (s2s_renders (vi_dec io)) s2s_on r s s'
    \<and> (sv_stored s' = sv_stored s \<or> (\<exists>c. sv_stored s' = Some c \<and> s2s_Validate c = None))"
  using assms
  by (auto simp: s2s_apply_def Let_def quiet_refl split: if_splits option.splits prod.splits dest: s2s_stores)

lemma store_site_effect:
  assumes "store_site io site s = (r, s')"
  shows "svc_effect s2_Enabled (s2s_renders (vi_dec io)) s2s_on r s s'
    \<and> (sv_stored s' = sv_stored s \<or> (\<exists>c. sv_stored s' = Some c \<and> s2s_Validate c = None))"
  using assms by (auto simp: store_site_def Let_def quiet_refl split: if_splits dest: s2s_stores)

lemma s2s_site_add_effect:
  assumes "s2s_site_add io q s = (r, s')"
  shows "svc_effect s2_Enabled (s2s_renders (vi_dec io)) s2s_on r s s'
    \<and> (sv_stored s' = sv_stored s \<or> (\<exists>c. sv_stored s' = Some c \<and> s2s_Validate c = None))"
  using assms
  by (auto simp: s2s_site_add_def Let_def quiet_refl split: if_splits option.splits dest: store_site_effect)

lemma s2s_site_delete_effect:
  assumes "s2s_site_delete io name s = (r, s')"
  shows "svc_effect s2_Enabled (s2s_renders (vi_dec io)) s2s_on r s s'
    \<and> (sv_stored s' = sv_stored s \<or> (\<exists>c. sv_stored s' = Some c \<and> s2s_removed name (getS2S s) c))"
proof (cases "name \<in> si_Name ` set (s2_Sites (getS2S s))")
  case False
  with assms have "r = Refused 404" "s' = s" by (simp_all add: s2s_site_delete_def)
  then show ?thesis by (simp add: quiet_refl)
next
  case True
  let ?next = "(getS2S s) \<lparr> s2_Sites := filter (\<lambda>x. si_Name x \<noteq> name) (s2_Sites (getS2S s)) \<rparr>"
  from True have ne: "s2_Sites (getS2S s) \<noteq> []" by auto
  show ?thesis
  proof (cases "s2s_on s")
    case on: True
    with True assms have "apply_then_persist (applyS2S io ?next s) io ?next = (r, s')" by (simp add: s2s_site_delete_def Let_def)
    from s2s_atp [OF this, of s2_Enabled s2s_on] ne show ?thesis by (simp add: s2s_removed_def)
  next
    case False
    with True assms have p: "persist io ?next s = (r, s')" by (simp add: s2s_site_delete_def Let_def)
    from persist_offline [OF p, of s2_Enabled s2s_on] p ne False show ?thesis by (auto simp: s2s_removed_def persist_def)
  qed
qed

lemma s2s_handle_effect:
  assumes "s2s_handle dec q s = (r, s')"
  shows "svc_effect s2_Enabled (s2s_renders dec) s2s_on r s s'
    \<and> (sv_stored s' = sv_stored s \<or> (\<exists>c. sv_stored s' = Some c \<and> (s2s_Validate c = None \<or> (\<exists>n. s2s_removed n (getS2S s) c))))"
proof (cases q)
  case (Pair io req)
  show ?thesis
  proof (cases req)
    case (S2sApply x)
    with Pair assms have "apiS2SApply (io \<lparr> vi_dec := dec \<rparr>) x s = (r, s')" by simp
    from audited_inner [OF this [unfolded apiS2SApply_def]] obtain s1
      where n: "s2s_apply (io \<lparr> vi_dec := dec \<rparr>) x s = (r, s1)" "sv_stored s' = sv_stored s1" "sv_running s' = sv_running s1" by blast
    from s2s_apply_effect [OF n(1)] svc_effect_same [OF _ n(2,3)] n(2) show ?thesis by auto
  next
    case (S2sSiteAdd x)
    with Pair assms have "apiS2SSiteAdd (io \<lparr> vi_dec := dec \<rparr>) x s = (r, s')" by simp
    from audited_inner [OF this [unfolded apiS2SSiteAdd_def]] obtain s1
      where n: "s2s_site_add (io \<lparr> vi_dec := dec \<rparr>) x s = (r, s1)" "sv_stored s' = sv_stored s1" "sv_running s' = sv_running s1" by blast
    from s2s_site_add_effect [OF n(1)] svc_effect_same [OF _ n(2,3)] n(2) show ?thesis by auto
  next
    case (S2sSiteDelete n)
    with Pair assms have "apiS2SSiteDelete (io \<lparr> vi_dec := dec \<rparr>) n s = (r, s')" by simp
    from audited_inner [OF this [unfolded apiS2SSiteDelete_def]] obtain s1
      where n: "s2s_site_delete (io \<lparr> vi_dec := dec \<rparr>) n s = (r, s1)" "sv_stored s' = sv_stored s1" "sv_running s' = sv_running s1" by blast
    from s2s_site_delete_effect [OF n(1)] svc_effect_same [OF _ n(2,3)] n(2) show ?thesis by auto
  qed
qed

interpretation s2s: apply_service "s2s_handle dec" s2_Enabled "s2s_renders dec" s2s_on "\<lambda>c. s2s_Validate c = None" for dec
proof
  fix q s r s'
  assume "s2s_handle dec q s = (r, s')"
  from s2s_handle_effect [OF this] show "svc_effect s2_Enabled (s2s_renders dec) s2s_on r s s'" by blast
next
  fix q s r s' c'
  assume h: "s2s_handle dec q s = (r, s')" and g: "\<And>c. sv_stored s = Some c \<Longrightarrow> s2s_Validate c = None" and c': "sv_stored s' = Some c'"
  have "s2s_Validate c' = None" if "s2s_removed n (getS2S s) c'" for n
  proof -
    from that have "s2s_Validate (getS2S s) = None" using g by (auto simp: s2s_removed_def getS2S_def split: option.splits)
    with that show ?thesis by (auto simp: s2s_removed_def s2s_Validate_iff list_all_iff distinct_map_filter)
  qed
  with s2s_handle_effect [OF h] g c' show "s2s_Validate c' = None" by auto
qed (auto simp: s2s_renders_def getS2S_def split: option.splits)

definition ips_good :: "IpsConfig \<Rightarrow> bool" where
  "ips_good c \<longleftrightarrow> ips_Validate c = None \<and> (ip_Enabled c \<longrightarrow> ip_Connections c \<noteq> [])"

abbreviation ips_on :: "ips_service \<Rightarrow> bool" where
  "ips_on s \<equiv> ip_Enabled (getIPsec s)"

text \<open>A configuration that is stored with or without running it, by whether the service is on.\<close>

lemma ips_stores:
  assumes "(if ips_on s then apply_then_persist (applyIPsec io c s) io c else persist io c s) = (r, s')"
    and "ips_good c" "ip_Enabled c \<longrightarrow> ips_on s"
  shows "svc_effect ip_Enabled (ips_renders (vi_dec io)) ips_on r s s'
    \<and> (sv_stored s' = sv_stored s \<or> (\<exists>c. sv_stored s' = Some c \<and> ips_good c))"
proof (cases "ips_on s")
  case True
  with assms ips_atp [of io c s r s' ip_Enabled ips_on] show ?thesis by auto
next
  case False
  with assms(1) have p: "persist io c s = (r, s')" by simp
  from persist_offline [OF p, of ip_Enabled ips_on] p assms(2,3) False show ?thesis by (auto simp: persist_def)
qed

lemma ips_Validate_enabled [simp]: "ips_Validate (c \<lparr> ip_Enabled := b \<rparr>) = ips_Validate c"
  by (simp add: ips_Validate_def)

lemma ips_apply_effect:
  assumes "ips_apply io en s = (r, s')" "ips_good (getIPsec s)"
  shows "svc_effect ip_Enabled (ips_renders (vi_dec io)) ips_on r s s'
    \<and> (sv_stored s' = sv_stored s \<or> (\<exists>c. sv_stored s' = Some c \<and> ips_good c))"
proof (cases "en \<and> ip_Connections (getIPsec s) = []")
  case True
  with assms have "r = Refused 409" "s' = s" by (simp_all add: ips_apply_def)
  then show ?thesis by (simp add: quiet_refl)
next
  case False
  let ?c = "(getIPsec s) \<lparr> ip_Enabled := en \<rparr>"
  from False assms(1) have a: "apply_then_persist (applyIPsec io ?c s) io ?c = (r, s')" by (auto simp: ips_apply_def Let_def)
  have "ips_good ?c" using False assms(2) by (auto simp: ips_good_def)
  with ips_atp [OF a, of ip_Enabled ips_on] show ?thesis by auto
qed

lemma ips_conn_add_effect:
  assumes "ips_conn_add pc pk io q s = (r, s')"
  shows "svc_effect ip_Enabled (ips_renders (vi_dec io)) ips_on r s s'
    \<and> (sv_stored s' = sv_stored s \<or> (\<exists>c. sv_stored s' = Some c \<and> ips_good c))"
proof -
  consider "r \<noteq> Done" "s' = s"
    | x where "ips_Validate ((getIPsec s) \<lparr> ip_Connections := put_named cn_Name x (ip_Connections (getIPsec s)) \<rparr>) = None"
        "(if ips_on s then apply_then_persist (applyIPsec io ((getIPsec s) \<lparr> ip_Connections := put_named cn_Name x (ip_Connections (getIPsec s)) \<rparr>) s) io
            ((getIPsec s) \<lparr> ip_Connections := put_named cn_Name x (ip_Connections (getIPsec s)) \<rparr>)
          else persist io ((getIPsec s) \<lparr> ip_Connections := put_named cn_Name x (ip_Connections (getIPsec s)) \<rparr>) s) = (r, s')"
    using assms
    by (cases "conn_secrets pc pk io q
                 (let same = filter (\<lambda>c. cn_Name c = cn_Name (conn_of_request q)) (ip_Connections (getIPsec s))
                  in if same = [] then None else Some (last same)) (conn_of_request q)")
      (auto simp: ips_conn_add_def Let_def split: if_splits)
  then show ?thesis
  proof cases
    case (2 x)
    have "put_named cn_Name x xs \<noteq> []" for xs by (auto simp: put_named_def Let_def)
    with 2 show ?thesis by (intro ips_stores) (auto simp: ips_good_def)
  qed (simp add: quiet_refl)
qed

lemma ips_conn_delete_effect:
  assumes "ips_conn_delete io name s = (r, s')" "ips_good (getIPsec s)"
  shows "svc_effect ip_Enabled (ips_renders (vi_dec io)) ips_on r s s'
    \<and> (sv_stored s' = sv_stored s \<or> (\<exists>c. sv_stored s' = Some c \<and> ips_good c))"
proof (cases "name \<in> cn_Name ` set (ip_Connections (getIPsec s))")
  case False
  with assms have "r = Refused 404" "s' = s" by (simp_all add: ips_conn_delete_def)
  then show ?thesis by (simp add: quiet_refl)
next
  case True
  let ?conns = "filter (\<lambda>c. cn_Name c \<noteq> name) (ip_Connections (getIPsec s))"
  let ?next = "\<lparr> ip_Enabled = (?conns \<noteq> [] \<and> ips_on s), ip_Connections = ?conns \<rparr>"
  have "(if ips_on s then apply_then_persist (applyIPsec io ?next s) io ?next else persist io ?next s) = (r, s')"
    using True assms(1) by (simp add: ips_conn_delete_def Let_def)
  moreover have "ips_good ?next" using assms(2) by (auto simp: ips_good_def ips_Validate_iff distinct_map_filter)
  ultimately show ?thesis by (rule ips_stores) simp
qed

lemma getIPsec_good: "(\<And>c. sv_stored s = Some c \<Longrightarrow> ips_good c) \<Longrightarrow> ips_good (getIPsec s)"
  by (auto simp: getIPsec_def ips_good_def ips_Validate_def split: option.splits)

lemma ips_handle_effect:
  assumes "ips_handle pc pk dec q s = (r, s')" "ips_good (getIPsec s)"
  shows "svc_effect ip_Enabled (ips_renders dec) ips_on r s s'
    \<and> (sv_stored s' = sv_stored s \<or> (\<exists>c. sv_stored s' = Some c \<and> ips_good c))"
proof (cases q)
  case (Pair io req)
  show ?thesis
  proof (cases req)
    case (IpsApply en)
    with Pair assms have "apiIPsecApply (io \<lparr> vi_dec := dec \<rparr>) en s = (r, s')" by simp
    from audited_inner [OF this [unfolded apiIPsecApply_def]] obtain s1
      where n: "ips_apply (io \<lparr> vi_dec := dec \<rparr>) en s = (r, s1)" "sv_stored s' = sv_stored s1" "sv_running s' = sv_running s1" by blast
    from ips_apply_effect [OF n(1) assms(2)] svc_effect_same [OF _ n(2,3)] n(2) show ?thesis by auto
  next
    case (IpsConnAdd x)
    with Pair assms have "apiIPsecConnAdd pc pk (io \<lparr> vi_dec := dec \<rparr>) x s = (r, s')" by simp
    from audited_inner [OF this [unfolded apiIPsecConnAdd_def]] obtain s1
      where n: "ips_conn_add pc pk (io \<lparr> vi_dec := dec \<rparr>) x s = (r, s1)" "sv_stored s' = sv_stored s1" "sv_running s' = sv_running s1" by blast
    from ips_conn_add_effect [OF n(1)] svc_effect_same [OF _ n(2,3)] n(2) show ?thesis by auto
  next
    case (IpsConnDelete n)
    with Pair assms have "apiIPsecConnDelete (io \<lparr> vi_dec := dec \<rparr>) n s = (r, s')" by simp
    from audited_inner [OF this [unfolded apiIPsecConnDelete_def]] obtain s1
      where n: "ips_conn_delete (io \<lparr> vi_dec := dec \<rparr>) n s = (r, s1)" "sv_stored s' = sv_stored s1" "sv_running s' = sv_running s1" by blast
    from ips_conn_delete_effect [OF n(1) assms(2)] svc_effect_same [OF _ n(2,3)] n(2) show ?thesis by auto
  qed
qed

interpretation ips: apply_service "ips_handle pc pk dec" ip_Enabled "ips_renders dec" ips_on ips_good for pc pk dec
proof
  fix q s r s'
  assume h: "ips_handle pc pk dec q s = (r, s')" and g: "\<And>c. sv_stored s = Some c \<Longrightarrow> ips_good c"
  from ips_handle_effect [OF h getIPsec_good [OF g]] show "svc_effect ip_Enabled (ips_renders dec) ips_on r s s'" by blast
next
  fix q s r s' c'
  assume h: "ips_handle pc pk dec q s = (r, s')" and g: "\<And>c. sv_stored s = Some c \<Longrightarrow> ips_good c" and c': "sv_stored s' = Some c'"
  from ips_handle_effect [OF h getIPsec_good [OF g]] g c' show "ips_good c'" by auto
qed (auto simp: ips_renders_def getIPsec_def split: option.splits)

section \<open>The stored configuration is the running one\<close>

definition fresh_service :: "('c, 'f) service" where
  "fresh_service = \<lparr> sv_stored = None, sv_staged = None, sv_running = Off, sv_audit = [] \<rparr>"

lemma fresh_agrees: "agrees renders fresh_service" "sv_stored fresh_service = None"
  by (simp_all add: agrees_def fresh_service_def)

text \<open>
  C29. Road-warrior VPN: after any sequence of settings changes, peer additions and peer removals
  on a new appliance, whatever fails, the stored configuration validates, no two peers share a
  name or an address, and none has the server's address; and as long as no request was answered
  502 the server runs exactly what the stored configuration renders to, with the key it holds.
\<close>

theorem vpn_in_sync:
  assumes "svc_run (vpn_handle dec) qs fresh_service = (rs, s)"
  shows "(\<forall>c. sv_stored s = Some c \<longrightarrow> vpn_good c) \<and> (Refused 502 \<notin> set rs \<longrightarrow> agrees (vpn_renders dec) s)"
proof -
  have "\<forall>c. sv_stored fresh_service = Some c \<longrightarrow> vpn_good c" by (simp add: fresh_agrees(2))
  from vpn.run_in_sync [OF assms this] fresh_agrees(1) show ?thesis by blast
qed

text \<open>
  IPsec: after any sequence of requests on a new appliance the stored connections validate,
  IPsec is never enabled without a connection, and as long as no request was answered 502 the
  daemon runs exactly the configuration and credential files of the stored connections.
\<close>

theorem ipsec_in_sync:
  assumes "svc_run (ips_handle pem_cert pem_key dec) qs fresh_service = (rs, s)"
  shows "(\<forall>c. sv_stored s = Some c \<longrightarrow> ips_Validate c = None \<and> (ip_Enabled c \<longrightarrow> ip_Connections c \<noteq> []))
    \<and> (Refused 502 \<notin> set rs \<longrightarrow> agrees (ips_renders dec) s)"
proof -
  have "\<forall>c. sv_stored fresh_service = Some c \<longrightarrow> ips_good c" by (simp add: fresh_agrees(2))
  from ips.run_in_sync [OF assms this] fresh_agrees(1) show ?thesis unfolding ips_good_def by blast
qed

text \<open>
  Site-to-site: after any sequence of requests on a new appliance the stored configuration
  validates, so that site names are distinct, and as long as no request was answered 502 the
  interface runs exactly what the stored configuration renders to.
\<close>

theorem s2s_in_sync:
  assumes "svc_run (s2s_handle dec) qs fresh_service = (rs, s)"
  shows "(\<forall>c. sv_stored s = Some c \<longrightarrow> s2s_Validate c = None) \<and> (Refused 502 \<notin> set rs \<longrightarrow> agrees (s2s_renders dec) s)"
proof -
  have "\<forall>c. sv_stored fresh_service = Some c \<longrightarrow> s2s_Validate c = None" by (simp add: fresh_agrees(2))
  from s2s.run_in_sync [OF assms this] fresh_agrees(1) show ?thesis by blast
qed

definition ex_vpn_rq :: reqctx where
  "ex_vpn_rq = \<lparr> rq_user = None, rq_ip = ''10.0.0.9'', rq_now = 7, rq_adminUser = ''admin'' \<rparr>"

definition ex_svc_io :: "'f svc_io" where
  "ex_svc_io = \<lparr> vi_key = True, vi_enc = Some, vi_dec = Some, vi_keypair = Some (ex_key, ex_key), vi_stage = True,
     vi_adapter = None, vi_save = True, vi_now = 7,
     vi_rq = ex_vpn_rq \<rparr>"

definition ex_log :: "string \<Rightarrow> string \<Rightarrow> auditEvent list" where
  "ex_log action target = recordSev ex_vpn_rq (actor ex_vpn_rq) action target ''success'' ''security'' []"

definition ex_vpn_req :: "string svc_io \<times> vpn_req" where
  "ex_vpn_req = (ex_svc_io, VpnApply None \<lparr> vs_Enabled = False, vs_Subnet = wg_Subnet ex_wg, vs_ListenPort = 0, vs_Endpoint = [],
     vs_DNS = [], vs_SplitNetworks = [] \<rparr>)"

theorem vpn_in_sync_witness:
  "vpn_good (ex_wg \<lparr> wg_ServerPrivEnc := ex_key, wg_ServerPub := ex_key \<rparr>)"
proof -
  let ?c = "ex_wg \<lparr> wg_ServerPrivEnc := ex_key, wg_ServerPub := ex_key \<rparr>"
  have c: "vpn_settings_config None \<lparr> vs_Enabled = False, vs_Subnet = wg_Subnet ex_wg, vs_ListenPort = 0, vs_Endpoint = [],
     vs_DNS = [], vs_SplitNetworks = [] \<rparr> (getVPN fresh_service) = ex_wg"
    by (simp add: vpn_settings_config_def getVPN_def fresh_service_def ex_wg_def)
  have p: "wg_Peers (getVPN fresh_service) = []" "wg_ServerPub ex_wg = []" "\<not> wg_Enabled ex_wg"
    by (simp_all add: getVPN_def fresh_service_def ex_wg_def)
  have "svc_run (vpn_handle Some) [ex_vpn_req] fresh_service = ([Done], \<lparr> sv_stored = Some ?c, sv_staged = None, sv_running = Off,
         sv_audit = ex_log ''vpn-apply'' ''wireguard'' \<rparr>)"
    unfolding ex_vpn_req_def svc_run.simps vpn_handle.simps apiVPNApply_def vpn_apply_def Let_def c
    by (simp add: p p(1) [unfolded fresh_service_def] ex_wg_valid sealed_keypair_def ex_svc_io_def applyVPN_def run_disable_def apply_then_persist_def
        persist_def fresh_service_def audited_def ex_log_def)
  from vpn_in_sync [OF this] show ?thesis by simp
qed

theorem ipsec_in_sync_witness:
  "agrees (ips_renders Some) (snd (svc_run (ips_handle (\<lambda>_. True) (\<lambda>_. True) Some) [(ex_svc_io, IpsApply False)] fresh_service))"
proof -
  have "svc_run (ips_handle (\<lambda>_. True) (\<lambda>_. True) Some) [(ex_svc_io, IpsApply False)] fresh_service
     = ([Done], \<lparr> sv_stored = Some \<lparr> ip_Enabled = False, ip_Connections = [] \<rparr>, sv_staged = None,
         sv_running = Off, sv_audit = ex_log ''ipsec-apply'' ''strongswan'' \<rparr>)"
    by (simp add: apiIPsecApply_def ips_apply_def audited_def ex_log_def getIPsec_def fresh_service_def ex_svc_io_def applyIPsec_def run_disable_def
        apply_then_persist_def persist_def)
  from ipsec_in_sync [OF this] this show ?thesis by simp
qed

definition ex_s2s_req :: "string svc_io \<times> s2s_req" where
  "ex_s2s_req = (ex_svc_io, S2sApply \<lparr> ss_Enabled = True, ss_ListenPort = 0, ss_TunnelAddress = [], ss_LocalNetworks = [] \<rparr>)"

theorem s2s_in_sync_witness:
  "agrees (s2s_renders Some) (snd (svc_run (s2s_handle Some) [ex_s2s_req] fresh_service))"
proof -
  let ?c = "\<lparr> s2_Enabled = True, s2_ListenPort = 51821, s2_TunnelAddress = [], s2_LocalNetworks = [], s2_ServerPub = ex_key,
    s2_ServerPrivEnc = ex_key, s2_Sites = [] \<rparr>"
  let ?t = "unlines (s2s_lines ?c ex_key Map.empty)"
  have "svc_run (s2s_handle Some) [ex_s2s_req] fresh_service
     = ([Done], \<lparr> sv_stored = Some ?c, sv_staged = Some ?t, sv_running = Serving ?t,
         sv_audit = ex_log ''s2s-apply'' ''wireguard'' \<rparr>)"
    by (simp add: ex_s2s_req_def apiS2SApply_def s2s_apply_def audited_def ex_log_def getS2S_def fresh_service_def s2s_Validate_def sealed_keypair_def ex_svc_io_def
        applyS2S_def s2s_GenerateConf_def ex_key_valid stage_and_run_def apply_then_persist_def persist_def Let_def)
  from s2s_in_sync [OF this] this show ?thesis by simp
qed

text \<open>
  Replacing a site without entering its preshared key again stores it without one and runs the
  tunnel unkeyed; the IPsec handler keeps the sealed key in the same situation.
\<close>

theorem s2s_replace_drops_psk:
  assumes "apiS2SSiteAdd io r s = (Done, s')" "TrimSpace (si_PSKEnc r) = []"
  shows "\<exists>c. sv_stored s' = Some c
    \<and> (\<forall>x \<in> set (s2_Sites c). si_Name x = ToLower (TrimSpace (si_Name r)) \<longrightarrow> si_PSKEnc x = [])"
proof -
  from audited_inner [OF assms(1) [unfolded apiS2SSiteAdd_def]] obtain s1
    where n: "s2s_site_add io r s = (Done, s1)" "sv_stored s' = sv_stored s1" by blast
  have st: "store_site io (site_of_request r) s = (Done, s1)"
    using n(1) assms(2) by (auto simp: s2s_site_add_def Let_def split: if_splits)
  let ?c = "(getS2S s) \<lparr> s2_Sites := put_named si_Name (site_of_request r) (s2_Sites (getS2S s)) \<rparr>"
  have "apply_then_persist (applyS2S io ?c s) io ?c = (Done, s1)"
    using st by (auto simp: store_site_def Let_def split: if_splits)
  then have "sv_stored s' = Some ?c"
    unfolding n(2) by (auto simp: apply_then_persist_def persist_def split: prod.splits outcome.splits)
  then show ?thesis by (auto simp: put_named_def site_of_request_def Let_def)
qed

end
