(* ===== verification/OvpnApi.thy ===== *)
theory OvpnApi
  imports VpnApi Gateway
begin

text \<open>
  The OpenVPN handlers (\<open>cmd/saguaro/openvpn.go\<close>): settings with the first mint of the
  certificate authority, issuing a client, its access rules, and revocation. They hold the
  mutation lock, so requests run one after another. The state is the application state of the
  gateway theory, whose firewall is regenerated by most requests, together with the staged
  files and what the server runs. Certificates, revocation lists, password hashes, sealing,
  the file system and the adapter are parameters. A failed write is taken to leave the staged
  directory as it was.
\<close>

section \<open>State and environment\<close>

record ovFiles =
  of_conf :: string
  of_ca :: string
  of_cert :: string
  of_key :: string
  of_tlscrypt :: string
  of_crl :: string
  of_auth :: string
  of_ccd :: "string \<rightharpoonup> string"

record ovApp =
  ova_app :: gwApp
  ova_staged :: "ovFiles option"
  ova_running :: "ovFiles running"

text \<open>
  \<open>oi_adapter\<close> is \<open>None\<close> for success and otherwise what the failed adapter left running;
  \<open>oi_sign\<close> signs a name until a time, \<open>oi_crl\<close> is \<open>GenerateCRL\<close>.
\<close>

record ovIO =
  oi_gw :: gwIO
  oi_rq :: reqctx
  oi_key :: bool
  oi_enc :: "string \<Rightarrow> string option"
  oi_dec :: "string \<Rightarrow> string option"
  oi_ca :: "(string \<times> string) option"
  oi_server :: "string \<Rightarrow> string \<Rightarrow> (string \<times> string) option"
  oi_tls :: "string option"
  oi_sign :: "string \<Rightarrow> int \<Rightarrow> (string \<times> string \<times> string) option"
  oi_crl :: "string \<Rightarrow> string \<Rightarrow> OvClient list \<Rightarrow> string option"
  oi_hash :: "string \<Rightarrow> string option"
  oi_stage :: bool
  oi_adapter :: "ovFiles running option"
  oi_now :: int
  oi_two_years :: int

definition getOpenVPN :: "ovApp \<Rightarrow> OvConfig" where
  "getOpenVPN a = ga_ovpn (ova_app a)"

definition setOpenVPN :: "OvConfig \<Rightarrow> ovApp \<Rightarrow> ovApp" where
  "setOpenVPN c a = a \<lparr> ova_app := (ova_app a) \<lparr> ga_ovpn := c \<rparr> \<rparr>"

definition ov_record :: "ovIO \<Rightarrow> string \<Rightarrow> string \<Rightarrow> string \<Rightarrow> string \<Rightarrow> ovApp \<Rightarrow> ovApp" where
  "ov_record io action target result severity a =
     a \<lparr> ova_app := gw_record (oi_rq io) action target result severity (ova_app a) \<rparr>"

section \<open>Staging and applying\<close>

definition ccd_files :: "OvConfig \<Rightarrow> (string \<rightharpoonup> string) \<Rightarrow> (string \<rightharpoonup> string)" where
  "ccd_files cfg old =
     foldl (\<lambda>m cl. if ov_Revoked cl \<or> ov_VPNAddr cl = [] \<or> GenerateCCD cfg cl = [] then m
                   else m(ov_Name cl \<mapsto> GenerateCCD cfg cl)) old (oc_Clients cfg)"

definition staged_files :: "ovIO \<Rightarrow> OvConfig \<Rightarrow> (string \<rightharpoonup> string) \<Rightarrow> (unit, ovFiles) outcome" where
  "staged_files io cfg old =
     (case (oi_dec io (oc_CAKeyEnc cfg), oi_dec io (oc_ServerKeyEnc cfg), oi_dec io (oc_TLSCryptEnc cfg)) of
        (Some caKey, Some srvKey, Some tlsCrypt) \<Rightarrow>
          (case ov_GenerateServerConf cfg of
             Error _ \<Rightarrow> Error ()
           | Panic \<Rightarrow> Panic
           | Return conf \<Rightarrow>
               (case oi_crl io (oc_CACertPEM cfg) caKey (filter ov_Revoked (oc_Clients cfg)) of
                  None \<Rightarrow> Error ()
                | Some crl \<Rightarrow>
                    Return \<lparr> of_conf = conf, of_ca = oc_CACertPEM cfg, of_cert = oc_ServerCertPEM cfg, of_key = srvKey,
                             of_tlscrypt = tlsCrypt, of_crl = crl, of_auth = GenerateAuthFile (oc_Clients cfg),
                             of_ccd = ccd_files cfg old \<rparr>))
      | _ \<Rightarrow> Error ())"

text \<open>The adapter removes the staged directory once it has installed the files.\<close>

definition stageAndApplyOpenVPN :: "ovIO \<Rightarrow> OvConfig \<Rightarrow> ovApp \<Rightarrow> (unit, unit) outcome \<times> ovApp" where
  "stageAndApplyOpenVPN io cfg a =
     (case staged_files io cfg (case ova_staged a of None \<Rightarrow> Map.empty | Some f \<Rightarrow> of_ccd f) of
        Error _ \<Rightarrow> (Error (), a)
      | Panic \<Rightarrow> (Panic, a)
      | Return f \<Rightarrow>
          if \<not> oi_stage io then (Error (), a)
          else (case oi_adapter io of
                  None \<Rightarrow> (Return (), a \<lparr> ova_staged := None, ova_running := Serving f \<rparr>)
                | Some r \<Rightarrow> (Error (), a \<lparr> ova_staged := Some f, ova_running := r \<rparr>)))"

definition syncOpenVPNFirewall :: "ovIO \<Rightarrow> ovApp \<Rightarrow> ovApp" where
  "syncOpenVPNFirewall io a =
     (if snd (firewallConfig (oi_gw io) (ova_app a))
      then a \<lparr> ova_app := snd (applyAndConfirm (oi_gw io) (ova_app a)) \<rparr> else a)"

section \<open>Settings\<close>

record ov_settings =
  os_Enabled :: bool
  os_Subnet :: string
  os_Port :: int
  os_Endpoint :: string
  os_DNS :: string
  os_SplitNetworks :: "string list"

definition ov_settings_config :: "ovApp \<Rightarrow> ov_settings \<Rightarrow> OvConfig" where
  "ov_settings_config a r =
     (getOpenVPN a) \<lparr> oc_Enabled := os_Enabled r, oc_Subnet := os_Subnet r, oc_Port := os_Port r, oc_Endpoint := os_Endpoint r,
        oc_DNS := os_DNS r,
        oc_SplitNetworks :=
          (if os_SplitNetworks r = []
           then (let (gw, ok) = getGateway (ova_app a) in if ok \<and> c_ClientNetwork gw \<noteq> [] then [c_ClientNetwork gw] else [])
           else os_SplitNetworks r) \<rparr>"

text \<open>The first enable mints the authority, the server certificate and the static key.\<close>

definition mint_pki :: "ovIO \<Rightarrow> OvConfig \<Rightarrow> OvConfig option" where
  "mint_pki io cfg =
     (case oi_ca io of
        None \<Rightarrow> None
      | Some (caCert, caKey) \<Rightarrow>
          (case (oi_server io caCert caKey, oi_tls io) of
             (Some (srvCert, srvKey), Some h) \<Rightarrow>
               (case (oi_enc io caKey, oi_enc io srvKey, oi_enc io (GenerateTLSCrypt h)) of
                  (Some e1, Some e2, Some e3) \<Rightarrow>
                    Some (cfg \<lparr> oc_CAKeyEnc := e1, oc_ServerKeyEnc := e2, oc_TLSCryptEnc := e3,
                                oc_CACertPEM := caCert, oc_ServerCertPEM := srvCert \<rparr>)
                | _ \<Rightarrow> None)
           | _ \<Rightarrow> None))"

definition apply_enabled :: "ovIO \<Rightarrow> OvConfig \<Rightarrow> ovApp \<Rightarrow> reply \<times> ovApp" where
  "apply_enabled io cfg a =
     (case stageAndApplyOpenVPN io cfg a of
        (Error _, a1) \<Rightarrow> (Refused 502, ov_record io ''openvpn-config'' ''openvpn'' ''failed'' ''security'' a1)
      | (Panic, a1) \<Rightarrow> (Crashed, a1)
      | (Return _, a1) \<Rightarrow>
          let a2 = setOpenVPN cfg a1
          in if \<not> io_saved (oi_gw io) then (Refused 500, a2)
             else let res = applyAndConfirm (oi_gw io) (ova_app a2);
                      a3 = (if snd (firewallConfig (oi_gw io) (ova_app a2))
                            then (if fst res = None then a2 \<lparr> ova_app := snd res \<rparr>
                                  else ov_record io ''openvpn-fwsync'' ''nftables'' ''failed'' ''warning'' (a2 \<lparr> ova_app := snd res \<rparr>))
                            else a2)
                  in (Done, ov_record io ''openvpn-config'' ''openvpn'' ''success'' ''security'' a3))"

definition apiOpenVPNApply :: "ovIO \<Rightarrow> ov_settings \<Rightarrow> ovApp \<Rightarrow> reply \<times> ovApp" where
  "apiOpenVPNApply io r a =
     (let old = getOpenVPN a; cfg = ov_settings_config a r
      in if oc_Clients old \<noteq> [] \<and> oc_Subnet old \<noteq> [] \<and> os_Subnet r \<noteq> [] \<and> os_Subnet r \<noteq> oc_Subnet old then (Refused 409, a)
         else if ov_Validate cfg \<noteq> None then (Refused 400, a)
         else if \<not> os_Enabled r then
           (case oi_adapter io of
              Some left \<Rightarrow> (Refused 502, a \<lparr> ova_running := left \<rparr>)
            | None \<Rightarrow>
                (Done, ov_record io ''openvpn-config'' ''openvpn'' ''success'' ''warning''
                         (syncOpenVPNFirewall io (setOpenVPN cfg (a \<lparr> ova_running := Off \<rparr>)))))
         else if \<not> oi_key io then (Refused 500, a)
         else if oc_CACertPEM cfg = [] then
           (case mint_pki io cfg of None \<Rightarrow> (Refused 500, a) | Some cfg' \<Rightarrow> apply_enabled io cfg' a)
         else apply_enabled io cfg a)"

section \<open>Clients\<close>

definition ov_nameRe :: "string \<Rightarrow> bool" where
  "ov_nameRe s \<longleftrightarrow> s \<noteq> [] \<and> length s \<le> 32 \<and> name_alnum (hd s) \<and> name_alnum (last s)
     \<and> list_all (\<lambda>c. name_alnum c \<or> c = CHR ''.'' \<or> c = CHR ''_'' \<or> c = CHR ''-'') s"

definition SignClient :: "ovIO \<Rightarrow> string \<Rightarrow> int \<Rightarrow> (string \<times> string \<times> string) option" where
  "SignClient io name notAfter = (if ov_nameRe name then oi_sign io name notAfter else None)"

definition client_expiry :: "ovIO \<Rightarrow> int \<Rightarrow> int" where
  "client_expiry io days = (if 0 < days then oi_now io + 86400 * days else oi_two_years io)"

text \<open>The client is stored before the server is reloaded; a failed reload leaves it stored.\<close>

definition add_client :: "ovIO \<Rightarrow> OvConfig \<Rightarrow> OvClient \<Rightarrow> ovApp \<Rightarrow> reply \<times> ovApp" where
  "add_client io cfg cl a =
     (let next = cfg \<lparr> oc_Clients := oc_Clients cfg @ [cl] \<rparr>; a1 = setOpenVPN next a;
          finish = (\<lambda>a2. if oi_dec io (oc_TLSCryptEnc cfg) = None then (Refused 500, a2)
                         else (Done, ov_record io ''openvpn-client-add'' ''openvpn'' ''success'' ''security'' a2))
      in if \<not> io_saved (oi_gw io) then (Refused 500, a1)
         else if \<not> oc_Enabled cfg then finish a1
         else case stageAndApplyOpenVPN io next a1 of
                (Error _, a2) \<Rightarrow> (Refused 502, a2)
              | (Panic, a2) \<Rightarrow> (Crashed, a2)
              | (Return _, a2) \<Rightarrow> finish (syncOpenVPNFirewall io a2))"

definition apiOpenVPNAddClient :: "ovIO \<Rightarrow> string \<Rightarrow> string \<Rightarrow> int \<Rightarrow> ovApp \<Rightarrow> reply \<times> ovApp" where
  "apiOpenVPNAddClient io name password days a =
     (let cfg = getOpenVPN a; notAfter = client_expiry io days
      in if length password < 8 then (Refused 400, a)
         else if oc_CACertPEM cfg = [] then (Refused 409, a)
         else if \<exists>c \<in> set (oc_Clients cfg). ov_Name c = name \<and> \<not> ov_Revoked c then (Refused 409, a)
         else if oi_dec io (oc_CAKeyEnc cfg) = None then (Refused 500, a)
         else case SignClient io name notAfter of
                None \<Rightarrow> (Refused 400, a)
              | Some (certPEM, keyPEM, serial) \<Rightarrow>
                  (case oi_hash io password of
                     None \<Rightarrow> (Refused 500, a)
                   | Some phc \<Rightarrow>
                       (case NextFreeAddr cfg of
                          Return addr \<Rightarrow>
                            add_client io cfg \<lparr> ov_Name = name, ov_Serial = serial, ov_CertPEM = certPEM, ov_PassHash = phc, ov_VPNAddr = addr,
                              ov_Access = [], ov_Revoked = False, ov_CreatedAt = oi_now io, ov_ExpiresAt = notAfter \<rparr> a
                        | _ \<Rightarrow> (Crashed, a))))"

text \<open>\<open>aliases\<close> are the alias names of the stored gateway.\<close>

definition access_rule_ok :: "string set \<Rightarrow> AccessRule \<Rightarrow> bool" where
  "access_rule_ok aliases ru \<longleftrightarrow>
     (if ar_DestAlias ru \<noteq> [] then ar_DestAlias ru \<in> aliases
      else ParseIP (ar_Dest ru) \<noteq> None \<or> ParseCIDR (ar_Dest ru) \<noteq> None)
     \<and> ar_Proto ru \<in> {''any'', ''tcp'', ''udp''} \<and> 0 \<le> ar_Port ru \<and> ar_Port ru \<le> 65535"

definition alias_names :: "ovApp \<Rightarrow> string set" where
  "alias_names a = (let (gw, ok) = getGateway (ova_app a) in if ok then al_Name ` set (c_Aliases gw) else {})"

definition edit_client :: "string \<Rightarrow> (OvClient \<Rightarrow> OvClient) \<Rightarrow> OvConfig \<Rightarrow> OvConfig" where
  "edit_client name f cfg =
     cfg \<lparr> oc_Clients := map (\<lambda>c. if ov_Name c = name \<and> \<not> ov_Revoked c then f c else c) (oc_Clients cfg) \<rparr>"

definition has_client :: "string \<Rightarrow> OvConfig \<Rightarrow> bool" where
  "has_client name cfg \<longleftrightarrow> (\<exists>c \<in> set (oc_Clients cfg). ov_Name c = name \<and> \<not> ov_Revoked c)"

definition apiOpenVPNClientAccess :: "ovIO \<Rightarrow> string \<Rightarrow> AccessRule list \<Rightarrow> ovApp \<Rightarrow> reply \<times> ovApp" where
  "apiOpenVPNClientAccess io name rules a =
     (if \<not> list_all (access_rule_ok (alias_names a)) rules then (Refused 400, a)
      else if \<not> has_client name (getOpenVPN a) then (Refused 404, a)
      else let a1 = setOpenVPN (edit_client name (\<lambda>c. c \<lparr> ov_Access := rules \<rparr>) (getOpenVPN a)) a
           in if \<not> io_saved (oi_gw io) then (Refused 500, a1)
              else (Done, ov_record io ''openvpn-client-access'' ''openvpn'' ''success'' ''security'' (syncOpenVPNFirewall io a1)))"

text \<open>The revocation is stored last, after the server and the firewall were reloaded.\<close>

definition apiOpenVPNDelClient :: "ovIO \<Rightarrow> string \<Rightarrow> ovApp \<Rightarrow> reply \<times> ovApp" where
  "apiOpenVPNDelClient io name a =
     (let cfg = edit_client name (\<lambda>c. c \<lparr> ov_Revoked := True \<rparr>) (getOpenVPN a);
          store = (\<lambda>a1. if io_saved (oi_gw io)
                        then (Done, ov_record io ''openvpn-client-revoke'' ''openvpn'' ''success'' ''security'' (setOpenVPN cfg a1))
                        else (Refused 500, setOpenVPN cfg a1))
      in if \<not> has_client name (getOpenVPN a) then (Refused 404, a)
         else if \<not> oc_Enabled cfg then store a
         else case stageAndApplyOpenVPN io cfg a of
                (Error _, a1) \<Rightarrow> (Refused 502, a1)
              | (Panic, a1) \<Rightarrow> (Crashed, a1)
              | (Return _, a1) \<Rightarrow> store (syncOpenVPNFirewall io a1))"

datatype ov_req = OvApply ov_settings | OvAddClient string string int | OvClientAccess string "AccessRule list" | OvDelClient string

fun ov_handle :: "ovIO \<times> ov_req \<Rightarrow> ovApp \<Rightarrow> reply \<times> ovApp" where
  "ov_handle (io, OvApply r) a = apiOpenVPNApply io r a"
| "ov_handle (io, OvAddClient name password days) a = apiOpenVPNAddClient io name password days a"
| "ov_handle (io, OvClientAccess name rules) a = apiOpenVPNClientAccess io name rules a"
| "ov_handle (io, OvDelClient name) a = apiOpenVPNDelClient io name a"

section \<open>What a request does to the clients\<close>

lemma stage_run_ovpn [simp]: "ga_ovpn (snd (stage_run io cfg a)) = ga_ovpn a"
  by (auto simp: stage_run_def Let_def split: outcome.splits)

lemma applyAndConfirm_ovpn [simp]: "ga_ovpn (snd (applyAndConfirm io a)) = ga_ovpn a"
proof -
  obtain cfg ok where f: "firewallConfig io a = (cfg, ok)" by fastforce
  obtain e a1 where st: "stage_run io cfg a = (e, a1)" by fastforce
  have "ga_ovpn a1 = ga_ovpn a" using stage_run_ovpn [of io cfg a] st by simp
  then show ?thesis by (cases ok; cases e) (simp_all add: applyAndConfirm_def f st run_action_def)
qed

lemma sync_fields [simp]:
  "getOpenVPN (syncOpenVPNFirewall io a) = getOpenVPN a" "ova_running (syncOpenVPNFirewall io a) = ova_running a"
  by (simp_all add: syncOpenVPNFirewall_def getOpenVPN_def)

lemma record_fields [simp]:
  "getOpenVPN (ov_record io x t r sv a) = getOpenVPN a" "ova_running (ov_record io x t r sv a) = ova_running a"
  by (simp_all add: ov_record_def getOpenVPN_def gw_record_def)

lemma set_fields [simp]:
  "getOpenVPN (setOpenVPN c a) = c" "ova_running (setOpenVPN c a) = ova_running a"
  by (simp_all add: setOpenVPN_def getOpenVPN_def)

definition files_current :: "ovIO \<Rightarrow> OvConfig \<Rightarrow> ovFiles \<Rightarrow> bool" where
  "files_current io cfg f \<longleftrightarrow>
     of_auth f = GenerateAuthFile (oc_Clients cfg) \<and> of_ca f = oc_CACertPEM cfg
     \<and> (\<exists>caKey. oi_dec io (oc_CAKeyEnc cfg) = Some caKey
          \<and> oi_crl io (oc_CACertPEM cfg) caKey (filter ov_Revoked (oc_Clients cfg)) = Some (of_crl f))"

lemma staged_files_current: "staged_files io cfg old = Return f \<Longrightarrow> files_current io cfg f"
  by (auto simp: staged_files_def files_current_def split: option.splits outcome.splits)

lemma stageAndApply_cases:
  assumes "stageAndApplyOpenVPN io cfg a = (r, a')"
  shows "getOpenVPN a' = getOpenVPN a \<and> ova_app a' = ova_app a
    \<and> (r = Return () \<longrightarrow> (\<exists>f. ova_running a' = Serving f \<and> files_current io cfg f))"
  using assms staged_files_current
  by (auto simp: stageAndApplyOpenVPN_def getOpenVPN_def split: outcome.splits if_splits option.splits)

inductive cl_change :: "OvClient list \<Rightarrow> OvClient list \<Rightarrow> bool" where
  kept: "cl_change cs cs"
| added: "ov_nameRe (ov_Name cl) \<Longrightarrow> \<not> ov_Revoked cl \<Longrightarrow> \<forall>c \<in> set cs. \<not> ov_Revoked c \<longrightarrow> ov_Name c \<noteq> ov_Name cl
    \<Longrightarrow> \<forall>c \<in> set cs. \<not> ov_Revoked c \<and> ov_VPNAddr cl \<noteq> [] \<longrightarrow> ov_VPNAddr c \<noteq> ov_VPNAddr cl \<Longrightarrow> cl_change cs (cs @ [cl])"
| access: "cl_change cs (map (\<lambda>c. if ov_Name c = n \<and> \<not> ov_Revoked c then c \<lparr> ov_Access := r \<rparr> else c) cs)"
| revoked: "cl_change cs (map (\<lambda>c. if ov_Name c = n \<and> \<not> ov_Revoked c then c \<lparr> ov_Revoked := True \<rparr> else c) cs)"

text \<open>The server's part of a request: it runs the files of the stored configuration, or is off.\<close>

definition ov_agrees :: "ovIO \<Rightarrow> ovApp \<Rightarrow> bool" where
  "ov_agrees io a \<longleftrightarrow>
     (if oc_Enabled (getOpenVPN a) then \<exists>f. ova_running a = Serving f \<and> files_current io (getOpenVPN a) f
      else ova_running a = Off)"

definition server_error :: "reply \<Rightarrow> bool" where
  "server_error r \<longleftrightarrow> r = Refused 500 \<or> r = Refused 502 \<or> r = Crashed"

definition ov_effect :: "ovIO \<Rightarrow> reply \<Rightarrow> ovApp \<Rightarrow> ovApp \<Rightarrow> bool" where
  "ov_effect io r a a' \<longleftrightarrow> cl_change (oc_Clients (getOpenVPN a)) (oc_Clients (getOpenVPN a'))
     \<and> (\<not> server_error r \<and> ov_agrees io a \<longrightarrow> ov_agrees io a')"

lemma next_loop_fresh: "next_loop used ipnet base js = a \<Longrightarrow> a \<noteq> [] \<Longrightarrow> a \<notin> used"
  by (induction used ipnet base js rule: next_loop.induct) (auto simp: Let_def split: if_splits)

lemma NextFreeAddr_fresh:
  assumes "NextFreeAddr c = Return a" "a \<noteq> []" "cl \<in> set (oc_Clients c)" "\<not> ov_Revoked cl"
  shows "ov_VPNAddr cl \<noteq> a"
proof
  assume "ov_VPNAddr cl = a"
  with assms(2-4) have "a \<in> active_addrs c" by (auto simp: active_addrs_def)
  then have not_loop: "next_loop (insert x (active_addrs c)) ipnet base js \<noteq> a" for x ipnet base js
    using next_loop_fresh assms(2) by blast
  from assms(1,2) obtain ip ipnet where p: "ParseCIDR (TrimSpace (oc_Subnet c)) = Some (ip, ipnet)"
    by (cases "ParseCIDR (TrimSpace (oc_Subnet c))") (auto simp: NextFreeAddr_def)
  from assms(1) obtain base where t: "To4 (ip_Mask ip (net_Mask ipnet)) = Some base"
    by (cases "To4 (ip_Mask ip (net_Mask ipnet))") (auto simp: NextFreeAddr_def p)
  show False using assms(1) not_loop unfolding NextFreeAddr_def p t option.case prod.case outcome.inject by blast
qed

lemma quiet_effect [simp]: "ov_effect io r a a"
  by (simp add: ov_effect_def cl_change.kept)

lemma mint_pki_clients: "mint_pki io cfg = Some cfg' \<Longrightarrow> oc_Clients cfg' = oc_Clients cfg \<and> oc_Enabled cfg' = oc_Enabled cfg"
  by (auto simp: mint_pki_def split: option.splits)

lemma apply_enabled_effect:
  assumes "apply_enabled io cfg a = (r, a')" "oc_Enabled cfg" "oc_Clients cfg = oc_Clients (getOpenVPN a)"
  shows "ov_effect io r a a'"
proof (cases "stageAndApplyOpenVPN io cfg a")
  case (Pair o' a1)
  note c = stageAndApply_cases [OF Pair]
  have upd: "getOpenVPN (x \<lparr> ova_app := snd (applyAndConfirm g (ova_app x)) \<rparr>) = getOpenVPN x" for x g by (simp add: getOpenVPN_def)
  show ?thesis
  proof (cases o')
    case (Return u)
    with assms(1) Pair have "getOpenVPN a' = cfg" "ova_running a' = ova_running a1"
      by (auto simp: apply_enabled_def Let_def upd split: if_splits)
    with c Return assms(2,3) show ?thesis by (simp add: ov_effect_def ov_agrees_def cl_change.kept)
  qed (use assms(1) Pair c in \<open>auto simp: apply_enabled_def ov_effect_def server_error_def cl_change.kept\<close>)
qed

lemma settings_effect:
  assumes "apiOpenVPNApply io s a = (r, a')"
  shows "ov_effect io r a a'"
proof -
  let ?cfg = "ov_settings_config a s"
  have cl: "oc_Clients ?cfg = oc_Clients (getOpenVPN a)" "oc_Enabled ?cfg = os_Enabled s"
    by (simp_all add: ov_settings_config_def)
  consider "a' = a" | left where "r = Refused 502" "a' = a \<lparr> ova_running := left \<rparr>"
    | "\<not> os_Enabled s" "getOpenVPN a' = ?cfg" "ova_running a' = Off"
    | cfg where "apply_enabled io cfg a = (r, a')" "oc_Enabled cfg" "oc_Clients cfg = oc_Clients (getOpenVPN a)"
    using assms cl by (auto simp: apiOpenVPNApply_def Let_def split: if_splits option.splits dest!: mint_pki_clients)
  then show ?thesis
  proof cases
    case (2 left)
    then show ?thesis by (simp add: ov_effect_def server_error_def getOpenVPN_def cl_change.kept)
  next
    case 3
    with cl show ?thesis by (simp add: ov_effect_def ov_agrees_def cl_change.kept)
  next
    case 4
    then show ?thesis by (rule apply_enabled_effect)
  qed simp
qed

lemma add_client_effect:
  assumes "add_client io cfg cl a = (r, a')" "cfg = getOpenVPN a" "cl_change (oc_Clients cfg) (oc_Clients cfg @ [cl])"
  shows "ov_effect io r a a'"
proof -
  let ?next = "cfg \<lparr> oc_Clients := oc_Clients cfg @ [cl] \<rparr>"
  show ?thesis
  proof (cases "io_saved (oi_gw io) \<and> oc_Enabled cfg")
    case True
    obtain o' a2 where p: "stageAndApplyOpenVPN io ?next (setOpenVPN ?next a) = (o', a2)" by fastforce
    note c = stageAndApply_cases [OF p]
    show ?thesis
    proof (cases o')
      case (Return u)
      with assms(1) p True have "getOpenVPN a' = getOpenVPN a2" "ova_running a' = ova_running a2"
        by (auto simp: add_client_def Let_def split: if_splits)
      with c Return assms(2,3) True show ?thesis by (simp add: ov_effect_def ov_agrees_def)
    qed (use assms p c True in \<open>auto simp: add_client_def Let_def ov_effect_def server_error_def\<close>)
  next
    case False
    with assms(1) have "getOpenVPN a' = ?next" "ova_running a' = ova_running a" "oc_Enabled cfg \<longrightarrow> r = Refused 500"
      by (auto simp: add_client_def Let_def split: if_splits)
    with assms(2,3) show ?thesis by (auto simp: ov_effect_def ov_agrees_def server_error_def)
  qed
qed

lemma add_effect:
  assumes "apiOpenVPNAddClient io name password days a = (r, a')"
  shows "ov_effect io r a a'"
proof -
  consider "a' = a"
    | cl where "add_client io (getOpenVPN a) cl a = (r, a')" "ov_nameRe (ov_Name cl)" "\<not> ov_Revoked cl" "ov_Name cl = name"
        "\<not> (\<exists>c \<in> set (oc_Clients (getOpenVPN a)). ov_Name c = name \<and> \<not> ov_Revoked c)"
        "NextFreeAddr (getOpenVPN a) = Return (ov_VPNAddr cl)"
    using assms
    by (auto simp: apiOpenVPNAddClient_def SignClient_def Let_def split: if_splits option.splits outcome.splits prod.splits)
  then show ?thesis
  proof cases
    case (2 cl)
    have "cl_change (oc_Clients (getOpenVPN a)) (oc_Clients (getOpenVPN a) @ [cl])"
      using 2 NextFreeAddr_fresh [OF 2(6)] by (intro cl_change.added) auto
    with 2(1) show ?thesis using add_client_effect by blast
  qed simp
qed

lemma edit_access_same:
  "GenerateAuthFile (oc_Clients (edit_client n (\<lambda>c. c \<lparr> ov_Access := r \<rparr>) cfg)) = GenerateAuthFile (oc_Clients cfg)"
  "filter ov_Revoked (oc_Clients (edit_client n (\<lambda>c. c \<lparr> ov_Access := r \<rparr>) cfg)) = filter ov_Revoked (oc_Clients cfg)"
proof -
  let ?f = "\<lambda>c. if ov_Name c = n \<and> \<not> ov_Revoked c then c \<lparr> ov_Access := r \<rparr> else c"
  have "map (\<lambda>c. ov_Name c @ '':'' @ ov_PassHash c) (filter (\<lambda>c. \<not> (ov_Revoked c \<or> ov_PassHash c = [])) (map ?f cs))
     = map (\<lambda>c. ov_Name c @ '':'' @ ov_PassHash c) (filter (\<lambda>c. \<not> (ov_Revoked c \<or> ov_PassHash c = [])) cs)" for cs :: "OvClient list"
    by (induction cs) auto
  then show "GenerateAuthFile (oc_Clients (edit_client n (\<lambda>c. c \<lparr> ov_Access := r \<rparr>) cfg)) = GenerateAuthFile (oc_Clients cfg)"
    by (simp add: GenerateAuthFile_def edit_client_def)
  have "filter ov_Revoked (map ?f cs) = filter ov_Revoked cs" for cs :: "OvClient list" by (induction cs) auto
  then show "filter ov_Revoked (oc_Clients (edit_client n (\<lambda>c. c \<lparr> ov_Access := r \<rparr>) cfg)) = filter ov_Revoked (oc_Clients cfg)"
    by (simp add: edit_client_def)
qed

lemma edit_client_fields [simp]:
  "oc_Enabled (edit_client n f cfg) = oc_Enabled cfg" "oc_CACertPEM (edit_client n f cfg) = oc_CACertPEM cfg"
  "oc_CAKeyEnc (edit_client n f cfg) = oc_CAKeyEnc cfg"
  by (simp_all add: edit_client_def)

lemma access_effect:
  assumes "apiOpenVPNClientAccess io name rules a = (r, a')"
  shows "ov_effect io r a a'"
proof -
  let ?cfg = "edit_client name (\<lambda>c. c \<lparr> ov_Access := rules \<rparr>) (getOpenVPN a)"
  consider "a' = a" | "getOpenVPN a' = ?cfg" "ova_running a' = ova_running a"
    using assms by (auto simp: apiOpenVPNClientAccess_def Let_def split: if_splits)
  then show ?thesis
  proof cases
    case 2
    have "cl_change (oc_Clients (getOpenVPN a)) (oc_Clients ?cfg)" by (simp add: edit_client_def cl_change.access)
    moreover have "files_current io ?cfg f = files_current io (getOpenVPN a) f" for f
      by (simp add: files_current_def edit_access_same)
    ultimately show ?thesis using 2 by (simp add: ov_effect_def ov_agrees_def)
  qed simp
qed

lemma del_effect:
  assumes "apiOpenVPNDelClient io name a = (r, a')"
  shows "ov_effect io r a a'"
proof -
  let ?cfg = "edit_client name (\<lambda>c. c \<lparr> ov_Revoked := True \<rparr>) (getOpenVPN a)"
  have ch: "cl_change (oc_Clients (getOpenVPN a)) (oc_Clients ?cfg)" by (simp add: edit_client_def cl_change.revoked)
  show ?thesis
  proof (cases "has_client name (getOpenVPN a)")
    case False
    with assms show ?thesis by (simp add: apiOpenVPNDelClient_def)
  next
    case found: True
    show ?thesis
    proof (cases "oc_Enabled (getOpenVPN a)")
      case False
      with assms found have "getOpenVPN a' = ?cfg" "ova_running a' = ova_running a"
        by (auto simp: apiOpenVPNDelClient_def Let_def split: if_splits)
      with ch False show ?thesis by (simp add: ov_effect_def ov_agrees_def)
    next
      case True
      obtain o' a1 where p: "stageAndApplyOpenVPN io ?cfg a = (o', a1)" by fastforce
      note c = stageAndApply_cases [OF p]
      show ?thesis
      proof (cases o')
        case (Return u)
        with assms found True p have "getOpenVPN a' = ?cfg" "ova_running a' = ova_running a1"
          by (auto simp: apiOpenVPNDelClient_def Let_def split: if_splits)
        with ch c Return True show ?thesis by (simp add: ov_effect_def ov_agrees_def)
      qed (use assms found True p c in \<open>auto simp: apiOpenVPNDelClient_def Let_def ov_effect_def server_error_def cl_change.kept\<close>)
    qed
  qed
qed

lemma ov_handle_effect: "ov_handle (io, q) a = (r, a') \<Longrightarrow> ov_effect io r a a'"
  by (cases q) (simp_all add: settings_effect add_effect access_effect del_effect)

section \<open>Clients stay unique and revocations stay\<close>

definition clients_ok :: "OvClient list \<Rightarrow> bool" where
  "clients_ok cs \<longleftrightarrow> (\<forall>c \<in> set cs. ov_nameRe (ov_Name c))
     \<and> distinct (map ov_Name (filter (\<lambda>c. \<not> ov_Revoked c) cs))
     \<and> distinct (map ov_VPNAddr (filter (\<lambda>c. \<not> ov_Revoked c \<and> ov_VPNAddr c \<noteq> []) cs))"

definition same_client :: "OvClient \<Rightarrow> OvClient \<Rightarrow> bool" where
  "same_client c d \<longleftrightarrow> ov_Name d = ov_Name c \<and> ov_Serial d = ov_Serial c \<and> ov_CertPEM d = ov_CertPEM c \<and> ov_PassHash d = ov_PassHash c
     \<and> ov_VPNAddr d = ov_VPNAddr c \<and> (ov_Revoked c \<longrightarrow> ov_Revoked d)"

text \<open>A later client list: clients are never removed or exchanged, and never restored.\<close>

definition evolves :: "OvClient list \<Rightarrow> OvClient list \<Rightarrow> bool" where
  "evolves cs ds \<longleftrightarrow> list_all2 same_client cs (take (length cs) ds)"

lemma evolves_nth: "evolves cs ds \<longleftrightarrow> length cs \<le> length ds \<and> (\<forall>i < length cs. same_client (cs ! i) (ds ! i))"
  by (auto simp: evolves_def list_all2_conv_all_nth)

lemma evolves_trans: "evolves as bs \<Longrightarrow> evolves bs cs \<Longrightarrow> evolves as cs"
  unfolding evolves_nth same_client_def by (metis order_trans order_less_le_trans)

lemma cl_change_evolves: "cl_change cs ds \<Longrightarrow> evolves cs ds"
  by (induction rule: cl_change.induct) (auto simp: evolves_nth same_client_def nth_append)

lemma edit_filter:
  fixes cs :: "OvClient list"
  shows "map ov_Name (filter (\<lambda>c. \<not> ov_Revoked c) (map (\<lambda>c. if ov_Name c = n \<and> \<not> ov_Revoked c then c \<lparr> ov_Access := r \<rparr> else c) cs))
      = map ov_Name (filter (\<lambda>c. \<not> ov_Revoked c) cs)"
    and "map ov_VPNAddr (filter (\<lambda>c. \<not> ov_Revoked c \<and> ov_VPNAddr c \<noteq> []) (map (\<lambda>c. if ov_Name c = n \<and> \<not> ov_Revoked c then c \<lparr> ov_Access := r \<rparr> else c) cs))
      = map ov_VPNAddr (filter (\<lambda>c. \<not> ov_Revoked c \<and> ov_VPNAddr c \<noteq> []) cs)"
    and "filter (\<lambda>c. \<not> ov_Revoked c) (map (\<lambda>c. if ov_Name c = n \<and> \<not> ov_Revoked c then c \<lparr> ov_Revoked := True \<rparr> else c) cs)
      = filter (\<lambda>c. ov_Name c \<noteq> n) (filter (\<lambda>c. \<not> ov_Revoked c) cs)"
    and "filter (\<lambda>c. \<not> ov_Revoked c \<and> ov_VPNAddr c \<noteq> []) (map (\<lambda>c. if ov_Name c = n \<and> \<not> ov_Revoked c then c \<lparr> ov_Revoked := True \<rparr> else c) cs)
      = filter (\<lambda>c. ov_Name c \<noteq> n) (filter (\<lambda>c. \<not> ov_Revoked c \<and> ov_VPNAddr c \<noteq> []) cs)"
  by (induction cs) auto

lemma cl_change_ok: "cl_change cs ds \<Longrightarrow> clients_ok cs \<Longrightarrow> clients_ok ds"
proof (induction rule: cl_change.induct)
  case (added cl cs)
  then show ?case by (auto simp: clients_ok_def)
next
  case (access cs n r)
  then show ?case unfolding clients_ok_def edit_filter by auto
next
  case (revoked cs n)
  then show ?case unfolding clients_ok_def edit_filter by (auto simp: distinct_map_filter simp del: filter_filter)
qed

definition ov_run :: "(ovIO \<times> ov_req) list \<Rightarrow> ovApp \<Rightarrow> reply list \<times> ovApp" where
  "ov_run qs a = svc_run ov_handle qs a"

lemma ov_run_clients:
  "ov_run qs a = (rs, a') \<Longrightarrow> clients_ok (oc_Clients (getOpenVPN a)) \<Longrightarrow>
     clients_ok (oc_Clients (getOpenVPN a')) \<and> evolves (oc_Clients (getOpenVPN a)) (oc_Clients (getOpenVPN a'))"
proof (induction qs arbitrary: a rs)
  case Nil
  then show ?case by (auto simp: ov_run_def intro: cl_change_evolves cl_change.kept)
next
  case (Cons q qs)
  obtain io req where q: "q = (io, req)" by fastforce
  obtain r a1 where h: "ov_handle (io, req) a = (r, a1)" by fastforce
  obtain rs1 where t: "ov_run qs a1 = (rs1, a')" using Cons.prems(1) h q by (auto simp: ov_run_def split: prod.splits)
  have ch: "cl_change (oc_Clients (getOpenVPN a)) (oc_Clients (getOpenVPN a1))"
    using ov_handle_effect [OF h] by (simp add: ov_effect_def)
  from Cons.IH [OF t cl_change_ok [OF ch Cons.prems(2)]] cl_change_evolves [OF ch] evolves_trans show ?case by blast
qed


definition ex_ov_io :: ovIO where
  "ex_ov_io = \<lparr> oi_gw = ex_io, oi_rq = ex_gw_rq, oi_key = True, oi_enc = Some, oi_dec = Some, oi_ca = Some (''ca'', ''cakey''),
     oi_server = (\<lambda>_ _. Some (''srv'', ''srvkey'')), oi_tls = Some [], oi_sign = (\<lambda>n _. Some (''cert'', ''key'', n)),
     oi_crl = (\<lambda>_ _ cs. Some (concat (map ov_Serial cs))), oi_hash = Some, oi_stage = True, oi_adapter = None,
     oi_now = 0, oi_two_years = 63072000 \<rparr>"

definition ex_ov_client :: OvClient where
  "ex_ov_client = \<lparr> ov_Name = ''ana'', ov_Serial = ''0a'', ov_CertPEM = ''cert'', ov_PassHash = ''h'', ov_VPNAddr = ''10.9.0.2'',
     ov_Access = [], ov_Revoked = False, ov_CreatedAt = 0, ov_ExpiresAt = 1 \<rparr>"

text \<open>An appliance whose OpenVPN server is configured but off; one client was issued.\<close>

definition ex_ov_app :: "OvClient list \<Rightarrow> ovApp" where
  "ex_ov_app cs = \<lparr> ova_app = ex_app \<lparr> ga_ovpn := \<lparr> oc_Enabled = False, oc_Subnet = ''10.9.0.0/24'', oc_Port = 1194, oc_Endpoint = ''vpn'',
        oc_DNS = [], oc_SplitNetworks = [], oc_CACertPEM = ''ca'', oc_CAKeyEnc = ''cakey'', oc_ServerCertPEM = ''srv'',
        oc_ServerKeyEnc = ''srvkey'', oc_TLSCryptEnc = ''t'', oc_Clients = cs \<rparr> \<rparr>, ova_staged = None, ova_running = Off \<rparr>"

lemma ex_del:
  "ov_handle (ex_ov_io, OvDelClient ''ana'') (ex_ov_app [ex_ov_client])
     = (Done, ov_record ex_ov_io ''openvpn-client-revoke'' ''openvpn'' ''success'' ''security''
         (setOpenVPN (edit_client ''ana'' (\<lambda>c. c \<lparr> ov_Revoked := True \<rparr>) (getOpenVPN (ex_ov_app [ex_ov_client]))) (ex_ov_app [ex_ov_client])))"
  by (simp add: apiOpenVPNDelClient_def has_client_def getOpenVPN_def ex_ov_app_def ex_ov_client_def ex_ov_io_def ex_io_def Let_def)


section \<open>The server runs the stored accounts\<close>

lemma files_current_cong:
  "oi_dec io = oi_dec io' \<Longrightarrow> oi_crl io = oi_crl io' \<Longrightarrow> files_current io cfg f = files_current io' cfg f"
  by (simp add: files_current_def)



section \<open>Two defects\<close>

text \<open>
  A revocation regenerates the firewall from the stored configuration before the revocation is
  stored: the ruleset applied with the request is the one of the state before it, in which the
  client is active and its tunnel address keeps its access.
\<close>

theorem revocation_applies_old_firewall:
  assumes "apiOpenVPNDelClient io name a = (Done, a')" "oc_Enabled (getOpenVPN a)" "snd (firewallConfig (oi_gw io) (ova_app a))"
  shows "ga_runs (ova_app a') = ga_runs (snd (applyAndConfirm (oi_gw io) (ova_app a)))"
proof -
  let ?cfg = "edit_client name (\<lambda>c. c \<lparr> ov_Revoked := True \<rparr>) (getOpenVPN a)"
  have f: "has_client name (getOpenVPN a)" using assms(1) by (auto simp: apiOpenVPNDelClient_def Let_def split: if_splits)
  obtain o' a1 where p: "stageAndApplyOpenVPN io ?cfg a = (o', a1)" by fastforce
  have app: "ova_app a1 = ova_app a" using stageAndApply_cases [OF p] by blast
  have "o' = Return ()" using assms(1,2) f p by (cases o') (auto simp: apiOpenVPNDelClient_def Let_def)
  with assms(1,2) f p have "ova_app a' = gw_record (oi_rq io) ''openvpn-client-revoke'' ''openvpn'' ''success'' ''security''
      ((ova_app (syncOpenVPNFirewall io a1)) \<lparr> ga_ovpn := ?cfg \<rparr>)"
    by (auto simp: apiOpenVPNDelClient_def Let_def setOpenVPN_def ov_record_def split: if_splits)
  then show ?thesis using assms(3) app by (simp add: gw_record_def syncOpenVPNFirewall_def)
qed

text \<open>
  The guard that keeps the subnet while clients exist lets an empty subnet pass, and then the
  next request may set any: the clients keep addresses of the old subnet.
\<close>

theorem subnet_guard_bypass:
  "\<exists>r a1. apiOpenVPNApply ex_ov_io \<lparr> os_Enabled = False, os_Subnet = [], os_Port = 0, os_Endpoint = [], os_DNS = [], os_SplitNetworks = [''x''] \<rparr>
        (ex_ov_app [ex_ov_client]) = (Done, a1)
     \<and> apiOpenVPNApply ex_ov_io \<lparr> os_Enabled = False, os_Subnet = ''10.77.0.0/24'', os_Port = 0, os_Endpoint = [], os_DNS = [], os_SplitNetworks = [''x''] \<rparr>
        a1 = (Done, r)
     \<and> oc_Subnet (getOpenVPN r) = ''10.77.0.0/24'' \<and> map ov_VPNAddr (oc_Clients (getOpenVPN r)) = [''10.9.0.2'']"
proof -
  have v: "ov_Validate c = None" if "\<not> oc_Enabled c" for c using that by (simp add: ov_Validate_def)
  have "oi_adapter ex_ov_io = None" by (simp add: ex_ov_io_def)
  note e = apiOpenVPNApply_def Let_def ov_settings_config_def v this
  have s: "oc_Subnet (getOpenVPN (ex_ov_app [ex_ov_client])) = ''10.9.0.0/24''" "oc_Clients (getOpenVPN (ex_ov_app [ex_ov_client])) = [ex_ov_client]"
    by (simp_all add: ex_ov_app_def getOpenVPN_def)
  show ?thesis by (simp add: e s) (simp add: ex_ov_client_def)
qed

end
