(* ===== verification/ConfigVersions.thy ===== *)
theory ConfigVersions
  imports Auth Alerts
begin

text \<open>
  The configuration history (\<open>cmd/saguaro/config_versions.go\<close>) on top of the state store
  (\<open>openStore\<close>, \<open>saveLocked\<close> and \<open>addAudit\<close> of \<open>main.go\<close>). Every successful save whose
  configuration sections changed leaves a file in the versions directory, named by the
  nanosecond clock; the directory is cut back to the lexically largest 40 names. The model
  keeps a file as the value it was marshalled from, and of each configuration section its
  JSON text, which is all the history looks at. The digest (\<open>sha256.Sum256\<close>), the clock and
  the outcome of every file operation are parameters. All functions run under the store's
  lock, so a history is a sequence of them.
\<close>

section \<open>The persisted state\<close>

datatype section_key =
    SecMail | SecGateway | SecIDS | SecRPZ | SecProxyApps | SecCerts | SecVPN | SecOpenVPN | SecBackup
  | SecMultiWAN | SecRoutes | SecS2S | SecIPsec | SecSystemProfile | SecBlockedMACs | SecWANConfigs
  | SecSIEM | SecWebProxy | SecNICLabels | SecSplitDNS | SecDNSForward

record svc_entry =
  se_ID :: string
  se_Name :: string
  se_Description :: string
  se_Status :: string
  se_Enabled :: bool

record vstate =
  vs_Version :: int
  vs_Services :: "svc_entry list"
  vs_Audit :: "auditEvent list"
  vs_Section :: "section_key \<Rightarrow> string"
  vs_WANConfig :: string
  vs_APITokens :: "apiToken list"

definition all_sections :: "section_key list" where
  "all_sections =
     [SecMail, SecGateway, SecIDS, SecRPZ, SecProxyApps, SecCerts, SecVPN, SecOpenVPN, SecBackup,
      SecMultiWAN, SecRoutes, SecS2S, SecIPsec, SecSystemProfile, SecBlockedMACs, SecWANConfigs,
      SecSIEM, SecWebProxy, SecNICLabels, SecSplitDNS, SecDNSForward]"

text \<open>The names are UTF-8 in the source.\<close>

fun section_name :: "section_key \<Rightarrow> string" where
  "section_name SecMail = ''Po'' @ [CHR 0xC5, CHR 0xA1] @ ''ta (mail)''"
| "section_name SecGateway = ''Vatrozid/Gateway''"
| "section_name SecIDS = ''IDS/IPS''"
| "section_name SecRPZ = ''DNS filtriranje''"
| "section_name SecProxyApps = ''Reverse proxy''"
| "section_name SecCerts = ''Certifikati''"
| "section_name SecVPN = ''WireGuard VPN''"
| "section_name SecOpenVPN = ''OpenVPN''"
| "section_name SecBackup = ''Backup''"
| "section_name SecMultiWAN = ''Multi-WAN''"
| "section_name SecRoutes = ''Rute''"
| "section_name SecS2S = ''Site-to-site VPN''"
| "section_name SecIPsec = ''IPsec''"
| "section_name SecSystemProfile = ''Profil sustava''"
| "section_name SecBlockedMACs = ''Blokirani MAC-ovi''"
| "section_name SecWANConfigs = ''WAN adresiranje''"
| "section_name SecSIEM = ''SIEM''"
| "section_name SecWebProxy = ''Web proxy''"
| "section_name SecNICLabels = ''Oznake su'' @ [CHR 0xC4, CHR 0x8D] @ ''elja''"
| "section_name SecSplitDNS = ''Split-horizon DNS''"
| "section_name SecDNSForward = [CHR 0xC5, CHR 0xA0] @ ''ifrirani DNS upstream''"

section \<open>Fingerprints\<close>

definition hex_EncodeToString :: "bytes \<Rightarrow> string" where
  "hex_EncodeToString bs = concat (map (\<lambda>b. [hex_digit (unat b div 16), hex_digit (unat b mod 16)]) bs)"

definition sectionHash :: "(string \<Rightarrow> bytes) \<Rightarrow> string \<Rightarrow> string" where
  "sectionHash sha s =
     (if s = ''null'' \<or> s = ''[]'' \<or> s = ''{}'' \<or> s = [] then [] else hex_EncodeToString (take 8 (sha s)))"

type_synonym fingerprint = "(string \<times> string) list"

definition sectionFingerprints :: "(string \<Rightarrow> bytes) \<Rightarrow> vstate \<Rightarrow> fingerprint" where
  "sectionFingerprints sha d =
     filter (\<lambda>(n, h). h \<noteq> []) (map (\<lambda>k. (section_name k, sectionHash sha (vs_Section d k))) all_sections)"

text \<open>Reading a Go map: the zero value where the key is missing.\<close>

definition fp_lookup :: "fingerprint \<Rightarrow> string \<Rightarrow> string" where
  "fp_lookup m n = (case map_of m n of Some h \<Rightarrow> h | None \<Rightarrow> [])"

definition changedSections :: "fingerprint \<Rightarrow> fingerprint \<Rightarrow> string list" where
  "changedSections prev cur =
     (let out = map fst (filter (\<lambda>(n, h). fp_lookup prev n \<noteq> h) cur)
      in sort (out @ map fst (filter (\<lambda>(n, h). map_of cur n = None \<and> n \<notin> set out) prev)))"

section \<open>The versions directory\<close>

definition maxConfigVersions :: nat where
  "maxConfigVersions = 40"

record configVersion =
  cv_Time :: int
  cv_Changed :: "string list"
  cv_LastAction :: string
  cv_State :: "vstate option"

text \<open>
  With versioning disabled the source would look for a version in the working directory of
  the process, which is taken to hold none.
  A file holds a version or bytes that do not decode as one; the state inside a version may
  in turn not decode.
\<close>

datatype vfile = Garbage | Holds configVersion

type_synonym vdir = "(string \<times> vfile) list"

datatype write_result = Written | NotWritten | Partial

record vio =
  vo_now :: int
  vo_state :: bool
  vo_version :: write_result
  vo_remove :: "string \<Rightarrow> bool"

record vstore =
  st_data :: vstate
  st_file :: "vstate option"
  st_verDir :: bool
  st_files :: vdir
  st_lastSections :: "fingerprint option"

definition put_file :: "string \<Rightarrow> vfile \<Rightarrow> vdir \<Rightarrow> vdir" where
  "put_file n f fs = (n, f) # filter (\<lambda>(m, _). m \<noteq> n) fs"

definition version_file :: "int \<Rightarrow> string" where
  "version_file t = Itoa t @ ''.json''"

definition pruneVersionsLocked :: "(string \<Rightarrow> bool) \<Rightarrow> vdir \<Rightarrow> vdir" where
  "pruneVersionsLocked rm fs =
     (if length fs \<le> maxConfigVersions then fs
      else let old = take (length fs - maxConfigVersions) (sort (map fst fs))
           in filter (\<lambda>(n, _). \<not> (n \<in> set old \<and> rm n)) fs)"

definition last_action :: "auditEvent list \<Rightarrow> string" where
  "last_action log =
     (case log of
        [] \<Rightarrow> []
      | a # _ \<Rightarrow> TrimSpace (ae_Actor a @ '' '' @ [CHR 0xC2, CHR 0xB7] @ '' '' @ ae_Action a)
                @ (if ae_Target a \<noteq> [] then '' ('' @ ae_Target a @ '')'' else []))"

definition snapshot_version :: "vio \<Rightarrow> string list \<Rightarrow> vstate \<Rightarrow> configVersion" where
  "snapshot_version io changed d =
     \<lparr> cv_Time = vo_now io, cv_Changed = changed, cv_LastAction = last_action (vs_Audit d), cv_State = Some d \<rparr>"

text \<open>
  A write that fails may leave nothing or a cut-off file; the old versions are pruned only
  after a successful one.
\<close>

definition snapshotLocked :: "vio \<Rightarrow> string list \<Rightarrow> vstore \<Rightarrow> vstore" where
  "snapshotLocked io changed s =
     (if \<not> st_verDir s then s
      else let ver = snapshot_version io changed (st_data s);
               name = version_file (cv_Time ver)
           in case vo_version io of
                NotWritten \<Rightarrow> s
              | Partial \<Rightarrow> s \<lparr> st_files := put_file name Garbage (st_files s) \<rparr>
              | Written \<Rightarrow> s \<lparr> st_files := pruneVersionsLocked (vo_remove io) (put_file name (Holds ver) (st_files s)) \<rparr>)"

definition maybeSnapshotLocked :: "(string \<Rightarrow> bytes) \<Rightarrow> vio \<Rightarrow> vstore \<Rightarrow> vstore" where
  "maybeSnapshotLocked sha io s =
     (if \<not> st_verDir s then s
      else let cur = sectionFingerprints sha (st_data s);
               changed = changedSections (case st_lastSections s of Some p \<Rightarrow> p | None \<Rightarrow> []) cur
           in if st_lastSections s \<noteq> None \<and> changed = [] then s
              else (snapshotLocked io changed s) \<lparr> st_lastSections := Some cur \<rparr>)"

text \<open>Whether the state file was replaced, and the store after it.\<close>

definition saveLocked :: "(string \<Rightarrow> bytes) \<Rightarrow> vio \<Rightarrow> vstore \<Rightarrow> bool \<times> vstore" where
  "saveLocked sha io s =
     (if \<not> vo_state io then (False, s)
      else (True, maybeSnapshotLocked sha io (s \<lparr> st_file := Some (st_data s) \<rparr>)))"

definition store_addAudit :: "(string \<Rightarrow> bytes) \<Rightarrow> vio \<Rightarrow> auditEvent \<Rightarrow> vstore \<Rightarrow> bool \<times> vstore" where
  "store_addAudit sha io e s =
     saveLocked sha io (s \<lparr> st_data := (st_data s) \<lparr> vs_Audit := addAudit e (vs_Audit (st_data s)) \<rparr> \<rparr>)"

definition baseline_label :: string where
  "baseline_label = ''po'' @ [CHR 0xC4, CHR 0x8D] @ ''etno stanje''"

definition initVersions :: "(string \<Rightarrow> bytes) \<Rightarrow> bool \<Rightarrow> vio \<Rightarrow> vstore \<Rightarrow> vstore" where
  "initVersions sha mkdir io s =
     (if \<not> mkdir then s \<lparr> st_verDir := False \<rparr>
      else let s1 = s \<lparr> st_verDir := True, st_lastSections := Some (sectionFingerprints sha (st_data s)) \<rparr>
           in if st_files s1 = [] then snapshotLocked io [baseline_label] s1 else s1)"

section \<open>Opening the store\<close>

definition defaultServices :: "svc_entry list" where
  "defaultServices =
     map (\<lambda>(i, n, d). \<lparr> se_ID = i, se_Name = n, se_Description = d, se_Status = ''not-configured'', se_Enabled = False \<rparr>)
       [(''postgresql'', ''PostgreSQL'', ''Configuration, events, Kea and PowerDNS database''),
        (''unbound'', ''Unbound'', ''Recursive DNS resolver for clients''),
        (''pdns'', ''PowerDNS Authoritative'', ''Local authoritative zones with HTTP API''),
        (''kea'', ''Kea DHCP'', ''DHCPv4/v6, reservations and client classes''),
        (''kea-ddns'', ''Kea DDNS'', ''Automatic A/PTR updates from DHCP leases''),
        (''saguaro-eventd'', ''Event Collector'', ''journald to PostgreSQL structured events (layer 2 logging)''),
        (''step-ca'', ''Step CA'', ''Internal certificate authority''),
        (''nginx'', ''Nginx'', ''TLS reverse proxy''),
        (''nftables'', ''nftables'', ''Host and gateway firewall'')]"

text \<open>Nil pointers, slices and maps marshal to \<open>null\<close>, the empty profile to two quotes.\<close>

definition initial_state :: vstate where
  "initial_state =
     \<lparr> vs_Version = 1, vs_Services = defaultServices, vs_Audit = [],
       vs_Section = (\<lambda>k. if k = SecSystemProfile then [CHR 0x22, CHR 0x22] else ''null''),
       vs_WANConfig = ''null'', vs_APITokens = [] \<rparr>"

datatype state_file = Absent | Unreadable | StateFile vstate

definition missing_services :: "svc_entry list \<Rightarrow> svc_entry list" where
  "missing_services have = filter (\<lambda>d. se_ID d \<notin> se_ID ` set have) defaultServices"

definition openStore :: "(string \<Rightarrow> bytes) \<Rightarrow> bool \<Rightarrow> vio \<Rightarrow> vdir \<Rightarrow> state_file \<Rightarrow> vstore option" where
  "openStore sha mkdir io files f =
     (let blank = \<lparr> st_data = initial_state, st_file = None, st_verDir = False, st_files = files, st_lastSections = None \<rparr>;
          saved = (\<lambda>s. case saveLocked sha io s of (ok, s') \<Rightarrow> if ok then Some (initVersions sha mkdir io s') else None)
      in case f of
           Absent \<Rightarrow> saved blank
         | Unreadable \<Rightarrow> None
         | StateFile d \<Rightarrow>
             let added = missing_services (vs_Services d);
                 s = blank \<lparr> st_data := d \<lparr> vs_Services := vs_Services d @ added \<rparr>, st_file := Some d \<rparr>
             in if added \<noteq> [] then saved s else Some (initVersions sha mkdir io s))"

section \<open>The API\<close>

record version_header =
  vh_ID :: string
  vh_Time :: int
  vh_Changed :: "string list"
  vh_LastAction :: string

definition header_of :: "string \<times> vfile \<Rightarrow> version_header list" where
  "header_of f =
     (case f of
        (_, Garbage) \<Rightarrow> []
      | (n, Holds v) \<Rightarrow> [\<lparr> vh_ID = TrimSuffix n ''.json'', vh_Time = cv_Time v, vh_Changed = cv_Changed v, vh_LastAction = cv_LastAction v \<rparr>])"

definition listVersions :: "vstore \<Rightarrow> version_header list" where
  "listVersions s =
     (if \<not> st_verDir s then [] else rev (sort_key vh_ID (concat (map header_of (st_files s)))))"

definition readVersion :: "vstore \<Rightarrow> string \<Rightarrow> configVersion option" where
  "readVersion s vid =
     (if \<not> st_verDir s then None
      else case map_of (st_files s) (vid @ ''.json'') of Some (Holds v) \<Rightarrow> Some v | _ \<Rightarrow> None)"

definition versionIDRe :: "string \<Rightarrow> bool" where
  "versionIDRe = re_rep is_digit 1 19"

datatype vreply = VError nat | VShow configVersion | VOk | VRestored "string list"

definition apiConfigVersionGet :: "vstore \<Rightarrow> string \<Rightarrow> vreply" where
  "apiConfigVersionGet s vid =
     (if \<not> versionIDRe vid then VError 400
      else case readVersion s vid of None \<Rightarrow> VError 404 | Some v \<Rightarrow> VShow v)"

text \<open>
  The audit record a handler leaves goes through the store like every other save; an error of
  that save is only logged.
\<close>

definition success_event :: "reqctx \<Rightarrow> string \<Rightarrow> string \<Rightarrow> string \<Rightarrow> auditEvent" where
  "success_event rq action target severity =
     \<lparr> ae_Time = rq_now rq, ae_Severity = severity, ae_Actor = actor rq, ae_Action = action,
       ae_Target = target, ae_Result = ''success'', ae_RemoteIP = rq_ip rq \<rparr>"

definition store_record :: "(string \<Rightarrow> bytes) \<Rightarrow> vio \<Rightarrow> reqctx \<Rightarrow> string \<Rightarrow> string \<Rightarrow> string \<Rightarrow> vstore \<Rightarrow> vstore" where
  "store_record sha io rq action target severity s =
     snd (store_addAudit sha io (success_event rq action target severity) s)"

definition checkpoint_label :: "string \<Rightarrow> string" where
  "checkpoint_label raw =
     (let label = TrimSpace raw
      in if label = [] then ''ru'' @ [CHR 0xC4, CHR 0x8D] @ ''na kontrolna to'' @ [CHR 0xC4, CHR 0x8D] @ ''ka''
         else ''kontrolna to'' @ [CHR 0xC4, CHR 0x8D] @ ''ka: '' @ truncate_text label 60)"

text \<open>
  A body that does not decode leaves the label empty and the handler goes on. The snapshot
  and the audit record are two file operations, \<open>io\<close> and \<open>io'\<close>.
\<close>

definition apiConfigCheckpoint :: "(string \<Rightarrow> bytes) \<Rightarrow> vio \<Rightarrow> vio \<Rightarrow> reqctx \<Rightarrow> string option \<Rightarrow> vstore \<Rightarrow> vreply \<times> vstore" where
  "apiConfigCheckpoint sha io io' rq body s =
     (let label = checkpoint_label (case body of Some l \<Rightarrow> l | None \<Rightarrow> []);
          s1 = (snapshotLocked io [label] s) \<lparr> st_lastSections := Some (sectionFingerprints sha (st_data s)) \<rparr>
      in (VOk, store_record sha io' rq ''config-checkpoint'' label ''info'' s1))"

definition restored_state :: "vstate \<Rightarrow> vstate \<Rightarrow> vstate" where
  "restored_state live r =
     r \<lparr> vs_Audit := vs_Audit live, vs_Services := vs_Services live,
         vs_Version := (if vs_Version r = 0 then vs_Version live else vs_Version r) \<rparr>"

definition apiConfigVersionRestore :: "(string \<Rightarrow> bytes) \<Rightarrow> vio \<Rightarrow> vio \<Rightarrow> reqctx \<Rightarrow> string \<Rightarrow> vstore \<Rightarrow> vreply \<times> vstore" where
  "apiConfigVersionRestore sha io io' rq vid s =
     (if \<not> versionIDRe vid then (VError 400, s)
      else case readVersion s vid of
             None \<Rightarrow> (VError 404, s)
           | Some v \<Rightarrow>
               (case cv_State v of
                  None \<Rightarrow> (VError 422, s)
                | Some r \<Rightarrow>
                    let changed = changedSections (sectionFingerprints sha (st_data s)) (sectionFingerprints sha r)
                    in case saveLocked sha io (s \<lparr> st_data := restored_state (st_data s) r \<rparr>) of
                         (False, s1) \<Rightarrow> (VError 500, s1)
                       | (True, s1) \<Rightarrow> (VRestored changed, store_record sha io' rq ''config-restore'' vid ''security'' s1)))"

section \<open>Names in the order of time\<close>

lemma digits_val_Cons: "digits_val (c # s) = digit_val c * 10 ^ length s + digits_val s"
  by (induction s rule: rev_induct) (simp_all add: digits_val_snoc [of "c # _", simplified] algebra_simps)

lemma digits_val_bound: "list_all is_digit s \<Longrightarrow> digits_val s < 10 ^ length s"
proof (induction s)
  case (Cons c s)
  let ?p = "10 ^ length s :: nat"
  have "digits_val (c # s) = digit_val c * ?p + digits_val s"
    by (rule digits_val_Cons)
  also have "\<dots> < digit_val c * ?p + ?p"
    using Cons by simp
  also have "\<dots> = Suc (digit_val c) * ?p"
    by simp
  also have "\<dots> \<le> 10 * ?p"
    using Cons.prems digit_val_less [of c] by (intro mult_le_mono1) auto
  finally show ?case
    by simp
qed simp

lemma digit_less: "is_digit c \<Longrightarrow> is_digit d \<Longrightarrow> c < d \<longleftrightarrow> digit_val c < digit_val d"
  by (auto simp: is_digit_def digit_val_def char_less_of_char char_le_of_char)

text \<open>Strings of digits of one length are ordered like the numbers they print.\<close>

lemma digits_lex:
  "length s = length t \<Longrightarrow> list_all is_digit s \<Longrightarrow> list_all is_digit t \<Longrightarrow> s < t \<longleftrightarrow> digits_val s < digits_val t"
proof (induction s t rule: list_induct2)
  case (Cons c s d t)
  let ?p = "10 ^ length s :: nat"
  have b: "digits_val s < ?p" "digits_val t < ?p"
    using Cons by (auto dest: digits_val_bound)
  have lt: "x < y \<Longrightarrow> x * ?p + digits_val s < y * ?p + digits_val t" for x y
    using b mult_le_mono1 [of "Suc x" y ?p] by simp
  have gt: "y < x \<Longrightarrow> y * ?p + digits_val t < x * ?p + digits_val s" for x y
    using b mult_le_mono1 [of "Suc y" x ?p] by simp
  have eq: "digit_val c = digit_val d \<longleftrightarrow> c = d"
    using Cons.prems by (metis digit_char_val list.pred_inject(2))
  consider "digit_val c < digit_val d" | "digit_val d < digit_val c" | "digit_val c = digit_val d"
    by linarith
  then show ?case
    using Cons lt gt eq digit_less [of c d] by cases (auto simp: digits_val_Cons dest: less_not_sym)
qed simp

lemma append_less_same: "length s = length t \<Longrightarrow> (s @ u < t @ u) = (s < (t :: string))"
  by (induction s t rule: list_induct2) auto

lemma length_nat_str_pow: "10 ^ k \<le> n \<Longrightarrow> n < 10 ^ Suc k \<Longrightarrow> length (nat_str n) = Suc k"
proof (induction k arbitrary: n)
  case (Suc k)
  have "10 * (1 :: nat) \<le> 10 * 10 ^ k"
    by (intro mult_le_mono2) simp
  with Suc.prems(1) have "\<not> n < 10"
    by (simp only: power_Suc)
  moreover have "10 ^ k \<le> n div 10" "n div 10 < 10 ^ Suc k"
    using Suc.prems by (auto simp: less_eq_div_iff_mult_less_eq div_less_iff_less_mult)
  ultimately have "10 ^ k \<le> n div 10" "n div 10 < 10 ^ Suc k" "\<not> n < 10"
    by blast+
  with Suc.IH show ?case
    by (subst nat_str.simps) simp
qed (simp add: length_nat_str)

text \<open>
  The clock readings with nineteen digits: from September 2001 until after the range of the
  64-bit nanosecond clock.
\<close>

definition stamp19 :: "int \<Rightarrow> bool" where
  "stamp19 t \<longleftrightarrow> 10 ^ 18 \<le> t \<and> t < 10 ^ 19"

lemma Itoa_stamp19: "stamp19 t \<Longrightarrow> Itoa t = nat_str (nat t) \<and> length (Itoa t) = 19"
  using length_nat_str_pow [of 18 "nat t"] Itoa_nonneg [of t] by (simp add: stamp19_def nat_less_iff le_nat_iff)

lemma version_file_less:
  assumes "stamp19 t" "stamp19 u"
  shows "version_file t < version_file u \<longleftrightarrow> t < u"
proof -
  have l: "length (nat_str (nat t)) = length (nat_str (nat u))"
    using assms Itoa_stamp19 [of t] Itoa_stamp19 [of u] by auto
  then have "Itoa t < Itoa u \<longleftrightarrow> nat t < nat u"
    using assms Itoa_stamp19 [of t] Itoa_stamp19 [of u] digits_lex [of "nat_str (nat t)" "nat_str (nat u)"]
    by (simp add: nat_str_digits)
  then show ?thesis
    using assms Itoa_stamp19 [of t] Itoa_stamp19 [of u] l by (simp add: version_file_def append_less_same stamp19_def)
qed

lemma version_file_inj: "version_file t = version_file u \<longleftrightarrow> t = u"
  by (simp add: version_file_def Itoa_inj)

lemma versionIDRe_stamp19: "stamp19 t \<Longrightarrow> versionIDRe (Itoa t)"
  using Itoa_stamp19 [of t] nat_str_digits [of "nat t"] by (auto simp: versionIDRe_def re_rep_def)

section \<open>The directory as a history\<close>

definition version_of :: "string \<times> vfile \<Rightarrow> configVersion list" where
  "version_of f = (case snd f of Holds v \<Rightarrow> [v] | Garbage \<Rightarrow> [])"

text \<open>The readable versions, newest name first.\<close>

definition history :: "vdir \<Rightarrow> configVersion list" where
  "history fs = rev (concat (map version_of (sort_key fst fs)))"

definition dir_ok :: "vdir \<Rightarrow> bool" where
  "dir_ok fs \<longleftrightarrow> distinct (map fst fs)
     \<and> (\<forall>f \<in> set fs. \<exists>v. f = (version_file (cv_Time v), Holds v) \<and> stamp19 (cv_Time v) \<and> cv_State v \<noteq> None)"

definition file_of :: "configVersion \<Rightarrow> string \<times> vfile" where
  "file_of v = (version_file (cv_Time v), Holds v)"

lemma version_of_file [simp]: "version_of (file_of v) = [v]"
  by (simp add: version_of_def file_of_def)

lemma filter_files: "filter (\<lambda>(n, _). P n) (map file_of vs) = map file_of (filter (\<lambda>v. P (version_file (cv_Time v))) vs)"
  by (induction vs) (simp_all add: file_of_def)

text \<open>A directory in order is the sorted list of the files of its history.\<close>

lemma sorted_files:
  assumes "dir_ok fs"
  shows "sort_key fst fs = map file_of (rev (history fs))"
proof -
  have "\<forall>f \<in> set (sort_key fst fs). \<exists>v. f = file_of v"
    using assms by (auto simp: dir_ok_def file_of_def)
  moreover have "\<forall>f \<in> set gs. \<exists>v. f = file_of v \<Longrightarrow> map file_of (concat (map version_of gs)) = gs" for gs
    by (induction gs) auto
  ultimately show ?thesis
    by (simp add: history_def)
qed

lemma history_files:
  assumes "sort_key fst fs = map file_of vs"
  shows "history fs = rev vs"
proof -
  have "concat (map version_of (map file_of vs)) = vs"
    by (induction vs) auto
  with assms show ?thesis
    by (simp add: history_def)
qed

lemma dir_ok_iff:
  "dir_ok fs \<longleftrightarrow> sort_key fst fs = map file_of (rev (history fs))
     \<and> sorted_wrt (>) (map cv_Time (history fs))
     \<and> (\<forall>v \<in> set (history fs). stamp19 (cv_Time v) \<and> cv_State v \<noteq> None)" (is "_ \<longleftrightarrow> ?S \<and> ?T \<and> ?P")
proof
  assume d: "dir_ok fs"
  have s: ?S using d by (rule sorted_files)
  have m: "set fs = file_of ` set (history fs)"
    using arg_cong [OF s, of set] by simp
  have p: ?P
    using d by (auto simp: dir_ok_def m file_of_def)
  have "sorted_wrt (<) (map fst (sort_key fst fs))"
    using d by (simp add: dir_ok_def strict_sorted_iff distinct_map)
  then have "sorted_wrt (\<lambda>v w. version_file (cv_Time w) < version_file (cv_Time v)) (history fs)"
    by (simp add: s sorted_wrt_map file_of_def sorted_wrt_rev comp_def)
  then have ?T
    unfolding sorted_wrt_map
    by (rule sorted_wrt_mono_rel [rotated]) (use p version_file_less in blast)
  with s p show "?S \<and> ?T \<and> ?P" by blast
next
  assume a: "?S \<and> ?T \<and> ?P"
  have m: "set fs = file_of ` set (history fs)"
    using arg_cong [of _ _ set, OF conjunct1 [OF a]] by simp
  have "distinct (map cv_Time (history fs))"
    using a by (metis distinct_rev rev_map sorted_wrt_rev strict_sorted_iff)
  then have "distinct (map fst (sort_key fst fs))"
    using a by (simp add: distinct_map inj_on_def file_of_def version_file_inj)
  then have "distinct (map fst fs)"
    by (metis distinct_map distinct_sort set_sort)
  then show "dir_ok fs"
    using a by (auto simp: dir_ok_def m file_of_def)
qed

lemma dir_mem: "dir_ok fs \<Longrightarrow> set fs = file_of ` set (history fs)"
  using arg_cong [of _ _ set, OF sorted_files] by simp

lemma dir_times: "dir_ok fs \<Longrightarrow> distinct (map cv_Time (history fs))"
  unfolding dir_ok_iff by (metis distinct_rev rev_map sorted_wrt_rev strict_sorted_iff)

lemma sort_key_newest:
  assumes "\<forall>y \<in> set ys. f y < f x"
  shows "sort_key f (x # ys) = sort_key f ys @ [x]"
proof -
  have "\<forall>y \<in> set zs. f y < f x \<Longrightarrow> insort_key f x zs = zs @ [x]" for zs
    by (induction zs) auto
  with assms show ?thesis
    by simp
qed

text \<open>Writing a version newer than all others puts it in front.\<close>

lemma history_put:
  assumes d: "dir_ok fs" and v: "stamp19 (cv_Time v)" "cv_State v \<noteq> None"
    and newer: "\<forall>w \<in> set (history fs). cv_Time w < cv_Time v"
  shows "dir_ok (put_file (version_file (cv_Time v)) (Holds v) fs)
    \<and> history (put_file (version_file (cv_Time v)) (Holds v) fs) = v # history fs"
proof -
  let ?fs = "put_file (version_file (cv_Time v)) (Holds v) fs"
  note D = d [unfolded dir_ok_iff]
  have m: "set fs = file_of ` set (history fs)"
    using d by (rule dir_mem)
  have lt: "\<forall>f \<in> set fs. fst f < version_file (cv_Time v)"
    using D v newer by (auto simp: m file_of_def version_file_less)
  then have "?fs = file_of v # fs"
    by (auto simp: put_file_def file_of_def intro!: filter_True)
  then have s: "sort_key fst ?fs = map file_of (rev (v # history fs))"
    using sort_key_newest [of fs fst "file_of v"] lt D by (simp add: file_of_def)
  then have h: "history ?fs = v # history fs"
    by (metis history_files rev_rev_ident)
  with s D v newer show ?thesis
    by (auto simp: dir_ok_iff [of ?fs])
qed

text \<open>Pruning keeps the forty newest versions, and of the others those it cannot remove.\<close>

lemma history_prune:
  assumes d: "dir_ok fs"
  shows "dir_ok (pruneVersionsLocked rm fs)
    \<and> history (pruneVersionsLocked rm fs)
        = take 40 (history fs) @ filter (\<lambda>v. \<not> rm (version_file (cv_Time v))) (drop 40 (history fs))"
    (is "_ \<and> _ = ?h")
proof -
  let ?fs = "pruneVersionsLocked rm fs" and ?S = "sort_key fst fs"
  note D = d [unfolded dir_ok_iff]
  have len: "length (history fs) = length fs"
    using arg_cong [OF conjunct1 [OF D], of length] by simp
  have "sort_key fst ?fs = map file_of (rev ?h)"
  proof (cases "length fs \<le> 40")
    case True
    then show ?thesis
      using D len by (simp add: pruneVersionsLocked_def maxConfigVersions_def)
  next
    case False
    let ?k = "length fs - 40"
    let ?K = "\<lambda>(n, _). \<not> (n \<in> set (take ?k (map fst ?S)) \<and> rm n)"
    have names: "sort (map fst fs) = map fst ?S"
      by (intro properties_for_sort) (simp_all only: mset_map mset_sort sorted_sort_key)
    have "distinct (map fst ?S)"
      using d by (simp add: dir_ok_def distinct_map)
    then have dist: "set (take ?k (map fst ?S)) \<inter> set (drop ?k (map fst ?S)) = {}"
      by (rule set_take_disj_set_drop_if_distinct) simp
    have "sort_key fst ?fs = filter ?K ?S"
      using False by (simp add: pruneVersionsLocked_def maxConfigVersions_def Let_def names filter_sort)
    also have "\<dots> = filter ?K (take ?k ?S) @ filter ?K (drop ?k ?S)"
      by (metis append_take_drop_id filter_append)
    also have "filter ?K (drop ?k ?S) = drop ?k ?S"
      using dist by (intro filter_True) (fastforce simp: drop_map disjoint_iff image_iff)
    also have "filter ?K (take ?k ?S) = filter (\<lambda>(n, _). \<not> rm n) (take ?k ?S)"
      by (intro filter_cong) (auto simp: take_map intro: rev_image_eqI)
    also have "filter (\<lambda>(n, _). \<not> rm n) (take ?k ?S) @ drop ?k ?S = map file_of (rev ?h)"
      using D len False
      by (simp add: take_map drop_map filter_files rev_filter take_rev drop_rev)
    finally show ?thesis .
  qed
  then have h: "history ?fs = ?h"
    by (metis history_files rev_rev_ident)
  have "sorted_wrt (>) (map cv_Time (take 40 (history fs) @ drop 40 (history fs)))"
    using D by simp
  then have "sorted_wrt (>) (map cv_Time ?h)"
    unfolding map_append sorted_wrt_append sorted_wrt_map by (auto intro: sorted_wrt_filter)
  moreover have "set ?h \<subseteq> set (history fs)"
    using set_take_subset set_drop_subset by fastforce
  ultimately show ?thesis
    using \<open>sort_key fst ?fs = map file_of (rev ?h)\<close> h D by (auto simp: dir_ok_iff [of ?fs])
qed

section \<open>What a fingerprint tells\<close>

lemma all_sections_UNIV: "set all_sections = UNIV"
proof -
  have "k \<in> set all_sections" for k
    by (cases k) (simp_all add: all_sections_def)
  then show ?thesis by blast
qed

lemma section_names_distinct: "distinct (map section_name all_sections)"
  by (simp add: all_sections_def)

definition fp_wf :: "fingerprint \<Rightarrow> bool" where
  "fp_wf m \<longleftrightarrow> distinct (map fst m) \<and> (\<forall>(n, h) \<in> set m. h \<noteq> [])"

lemma fp_lookup_mem: "fp_wf m \<Longrightarrow> (n, h) \<in> set m \<longleftrightarrow> fp_lookup m n = h \<and> h \<noteq> []"
  using map_of_eq_Some_iff [of m n] unfolding fp_wf_def fp_lookup_def by (auto split: option.splits dest: eq_key_imp_eq_value)

lemma fp_wf_fingerprint: "fp_wf (sectionFingerprints sha d)"
  using section_names_distinct
  by (auto simp: fp_wf_def sectionFingerprints_def filter_map comp_def distinct_map intro: inj_on_subset)

lemma fp_lookup_section: "fp_lookup (sectionFingerprints sha d) (section_name k) = sectionHash sha (vs_Section d k)"
proof (cases "sectionHash sha (vs_Section d k) = []")
  case True
  have "(section_name k, h) \<notin> set (sectionFingerprints sha d)" for h
  proof
    assume "(section_name k, h) \<in> set (sectionFingerprints sha d)"
    then obtain k' where "section_name k = section_name k'" "h = sectionHash sha (vs_Section d k')" "h \<noteq> []"
      by (auto simp: sectionFingerprints_def)
    moreover have "k = k'"
      using section_names_distinct calculation(1) by (simp add: distinct_map all_sections_UNIV inj_def)
    ultimately show False
      using True by simp
  qed
  then show ?thesis
    using True fp_lookup_mem [OF fp_wf_fingerprint, of "section_name k" "fp_lookup (sectionFingerprints sha d) (section_name k)"]
    by auto
next
  case False
  then have "(section_name k, sectionHash sha (vs_Section d k)) \<in> set (sectionFingerprints sha d)"
    by (auto simp: sectionFingerprints_def all_sections_UNIV)
  then show ?thesis
    using fp_lookup_mem [OF fp_wf_fingerprint] by blast
qed

lemma fingerprint_cong:
  "(\<And>k. sectionHash sha (vs_Section d k) = sectionHash sha (vs_Section e k)) \<Longrightarrow>
     sectionFingerprints sha d = sectionFingerprints sha e"
  by (simp add: sectionFingerprints_def)

lemma fingerprint_frame [simp]:
  "sectionFingerprints sha (d \<lparr> vs_Audit := a \<rparr>) = sectionFingerprints sha d"
  "sectionFingerprints sha (d \<lparr> vs_Services := v \<rparr>) = sectionFingerprints sha d"
  "sectionFingerprints sha (d \<lparr> vs_Version := n \<rparr>) = sectionFingerprints sha d"
  by (simp_all add: sectionFingerprints_def)

text \<open>The reported sections are those whose digests differ, each once and in order.\<close>

lemma mem_keys: "n \<in> set (map fst (filter P m)) \<longleftrightarrow> (\<exists>h. (n, h) \<in> set m \<and> P (n, h))"
  by force

lemma map_of_fp: "fp_wf m \<Longrightarrow> map_of m n = None \<longleftrightarrow> fp_lookup m n = []"
  by (auto simp: fp_lookup_def fp_wf_def split: option.splits dest: map_of_SomeD)

lemma changedSections_mem:
  assumes "fp_wf p" "fp_wf c"
  shows "n \<in> set (changedSections p c) \<longleftrightarrow> fp_lookup p n \<noteq> fp_lookup c n"
proof -
  have "n \<in> set (changedSections p c) \<longleftrightarrow>
      (\<exists>h. (n, h) \<in> set c \<and> fp_lookup p n \<noteq> h) \<or> (\<exists>h. (n, h) \<in> set p \<and> map_of c n = None)"
    unfolding changedSections_def Let_def set_sort set_append Un_iff mem_keys by auto
  then show ?thesis
    unfolding fp_lookup_mem [OF assms(1)] fp_lookup_mem [OF assms(2)] map_of_fp [OF assms(2)] by auto
qed

lemma changedSections_order:
  assumes "fp_wf p" "fp_wf c"
  shows "sorted_wrt (<) (changedSections p c)"
proof -
  let ?out = "map fst (filter (\<lambda>(n, h). fp_lookup p n \<noteq> h) c)"
  have keys: "distinct (map fst (filter P m))" if "fp_wf m" for P m
    using that by (simp add: fp_wf_def distinct_map_filter)
  have "set ?out \<inter> set (map fst (filter (\<lambda>(n, h). map_of c n = None \<and> n \<notin> set ?out) p)) = {}"
    unfolding disjoint_iff mem_keys by auto
  then show ?thesis
    unfolding changedSections_def Let_def using keys assms by (intro sort_strict) (simp only: distinct_append)
qed

lemma changedSections_Nil:
  "changedSections (sectionFingerprints sha d) (sectionFingerprints sha e) = []
     \<longleftrightarrow> sectionFingerprints sha d = sectionFingerprints sha e" (is "?l \<longleftrightarrow> ?r")
proof
  assume ?l
  then have "fp_lookup (sectionFingerprints sha d) n = fp_lookup (sectionFingerprints sha e) n" for n
    using changedSections_mem [OF fp_wf_fingerprint fp_wf_fingerprint, of n sha d sha e] by auto
  then show ?r
    by (intro fingerprint_cong) (metis fp_lookup_section)
next
  assume ?r
  then show ?l
    using changedSections_mem [OF fp_wf_fingerprint fp_wf_fingerprint, of _ sha d sha e]
    by (metis list.set_intros(1) neq_Nil_conv)
qed

section \<open>Sequences of operations\<close>

text \<open>
  \<open>VSave d\<close> is any handler that has set the state to \<open>d\<close> and saves it; a restart reads the
  state file back, and does nothing when the store cannot be opened.
\<close>

datatype vop =
    VSave vstate vio
  | VAudit auditEvent vio
  | VCheckpoint vio vio reqctx "string option"
  | VRestore vio vio reqctx string
  | VRestart vio

fun vstep :: "(string \<Rightarrow> bytes) \<Rightarrow> vop \<Rightarrow> vstore \<Rightarrow> vstore" where
  "vstep sha (VSave d io) s = snd (saveLocked sha io (s \<lparr> st_data := d \<rparr>))"
| "vstep sha (VAudit e io) s = snd (store_addAudit sha io e s)"
| "vstep sha (VCheckpoint io io' rq body) s = snd (apiConfigCheckpoint sha io io' rq body s)"
| "vstep sha (VRestore io io' rq vid) s = snd (apiConfigVersionRestore sha io io' rq vid s)"
| "vstep sha (VRestart io) s =
     (case openStore sha True io (st_files s) (case st_file s of Some d \<Rightarrow> StateFile d | None \<Rightarrow> Absent) of
        Some s' \<Rightarrow> s' | None \<Rightarrow> s)"

definition vrun :: "(string \<Rightarrow> bytes) \<Rightarrow> vop list \<Rightarrow> vstore \<Rightarrow> vstore" where
  "vrun sha ops s = fold (vstep sha) ops s"

section \<open>The abstract history\<close>

text \<open>
  What the component promises: beside the state in memory and the saved one there is a log of
  at most forty states with the time they were recorded, newest first. A save that changed no
  section of the newest entry records nothing.
\<close>

record hist_spec =
  hs_data :: vstate
  hs_saved :: vstate
  hs_log :: "(int \<times> vstate) list"

definition hs_push :: "vio \<Rightarrow> hist_spec \<Rightarrow> hist_spec" where
  "hs_push io s = s \<lparr> hs_log := take maxConfigVersions ((vo_now io, hs_data s) # hs_log s) \<rparr>"

definition hs_save :: "(string \<Rightarrow> bytes) \<Rightarrow> vio \<Rightarrow> hist_spec \<Rightarrow> hist_spec" where
  "hs_save sha io s =
     (if \<not> vo_state io then s
      else let s1 = s \<lparr> hs_saved := hs_data s \<rparr>
           in if sectionFingerprints sha (hs_data s) = sectionFingerprints sha (snd (hd (hs_log s))) then s1 else hs_push io s1)"

definition hs_audit :: "(string \<Rightarrow> bytes) \<Rightarrow> vio \<Rightarrow> auditEvent \<Rightarrow> hist_spec \<Rightarrow> hist_spec" where
  "hs_audit sha io e s = hs_save sha io (s \<lparr> hs_data := (hs_data s) \<lparr> vs_Audit := addAudit e (vs_Audit (hs_data s)) \<rparr> \<rparr>)"

definition hs_lookup :: "hist_spec \<Rightarrow> string \<Rightarrow> vstate option" where
  "hs_lookup s vid = map_of (map (\<lambda>(t, d). (Itoa t, d)) (hs_log s)) vid"

fun hs_step :: "(string \<Rightarrow> bytes) \<Rightarrow> vop \<Rightarrow> hist_spec \<Rightarrow> hist_spec" where
  "hs_step sha (VSave d io) s = hs_save sha io (s \<lparr> hs_data := d \<rparr>)"
| "hs_step sha (VAudit e io) s = hs_audit sha io e s"
| "hs_step sha (VCheckpoint io io' rq body) s =
     hs_audit sha io' (success_event rq ''config-checkpoint'' (checkpoint_label (case body of Some l \<Rightarrow> l | None \<Rightarrow> [])) ''info'')
       (hs_push io s)"
| "hs_step sha (VRestore io io' rq vid) s =
     (case hs_lookup s vid of
        None \<Rightarrow> s
      | Some r \<Rightarrow>
          let s1 = hs_save sha io (s \<lparr> hs_data := restored_state (hs_data s) r \<rparr>)
          in if vo_state io then hs_audit sha io' (success_event rq ''config-restore'' vid ''security'') s1 else s1)"
| "hs_step sha (VRestart io) s =
     (let d = hs_saved s; added = missing_services (vs_Services d)
      in if added = [] then s \<lparr> hs_data := d \<rparr>
         else if vo_state io then s \<lparr> hs_data := d \<lparr> vs_Services := vs_Services d @ added \<rparr>, hs_saved := d \<lparr> vs_Services := vs_Services d @ added \<rparr> \<rparr>
         else s)"

definition log_entry :: "configVersion \<Rightarrow> int \<times> vstate" where
  "log_entry v = (cv_Time v, the (cv_State v))"

definition store_abs :: "vstore \<Rightarrow> hist_spec" where
  "store_abs s =
     \<lparr> hs_data = st_data s, hs_saved = the (st_file s), hs_log = map log_entry (history (st_files s)) \<rparr>"

text \<open>
  The invariant of the store: the directory is in order and not empty, and both the section
  digests kept in memory and those of the saved state are the ones of the newest version.
\<close>

definition dir_good :: "(string \<Rightarrow> bytes) \<Rightarrow> vstore \<Rightarrow> bool" where
  "dir_good sha s \<longleftrightarrow> st_verDir s \<and> st_file s \<noteq> None \<and> dir_ok (st_files s) \<and> history (st_files s) \<noteq> []
     \<and> st_lastSections s = Some (sectionFingerprints sha (snd (hd (hs_log (store_abs s)))))"

definition store_good :: "(string \<Rightarrow> bytes) \<Rightarrow> vstore \<Rightarrow> bool" where
  "store_good sha s \<longleftrightarrow> dir_good sha s
     \<and> sectionFingerprints sha (the (st_file s)) = sectionFingerprints sha (snd (hd (hs_log (store_abs s))))"

definition older :: "vstore \<Rightarrow> int \<Rightarrow> bool" where
  "older s t \<longleftrightarrow> (\<forall>v \<in> set (history (st_files s)). cv_Time v < t)"

text \<open>Version files can be written and removed, and the clock has nineteen digits.\<close>

definition clean_io :: "vio \<Rightarrow> bool" where
  "clean_io io \<longleftrightarrow> vo_version io = Written \<and> stamp19 (vo_now io) \<and> (\<forall>n. vo_remove io n)"

lemma snapshot_effect:
  assumes s: "st_verDir s" "dir_ok (st_files s)" "older s (vo_now io)" and io: "clean_io io"
  shows "\<exists>fs. snapshotLocked io changed s = s \<lparr> st_files := fs \<rparr> \<and> dir_ok fs
    \<and> history fs = take 40 (snapshot_version io changed (st_data s) # history (st_files s))"
proof -
  let ?v = "snapshot_version io changed (st_data s)"
  have v: "cv_Time ?v = vo_now io" "cv_State ?v = Some (st_data s)"
    by (simp_all add: snapshot_version_def)
  have p: "dir_ok (put_file (version_file (vo_now io)) (Holds ?v) (st_files s))"
    "history (put_file (version_file (vo_now io)) (Holds ?v) (st_files s)) = ?v # history (st_files s)"
    using history_put [of "st_files s" ?v] s io v by (simp_all add: clean_io_def older_def)
  have e: "snapshotLocked io changed s
      = s \<lparr> st_files := pruneVersionsLocked (vo_remove io) (put_file (version_file (vo_now io)) (Holds ?v) (st_files s)) \<rparr>"
    using s io v by (simp add: snapshotLocked_def clean_io_def Let_def)
  show ?thesis
    using io history_prune [OF p(1), of "vo_remove io"] p(2) unfolding e clean_io_def by (intro exI conjI) auto
qed

text \<open>One snapshot is one push on the abstract log.\<close>

lemma snapshot_push:
  fixes changed :: "string list"
  assumes "st_verDir s" "dir_ok (st_files s)" "older s (vo_now io)" "clean_io io"
  defines "s' \<equiv> snapshotLocked io changed s"
  shows "store_abs s' = hs_push io (store_abs s)" "st_data s' = st_data s" "st_file s' = st_file s" "st_verDir s'"
    "dir_ok (st_files s')" "history (st_files s') \<noteq> []" "hd (hs_log (store_abs s')) = (vo_now io, st_data s)"
    "vo_now io < t \<Longrightarrow> older s t \<Longrightarrow> older s' t"
proof -
  obtain fs where fs: "s' = s \<lparr> st_files := fs \<rparr>" "dir_ok fs"
    and h: "history fs = take 40 (snapshot_version io changed (st_data s) # history (st_files s))"
    using snapshot_effect [OF assms(1-4)] unfolding s'_def by blast
  have m: "set (history fs) \<subseteq> insert (snapshot_version io changed (st_data s)) (set (history (st_files s)))"
    unfolding h using set_take_subset by fastforce
  show "store_abs s' = hs_push io (store_abs s)" "st_data s' = st_data s" "st_file s' = st_file s" "st_verDir s'"
    "dir_ok (st_files s')" "history (st_files s') \<noteq> []" "hd (hs_log (store_abs s')) = (vo_now io, st_data s)"
    using fs h assms(1)
    by (simp_all add: store_abs_def hs_push_def maxConfigVersions_def take_map log_entry_def snapshot_version_def)
  show "older s' t" if "vo_now io < t" "older s t"
    using that m fs by (auto simp: older_def snapshot_version_def)
qed

lemma store_frame [simp]:
  "dir_good sha (s \<lparr> st_data := d \<rparr>) = dir_good sha s"
  "older (s \<lparr> st_data := d \<rparr>) t = older s t"
  "older (s \<lparr> st_file := f \<rparr>) t = older s t"
  "older (s \<lparr> st_lastSections := l \<rparr>) t = older s t"
  "store_abs (s \<lparr> st_data := d \<rparr>) = (store_abs s) \<lparr> hs_data := d \<rparr>"
  "store_abs (s \<lparr> st_file := Some d \<rparr>) = (store_abs s) \<lparr> hs_saved := d \<rparr>"
  "store_abs (s \<lparr> st_lastSections := l \<rparr>) = store_abs s"
  "hs_data (store_abs s) = st_data s"
  "hs_saved (store_abs s) = the (st_file s)"
  by (simp_all add: dir_good_def older_def store_abs_def)

lemma save_unwritten: "\<not> vo_state io \<Longrightarrow> snd (saveLocked sha io s) = s \<and> hs_save sha io h = h"
  by (simp add: saveLocked_def hs_save_def)

lemma save_refines:
  assumes g: "dir_good sha s" and io: "clean_io io" "older s (vo_now io)" "vo_state io"
  defines "s' \<equiv> snd (saveLocked sha io s)"
  shows "store_abs s' = hs_save sha io (store_abs s)" "store_good sha s'"
    "vo_now io < t \<Longrightarrow> older s t \<Longrightarrow> older s' t"
proof -
  let ?s1 = "s \<lparr> st_file := Some (st_data s) \<rparr>" and ?new = "snd (hd (hs_log (store_abs s)))"
  let ?cur = "sectionFingerprints sha (st_data s)"
  let ?changed = "changedSections (sectionFingerprints sha ?new) ?cur"
  have log: "hs_log (store_abs ?s1) = hs_log (store_abs s)"
    by simp
  have G: "st_verDir s" "dir_ok (st_files s)" "history (st_files s) \<noteq> []"
    "st_lastSections s = Some (sectionFingerprints sha ?new)"
    using g by (simp_all add: dir_good_def)
  have "store_abs s' = hs_save sha io (store_abs s) \<and> store_good sha s' \<and> (vo_now io < t \<longrightarrow> older s t \<longrightarrow> older s' t)"
  proof (cases "sectionFingerprints sha ?new = ?cur")
    case True
    then have "?changed = []"
      by (simp add: changedSections_Nil)
    then have s': "s' = ?s1"
      using G io by (simp add: s'_def saveLocked_def maybeSnapshotLocked_def)
    then show ?thesis
      using True G io log by (simp add: hs_save_def store_good_def dir_good_def)
  next
    case False
    then have ch: "?changed \<noteq> []"
      by (simp add: changedSections_Nil)
    have s': "s' = (snapshotLocked io ?changed ?s1) \<lparr> st_lastSections := Some ?cur \<rparr>"
      using G io ch by (simp add: s'_def saveLocked_def maybeSnapshotLocked_def Let_def)
    note P = snapshot_push [where s = ?s1 and io = io and changed = ?changed]
    show ?thesis
      using P G io False by (auto simp: s' hs_save_def store_good_def dir_good_def)
  qed
  then show "store_abs s' = hs_save sha io (store_abs s)" "store_good sha s'"
    "vo_now io < t \<Longrightarrow> older s t \<Longrightarrow> older s' t"
    by blast+
qed

text \<open>The shape all saving operations share.\<close>

definition saves_as :: "(string \<Rightarrow> bytes) \<Rightarrow> vio \<Rightarrow> vstore \<Rightarrow> hist_spec \<Rightarrow> vstore \<Rightarrow> bool" where
  "saves_as sha io s h s' \<longleftrightarrow> store_abs s' = h \<and> dir_good sha s' \<and> (store_good sha s \<or> vo_state io \<longrightarrow> store_good sha s')
     \<and> (\<forall>t > vo_now io. older s t \<longrightarrow> older s' t)"

lemma saved:
  assumes "dir_good sha s" "clean_io io" "older s (vo_now io)"
  shows "saves_as sha io s (hs_save sha io ((store_abs s) \<lparr> hs_data := d \<rparr>)) (snd (saveLocked sha io (s \<lparr> st_data := d \<rparr>)))"
proof (cases "vo_state io")
  case True
  then show ?thesis
    using save_refines [of sha "s \<lparr> st_data := d \<rparr>" io] assms by (auto simp: saves_as_def store_good_def)
next
  case False
  then show ?thesis
    using save_unwritten [of io sha "s \<lparr> st_data := d \<rparr>"] assms by (simp add: saves_as_def store_good_def)
qed

lemma audit_saved:
  assumes "dir_good sha s" "clean_io io" "older s (vo_now io)"
  shows "saves_as sha io s (hs_audit sha io e (store_abs s)) (snd (store_addAudit sha io e s))"
  using saved [OF assms] by (simp add: store_addAudit_def hs_audit_def)

lemmas record_saved = audit_saved [where e = "success_event rq action target severity" for rq action target severity, folded store_record_def]

section \<open>The store refines the history\<close>

fun op_ios :: "vop \<Rightarrow> vio list" where
  "op_ios (VSave d io) = [io]"
| "op_ios (VAudit e io) = [io]"
| "op_ios (VCheckpoint io io' rq body) = [io, io']"
| "op_ios (VRestore io io' rq vid) = [io, io']"
| "op_ios (VRestart io) = [io]"

text \<open>
  State files may fail to be written, except for the audit record of a checkpoint: a restart
  after that failure would forget a state whose version is on disk.
\<close>

fun op_clean :: "vop \<Rightarrow> bool" where
  "op_clean (VCheckpoint io io' rq body) \<longleftrightarrow> clean_io io \<and> clean_io io' \<and> vo_state io'"
| "op_clean op \<longleftrightarrow> (\<forall>io \<in> set (op_ios op). clean_io io)"

lemma readVersion_iff:
  assumes "dir_ok (st_files s)" "st_verDir s"
  shows "readVersion s vid = Some v \<longleftrightarrow> v \<in> set (history (st_files s)) \<and> vid = Itoa (cv_Time v)"
proof -
  have "readVersion s vid = Some v \<longleftrightarrow> (vid @ ''.json'', Holds v) \<in> set (st_files s)"
    using assms map_of_eq_Some_iff [of "st_files s" "vid @ ''.json''" "Holds v"]
    by (auto simp: readVersion_def dir_ok_def split: option.splits vfile.splits dest: eq_key_imp_eq_value)
  then show ?thesis
    unfolding dir_mem [OF assms(1)] by (auto simp: file_of_def version_file_def)
qed

lemma hs_lookup_iff:
  assumes "dir_ok (st_files s)" "st_verDir s"
  shows "hs_lookup (store_abs s) vid = Some d \<longleftrightarrow> (\<exists>v. readVersion s vid = Some v \<and> cv_State v = Some d)"
proof -
  let ?h = "history (st_files s)"
  have "distinct (map cv_Time ?h)"
    using assms(1) by (rule dir_times)
  then have "distinct (map fst (map (\<lambda>v. (Itoa (cv_Time v), the (cv_State v))) ?h))"
    by (simp add: distinct_map inj_on_def Itoa_inj)
  then have "hs_lookup (store_abs s) vid = Some d \<longleftrightarrow> (vid, d) \<in> set (map (\<lambda>v. (Itoa (cv_Time v), the (cv_State v))) ?h)"
    by (simp add: hs_lookup_def store_abs_def comp_def log_entry_def)
  moreover have "\<forall>v \<in> set ?h. cv_State v \<noteq> None"
    using assms(1) unfolding dir_ok_iff by blast
  ultimately show ?thesis
    unfolding readVersion_iff [OF assms] by (auto simp: image_iff)
qed

lemma readVersion_id:
  assumes "dir_ok (st_files s)" "st_verDir s" "readVersion s vid = Some v"
  shows "versionIDRe vid \<and> cv_State v \<noteq> None"
  using assms(3) assms(1) versionIDRe_stamp19 unfolding readVersion_iff [OF assms(1,2)] dir_ok_iff by blast

definition refines_step :: "(string \<Rightarrow> bytes) \<Rightarrow> vop \<Rightarrow> vstore \<Rightarrow> vstore \<Rightarrow> bool" where
  "refines_step sha op s s' \<longleftrightarrow> store_good sha s' \<and> store_abs s' = hs_step sha op (store_abs s)
     \<and> (\<forall>t. (\<forall>io \<in> set (op_ios op). vo_now io < t) \<longrightarrow> older s t \<longrightarrow> older s' t)"

lemma checkpoint_refines:
  assumes g: "store_good sha s" and op: "op_clean (VCheckpoint io io' rq body)"
    and t: "older s (vo_now io)" "vo_now io < vo_now io'"
  shows "refines_step sha (VCheckpoint io io' rq body) s (vstep sha (VCheckpoint io io' rq body) s)"
proof -
  let ?label = "checkpoint_label (case body of Some l \<Rightarrow> l | None \<Rightarrow> [])"
  let ?s1 = "(snapshotLocked io [?label] s) \<lparr> st_lastSections := Some (sectionFingerprints sha (st_data s)) \<rparr>"
  have o': "older s (vo_now io')"
    using t by (auto simp: older_def)
  have G: "st_verDir s" "dir_ok (st_files s)" "st_file s \<noteq> None"
    using g by (auto simp: store_good_def dir_good_def)
  note P = snapshot_push [where s = s and io = io and changed = "[?label]"]
  have s1: "dir_good sha ?s1" "store_abs ?s1 = hs_push io (store_abs s)" "older ?s1 (vo_now io')"
    "\<And>t. vo_now io < t \<Longrightarrow> older s t \<Longrightarrow> older ?s1 t"
    using P G op t o' by (auto simp: dir_good_def)
  have "saves_as sha io' ?s1 (hs_step sha (VCheckpoint io io' rq body) (store_abs s)) (vstep sha (VCheckpoint io io' rq body) s)"
    using record_saved [OF s1(1) _ s1(3), unfolded s1(2)] op by (simp add: apiConfigCheckpoint_def Let_def)
  then show ?thesis
    using s1(4) op by (auto simp: refines_step_def saves_as_def)
qed

lemma restore_refines:
  assumes g: "store_good sha s" and op: "op_clean (VRestore io io' rq vid)"
    and t: "older s (vo_now io)" "vo_now io < vo_now io'"
  shows "refines_step sha (VRestore io io' rq vid) s (vstep sha (VRestore io io' rq vid) s)"
proof -
  have G: "dir_good sha s" "dir_ok (st_files s)" "st_verDir s"
    using g by (simp_all add: store_good_def dir_good_def)
  show ?thesis
  proof (cases "hs_lookup (store_abs s) vid")
    case None
    then have "readVersion s vid = None"
      using hs_lookup_iff [OF G(2,3), of vid] readVersion_id [OF G(2,3), of vid] by force
    then have "vstep sha (VRestore io io' rq vid) s = s"
      by (simp add: apiConfigVersionRestore_def)
    then show ?thesis
      using None g by (simp add: refines_step_def)
  next
    case (Some r)
    then obtain v where v: "readVersion s vid = Some v" "cv_State v = Some r"
      using hs_lookup_iff [OF G(2,3)] by auto
    have id: "versionIDRe vid"
      using readVersion_id [OF G(2,3) v(1)] by blast
    let ?d = "restored_state (st_data s) r"
    let ?s1 = "snd (saveLocked sha io (s \<lparr> st_data := ?d \<rparr>))"
    have sv: "saves_as sha io s (hs_save sha io ((store_abs s) \<lparr> hs_data := ?d \<rparr>)) ?s1"
      using saved [OF G(1)] op t by simp
    have e: "fst (saveLocked sha io (s \<lparr> st_data := ?d \<rparr>)) = vo_state io"
      by (simp add: saveLocked_def)
    have step: "vstep sha (VRestore io io' rq vid) s =
        (if vo_state io then store_record sha io' rq ''config-restore'' vid ''security'' ?s1 else ?s1)"
      using id v e
      by (cases "saveLocked sha io (s \<lparr> st_data := ?d \<rparr>)"; cases "vo_state io") (simp_all add: apiConfigVersionRestore_def Let_def)
    have "older s (vo_now io')"
      using t by (auto simp: older_def)
    then have o': "older ?s1 (vo_now io')" "dir_good sha ?s1"
      using sv t(2) unfolding saves_as_def by blast+
    have rec: "saves_as sha io' ?s1 (hs_audit sha io' (success_event rq ''config-restore'' vid ''security'') (store_abs ?s1))
        (store_record sha io' rq ''config-restore'' vid ''security'' ?s1)"
      using record_saved [OF o'(2) _ o'(1)] op by simp
    have sp: "hs_step sha (VRestore io io' rq vid) (store_abs s) =
        (if vo_state io then hs_audit sha io' (success_event rq ''config-restore'' vid ''security'') (store_abs ?s1) else store_abs ?s1)"
      using sv by (simp add: saves_as_def Some Let_def)
    have "store_good sha ?s1"
      using sv g by (simp add: saves_as_def)
    then show ?thesis
      unfolding refines_step_def step sp using sv rec by (cases "vo_state io") (simp_all add: saves_as_def)
  qed
qed

lemma restart_refines:
  assumes g: "store_good sha s"
  shows "refines_step sha (VRestart io) s (vstep sha (VRestart io) s)"
proof -
  have "history [] = []"
    by (simp add: history_def)
  then have fs: "st_files s \<noteq> []"
    using g by (metis store_good_def dir_good_def)
  obtain d where d: "st_file s = Some d"
    using g by (auto simp: store_good_def dir_good_def)
  show ?thesis
    using g d fs
    by (auto simp: refines_step_def openStore_def initVersions_def saveLocked_def maybeSnapshotLocked_def Let_def
        store_good_def dir_good_def store_abs_def older_def)
qed

lemma step_refines:
  assumes "store_good sha s" "op_clean op" "sorted_wrt (<) (map vo_now (op_ios op))" "\<forall>io \<in> set (op_ios op). older s (vo_now io)"
  shows "refines_step sha op s (vstep sha op s)"
proof (cases op)
  case (VSave d io)
  then show ?thesis
    using assms saved [of sha s io d] by (auto simp: refines_step_def saves_as_def store_good_def)
next
  case (VAudit e io)
  then show ?thesis
    using assms audit_saved [of sha s io e] by (auto simp: refines_step_def saves_as_def store_good_def)
next
  case (VCheckpoint io io' rq body)
  then show ?thesis
    using assms checkpoint_refines by simp
next
  case (VRestore io io' rq vid)
  then show ?thesis
    using assms restore_refines by simp
next
  case (VRestart io)
  then show ?thesis
    using assms restart_refines by blast
qed

definition op_times :: "vop list \<Rightarrow> int list" where
  "op_times ops = map vo_now (concat (map op_ios ops))"

lemma run_refines:
  assumes "store_good sha s" "\<forall>op \<in> set ops. op_clean op" "sorted_wrt (<) (op_times ops)" "\<forall>t \<in> set (op_times ops). older s t"
  shows "store_good sha (vrun sha ops s) \<and> store_abs (vrun sha ops s) = fold (hs_step sha) ops (store_abs s)
    \<and> (\<forall>t. (\<forall>u \<in> set (op_times ops). u < t) \<longrightarrow> older s t \<longrightarrow> older (vrun sha ops s) t)"
  using assms
proof (induction ops arbitrary: s)
  case Nil
  then show ?case
    by (simp add: vrun_def)
next
  case (Cons op ops)
  let ?s = "vstep sha op s"
  have r: "refines_step sha op s ?s"
    using Cons.prems by (intro step_refines) (auto simp: op_times_def sorted_wrt_append)
  have "\<forall>t \<in> set (op_times ops). older s t \<and> (\<forall>io \<in> set (op_ios op). vo_now io < t)"
    using Cons.prems by (auto simp: op_times_def sorted_wrt_append)
  then have "\<forall>t \<in> set (op_times ops). older ?s t"
    using r by (simp add: refines_step_def)
  then have "store_good sha (vrun sha ops ?s) \<and> store_abs (vrun sha ops ?s) = fold (hs_step sha) ops (store_abs ?s)
      \<and> (\<forall>t. (\<forall>u \<in> set (op_times ops). u < t) \<longrightarrow> older ?s t \<longrightarrow> older (vrun sha ops ?s) t)"
    using r Cons by (intro Cons.IH) (simp_all add: refines_step_def op_times_def sorted_wrt_append)
  with r show ?case
    by (auto simp: refines_step_def vrun_def op_times_def ball_Un)
qed

definition header :: "configVersion \<Rightarrow> version_header" where
  "header v = \<lparr> vh_ID = Itoa (cv_Time v), vh_Time = cv_Time v, vh_Changed = cv_Changed v, vh_LastAction = cv_LastAction v \<rparr>"

lemma Itoa_less: "stamp19 t \<Longrightarrow> stamp19 u \<Longrightarrow> Itoa t < Itoa u \<longleftrightarrow> t < u"
  by (metis Itoa_stamp19 append_less_same version_file_def version_file_less)

lemma sort_key_strict:
  assumes "mset xs = mset ys" "sorted_wrt (<) (map f ys)"
  shows "sort_key f xs = ys"
proof -
  have ys: "sorted (map f ys)" "distinct (map f ys)"
    using assms(2) by (simp_all add: strict_sorted_iff)
  moreover have "distinct (map f (sort_key f xs))"
    using ys(2) assms(1) by (metis mset_eq_imp_distinct_iff mset_map mset_sort)
  moreover have "set (sort_key f xs) = set ys"
    using assms(1) by (metis mset_eq_setD set_sort)
  ultimately show ?thesis
    using map_sorted_distinct_set_unique [of f "sort_key f xs" ys] by (simp add: distinct_map)
qed

text \<open>The listing is the history, newest first.\<close>

lemma listVersions_history:
  assumes "st_verDir s" "dir_ok (st_files s)"
  shows "listVersions s = map header (history (st_files s))"
proof -
  let ?h = "history (st_files s)" and ?l = "concat (map header_of (st_files s))"
  note D = assms(2) [unfolded dir_ok_iff]
  have hf: "header_of (file_of v) = [header v]" for v
    by (simp add: header_of_def file_of_def header_def version_file_def TrimSuffix_def HasSuffix_append)
  have "mset ?l = mset (concat (map header_of (sort_key fst (st_files s))))"
    by (simp add: mset_concat flip: sum_mset_sum_list)
  also have "concat (map header_of (sort_key fst (st_files s))) = map header (rev ?h)"
    unfolding conjunct1 [OF D] by (simp add: comp_def hf)
  finally have m: "mset ?l = mset (map header (rev ?h))" .
  have "sorted_wrt (<) (map vh_ID (map header (rev ?h)))"
  proof -
    have "sorted_wrt (\<lambda>v w. Itoa (cv_Time w) < Itoa (cv_Time v)) ?h"
      using conjunct1 [OF conjunct2 [OF D]] unfolding sorted_wrt_map
      by (rule sorted_wrt_mono_rel [rotated]) (use D Itoa_less in blast)
    then show ?thesis
      by (simp add: sorted_wrt_map sorted_wrt_rev header_def)
  qed
  then have "sort_key vh_ID ?l = map header (rev ?h)"
    using m by (intro sort_key_strict)
  then show ?thesis
    using assms(1) by (simp add: listVersions_def rev_map)
qed


lemma hs_log_bound: "length (hs_log h) \<le> 40 \<Longrightarrow> length (hs_log (fold (hs_step sha) ops h)) \<le> 40"
proof (induction ops arbitrary: h)
  case (Cons op ops)
  have push: "length (hs_log (hs_push io h)) \<le> 40" for io h
    by (simp add: hs_push_def maxConfigVersions_def)
  have save: "length (hs_log h) \<le> 40 \<Longrightarrow> length (hs_log (hs_save sha io h)) \<le> 40" for io h
    using push by (simp add: hs_save_def Let_def)
  have audit: "length (hs_log h) \<le> 40 \<Longrightarrow> length (hs_log (hs_audit sha io e h)) \<le> 40" for io e h
    using save by (simp add: hs_audit_def)
  have "length (hs_log (hs_step sha op h)) \<le> 40"
    using Cons.prems push save audit by (cases op) (simp_all add: Let_def split: option.splits)
  with Cons.IH show ?case
    by simp
qed simp

section \<open>Properties\<close>

lemma openStore_fresh:
  assumes "openStore sha True io [] Absent = Some s" "clean_io io"
  shows "store_good sha s" "older s t \<longleftrightarrow> vo_now io < t"
    "store_abs s = \<lparr> hs_data = initial_state, hs_saved = initial_state, hs_log = [(vo_now io, initial_state)] \<rparr>"
proof -
  let ?v = "snapshot_version io [baseline_label] initial_state"
  have s: "s = \<lparr> st_data = initial_state, st_file = Some initial_state, st_verDir = True,
      st_files = [file_of ?v], st_lastSections = Some (sectionFingerprints sha initial_state) \<rparr>"
    using assms
    by (auto simp: openStore_def saveLocked_def maybeSnapshotLocked_def initVersions_def snapshotLocked_def clean_io_def
        pruneVersionsLocked_def maxConfigVersions_def put_file_def file_of_def snapshot_version_def Let_def split: if_splits)
  have h: "history (st_files s) = [?v]" "dir_ok (st_files s)"
    using assms(2) by (simp_all add: s history_def dir_ok_def file_of_def version_of_def clean_io_def snapshot_version_def)
  show "store_abs s = \<lparr> hs_data = initial_state, hs_saved = initial_state, hs_log = [(vo_now io, initial_state)] \<rparr>"
    using h by (simp add: store_abs_def s log_entry_def snapshot_version_def)
  with h show "store_good sha s" "older s t \<longleftrightarrow> vo_now io < t"
    by (simp_all add: store_good_def dir_good_def older_def s snapshot_version_def)
qed

text \<open>
  C5. On a new appliance whose version files can be written, with a clock that moves forward,
  every sequence of saves, audit records, checkpoints, restores and restarts behaves as the
  abstract history: a log of the last forty recorded states that is extended exactly by the
  saves that changed a section and by checkpoints. The listing shows that log newest first,
  and each listed identifier reads back the recorded state.
\<close>

theorem versions_refine_history:
  assumes start: "openStore sha True io0 [] Absent = Some s0" "clean_io io0"
    and ops: "\<forall>op \<in> set ops. op_clean op" "sorted_wrt (<) (vo_now io0 # op_times ops)"
    and s: "s = vrun sha ops s0"
    and h: "h = fold (hs_step sha) ops
      \<lparr> hs_data = initial_state, hs_saved = initial_state, hs_log = [(vo_now io0, initial_state)] \<rparr>"
  shows "store_abs s = h \<and> map vh_ID (listVersions s) = map (\<lambda>(t, _). Itoa t) (hs_log h)
    \<and> list_all (\<lambda>(t, d). map_option cv_State (readVersion s (Itoa t)) = Some (Some d)) (hs_log h)"
proof (intro conjI)
  have r: "store_good sha s" "store_abs s = h"
    using run_refines [of sha s0 ops] openStore_fresh [OF start] ops by (simp_all add: s h)
  then show "store_abs s = h"
    by blast
  have g: "dir_ok (st_files s)" "st_verDir s"
    using r(1) by (simp_all add: store_good_def dir_good_def)
  have log: "hs_log h = map log_entry (history (st_files s))"
    unfolding r(2) [symmetric] by (simp add: store_abs_def)
  show "map vh_ID (listVersions s) = map (\<lambda>(t, _). Itoa t) (hs_log h)"
    using listVersions_history [OF g(2,1)] by (simp add: log header_def log_entry_def)
  have "map_option cv_State (readVersion s (Itoa (cv_Time v))) = Some (Some (the (cv_State v)))"
    if "v \<in> set (history (st_files s))" for v
    using that g(1) readVersion_iff [OF g, of "Itoa (cv_Time v)" v] by (simp add: dir_ok_iff)
  then show "list_all (\<lambda>(t, d). map_option cv_State (readVersion s (Itoa t)) = Some (Some d)) (hs_log h)"
    by (simp add: log list_all_iff log_entry_def)
qed


text \<open>What a restore answers and leaves in memory.\<close>

lemma save_data [simp]: "st_data (snd (saveLocked sha io s)) = st_data s" "fst (saveLocked sha io s) = vo_state io"
  by (simp_all add: saveLocked_def maybeSnapshotLocked_def snapshotLocked_def Let_def split: write_result.splits)

lemma restore_answer:
  "apiConfigVersionRestore sha io io' rq vid s = (VRestored ch, s') \<longleftrightarrow>
     (\<exists>v r. versionIDRe vid \<and> readVersion s vid = Some v \<and> cv_State v = Some r \<and> vo_state io
        \<and> ch = changedSections (sectionFingerprints sha (st_data s)) (sectionFingerprints sha r)
        \<and> s' = store_record sha io' rq ''config-restore'' vid ''security''
                (snd (saveLocked sha io (s \<lparr> st_data := restored_state (st_data s) r \<rparr>))))"
proof -
  have "(case saveLocked sha io x of (False, s1) \<Rightarrow> (VError 500, s1) | (True, s1) \<Rightarrow> (VRestored c, f s1)) =
      (if vo_state io then (VRestored c, f (snd (saveLocked sha io x))) else (VError 500, snd (saveLocked sha io x)))" for x c f
    using save_data(2) [of sha io x] by (cases "saveLocked sha io x") auto
  then show ?thesis
    by (auto simp: apiConfigVersionRestore_def Let_def split: option.splits)
qed

lemma record_data:
  "st_data (store_record sha io rq action target severity s) =
     (st_data s) \<lparr> vs_Audit := addAudit (success_event rq action target severity) (vs_Audit (st_data s)) \<rparr>"
  by (simp add: store_record_def store_addAudit_def)

lemma restored_sections [simp]: "vs_Section (restored_state live r) = vs_Section r"
  "sectionFingerprints sha (restored_state live r) = sectionFingerprints sha r"
  by (simp_all add: restored_state_def)

text \<open>A save or restore keeps the newest entry of the log among the kept ones.\<close>

lemma newest_kept:
  assumes "hs_log h \<noteq> []"
  shows "hd (hs_log h) \<in> set (hs_log (hs_save sha io (h \<lparr> hs_data := d \<rparr>)))"
  using assms by (cases "hs_log h") (auto simp: hs_save_def hs_push_def maxConfigVersions_def Let_def)

lemma restore_keeps_newest:
  assumes "hs_log h \<noteq> []"
  shows "hd (hs_log h) \<in> set (hs_log (hs_step sha (VRestore io io' rq vid) h))"
proof (cases "hs_lookup h vid")
  case None
  then show ?thesis
    using assms by simp
next
  case (Some r)
  let ?h1 = "hs_save sha io (h \<lparr> hs_data := restored_state (hs_data h) r \<rparr>)"
  have 1: "hd (hs_log h) \<in> set (hs_log ?h1)"
    using newest_kept [OF assms] .
  have "hs_log (hs_audit sha io' e ?h1) = hs_log ?h1" if "vo_state io" for e
    using that by (simp add: hs_audit_def hs_save_def hs_push_def maxConfigVersions_def Let_def)
  with 1 show ?thesis
    by (simp add: Some Let_def)
qed

lemma hs_lookup_mem:
  assumes "dir_ok (st_files s)" "(t, d) \<in> set (hs_log (store_abs s))"
  shows "hs_lookup (store_abs s) (Itoa t) = Some d"
proof -
  have "distinct (map cv_Time (history (st_files s)))"
    using assms(1) by (rule dir_times)
  then have "distinct (map fst (map (\<lambda>(t, d). (Itoa t, d)) (hs_log (store_abs s))))"
    by (simp add: store_abs_def comp_def log_entry_def distinct_map inj_on_def Itoa_inj)
  then show ?thesis
    unfolding hs_lookup_def using assms(2) by (intro map_of_is_SomeI) auto
qed

text \<open>
  A restore brings back the sections of the chosen version, keeps the live service list and
  the live audit trail with one new record, and reports, in order, exactly the sections whose
  digests differ from the ones in force before.
\<close>

theorem restore_effect:
  assumes "apiConfigVersionRestore sha io io' rq vid s = (VRestored changed, s1)"
  shows "\<exists>v r. readVersion s vid = Some v \<and> cv_State v = Some r \<and> vs_Section (st_data s1) = vs_Section r
      \<and> vs_Services (st_data s1) = vs_Services (st_data s)
      \<and> vs_Audit (st_data s1) = addAudit (success_event rq ''config-restore'' vid ''security'') (vs_Audit (st_data s))
      \<and> sorted_wrt (<) changed
      \<and> set changed = {n. fp_lookup (sectionFingerprints sha (st_data s)) n \<noteq> fp_lookup (sectionFingerprints sha r) n}"
proof -
  obtain v r where vr: "readVersion s vid = Some v" "cv_State v = Some r"
    and ch: "changed = changedSections (sectionFingerprints sha (st_data s)) (sectionFingerprints sha r)"
    and s1: "s1 = store_record sha io' rq ''config-restore'' vid ''security''
      (snd (saveLocked sha io (s \<lparr> st_data := restored_state (st_data s) r \<rparr>)))"
    using assms unfolding restore_answer by blast
  have d: "st_data s1 = (restored_state (st_data s) r)
      \<lparr> vs_Audit := addAudit (success_event rq ''config-restore'' vid ''security'') (vs_Audit (st_data s)) \<rparr>"
    by (simp add: s1 record_data restored_state_def)
  show ?thesis
    using vr by (auto simp: d restored_state_def ch changedSections_order changedSections_mem fp_wf_fingerprint)
qed

text \<open>
  C16. A restore can be undone: on an appliance as above whose sections are all saved, restoring
  next the version that was newest before succeeds and gives the previous sections back.
\<close>

theorem restore_undo:
  assumes start: "openStore sha True io0 [] Absent = Some s0" "clean_io io0"
    and ops: "\<forall>op \<in> set ops. op_clean op" "sorted_wrt (<) (vo_now io0 # op_times ops @ [vo_now io, vo_now io'])"
    and s: "s = vrun sha ops s0" "sectionFingerprints sha (st_data s) = sectionFingerprints sha (the (st_file s))"
    and io: "clean_io io" "clean_io io'" "vo_state io2"
    and restore: "apiConfigVersionRestore sha io io' rq vid s = (VRestored changed, s1)"
  shows "\<exists>changed' s2. apiConfigVersionRestore sha io2 io2' rq' (vh_ID (hd (listVersions s))) s1 = (VRestored changed', s2)
      \<and> sectionFingerprints sha (st_data s2) = sectionFingerprints sha (st_data s)"
proof -
  have r: "store_good sha s" "older s (vo_now io)"
    using run_refines [of sha s0 ops] openStore_fresh [OF start] ops by (simp_all add: s(1) sorted_wrt_append)
  then have "refines_step sha (VRestore io io' rq vid) s (vstep sha (VRestore io io' rq vid) s)"
    using io ops by (intro restore_refines) (simp_all add: sorted_wrt_append)
  then have r1: "store_good sha s1" "store_abs s1 = hs_step sha (VRestore io io' rq vid) (store_abs s)"
    using restore by (simp_all add: refines_step_def)
  have g: "dir_ok (st_files s)" "st_verDir s" "history (st_files s) \<noteq> []"
    and g1: "dir_ok (st_files s1)" "st_verDir s1"
    using r(1) r1(1) by (simp_all add: store_good_def dir_good_def)
  obtain t d where td: "hd (hs_log (store_abs s)) = (t, d)"
    by (cases "hd (hs_log (store_abs s))")
  have new: "vh_ID (hd (listVersions s)) = Itoa t"
    using td g listVersions_history [OF g(2,1)] by (simp add: hd_map header_def store_abs_def log_entry_def)
  have "hs_log (store_abs s) \<noteq> []"
    using g by (simp add: store_abs_def)
  then have "(t, d) \<in> set (hs_log (store_abs s1))"
    using restore_keeps_newest [of "store_abs s" sha io io' rq vid] td unfolding r1(2) by simp
  then have "hs_lookup (store_abs s1) (Itoa t) = Some d"
    by (rule hs_lookup_mem [OF g1(1)])
  then obtain v where v: "readVersion s1 (Itoa t) = Some v" "cv_State v = Some d" "versionIDRe (Itoa t)"
    using hs_lookup_iff [OF g1] readVersion_id [OF g1] by blast
  have "sectionFingerprints sha d = sectionFingerprints sha (st_data s)"
    using r(1) td s(2) by (simp add: store_good_def)
  then show ?thesis
    using v io(3) unfolding new restore_answer by (auto simp: record_data)
qed

section \<open>Limits\<close>

text \<open>
  A restore replaces the API tokens by those of the snapshot, although they are no section of
  the configuration: a token revoked since is valid again and the answer reports no change.
\<close>

theorem restore_revives_tokens:
  assumes "apiConfigVersionRestore sha io io' rq vid s = (VRestored changed, s1)" "readVersion s vid = Some v" "cv_State v = Some r"
  shows "vs_APITokens (st_data s1) = vs_APITokens r"
    and "vs_Section r = vs_Section (st_data s) \<Longrightarrow> changed = []"
proof -
  have ch: "changed = changedSections (sectionFingerprints sha (st_data s)) (sectionFingerprints sha r)"
    and s1: "s1 = store_record sha io' rq ''config-restore'' vid ''security''
      (snd (saveLocked sha io (s \<lparr> st_data := restored_state (st_data s) r \<rparr>)))"
    using assms unfolding restore_answer by auto
  show "vs_APITokens (st_data s1) = vs_APITokens r"
    by (simp add: s1 record_data restored_state_def)
  show "changed = []" if "vs_Section r = vs_Section (st_data s)"
    using that fingerprint_cong [of sha "st_data s" r] by (simp add: ch changedSections_Nil)
qed

text \<open>
  A full directory forgets a snapshot at once when the clock was set back behind all kept
  versions, and an unset clock (few digits) sorts behind them.
\<close>

theorem snapshot_lost_when_clock_steps_back:
  assumes d: "dir_ok fs" "length fs = 40" and v: "stamp19 (cv_Time v)" "\<forall>w \<in> set (history fs). cv_Time v < cv_Time w" "\<forall>n. rm n"
  shows "version_file (cv_Time v) \<notin> fst ` set (pruneVersionsLocked rm (put_file (version_file (cv_Time v)) (Holds v) fs))"
proof -
  let ?n = "version_file (cv_Time v)"
  have lt: "\<forall>f \<in> set fs. ?n < fst f"
    using d(1) v unfolding dir_mem [OF d(1)] dir_ok_iff by (auto simp: file_of_def version_file_less)
  then have p: "put_file ?n (Holds v) fs = (?n, Holds v) # fs"
    by (auto simp: put_file_def intro!: filter_True)
  have "\<forall>m \<in> set ms. ?n < m \<Longrightarrow> insort ?n ms = ?n # ms" for ms
    by (cases ms) auto
  then have "sort (map fst (put_file ?n (Holds v) fs)) = ?n # sort (map fst fs)"
    using lt unfolding p by simp
  then show ?thesis
    using d(2) v(3) by (auto simp: pruneVersionsLocked_def maxConfigVersions_def p)
qed

lemma early_clock_sorts_last: "version_file 1700000000000000000 < version_file 60000000000"
  by (simp add: version_file_def Itoa_def nat_str.simps go_std)

section \<open>Witnesses\<close>

definition ex_sha :: "string \<Rightarrow> bytes" where
  "ex_sha s = replicate 32 (of_nat (length s))"

definition ex_vio :: "int \<Rightarrow> vio" where
  "ex_vio t = \<lparr> vo_now = 1700000000000000000 + t, vo_state = True, vo_version = Written, vo_remove = (\<lambda>_. True) \<rparr>"

definition ex_vrq :: reqctx where
  "ex_vrq = \<lparr> rq_user = None, rq_ip = [], rq_now = 0, rq_adminUser = ''admin'' \<rparr>"

definition ex_edited :: vstate where
  "ex_edited = initial_state \<lparr> vs_Section := (vs_Section initial_state)(SecRoutes := ''{routes}'') \<rparr>"

definition ex_vops :: "vop list" where
  "ex_vops = [VSave ex_edited (ex_vio 1), VCheckpoint (ex_vio 2) (ex_vio 3) ex_vrq None]"

definition ex_s0 :: vstore where
  "ex_s0 = the (openStore ex_sha True (ex_vio 0) [] Absent)"

lemma ex_start: "openStore ex_sha True (ex_vio 0) [] Absent = Some ex_s0"
  by (simp add: ex_s0_def openStore_def saveLocked_def ex_vio_def)

lemma ex_vio_sel [simp]: "vo_now (ex_vio t) = 1700000000000000000 + t" "vo_state (ex_vio t)"
  by (simp_all add: ex_vio_def)

lemma ex_clean: "0 \<le> t \<Longrightarrow> t < 10 \<Longrightarrow> clean_io (ex_vio t)"
  by (simp add: clean_io_def ex_vio_def stamp19_def)

lemma ex_ops_clean: "\<forall>op \<in> set ex_vops. op_clean op" "op_times ex_vops = [1700000000000000001, 1700000000000000002, 1700000000000000003]"
  by (simp_all add: ex_vops_def op_times_def ex_clean)

lemma ex_fp_differs: "sectionFingerprints ex_sha ex_edited \<noteq> sectionFingerprints ex_sha initial_state"
proof
  assume "sectionFingerprints ex_sha ex_edited = sectionFingerprints ex_sha initial_state"
  then have "sectionHash ex_sha (vs_Section ex_edited SecRoutes) = sectionHash ex_sha (vs_Section initial_state SecRoutes)"
    by (metis fp_lookup_section)
  then show False
    by (simp add: ex_edited_def initial_state_def sectionHash_def ex_sha_def hex_EncodeToString_def)
qed

abbreviation ex_spec0 :: hist_spec where
  "ex_spec0 \<equiv> \<lparr> hs_data = initial_state, hs_saved = initial_state, hs_log = [(1700000000000000000, initial_state)] \<rparr>"

lemma ex_cv_log: "hs_log (fold (hs_step ex_sha) ex_vops ex_spec0) =
    [(1700000000000000002, ex_edited), (1700000000000000001, ex_edited), (1700000000000000000, initial_state)]"
  using ex_fp_differs by (simp add: ex_vops_def hs_save_def hs_push_def hs_audit_def maxConfigVersions_def Let_def)

theorem versions_refine_history_witness:
  "map vh_ID (listVersions (vrun ex_sha ex_vops ex_s0)) = map Itoa [1700000000000000002, 1700000000000000001, 1700000000000000000]"
  using versions_refine_history [OF ex_start ex_clean, of ex_vops, OF _ _ ex_ops_clean(1) _ refl refl] ex_cv_log
  by (simp add: ex_ops_clean(2))


lemma ex_run: "store_good ex_sha (vrun ex_sha ex_vops ex_s0)"
  "store_abs (vrun ex_sha ex_vops ex_s0) = fold (hs_step ex_sha) ex_vops ex_spec0"
  using run_refines [of ex_sha ex_s0 ex_vops] openStore_fresh [OF ex_start ex_clean] ex_ops_clean by simp_all

lemma ex_restore:
  obtains changed s1 v where
    "apiConfigVersionRestore ex_sha (ex_vio 4) (ex_vio 5) ex_vrq (Itoa 1700000000000000000) (vrun ex_sha ex_vops ex_s0) = (VRestored changed, s1)"
    "readVersion (vrun ex_sha ex_vops ex_s0) (Itoa 1700000000000000000) = Some v" "cv_State v = Some initial_state"
proof -
  let ?s = "vrun ex_sha ex_vops ex_s0"
  have g: "dir_ok (st_files ?s)" "st_verDir ?s"
    using ex_run(1) by (simp_all add: store_good_def dir_good_def)
  have "hs_lookup (store_abs ?s) (Itoa 1700000000000000000) = Some initial_state"
    using ex_cv_log by (intro hs_lookup_mem g) (simp add: ex_run(2))
  then obtain v where v: "readVersion ?s (Itoa 1700000000000000000) = Some v" "cv_State v = Some initial_state"
    using hs_lookup_iff [OF g] by blast
  with readVersion_id [OF g] that show thesis
    unfolding restore_answer by (metis ex_vio_sel(2))
qed

abbreviation ex_restored :: "vreply \<times> vstore" where
  "ex_restored \<equiv> apiConfigVersionRestore ex_sha (ex_vio 4) (ex_vio 5) ex_vrq (Itoa 1700000000000000000) (vrun ex_sha ex_vops ex_s0)"

theorem restore_effect_witness: "vs_Section (st_data (snd ex_restored)) = vs_Section initial_state"
proof -
  obtain changed s1 v where e: "ex_restored = (VRestored changed, s1)"
    "readVersion (vrun ex_sha ex_vops ex_s0) (Itoa 1700000000000000000) = Some v" "cv_State v = Some initial_state"
    using ex_restore by metis
  with restore_effect [OF e(1)] show ?thesis
    by auto
qed

theorem restore_undo_witness:
  "\<exists>changed s2. apiConfigVersionRestore ex_sha (ex_vio 6) (ex_vio 7) ex_vrq (vh_ID (hd (listVersions (vrun ex_sha ex_vops ex_s0)))) (snd ex_restored)
       = (VRestored changed, s2)
     \<and> sectionFingerprints ex_sha (st_data s2) = sectionFingerprints ex_sha ex_edited"
proof -
  obtain changed s1 where e: "ex_restored = (VRestored changed, s1)"
    using ex_restore by metis
  have d: "sectionFingerprints ex_sha (st_data (vrun ex_sha ex_vops ex_s0)) = sectionFingerprints ex_sha ex_edited"
    "sectionFingerprints ex_sha (the (st_file (vrun ex_sha ex_vops ex_s0))) = sectionFingerprints ex_sha ex_edited"
    using arg_cong [OF ex_run(2), of hs_data] arg_cong [OF ex_run(2), of hs_saved] ex_fp_differs
    by (simp_all add: ex_vops_def hs_save_def hs_push_def hs_audit_def maxConfigVersions_def Let_def)
  have c: "clean_io (ex_vio 0)" "clean_io (ex_vio 4)" "clean_io (ex_vio 5)" "vo_state (ex_vio 6)"
    by (simp_all add: ex_clean)
  have t: "sorted_wrt (<) (vo_now (ex_vio 0) # op_times ex_vops @ [vo_now (ex_vio 4), vo_now (ex_vio 5)])"
    by (simp add: ex_ops_clean(2))
  from restore_undo [OF ex_start c(1) ex_ops_clean(1) t refl _ c(2,3,4) e] show ?thesis
    unfolding d e snd_conv by blast
qed

end
