(* ===== verification/Ids.thy ===== *)
theory Ids
  imports Gateway
begin

text \<open>
  Intrusion detection: the Suricata configuration (\<open>internal/adapters/suricata\<close>) and the
  handlers that switch the engine between off, IDS and IPS (\<open>cmd/saguaro/ids.go\<close>). IPS mode
  needs the firewall's queue rule, so the handlers change the gateway configuration through
  the firewall transaction of \<open>Gateway\<close>. The root adapter, the package manager, the file
  system, the hardware figures and the clock (nanoseconds) are parameters of a request.
\<close>

section \<open>The engine's configuration\<close>

definition ModeOff :: string where "ModeOff = ''off''"
definition ModeIDS :: string where "ModeIDS = ''ids''"
definition ModeIPS :: string where "ModeIPS = ''ips''"

record SuriConfig =
  su_Mode :: string
  su_Interface :: string
  su_HomeNet :: string

datatype SuriError = SuriMode | SuriIface | SuriHomeNet | SuriOff

definition su_validIface :: "string \<Rightarrow> bool" where
  "su_validIface name \<longleftrightarrow> name \<noteq> [] \<and> length name \<le> 15 \<and> list_all iface_char name"

text \<open>Space, tab, newline and both quotes.\<close>

definition su_bad_char :: "char \<Rightarrow> bool" where
  "su_bad_char c \<longleftrightarrow> c = CHR '' '' \<or> c = CHR 0x09 \<or> c = CHR 0x0A \<or> c = CHR 0x22 \<or> c = CHR 0x27"

definition su_Validate :: "SuriConfig \<Rightarrow> SuriError option" where
  "su_Validate c =
     (if su_Mode c = ModeOff then None
      else if su_Mode c \<noteq> ModeIDS \<and> su_Mode c \<noteq> ModeIPS then Some SuriMode
      else if su_Mode c = ModeIDS \<and> \<not> su_validIface (su_Interface c) then Some SuriIface
      else if su_HomeNet c \<noteq> [] \<and> list_ex su_bad_char (su_HomeNet c) then Some SuriHomeNet
      else None)"

definition su_home :: "SuriConfig \<Rightarrow> string" where
  "su_home c = (if su_HomeNet c = [] then ''[192.168.0.0/16,10.0.0.0/8,172.16.0.0/12]'' else ''['' @ su_HomeNet c @ '']'')"

definition su_groups :: "string list" where
  "su_groups = [''HTTP_SERVERS'', ''SMTP_SERVERS'', ''SQL_SERVERS'', ''DNS_SERVERS'', ''TELNET_SERVERS'', ''DNP3_SERVER'',
     ''DNP3_CLIENT'', ''MODBUS_CLIENT'', ''MODBUS_SERVER'', ''ENIP_CLIENT'', ''ENIP_SERVER'']"

definition su_vars :: "SuriConfig \<Rightarrow> string list" where
  "su_vars c =
     [''%YAML 1.1'', ''---'', ''# Managed by Saguaro (generated). Manual edits are overwritten on apply.'',
      ''vars:'', ''  address-groups:'', ''    HOME_NET: '' @ dq (su_home c), ''    EXTERNAL_NET: '' @ dq ''!$HOME_NET'']
   @ map (\<lambda>g. ''    '' @ g @ '': '' @ dq ''$HOME_NET'') su_groups
   @ [''    AIM_SERVERS: '' @ dq ''$EXTERNAL_NET'', ''    DC_SERVERS: '' @ dq ''$HOME_NET'', ''  port-groups:'',
      ''    HTTP_PORTS: '' @ dq ''80'', ''    SHELLCODE_PORTS: '' @ dq ''!80'', ''    ORACLE_PORTS: 1521'',
      ''    SSH_PORTS: 22'', ''    DNP3_PORTS: 20000'', ''    MODBUS_PORTS: 502'',
      ''    FILE_DATA_PORTS: '' @ dq ''[$HTTP_PORTS,110,143]'', ''    FTP_PORTS: 21'', ''    GENEVE_PORTS: 6081'',
      ''    VXLAN_PORTS: 4789'', ''    TEREDO_PORTS: 3544'', []]"

definition su_outputs :: "string list" where
  "su_outputs =
     [''default-log-dir: /var/log/suricata'', [], ''stats:'', ''  enabled: yes'', ''  interval: 60'', [], ''outputs:'',
      ''  - eve-log:'', ''      enabled: yes'', ''      filetype: regular'', ''      filename: eve.json'', ''      types:'',
      ''        - alert:'', ''            metadata: yes'', ''        - stats'', []]"

definition su_capture :: "SuriConfig \<Rightarrow> string list" where
  "su_capture c =
     (if su_Mode c = ModeIDS
      then [''af-packet:'', ''  - interface: '' @ su_Interface c, ''    cluster-id: 99'', ''    cluster-type: cluster_flow'',
            ''    defrag: yes'', []]
      else [''nfq:'', ''  mode: accept'', ''  fail-open: yes'', []])"

definition su_rest :: "string list" where
  "su_rest =
     [''app-layer:'', ''  protocols:'', ''    tls:'', ''      enabled: yes'', ''    http:'', ''      enabled: yes'',
      ''    dns:'', ''      enabled: yes'', [], ''default-rule-path: /var/lib/suricata/rules'', ''rule-files:'',
      ''  - suricata.rules'']"

definition su_lines :: "SuriConfig \<Rightarrow> string list" where
  "su_lines c = su_vars c @ su_outputs @ su_capture c @ su_rest"

definition su_Generate :: "SuriConfig \<Rightarrow> SuriError + string" where
  "su_Generate c =
     (case su_Validate c of
        Some e \<Rightarrow> Inl e
      | None \<Rightarrow> if su_Mode c = ModeOff then Inl SuriOff else Inr (unlines (su_lines c)))"

section \<open>State of the module\<close>

text \<open>The zero time is \<open>None\<close>.\<close>

record idsState =
  id_Mode :: string
  id_Interface :: string
  id_HomeNet :: string
  id_IDSEnabledAt :: "int option"
  id_IPSEnabledAt :: "int option"

text \<open>
  \<open>ia_engine\<close> is the mode the adapter runs the engine in, \<open>None\<close> when it is stopped.
\<close>

record idsApp =
  ia_gw :: gwApp
  ia_ids :: "idsState option"
  ia_staged :: string
  ia_engine :: "string option"

text \<open>
  The adapter succeeds (\<open>None\<close>) or fails and leaves the engine in some state.
\<close>

record idsIO =
  ii_gw :: gwIO
  ii_write :: bool
  ii_adapter :: "string option option"
  ii_save :: bool
  ii_now :: int
  ii_memMB :: int
  ii_cores :: int
  ii_minDays :: int
  ii_installed :: bool
  ii_pkg :: bool
  ii_rules :: bool
  ii_rq :: reqctx

definition idsMinMemMB :: int where "idsMinMemMB = 7500"
definition idsMinCores :: int where "idsMinCores = 4"

definition idsHardwareOK :: "idsIO \<Rightarrow> bool" where
  "idsHardwareOK io \<longleftrightarrow> \<not> (ii_memMB io < idsMinMemMB \<or> ii_cores io < idsMinCores)"

definition getIDS :: "idsApp \<Rightarrow> idsState" where
  "getIDS a = (case ia_ids a of
     Some st \<Rightarrow> st
   | None \<Rightarrow> \<lparr> id_Mode = ModeOff, id_Interface = [], id_HomeNet = [], id_IDSEnabledAt = None, id_IPSEnabledAt = None \<rparr>)"

text \<open>The store keeps the value in memory even when the file cannot be written.\<close>

definition setIDS :: "idsState \<Rightarrow> idsApp \<Rightarrow> idsApp" where
  "setIDS st a = a \<lparr> ia_ids := Some st \<rparr>"

definition ids_day :: int where "ids_day = 86400 * 10 ^ 9"

text \<open>
  Whole days, truncated towards zero. The source divides the floating-point hours, which is
  exact at the nanosecond for the first months.
\<close>

definition whole_days :: "int \<Rightarrow> int" where
  "whole_days d = (if 0 \<le> d then d div ids_day else - ((- d) div ids_day))"

definition ipsAllowed :: "idsIO \<Rightarrow> idsState \<Rightarrow> bool" where
  "ipsAllowed io st =
     (if id_Mode st = ModeOff then False
      else case id_IDSEnabledAt st of
             None \<Rightarrow> False
           | Some t \<Rightarrow> \<not> whole_days (ii_now io - t) < ii_minDays io)"

section \<open>The firewall's queue rule\<close>

text \<open>
  The ruleset is rendered from the runtime view and the flag is stored last; \<open>confirm\<close> makes
  the change final at once.
\<close>

definition setGatewayIPS :: "gwIO \<Rightarrow> bool \<Rightarrow> bool \<Rightarrow> gwApp \<Rightarrow> bool \<times> gwApp" where
  "setGatewayIPS io enabled confirm a =
     (let (stored, ok) = getGateway a
      in if \<not> ok then (False, a)
         else let new = stored \<lparr> c_IPSEnabled := enabled \<rparr>;
                  gen = (fst (firewallConfig io a)) \<lparr> c_IPSEnabled := enabled \<rparr>
              in case stage_run io gen a of
                   (Some _, a1) \<Rightarrow> (False, a1)
                 | (None, a1) \<Rightarrow>
                     if confirm
                     then let (okc, a2) = run_action io ''confirm'' a1
                          in if okc then (io_saved io, setGateway new a2) else (False, a2)
                     else (io_saved io, setGateway new a1))"

section \<open>The handlers\<close>

text \<open>
  Replies by status: done, done with the note that the queue rule is still there, refused, or
  answered 500 after the state in memory had changed.
\<close>

datatype idsReply = IOk | INote | IRefused nat | IUnsaved

definition ids_record :: "idsIO \<Rightarrow> string \<Rightarrow> string \<Rightarrow> string \<Rightarrow> string \<Rightarrow> idsApp \<Rightarrow> idsApp" where
  "ids_record io action target result severity a =
     a \<lparr> ia_gw := gw_record (ii_rq io) action target result severity (ia_gw a) \<rparr>"

record enableInput =
  ei_Mode :: string
  ei_Interface :: string
  ei_HomeNet :: string
  ei_Force :: bool

definition enable_config :: "enableInput \<Rightarrow> idsState \<Rightarrow> SuriConfig" where
  "enable_config i st =
     \<lparr> su_Mode = ei_Mode i,
       su_Interface = (if ei_Interface i = [] then id_Interface st else ei_Interface i),
       su_HomeNet = (if ei_HomeNet i = [] then id_HomeNet st else ei_HomeNet i) \<rparr>"

definition enabled_state :: "int \<Rightarrow> SuriConfig \<Rightarrow> idsState \<Rightarrow> idsState" where
  "enabled_state now c st =
     \<lparr> id_Mode = su_Mode c, id_Interface = su_Interface c, id_HomeNet = su_HomeNet c,
       id_IDSEnabledAt = (if id_Mode st = ModeOff \<or> id_IDSEnabledAt st = None then Some now else id_IDSEnabledAt st),
       id_IPSEnabledAt = (if su_Mode c = ModeIPS then Some now else id_IPSEnabledAt st) \<rparr>"

definition store_ids :: "idsIO \<Rightarrow> string \<Rightarrow> string \<Rightarrow> idsReply \<Rightarrow> idsState \<Rightarrow> idsApp \<Rightarrow> idsReply \<times> idsApp" where
  "store_ids io action target reply st a =
     (let a1 = setIDS st a
      in if \<not> ii_save io then (IUnsaved, a1) else (reply, ids_record io action target ''success'' ''security'' a1))"

text \<open>The checks before anything is changed: a refusal or the text to stage.\<close>

definition enable_guard :: "idsIO \<Rightarrow> enableInput \<Rightarrow> idsApp \<Rightarrow> nat + string" where
  "enable_guard io i a =
     (if ei_Mode i \<noteq> ModeIDS \<and> ei_Mode i \<noteq> ModeIPS then Inl 400
      else if \<not> idsHardwareOK io then Inl 409
      else if ei_Mode i = ModeIPS \<and> (\<not> snd (getGateway (ia_gw a)) \<or> \<not> c_GatewayEnabled (fst (getGateway (ia_gw a)))) then Inl 409
      else if ei_Mode i = ModeIPS \<and> \<not> ipsAllowed io (getIDS a) \<and> \<not> ei_Force i then Inl 409
      else case su_Generate (enable_config i (getIDS a)) of Inl _ \<Rightarrow> Inl 400 | Inr t \<Rightarrow> Inr t)"

text \<open>After the engine was started; \<open>st\<close> is the state of the module before the request.\<close>

definition enable_commit :: "idsIO \<Rightarrow> enableInput \<Rightarrow> idsState \<Rightarrow> idsApp \<Rightarrow> idsReply \<times> idsApp" where
  "enable_commit io i st a2 =
     (let st' = enabled_state (ii_now io) (enable_config i st) st
      in if ei_Mode i = ModeIPS
         then let (ok, g) = setGatewayIPS (ii_gw io) True False (ia_gw a2); a3 = a2 \<lparr> ia_gw := g \<rparr>
              in if \<not> ok then (IRefused 502, a3) else store_ids io ''ids-enable'' (ei_Mode i) IOk st' a3
         else store_ids io ''ids-enable'' (ei_Mode i) IOk st' a2)"

definition apiIDSEnable :: "idsIO \<Rightarrow> enableInput \<Rightarrow> idsApp \<Rightarrow> idsReply \<times> idsApp" where
  "apiIDSEnable io i a =
     (case enable_guard io i a of
        Inl n \<Rightarrow> (IRefused n, a)
      | Inr t \<Rightarrow>
          if \<not> ii_write io then (IRefused 500, a)
          else let a1 = a \<lparr> ia_staged := t \<rparr>
               in case ii_adapter io of
                    Some e \<Rightarrow> (IRefused 502, ids_record io ''ids-enable'' (ei_Mode i) ''failed'' ''security'' (a1 \<lparr> ia_engine := e \<rparr>))
                  | None \<Rightarrow> enable_commit io i (getIDS a) (a1 \<lparr> ia_engine := Some (ei_Mode i) \<rparr>))"

definition apiIDSDisable :: "idsIO \<Rightarrow> idsApp \<Rightarrow> idsReply \<times> idsApp" where
  "apiIDSDisable io a =
     (let st = getIDS a
      in case ii_adapter io of
           Some e \<Rightarrow> (IRefused 502, a \<lparr> ia_engine := e \<rparr>)
         | None \<Rightarrow>
             let a1 = a \<lparr> ia_engine := None \<rparr>;
                 off = st \<lparr> id_Mode := ModeOff, id_IPSEnabledAt := None \<rparr>
             in if id_Mode st = ModeIPS
                then let (ok, g) = setGatewayIPS (ii_gw io) False True (ia_gw a1); a2 = a1 \<lparr> ia_gw := g \<rparr>
                     in if ok then store_ids io ''ids-disable'' ''suricata'' IOk off a2
                        else store_ids io ''ids-disable'' ''suricata'' INote off
                               (ids_record io ''ids-disable'' ''nftables'' ''failed'' ''security'' a2)
                else store_ids io ''ids-disable'' ''suricata'' IOk off a1)"

definition apiIDSInstall :: "idsIO \<Rightarrow> idsApp \<Rightarrow> idsReply \<times> idsApp" where
  "apiIDSInstall io a =
     (if \<not> idsHardwareOK io then (IRefused 409, a)
      else if ii_installed io then (IOk, a)
      else if \<not> ii_pkg io then (IRefused 502, ids_record io ''ids-install'' ''suricata'' ''failed'' ''warning'' a)
      else let a1 = (if ii_rules io then a else ids_record io ''ids-install'' ''suricata-update'' ''failed'' ''warning'' a)
           in (IOk, ids_record io ''ids-install'' ''suricata'' ''success'' ''security'' a1))"

definition apiIDSUpdateRules :: "idsIO \<Rightarrow> idsApp \<Rightarrow> idsReply \<times> idsApp" where
  "apiIDSUpdateRules io a =
     (if \<not> ii_rules io then (IRefused 502, ids_record io ''ids-update-rules'' ''suricata'' ''failed'' ''warning'' a)
      else (IOk, ids_record io ''ids-update-rules'' ''suricata'' ''success'' ''info'' a))"

section \<open>Sequences of requests\<close>

datatype idsReq = IEnable enableInput | IDisable | IInstall | IUpdateRules | IGateway gw_request

fun ids_handle :: "idsIO \<Rightarrow> idsReq \<Rightarrow> idsApp \<Rightarrow> idsReply \<times> idsApp" where
  "ids_handle io (IEnable i) a = apiIDSEnable io i a"
| "ids_handle io IDisable a = apiIDSDisable io a"
| "ids_handle io IInstall a = apiIDSInstall io a"
| "ids_handle io IUpdateRules a = apiIDSUpdateRules io a"
| "ids_handle io (IGateway q) a = (IOk, a \<lparr> ia_gw := snd (gw_handle (ii_gw io) (ii_rq io) q (ia_gw a)) \<rparr>)"

type_synonym ids_event = "int \<times> idsReq \<times> idsReply"

fun ids_run :: "(idsIO \<times> idsReq) list \<Rightarrow> idsApp \<Rightarrow> ids_event list \<times> idsApp" where
  "ids_run [] a = ([], a)"
| "ids_run ((io, q) # qs) a =
     (let (r, a1) = ids_handle io q a; (evs, a2) = ids_run qs a1 in ((ii_now io, q, r) # evs, a2))"

text \<open>
  The events that switch the engine on or off: those whose state change is in force, whether
  or not it could be written to the file.
\<close>

fun starts_engine :: "ids_event \<Rightarrow> bool" where
  "starts_engine (_, IEnable _, r) \<longleftrightarrow> r = IOk \<or> r = IUnsaved"
| "starts_engine _ \<longleftrightarrow> False"

fun stops_engine :: "ids_event \<Rightarrow> bool" where
  "stops_engine (_, IDisable, r) \<longleftrightarrow> r = IOk \<or> r = INote \<or> r = IUnsaved"
| "stops_engine _ \<longleftrightarrow> False"

definition observed_since :: "int \<Rightarrow> ids_event list \<Rightarrow> bool" where
  "observed_since t evs \<longleftrightarrow> (\<exists>pre e post. evs = pre @ e # post \<and> fst e = t \<and> starts_engine e \<and> (\<forall>x \<in> set post. \<not> stops_engine x))"

lemma observed_new: "starts_engine e \<Longrightarrow> observed_since (fst e) (evs @ [e])"
  unfolding observed_since_def by (intro exI [of _ evs] exI [of _ e] exI [of _ "[]"]) simp

lemma observed_more: "observed_since t evs \<Longrightarrow> \<not> stops_engine e \<Longrightarrow> observed_since t (evs @ [e])"
proof -
  assume "observed_since t evs" "\<not> stops_engine e"
  then obtain pre x post where "evs = pre @ x # post" "fst x = t" "starts_engine x" "\<forall>y \<in> set (post @ [e]). \<not> stops_engine y"
    by (auto simp: observed_since_def)
  then have "evs @ [e] = pre @ x # (post @ [e])" by simp
  with \<open>fst x = t\<close> \<open>starts_engine x\<close> \<open>\<forall>y \<in> set (post @ [e]). \<not> stops_engine y\<close> show ?thesis
    unfolding observed_since_def by blast
qed

section \<open>What one request does\<close>

lemma ids_frame [simp]:
  "ia_ids (ids_record io w t r s a) = ia_ids a" "ia_engine (ids_record io w t r s a) = ia_engine a"
  "getIDS (ids_record io w t r s a) = getIDS a" "ga_gw (ia_gw (ids_record io w t r s a)) = ga_gw (ia_gw a)"
  "ia_ids (setIDS st a) = Some st" "getIDS (setIDS st a) = st" "ia_gw (setIDS st a) = ia_gw a" "ia_engine (setIDS st a) = ia_engine a"
  by (simp_all add: ids_record_def getIDS_def setIDS_def)

lemma store_ids_effect:
  "store_ids io w t r st a = (r', a') \<Longrightarrow> (r' = r \<or> r' = IUnsaved) \<and> ia_ids a' = Some st \<and> ia_engine a' = ia_engine a
     \<and> ga_gw (ia_gw a') = ga_gw (ia_gw a) \<and> (r' = IOk \<longrightarrow> a' = ids_record io w t ''success'' ''security'' (setIDS st a) \<and> r = IOk)"
  by (auto simp: store_ids_def Let_def split: if_splits)

text \<open>The queue rule: every attempt keeps the configuration but for the flag.\<close>

lemma setGatewayIPS_cases:
  assumes "setGatewayIPS io en cf a = (ok, a')"
  shows "ga_gw a' = ga_gw a \<and> \<not> ok \<or> (\<exists>c. ga_gw a = Some c \<and> ga_gw a' = Some (c \<lparr> c_IPSEnabled := en \<rparr>))"
  using assms stage_run_frame(1) [of io "(fst (firewallConfig io a)) \<lparr> c_IPSEnabled := en \<rparr>" a]
  by (auto simp: setGatewayIPS_def getGateway_def run_action_def Let_def split: option.splits prod.splits if_splits)

lemma firewallConfig_cong:
  "ga_gw a' = Some (c \<lparr> c_IPSEnabled := en \<rparr>) \<Longrightarrow> ga_gw a = Some c \<Longrightarrow> ga_s2s a' = ga_s2s a \<Longrightarrow> ga_ipsec a' = ga_ipsec a \<Longrightarrow>
   ga_wan a' = ga_wan a \<Longrightarrow> ga_vpn a' = ga_vpn a \<Longrightarrow> ga_ovpn a' = ga_ovpn a \<Longrightarrow>
   fst (firewallConfig io a') = (fst (firewallConfig io a)) \<lparr> c_IPSEnabled := en \<rparr>"
  by (simp add: firewallConfig_def getGateway_def tunnelNets_def pbrUplinks_def openvpnFirewall_def vpnPorts_def Let_def)

text \<open>On success the ruleset in force is the one of the configuration that is now stored.\<close>

lemma setGatewayIPS_ok:
  assumes "setGatewayIPS io en cf a = (True, a')"
  shows "\<exists>c tx. ga_gw a = Some c \<and> ga_gw a' = Some (c \<lparr> c_IPSEnabled := en \<rparr>)
    \<and> Generate (fst (firewallConfig io a')) = Return tx
    \<and> ga_runs a' = ga_runs a @ (''apply'', tx) # (if cf then [(''confirm'', tx)] else [])"
proof -
  obtain c where c: "ga_gw a = Some c"
    using assms by (auto simp: setGatewayIPS_def getGateway_def split: option.splits)
  let ?gen = "(fst (firewallConfig io a)) \<lparr> c_IPSEnabled := en \<rparr>"
  obtain tx where t: "Generate ?gen = Return tx"
    using assms c by (cases "Generate ?gen") (auto simp: setGatewayIPS_def getGateway_def stage_run_def Let_def)
  have a': "ga_gw a' = Some (c \<lparr> c_IPSEnabled := en \<rparr>)" "ga_s2s a' = ga_s2s a" "ga_ipsec a' = ga_ipsec a" "ga_wan a' = ga_wan a"
    "ga_vpn a' = ga_vpn a" "ga_ovpn a' = ga_ovpn a"
    "ga_runs a' = ga_runs a @ (''apply'', tx) # (if cf then [(''confirm'', tx)] else [])"
    using assms c t
    by (auto simp: setGatewayIPS_def getGateway_def stage_run_def run_action_def setGateway_def Let_def split: if_splits)
  show ?thesis
    using c t a' firewallConfig_cong [OF a'(1) c a'(2-6)] by auto
qed

text \<open>An enabling request that changed the state of the module.\<close>

definition enabled_by :: "idsIO \<Rightarrow> enableInput \<Rightarrow> idsApp \<Rightarrow> idsApp \<Rightarrow> bool" where
  "enabled_by io i a a' \<longleftrightarrow> (\<exists>t. enable_guard io i a = Inr t)
     \<and> ia_ids a' = Some (enabled_state (ii_now io) (enable_config i (getIDS a)) (getIDS a)) \<and> ia_engine a' = Some (ei_Mode i)
     \<and> (if ei_Mode i = ModeIPS
        then \<exists>g. setGatewayIPS (ii_gw io) True False (ia_gw a) = (True, g) \<and> ga_gw (ia_gw a') = ga_gw g
        else ga_gw (ia_gw a') = ga_gw (ia_gw a))"

definition flag_kept :: "gwApp \<Rightarrow> gwApp \<Rightarrow> bool" where
  "flag_kept g g' \<longleftrightarrow> (\<forall>c. ga_gw g = Some c \<and> c_IPSEnabled c \<longrightarrow> (\<exists>c'. ga_gw g' = Some c' \<and> c_IPSEnabled c'))"

lemma commit_effect:
  assumes "enable_commit io i st a2 = (r, a')"
  shows "(r = IOk \<or> r = IUnsaved) \<and> ia_ids a' = Some (enabled_state (ii_now io) (enable_config i st) st) \<and> ia_engine a' = ia_engine a2
      \<and> (if ei_Mode i = ModeIPS
         then \<exists>g. setGatewayIPS (ii_gw io) True False (ia_gw a2) = (True, g) \<and> ga_gw (ia_gw a') = ga_gw g
         else ga_gw (ia_gw a') = ga_gw (ia_gw a2))
    \<or> r = IRefused 502 \<and> ia_ids a' = ia_ids a2 \<and> flag_kept (ia_gw a2) (ia_gw a')"
proof (cases "ei_Mode i = ModeIPS")
  case True
  obtain ok g where g: "setGatewayIPS (ii_gw io) True False (ia_gw a2) = (ok, g)"
    by (cases "setGatewayIPS (ii_gw io) True False (ia_gw a2)")
  have "flag_kept (ia_gw a2) g"
    using setGatewayIPS_cases [OF g] by (auto simp: flag_kept_def)
  then show ?thesis
    using assms True g by (cases ok) (auto simp: enable_commit_def Let_def dest!: store_ids_effect)
next
  case False
  then show ?thesis
    using assms by (auto simp: enable_commit_def Let_def dest!: store_ids_effect)
qed

lemma enable_effect:
  assumes "apiIDSEnable io i a = (r, a')"
  shows "(r = IOk \<or> r = IUnsaved) \<and> enabled_by io i a a' \<or> (\<exists>n. r = IRefused n) \<and> ia_ids a' = ia_ids a \<and> flag_kept (ia_gw a) (ia_gw a')"
proof (cases "enable_guard io i a")
  case (Inl n)
  then show ?thesis
    using assms by (auto simp: apiIDSEnable_def flag_kept_def)
next
  case (Inr t)
  let ?a2 = "a \<lparr> ia_staged := t, ia_engine := Some (ei_Mode i) \<rparr>"
  consider "\<not> ii_write io \<or> ii_adapter io \<noteq> None" | "ii_write io" "ii_adapter io = None"
    by blast
  then show ?thesis
  proof cases
    case 1
    then show ?thesis
      using assms Inr by (auto simp: apiIDSEnable_def flag_kept_def Let_def split: if_splits option.splits)
  next
    case 2
    then have "enable_commit io i (getIDS a) ?a2 = (r, a')"
      using assms Inr by (simp add: apiIDSEnable_def Let_def)
    from commit_effect [OF this] show ?thesis
      using Inr by (auto simp: enabled_by_def)
  qed
qed

lemma disable_effect:
  assumes "apiIDSDisable io a = (r, a')"
  shows "(r = IOk \<or> r = INote \<or> r = IUnsaved) \<and> id_Mode (getIDS a') = ModeOff \<and> ia_engine a' = None
      \<and> (id_Mode (getIDS a) \<noteq> ModeIPS \<longrightarrow> ga_gw (ia_gw a') = ga_gw (ia_gw a))
    \<or> r = IRefused 502 \<and> ia_ids a' = ia_ids a \<and> ga_gw (ia_gw a') = ga_gw (ia_gw a)"
  using assms
  by (cases "setGatewayIPS (ii_gw io) False True (ia_gw a)")
    (auto simp: apiIDSDisable_def Let_def getIDS_def [of a'] split: option.splits if_splits dest!: store_ids_effect)

lemma other_effect:
  "ia_ids (snd (apiIDSInstall io a)) = ia_ids a" "ga_gw (ia_gw (snd (apiIDSInstall io a))) = ga_gw (ia_gw a)"
  "ia_ids (snd (apiIDSUpdateRules io a)) = ia_ids a" "ga_gw (ia_gw (snd (apiIDSUpdateRules io a))) = ga_gw (ia_gw a)"
  by (simp_all add: apiIDSInstall_def apiIDSUpdateRules_def Let_def)

lemma getIDS_cong: "ia_ids a' = ia_ids a \<Longrightarrow> getIDS a' = getIDS a"
  by (simp add: getIDS_def)

lemma ids_run_snoc:
  "ids_run (qs @ [(io, q)]) a =
     (let (evs, a1) = ids_run qs a; (r, a2) = ids_handle io q a1 in (evs @ [(ii_now io, q, r)], a2))"
  by (induction qs arbitrary: a) (auto simp: Let_def split: prod.splits)

section \<open>The observation period\<close>

definition ids_inv :: "ids_event list \<Rightarrow> idsApp \<Rightarrow> bool" where
  "ids_inv evs a \<longleftrightarrow> id_Mode (getIDS a) = ModeOff \<or> (\<exists>t. id_IDSEnabledAt (getIDS a) = Some t \<and> observed_since t evs)"

lemma ids_inv_step:
  assumes "ids_inv evs a" "ids_handle io q a = (r, a')"
  shows "ids_inv (evs @ [(ii_now io, q, r)]) a'"
proof (cases q)
  case (IEnable i)
  with assms(2) have e: "apiIDSEnable io i a = (r, a')" by simp
  show ?thesis
    using enable_effect [OF e]
  proof
    assume x: "(r = IOk \<or> r = IUnsaved) \<and> enabled_by io i a a'"
    then have st: "getIDS a' = enabled_state (ii_now io) (enable_config i (getIDS a)) (getIDS a)"
      by (simp add: enabled_by_def getIDS_def)
    show ?thesis
    proof (cases "id_Mode (getIDS a) = ModeOff \<or> id_IDSEnabledAt (getIDS a) = None")
      case True
      then have "id_IDSEnabledAt (getIDS a') = Some (ii_now io)"
        by (simp add: st enabled_state_def)
      then show ?thesis
        using x IEnable observed_new [of "(ii_now io, q, r)" evs] by (simp add: ids_inv_def)
    next
      case False
      then obtain t where "id_IDSEnabledAt (getIDS a) = Some t" "observed_since t evs"
        using assms(1) by (auto simp: ids_inv_def)
      with False show ?thesis
        using IEnable observed_more [of t evs "(ii_now io, q, r)"] by (simp add: ids_inv_def st enabled_state_def)
    qed
  next
    assume "(\<exists>n. r = IRefused n) \<and> ia_ids a' = ia_ids a \<and> flag_kept (ia_gw a) (ia_gw a')"
    then show ?thesis
      using assms(1) IEnable observed_more [of _ evs "(ii_now io, q, r)"] getIDS_cong [of a' a] by (auto simp: ids_inv_def)
  qed
next
  case IDisable
  with assms(2) have e: "apiIDSDisable io a = (r, a')" by simp
  show ?thesis
    using disable_effect [OF e] assms(1) IDisable observed_more [of _ evs "(ii_now io, q, r)"] getIDS_cong [of a' a]
    by (auto simp: ids_inv_def)
next
  case IInstall
  then show ?thesis
    using assms observed_more [of _ evs "(ii_now io, q, r)"] getIDS_cong [OF other_effect(1), of io a] by (auto simp: ids_inv_def)
next
  case IUpdateRules
  then show ?thesis
    using assms observed_more [of _ evs "(ii_now io, q, r)"] getIDS_cong [OF other_effect(3), of io a] by (auto simp: ids_inv_def)
next
  case (IGateway g)
  then have "getIDS a' = getIDS a"
    using assms(2) by (auto intro: getIDS_cong)
  then show ?thesis
    using assms(1) IGateway observed_more [of _ evs "(ii_now io, q, r)"] by (auto simp: ids_inv_def)
qed

lemma ids_run_inv:
  assumes "ia_ids a = None" "ids_run qs a = (evs, a')"
  shows "ids_inv evs a'"
  using assms(2)
proof (induction qs arbitrary: evs a' rule: rev_induct)
  case Nil
  then show ?case
    using assms(1) by (auto simp: ids_inv_def getIDS_def)
next
  case (snoc x qs)
  obtain io q where x: "x = (io, q)" by (cases x)
  obtain evs1 a1 where r: "ids_run qs a = (evs1, a1)" by (cases "ids_run qs a")
  obtain r' a2 where h: "ids_handle io q a1 = (r', a2)" by (cases "ids_handle io q a1")
  show ?case
    using ids_inv_step [OF snoc.IH [OF r] h] snoc.prems by (auto simp: x ids_run_snoc r h)
qed

lemma whole_days_le:
  assumes "\<not> whole_days d < m" "0 < m"
  shows "m * ids_day \<le> d"
proof (cases "0 \<le> d")
  case True
  then have "m * ids_day \<le> d div ids_day * ids_day"
    using assms by (intro mult_right_mono) (simp_all add: whole_days_def ids_day_def)
  also have "\<dots> \<le> d"
    by (simp add: ids_day_def)
  finally show ?thesis .
next
  case False
  then show ?thesis
    using assms by (simp add: whole_days_def ids_day_def pos_imp_zdiv_nonneg_iff)
qed

text \<open>
  C12. Prevention comes after observation. Whatever requests came before on a new appliance, an
  accepted request for IPS mode that was not forced finds the engine switched on for at least
  the configured number of whole days without a stop in between; gateway mode is on and the
  hardware suffices; the engine runs in IPS mode, the stored firewall configuration has the
  queue rule, and the ruleset applied last is the one generated from it.
\<close>

theorem ips_after_observation:
  assumes run: "ia_ids a0 = None" "ids_run qs a0 = (evs, a)"
    and req: "ei_Mode i = ModeIPS" "\<not> ei_Force i" "0 < ii_minDays io" "apiIDSEnable io i a = (IOk, a')"
  shows "(\<exists>t. observed_since t evs \<and> ii_minDays io * ids_day \<le> ii_now io - t)
    \<and> idsHardwareOK io \<and> ia_engine a' = Some ModeIPS \<and> id_Mode (getIDS a') = ModeIPS
    \<and> (\<exists>c g tx. ga_gw (ia_gw a') = Some c \<and> c_GatewayEnabled c \<and> c_IPSEnabled c
        \<and> setGatewayIPS (ii_gw io) True False (ia_gw a) = (True, g) \<and> ga_gw g = Some c
        \<and> Generate (fst (firewallConfig (ii_gw io) g)) = Return tx \<and> ga_runs g = ga_runs (ia_gw a) @ [(''apply'', tx)])"
proof -
  have e: "enabled_by io i a a'"
    using enable_effect [OF req(4)] by auto
  then have guard: "idsHardwareOK io" "c_GatewayEnabled (fst (getGateway (ia_gw a)))" "ipsAllowed io (getIDS a)"
    using req by (auto simp: enabled_by_def enable_guard_def split: if_splits)
  then obtain t where t: "id_Mode (getIDS a) \<noteq> ModeOff" "id_IDSEnabledAt (getIDS a) = Some t" "\<not> whole_days (ii_now io - t) < ii_minDays io"
    by (auto simp: ipsAllowed_def split: if_splits option.splits)
  then have "observed_since t evs"
    using ids_run_inv [OF run] by (auto simp: ids_inv_def)
  moreover have "ii_minDays io * ids_day \<le> ii_now io - t"
    using whole_days_le [OF t(3) req(3)] .
  moreover obtain g where g: "setGatewayIPS (ii_gw io) True False (ia_gw a) = (True, g)" "ga_gw (ia_gw a') = ga_gw g"
    using e req(1) by (auto simp: enabled_by_def)
  moreover have "id_Mode (getIDS a') = ModeIPS" "ia_engine a' = Some ModeIPS"
    using e req(1) by (simp_all add: enabled_by_def getIDS_def enabled_state_def enable_config_def)
  ultimately show ?thesis
    using guard setGatewayIPS_ok [OF g(1)] by (auto simp: getGateway_def)
qed

lemma acl_iface_ips: "acl_iface (c \<lparr> c_IPSEnabled := b \<rparr>) = acl_iface c"
  by (rule ext) (simp add: acl_iface_def zoneIfaceMap_def)

lemma ManagementReachable_ips: "ManagementReachable (c \<lparr> c_IPSEnabled := b \<rparr>) = ManagementReachable c"
  by (simp add: ManagementReachable_def serviceACLRows_def acl_iface_ips)

lemma Validate_ips: "Validate (c \<lparr> c_IPSEnabled := b \<rparr>) = None \<longleftrightarrow> Validate c = None"
  by (simp add: Validate_iff objects_ok_def gateway_ok_def ManagementReachable_ips)

lemma setGatewayIPS_succeeds:
  assumes "ga_gw a = Some c" "Validate (fst (firewallConfig io a)) = None" "io_write io" "\<forall>x. io_run io x" "io_saved io"
  shows "fst (setGatewayIPS io en cf a)"
proof -
  obtain t where "Generate ((fst (firewallConfig io a)) \<lparr> c_IPSEnabled := en \<rparr>) = Return t"
    using gen_lines_total [OF iffD2 [OF Validate_ips assms(2)], of en] iffD2 [OF Validate_ips assms(2), of en] by (auto simp: Generate_def)
  with assms show ?thesis
    by (simp add: setGatewayIPS_def getGateway_def stage_run_def run_action_def Let_def)
qed

text \<open>
  C22. The emergency stop works in one step: in IPS mode, when the adapters and the files
  respond and the effective firewall configuration validates, disabling succeeds; the engine
  is stopped, the stored configuration no longer has the queue rule, and the ruleset generated
  from it was both applied and confirmed.
\<close>

theorem ids_emergency_stop:
  assumes "id_Mode (getIDS a) = ModeIPS" "ga_gw (ia_gw a) = Some c" "Validate (fst (firewallConfig (ii_gw io) (ia_gw a))) = None"
    and "ii_adapter io = None" "ii_save io" "io_write (ii_gw io)" "\<forall>x. io_run (ii_gw io) x" "io_saved (ii_gw io)"
  shows "\<exists>a' tx. apiIDSDisable io a = (IOk, a') \<and> id_Mode (getIDS a') = ModeOff \<and> ia_engine a' = None
    \<and> ga_gw (ia_gw a') = Some (c \<lparr> c_IPSEnabled := False \<rparr>)
    \<and> Generate (fst (firewallConfig (ii_gw io) (ia_gw a'))) = Return tx
    \<and> ga_runs (ia_gw a') = ga_runs (ia_gw a) @ [(''apply'', tx), (''confirm'', tx)]"
proof -
  obtain g where g: "setGatewayIPS (ii_gw io) False True (ia_gw a) = (True, g)"
    using setGatewayIPS_succeeds [OF assms(2,3,6,7,8)] by (metis eq_fst_iff)
  obtain tx where tx: "ga_gw g = Some (c \<lparr> c_IPSEnabled := False \<rparr>)" "Generate (fst (firewallConfig (ii_gw io) g)) = Return tx"
    "ga_runs g = ga_runs (ia_gw a) @ [(''apply'', tx), (''confirm'', tx)]"
    using setGatewayIPS_ok [OF g] assms(2) by auto
  have f: "firewallConfig io' (gw_record rq w t r s x) = firewallConfig io' x" for io' rq w t r s x
    by (simp add: firewallConfig_def gw_record_def getGateway_def tunnelNets_def pbrUplinks_def openvpnFirewall_def vpnPorts_def)
  show ?thesis
    using assms g tx
    by (simp add: apiIDSDisable_def store_ids_def Let_def) (simp add: ids_record_def setIDS_def getIDS_def f, simp add: gw_record_def)
qed

section \<open>The stored queue rule\<close>

lemma gw_handle_flag: "flag_kept a (snd (gw_handle io rq q a))"
proof -
  have u: "c_IPSEnabled (unblock_config ip c) = c_IPSEnabled c" for ip c
    by (simp add: unblock_config_def Let_def)
  have b: "c_IPSEnabled (block_config ip c) = c_IPSEnabled c" for ip c
    using block_config_shape [of ip c] by auto
  show ?thesis
    using gw_handle_edits [of a q io rq] unfolding flag_kept_def by cases (auto simp: u b)
qed

text \<open>
  While the module is in IPS mode the stored firewall configuration keeps the queue rule,
  over any sequence of requests to the module and to the firewall: no other edit drops it.
\<close>

theorem ips_rule_kept:
  assumes "ia_ids a0 = None" "ids_run qs a0 = (evs, a)" "id_Mode (getIDS a) = ModeIPS"
  shows "\<exists>c. ga_gw (ia_gw a) = Some c \<and> c_IPSEnabled c"
  using assms(2,3)
proof (induction qs arbitrary: evs a rule: rev_induct)
  case Nil
  then show ?case
    using assms(1) by (simp add: getIDS_def ModeOff_def ModeIPS_def)
next
  case (snoc x qs)
  obtain io q where x: "x = (io, q)" by (cases x)
  obtain evs1 a1 where r: "ids_run qs a0 = (evs1, a1)" by (cases "ids_run qs a0")
  obtain rep where h: "ids_handle io q a1 = (rep, a)"
    using snoc.prems(1) by (cases "ids_handle io q a1") (simp add: x ids_run_snoc r)
  have n: "ModeOff \<noteq> ModeIPS" "ModeIDS \<noteq> ModeIPS"
    by (simp_all add: ModeOff_def ModeIPS_def ModeIDS_def)
  have ih: "\<exists>c. ga_gw (ia_gw a) = Some c \<and> c_IPSEnabled c" if "ia_ids a = ia_ids a1" "flag_kept (ia_gw a1) (ia_gw a)"
    using that snoc.IH [OF r] snoc.prems(2) getIDS_cong [of a a1] by (auto simp: flag_kept_def)
  show ?case
  proof (cases q)
    case (IEnable i)
    with h have e: "apiIDSEnable io i a1 = (rep, a)" by simp
    show ?thesis
      using enable_effect [OF e]
    proof
      assume *: "(rep = IOk \<or> rep = IUnsaved) \<and> enabled_by io i a1 a"
      then have "ei_Mode i = ModeIPS"
        using snoc.prems(2) by (simp add: enabled_by_def getIDS_def enabled_state_def enable_config_def)
      with * obtain g where "setGatewayIPS (ii_gw io) True False (ia_gw a1) = (True, g)" "ga_gw (ia_gw a) = ga_gw g"
        by (auto simp: enabled_by_def)
      then show ?thesis
        using setGatewayIPS_ok [of "ii_gw io" True False "ia_gw a1" g] by auto
    next
      assume "(\<exists>n. rep = IRefused n) \<and> ia_ids a = ia_ids a1 \<and> flag_kept (ia_gw a1) (ia_gw a)"
      then show ?thesis using ih by blast
    qed
  next
    case IDisable
    with h have "apiIDSDisable io a1 = (rep, a)" by simp
    then show ?thesis
      using disable_effect snoc.prems(2) n ih by (fastforce simp: flag_kept_def)
  next
    case (IGateway g)
    then show ?thesis
      using h gw_handle_flag ih by auto
  next
    case IInstall
    then show ?thesis
      using h other_effect(1,2) [of io a1] ih by (auto simp: flag_kept_def)
  next
    case IUpdateRules
    then show ?thesis
      using h other_effect(3,4) [of io a1] ih by (auto simp: flag_kept_def)
  qed
qed

section \<open>Limits\<close>

text \<open>
  Going from IPS back to IDS mode leaves the queue rule in the stored configuration and in
  force, and the stop that follows does not remove it either: it looks only at the mode.
\<close>

theorem ids_switch_strands_queue:
  assumes "ga_gw (ia_gw a) = Some c" "c_IPSEnabled c" "ei_Mode i = ModeIDS"
    and "apiIDSEnable io i a = (IOk, a1)" "apiIDSDisable io' a1 = (IOk, a2)"
  shows "id_Mode (getIDS a2) = ModeOff \<and> ga_gw (ia_gw a2) = Some c"
proof -
  have n: "ModeIDS \<noteq> ModeIPS"
    by (simp add: ModeIPS_def ModeIDS_def)
  have "enabled_by io i a a1"
    using enable_effect [OF assms(4)] by auto
  then have "ga_gw (ia_gw a1) = Some c" "id_Mode (getIDS a1) = ModeIDS"
    using assms(1,3) n by (simp_all add: enabled_by_def getIDS_def enabled_state_def enable_config_def)
  then show ?thesis
    using disable_effect [OF assms(5)] n by auto
qed

text \<open>The text has the intended lines: no value starts a line of its own.\<close>

theorem su_Generate_lines:
  assumes "su_Generate c = Inr t"
  shows "Split (CHR 0x0A) t = su_lines c @ [[]]"
proof -
  have v: "t = unlines (su_lines c)" "su_Validate c = None" "su_Mode c = ModeIDS \<or> su_Mode c = ModeIPS"
    using assms by (auto simp: su_Generate_def su_Validate_def split: option.splits if_splits)
  then have "CHR 0x0A \<notin> set (su_HomeNet c)" "su_Mode c = ModeIDS \<longrightarrow> list_all is_graph (su_Interface c)"
    by (auto simp: su_Validate_def su_validIface_def su_bad_char_def list_ex_iff list_all_iff ModeOff_def ModeIDS_def ModeIPS_def
        intro: iface_char_graph split: if_splits)
  then have "\<forall>l \<in> set (su_lines c). CHR 0x0A \<notin> set l"
    using graph_no_newline by (auto simp: su_lines_def su_vars_def su_outputs_def su_capture_def su_rest_def su_home_def su_groups_def dq_def)
  then show ?thesis
    using v Split_unlines by blast
qed

section \<open>Witnesses\<close>

definition ex_ids_io :: "int \<Rightarrow> idsIO" where
  "ex_ids_io now = \<lparr> ii_gw = ex_io, ii_write = True, ii_adapter = None, ii_save = True, ii_now = now, ii_memMB = 8000, ii_cores = 4,
     ii_minDays = 7, ii_installed = True, ii_pkg = True, ii_rules = True, ii_rq = ex_gw_rq \<rparr>"

definition ex_enable :: "string \<Rightarrow> enableInput" where
  "ex_enable m = \<lparr> ei_Mode = m, ei_Interface = ''eth0'', ei_HomeNet = [], ei_Force = False \<rparr>"

definition ex_ids0 :: idsApp where
  "ex_ids0 = \<lparr> ia_gw = ex_app, ia_ids = None, ia_staged = [], ia_engine = None \<rparr>"

definition ex_ids_reqs :: "(idsIO \<times> idsReq) list" where
  "ex_ids_reqs = [(ex_ids_io 0, IEnable (ex_enable ModeIDS))]"

lemma firewallConfig_record: "firewallConfig io (gw_record rq w t r s a) = firewallConfig io a"
  by (simp add: firewallConfig_def gw_record_def getGateway_def tunnelNets_def pbrUplinks_def openvpnFirewall_def vpnPorts_def)

lemma ex_mode_neq: "ModeIDS \<noteq> ModeOff" "ModeIPS \<noteq> ModeOff" "ModeIPS \<noteq> ModeIDS" "ModeIDS \<noteq> ModeIPS"
  by (simp_all add: ModeOff_def ModeIDS_def ModeIPS_def)

lemma ex_su_ok: "\<exists>t. su_Generate \<lparr> su_Mode = m, su_Interface = ''eth0'', su_HomeNet = [] \<rparr> = Inr t" if "m = ModeIDS \<or> m = ModeIPS"
  using that by (auto simp: su_Generate_def su_Validate_def su_validIface_def iface_char_def char_class_defs ex_mode_neq ex_mode_neq [symmetric])

lemma ex_guard:
  assumes "m = ModeIDS \<or> m = ModeIPS" "id_HomeNet (getIDS a) = []" "getGateway (ia_gw a) = (ex_cfg, True)"
    and "m = ModeIPS \<longrightarrow> ipsAllowed (ex_ids_io now) (getIDS a)"
  shows "\<exists>t. enable_guard (ex_ids_io now) (ex_enable m) a = Inr t"
proof -
  have "c_GatewayEnabled ex_cfg"
    by (simp add: ex_cfg_def)
  then show ?thesis
    using assms ex_su_ok [OF assms(1)]
    by (auto simp: enable_guard_def ex_enable_def ex_ids_io_def idsHardwareOK_def idsMinMemMB_def idsMinCores_def enable_config_def)
qed

lemma ex_ids_run:
  obtains a where "ids_run ex_ids_reqs ex_ids0 = ([(0, IEnable (ex_enable ModeIDS), IOk)], a)"
    "id_Mode (getIDS a) = ModeIDS" "id_IDSEnabledAt (getIDS a) = Some 0" "id_HomeNet (getIDS a) = []"
    "ga_gw (ia_gw a) = Some ex_cfg" "fst (firewallConfig ex_io (ia_gw a)) = ex_cfg"
proof -
  obtain t where t: "enable_guard (ex_ids_io 0) (ex_enable ModeIDS) ex_ids0 = Inr t"
    using ex_guard [of ModeIDS ex_ids0 0] by (auto simp: ex_ids0_def getIDS_def ex_app_simps ex_mode_neq)
  have g: "getIDS ex_ids0 = \<lparr> id_Mode = ModeOff, id_Interface = [], id_HomeNet = [], id_IDSEnabledAt = None, id_IPSEnabledAt = None \<rparr>"
    by (simp add: getIDS_def ex_ids0_def)
  have io: "ii_write (ex_ids_io 0)" "ii_adapter (ex_ids_io 0) = None" "ii_save (ex_ids_io 0)" "ii_now (ex_ids_io 0) = 0"
    "ei_Mode (ex_enable ModeIDS) = ModeIDS"
    by (simp_all add: ex_ids_io_def ex_enable_def)
  obtain a where a: "apiIDSEnable (ex_ids_io 0) (ex_enable ModeIDS) ex_ids0 = (IOk, a)"
    "a = ids_record (ex_ids_io 0) ''ids-enable'' ModeIDS ''success'' ''security''
       (setIDS (enabled_state 0 (enable_config (ex_enable ModeIDS) (getIDS ex_ids0)) (getIDS ex_ids0))
         (ex_ids0 \<lparr> ia_staged := t, ia_engine := Some ModeIDS \<rparr>))"
    by (simp add: apiIDSEnable_def t io enable_commit_def store_ids_def ex_mode_neq Let_def)
  show thesis
  proof (rule that [of a])
    show "ids_run ex_ids_reqs ex_ids0 = ([(0, IEnable (ex_enable ModeIDS), IOk)], a)"
      by (simp add: ex_ids_reqs_def a(1) io)
    show "ga_gw (ia_gw a) = Some ex_cfg" "fst (firewallConfig ex_io (ia_gw a)) = ex_cfg"
      by (simp_all add: a(2) ids_record_def setIDS_def firewallConfig_record ex_ids0_def ex_app_simps)
  qed (simp_all add: a(2) g enabled_state_def enable_config_def ex_enable_def)
qed

lemma ex_ips_request:
  assumes "ids_run ex_ids_reqs ex_ids0 = (evs, a)"
  obtains a' where "apiIDSEnable (ex_ids_io (8 * ids_day)) (ex_enable ModeIPS) a = (IOk, a')"
proof -
  let ?io = "ex_ids_io (8 * ids_day)"
  have a: "id_Mode (getIDS a) = ModeIDS" "id_IDSEnabledAt (getIDS a) = Some 0" "id_HomeNet (getIDS a) = []"
    "ga_gw (ia_gw a) = Some ex_cfg" "fst (firewallConfig ex_io (ia_gw a)) = ex_cfg"
    using assms by (metis ex_ids_run Pair_inject)+
  have "ipsAllowed ?io (getIDS a)"
    using a by (simp add: ipsAllowed_def ex_mode_neq whole_days_def ids_day_def ex_ids_io_def)
  then obtain t where t: "enable_guard ?io (ex_enable ModeIPS) a = Inr t"
    using ex_guard [of ModeIPS a "8 * ids_day"] a by (auto simp: getGateway_def)
  have "fst (setGatewayIPS ex_io True False (ia_gw a))"
    using a by (intro setGatewayIPS_succeeds) (simp_all add: ex_cfg_valid ex_io_def)
  then obtain g where "setGatewayIPS ex_io True False (ia_gw a) = (True, g)"
    by (metis eq_fst_iff)
  then show thesis
    using that t by (simp add: apiIDSEnable_def enable_commit_def store_ids_def ex_ids_io_def ex_enable_def Let_def)
qed

theorem ips_after_observation_witness:
  "\<exists>evs a a'. ids_run ex_ids_reqs ex_ids0 = (evs, a) \<and> apiIDSEnable (ex_ids_io (8 * ids_day)) (ex_enable ModeIPS) a = (IOk, a')
     \<and> (\<exists>t. observed_since t evs \<and> 7 * ids_day \<le> 8 * ids_day - t) \<and> ia_engine a' = Some ModeIPS"
proof -
  obtain evs a where r: "ids_run ex_ids_reqs ex_ids0 = (evs, a)"
    by (cases "ids_run ex_ids_reqs ex_ids0")
  obtain a' where e: "apiIDSEnable (ex_ids_io (8 * ids_day)) (ex_enable ModeIPS) a = (IOk, a')"
    using ex_ips_request [OF r] .
  have h: "ia_ids ex_ids0 = None" "ei_Mode (ex_enable ModeIPS) = ModeIPS" "\<not> ei_Force (ex_enable ModeIPS)"
    "0 < ii_minDays (ex_ids_io (8 * ids_day))" "ii_minDays (ex_ids_io (8 * ids_day)) = 7" "ii_now (ex_ids_io (8 * ids_day)) = 8 * ids_day"
    by (simp_all add: ex_ids0_def ex_enable_def ex_ids_io_def)
  show ?thesis
    using ips_after_observation [OF h(1) r h(2,3,4) e] r e unfolding h(5,6) by blast
qed

theorem ids_emergency_stop_witness:
  "\<exists>a'. apiIDSDisable (ex_ids_io 0) (setIDS \<lparr> id_Mode = ModeIPS, id_Interface = [], id_HomeNet = [], id_IDSEnabledAt = Some 0, id_IPSEnabledAt = Some 0 \<rparr> ex_ids0)
     = (IOk, a') \<and> ia_engine a' = None"
  using ids_emergency_stop [where io = "ex_ids_io 0" and c = ex_cfg
      and a = "setIDS \<lparr> id_Mode = ModeIPS, id_Interface = [], id_HomeNet = [], id_IDSEnabledAt = Some 0, id_IPSEnabledAt = Some 0 \<rparr> ex_ids0"]
  by (auto simp: ex_ids_io_def ex_ids0_def ex_app_simps ex_cfg_valid ex_io_def [symmetric] ex_io_ok)

theorem ips_rule_kept_witness:
  "\<exists>evs a c. ids_run (ex_ids_reqs @ [(ex_ids_io (8 * ids_day), IEnable (ex_enable ModeIPS))]) ex_ids0 = (evs, a)
     \<and> ga_gw (ia_gw a) = Some c \<and> c_IPSEnabled c"
proof -
  obtain evs a where r: "ids_run ex_ids_reqs ex_ids0 = (evs, a)"
    by (cases "ids_run ex_ids_reqs ex_ids0")
  obtain a' where e: "apiIDSEnable (ex_ids_io (8 * ids_day)) (ex_enable ModeIPS) a = (IOk, a')"
    using ex_ips_request [OF r] .
  let ?qs = "ex_ids_reqs @ [(ex_ids_io (8 * ids_day), IEnable (ex_enable ModeIPS))]"
  obtain evs' where r': "ids_run ?qs ex_ids0 = (evs', a')"
    by (simp add: ids_run_snoc r e)
  have "ia_ids ex_ids0 = None" "id_Mode (getIDS a') = ModeIPS"
    using enable_effect [OF e] by (auto simp: ex_ids0_def enabled_by_def getIDS_def enabled_state_def enable_config_def ex_enable_def)
  from ips_rule_kept [OF this(1) r' this(2)] r' show ?thesis
    by blast
qed

end
