(* ===== verification/Squid.thy ===== *)
theory Squid
  imports GoNet
begin

text \<open>
  \<open>internal/adapters/squidcfg\<close>: the drop-in of the caching proxy and the two domain lists of
  the content filter in front of it. Banned and exception lists are merged from the
  operator's lists, the built-in categories and the named groups.
\<close>

section \<open>Configuration\<close>

definition DefaultFilterPort :: int where "DefaultFilterPort = 8080"
definition SquidPort :: int where "SquidPort = 3128"
definition DefaultBumpPort :: int where "DefaultBumpPort = 3130"
definition BumpCACert :: string where "BumpCACert = ''/etc/squid/ssl_cert/saguaro-bump-ca.pem''"
definition BumpCAKey :: string where "BumpCAKey = ''/etc/squid/ssl_cert/saguaro-bump-ca.key''"

definition sq_alnum :: "char \<Rightarrow> bool" where
  "sq_alnum c \<longleftrightarrow> is_lower c \<or> is_digit c"

definition sq_domainRe :: "string \<Rightarrow> bool" where
  "sq_domainRe = re_ends sq_alnum (\<lambda>c. sq_alnum c \<or> c = CHR ''.'' \<or> c = CHR ''-'') 253"

record URLGroup =
  ug_Name :: string
  ug_Action :: string
  ug_Domains :: "string list"

record SquidConfig =
  sq_Enabled :: bool
  sq_FilterPort :: int
  sq_AllowedNetwork :: string
  sq_Filtering :: bool
  sq_BannedSites :: "string list"
  sq_ExceptionSites :: "string list"
  sq_SSLBump :: bool
  sq_SSLBumpPort :: int
  sq_SpliceSites :: "string list"
  sq_Categories :: "string list"
  sq_URLGroups :: "URLGroup list"

definition urlGroupNameRe :: "string \<Rightarrow> bool" where
  "urlGroupNameRe =
     re_head_tail (\<lambda>c. is_upper c \<or> is_lower c \<or> is_digit c)
       (\<lambda>c. is_upper c \<or> is_lower c \<or> is_digit c \<or> c = CHR '' '' \<or> c = CHR ''_'' \<or> c = CHR ''-'') 0 39"

record Category =
  ct_Key :: string
  ct_Label :: string
  ct_Domains :: "string list"

text \<open>The labels are UTF-8 in the source.\<close>

definition builtinCategories :: "Category list" where
  "builtinCategories =
     [\<lparr> ct_Key = ''ads'', ct_Label = ''Oglasi i pra'' @ [CHR 0xC4, CHR 0x87] @ ''enje'',
        ct_Domains = [''doubleclick.net'', ''googlesyndication.com'', ''google-analytics.com'', ''adservice.google.com'', ''ads.yahoo.com'',
          ''taboola.com'', ''outbrain.com'', ''criteo.com'', ''scorecardresearch.com''] \<rparr>,
      \<lparr> ct_Key = ''social'', ct_Label = ''Dru'' @ [CHR 0xC5, CHR 0xA1] @ ''tvene mre'' @ [CHR 0xC5, CHR 0xBE] @ ''e'',
        ct_Domains = [''facebook.com'', ''instagram.com'', ''tiktok.com'', ''twitter.com'', ''x.com'', ''snapchat.com'', ''reddit.com'', ''pinterest.com''] \<rparr>,
      \<lparr> ct_Key = ''adult'', ct_Label = ''Odrasli sadr'' @ [CHR 0xC5, CHR 0xBE] @ ''aj'',
        ct_Domains = [''pornhub.com'', ''xvideos.com'', ''xnxx.com'', ''redtube.com'', ''youporn.com'', ''xhamster.com''] \<rparr>,
      \<lparr> ct_Key = ''gambling'', ct_Label = ''Kockanje i kla'' @ [CHR 0xC4, CHR 0x91] @ ''enje'',
        ct_Domains = [''bet365.com'', ''pokerstars.com'', ''williamhill.com'', ''betway.com'', ''888casino.com'', ''unibet.com''] \<rparr>,
      \<lparr> ct_Key = ''streaming'', ct_Label = ''Streaming i video'',
        ct_Domains = [''youtube.com'', ''netflix.com'', ''twitch.tv'', ''hulu.com'', ''disneyplus.com''] \<rparr>]"

definition Categories :: "(string \<times> string \<times> nat) list" where
  "Categories = map (\<lambda>c. (ct_Key c, ct_Label c, length (ct_Domains c))) builtinCategories"

text \<open>No category is empty, so an unknown key is the only one without domains.\<close>

definition categoryDomains :: "string \<Rightarrow> string list" where
  "categoryDomains key = (case find (\<lambda>c. ct_Key c = key) builtinCategories of Some c \<Rightarrow> ct_Domains c | None \<Rightarrow> [])"

datatype SquidError = SqFilterPort | SqNetwork | SqDomain string | SqCategory string | SqGroupName string | SqGroupDup string
  | SqGroupAction string | SqBumpPort | SqBumpClash

section \<open>Lists\<close>

fun normDomains :: "string list \<Rightarrow> SquidError + string list" where
  "normDomains [] = Inr []"
| "normDomains (x # xs) =
     (let d = ToLower (TrimSpace x)
      in if d = [] then normDomains xs
         else if \<not> sq_domainRe d then Inl (SqDomain d)
         else map_sum id (\<lambda>ds. d # ds) (normDomains xs))"

text \<open>The domains of the groups with one action; the first invalid one ends the loop.\<close>

fun group_domains :: "string \<Rightarrow> URLGroup list \<Rightarrow> SquidError + string list" where
  "group_domains act [] = Inr []"
| "group_domains act (g # gs) =
     (if ug_Action g \<noteq> act then group_domains act gs
      else try_then (normDomains (ug_Domains g)) (\<lambda>ds. map_sum id (\<lambda>rest. ds @ rest) (group_domains act gs)))"

definition effectiveBanned :: "SquidConfig \<Rightarrow> SquidError + string list" where
  "effectiveBanned c =
     try_then (normDomains (sq_BannedSites c)) (\<lambda>d.
       map_sum id (\<lambda>gd. dedup {} (d @ concat (map categoryDomains (sq_Categories c)) @ gd)) (group_domains ''block'' (sq_URLGroups c)))"

definition effectiveExceptions :: "SquidConfig \<Rightarrow> SquidError + string list" where
  "effectiveExceptions c =
     try_then (normDomains (sq_ExceptionSites c)) (\<lambda>d.
       map_sum id (\<lambda>gd. dedup {} (d @ gd)) (group_domains ''allow'' (sq_URLGroups c)))"

section \<open>Validation\<close>

definition BumpPortOrDefault :: "SquidConfig \<Rightarrow> int" where
  "BumpPortOrDefault c = (if sq_SSLBumpPort c \<le> 0 then DefaultBumpPort else sq_SSLBumpPort c)"

definition FilterPortOrDefault :: "SquidConfig \<Rightarrow> int" where
  "FilterPortOrDefault c = (if sq_FilterPort c \<le> 0 then DefaultFilterPort else sq_FilterPort c)"

definition sq_validCIDR4 :: "string \<Rightarrow> bool" where
  "sq_validCIDR4 s = (case ParseCIDR (TrimSpace s) of None \<Rightarrow> False | Some (ip, _) \<Rightarrow> To4 ip \<noteq> None)"

definition norm_err :: "string list \<Rightarrow> SquidError option" where
  "norm_err ds = (case normDomains ds of Inl e \<Rightarrow> Some e | Inr _ \<Rightarrow> None)"

definition group_check :: "string set \<Rightarrow> URLGroup \<Rightarrow> SquidError option" where
  "group_check names g =
     (if \<not> urlGroupNameRe (ug_Name g) then Some (SqGroupName (ug_Name g))
      else if ug_Name g \<in> names then Some (SqGroupDup (ug_Name g))
      else if ug_Action g \<noteq> ''block'' \<and> ug_Action g \<noteq> ''allow'' then Some (SqGroupAction (ug_Name g))
      else norm_err (ug_Domains g))"

definition bump_check :: "SquidConfig \<Rightarrow> SquidError option" where
  "bump_check c =
     (if \<not> sq_SSLBump c then None
      else let p = BumpPortOrDefault c
           in if p < 1 \<or> p > 65535 then Some SqBumpPort
              else if p = SquidPort \<or> p = FilterPortOrDefault c then Some SqBumpClash
              else norm_err (sq_SpliceSites c))"

definition sq_Validate :: "SquidConfig \<Rightarrow> SquidError option" where
  "sq_Validate c =
     (if \<not> sq_Enabled c then None
      else err_then (fail_if (FilterPortOrDefault c < 1 \<or> FilterPortOrDefault c > 65535) SqFilterPort)
          (err_then (fail_if (\<not> sq_validCIDR4 (sq_AllowedNetwork c)) SqNetwork)
          (err_then (norm_err (sq_BannedSites c))
          (err_then (norm_err (sq_ExceptionSites c))
          (err_then (first_err (\<lambda>k. fail_if (categoryDomains k = []) (SqCategory k)) (sq_Categories c))
          (err_then (seen_err group_check ug_Name {} (sq_URLGroups c))
             (bump_check c)))))))"

section \<open>Rendering\<close>

definition managed_line :: string where
  "managed_line = ''# Managed by Saguaro (generated).''"

definition bump_lines :: "SquidConfig \<Rightarrow> string list \<Rightarrow> string list" where
  "bump_lines c spl =
     [[], ''# SSL-bump: HTTPS interception on a dedicated port (clients must trust the CA)'',
      ''http_port '' @ Itoa (BumpPortOrDefault c) @ '' ssl-bump generate-host-certificates=on dynamic_cert_mem_cache_size=4MB tls-cert=''
        @ BumpCACert @ '' tls-key='' @ BumpCAKey,
      ''sslcrtd_program /usr/lib/squid/security_file_certgen -s /var/lib/squid/ssl_db -M 4MB'',
      ''acl saguaro_step1 at_step SslBump1'']
   @ only_if (spl \<noteq> []) [''acl saguaro_splice ssl::server_name '' @ Join (map (\<lambda>d. ''.'' @ d) spl) '' '']
   @ [''ssl_bump peek saguaro_step1'']
   @ only_if (spl \<noteq> []) [''ssl_bump splice saguaro_splice'']
   @ [''ssl_bump bump all'']"

definition dropin_lines :: "SquidConfig \<Rightarrow> string list" where
  "dropin_lines c =
     [managed_line, ''acl saguaro_lan src '' @ TrimSpace (sq_AllowedNetwork c), ''http_access allow saguaro_lan'']
   @ (if sq_SSLBump c then bump_lines c (case normDomains (sq_SpliceSites c) of Inr ds \<Rightarrow> ds | Inl _ \<Rightarrow> []) else [])"

definition GenerateSquidDropIn :: "SquidConfig \<Rightarrow> SquidError + string" where
  "GenerateSquidDropIn c = (case sq_Validate c of Some e \<Rightarrow> Inl e | None \<Rightarrow> Inr (unlines (dropin_lines c)))"

definition listFile :: "string list \<Rightarrow> string" where
  "listFile ds = unlines (managed_line # ds)"

definition GenerateBanned :: "SquidConfig \<Rightarrow> SquidError + string" where
  "GenerateBanned c = map_sum id listFile (effectiveBanned c)"

definition GenerateExceptions :: "SquidConfig \<Rightarrow> SquidError + string" where
  "GenerateExceptions c = map_sum id listFile (effectiveExceptions c)"

section \<open>The filter lists\<close>

definition norm_domain :: "string \<Rightarrow> string" where
  "norm_domain x = ToLower (TrimSpace x)"

lemma normDomains_Inr:
  "normDomains xs = Inr ds \<longleftrightarrow>
     (\<forall>x \<in> set xs. norm_domain x = [] \<or> sq_domainRe (norm_domain x)) \<and> ds = filter (\<lambda>d. d \<noteq> []) (map norm_domain xs)"
  by (induction xs arbitrary: ds) (auto simp: norm_domain_def Let_def map_sum_Inr_iff)

lemma norm_err_None: "norm_err xs = None \<longleftrightarrow> (\<forall>x \<in> set xs. norm_domain x = [] \<or> sq_domainRe (norm_domain x))"
  using normDomains_Inr [of xs] by (auto simp: norm_err_def split: sum.splits) (metis Inl_Inr_False)

lemma sq_domain_graph: "sq_domainRe d \<Longrightarrow> list_all is_graph d"
proof -
  have "is_graph c" if "sq_alnum c \<or> c = CHR ''.'' \<or> c = CHR ''-''" for c
    using that is_graph_lower is_graph_digit by (auto simp: sq_alnum_def) (simp_all add: is_graph_def)
  then show "sq_domainRe d \<Longrightarrow> list_all is_graph d"
    by (auto simp: sq_domainRe_def re_ends_def list_all_iff)
qed

lemma categories_graph: "d \<in> set (categoryDomains k) \<Longrightarrow> CHR 0x0A \<notin> set d \<and> d \<noteq> []"
proof -
  have "\<forall>c \<in> set builtinCategories. \<forall>d \<in> set (ct_Domains c). CHR 0x0A \<notin> set d \<and> d \<noteq> []"
    by (simp add: builtinCategories_def)
  moreover assume "d \<in> set (categoryDomains k)"
  ultimately show ?thesis
    by (cases "find (\<lambda>c. ct_Key c = k) builtinCategories") (auto simp: categoryDomains_def find_Some_iff dest!: nth_mem)
qed

interpretation group_loop: seen_loop group_check ug_Name id id
  "\<lambda>g. urlGroupNameRe (ug_Name g) \<and> (ug_Action g = ''block'' \<or> ug_Action g = ''allow'') \<and> norm_err (ug_Domains g) = None"
  by unfold_locales (auto simp: group_check_def)

lemma group_domains_Inr:
  assumes "\<forall>g \<in> set gs. norm_err (ug_Domains g) = None"
  shows "group_domains act gs = Inr (concat (map (\<lambda>g. filter (\<lambda>d. d \<noteq> []) (map norm_domain (ug_Domains g))) (filter (\<lambda>g. ug_Action g = act) gs)))"
  using assms
proof (induction gs)
  case (Cons g gs)
  then have "normDomains (ug_Domains g) = Inr (filter (\<lambda>d. d \<noteq> []) (map norm_domain (ug_Domains g)))"
    by (simp add: norm_err_None normDomains_Inr)
  with Cons show ?case
    by simp
qed simp

text \<open>What an operator asked for: own entries, categories, groups of one action.\<close>

definition asked :: "string list \<Rightarrow> string list \<Rightarrow> string \<Rightarrow> URLGroup list \<Rightarrow> string set" where
  "asked own cats act gs =
     (norm_domain ` set own \<union> (\<Union>g \<in> {g \<in> set gs. ug_Action g = act}. norm_domain ` set (ug_Domains g))) - {[]}
     \<union> (\<Union>k \<in> set cats. set (categoryDomains k))"

lemma listFile_lines: "\<forall>d \<in> set ds. CHR 0x0A \<notin> set d \<Longrightarrow> Split (CHR 0x0A) (listFile ds) = managed_line # ds @ [[]]"
  unfolding listFile_def by (subst Split_unlines) (auto simp: managed_line_def)

lemma dedup_lines:
  assumes "norm_err own = None" "\<forall>g \<in> set gs. norm_err (ug_Domains g) = None"
    and "ds = dedup {} (filter (\<lambda>d. d \<noteq> []) (map norm_domain own) @ concat (map categoryDomains cats)
       @ concat (map (\<lambda>g. filter (\<lambda>d. d \<noteq> []) (map norm_domain (ug_Domains g))) (filter (\<lambda>g. ug_Action g = act) gs)))"
  shows "distinct ds" "set ds = asked own cats act gs" "\<forall>d \<in> set ds. CHR 0x0A \<notin> set d"
proof -
  show "distinct ds"
    by (simp add: assms(3))
  show "set ds = asked own cats act gs"
    using categories_graph by (auto simp: assms(3) asked_def)
  have n: "norm_domain x = [] \<or> CHR 0x0A \<notin> set (norm_domain x)"
    if "x \<in> set own \<or> (\<exists>g \<in> set gs. x \<in> set (ug_Domains g))" for x
    using that assms(1,2) sq_domain_graph graph_no_newline unfolding norm_err_None by meson
  show "\<forall>d \<in> set ds. CHR 0x0A \<notin> set d"
    using n categories_graph by (fastforce simp: assms(3))
qed

text \<open>
  The content filter gets what the operator asked for. When an enabled configuration
  passes validation both lists are generated; read line by line after the header, the banned
  list holds each normalised banned domain, each domain of an enabled category and each domain
  of a blocking group exactly once and nothing else, and the exception list does so for the
  exceptions and the allowing groups.
\<close>

theorem squid_filter_lists:
  assumes "sq_Enabled c" "sq_Validate c = None"
  shows "(\<exists>t ds. GenerateBanned c = Inr t \<and> Split (CHR 0x0A) t = managed_line # ds @ [[]] \<and> distinct ds
        \<and> set ds = asked (sq_BannedSites c) (sq_Categories c) ''block'' (sq_URLGroups c))
    \<and> (\<exists>t ds. GenerateExceptions c = Inr t \<and> Split (CHR 0x0A) t = managed_line # ds @ [[]] \<and> distinct ds
        \<and> set ds = asked (sq_ExceptionSites c) [] ''allow'' (sq_URLGroups c))"
proof -
  have v: "norm_err (sq_BannedSites c) = None" "norm_err (sq_ExceptionSites c) = None"
    "\<forall>g \<in> set (sq_URLGroups c). norm_err (ug_Domains g) = None"
    using assms by (auto simp: sq_Validate_def group_loop.loop_from_empty)
  have n: "normDomains xs = Inr (filter (\<lambda>d. d \<noteq> []) (map norm_domain xs))" if "norm_err xs = None" for xs
    using that by (simp add: norm_err_None normDomains_Inr)
  let ?b = "dedup {} (filter (\<lambda>d. d \<noteq> []) (map norm_domain (sq_BannedSites c)) @ concat (map categoryDomains (sq_Categories c))
      @ concat (map (\<lambda>g. filter (\<lambda>d. d \<noteq> []) (map norm_domain (ug_Domains g))) (filter (\<lambda>g. ug_Action g = ''block'') (sq_URLGroups c))))"
  let ?e = "dedup {} (filter (\<lambda>d. d \<noteq> []) (map norm_domain (sq_ExceptionSites c)) @ concat (map categoryDomains [])
      @ concat (map (\<lambda>g. filter (\<lambda>d. d \<noteq> []) (map norm_domain (ug_Domains g))) (filter (\<lambda>g. ug_Action g = ''allow'') (sq_URLGroups c))))"
  note B = dedup_lines [OF v(1,3) refl, of "sq_Categories c" "''block''"] and E = dedup_lines [OF v(2,3) refl, of "[]" "''allow''"]
  have "GenerateBanned c = Inr (listFile ?b)" "GenerateExceptions c = Inr (listFile ?e)"
    using v n by (simp_all add: GenerateBanned_def GenerateExceptions_def effectiveBanned_def effectiveExceptions_def group_domains_Inr)
  then show ?thesis
    using listFile_lines [OF B(3)] listFile_lines [OF E(3)] B(1,2) E(1,2) by blast
qed

section \<open>The drop-in\<close>

lemma Join_no_newline: "\<forall>x \<in> set xs. CHR 0x0A \<notin> set x \<Longrightarrow> CHR 0x0A \<notin> set (Join xs '' '')"
  using set_Join [of xs "'' ''"] by fastforce

lemma bump_lines_ok:
  assumes "\<forall>d \<in> set spl. CHR 0x0A \<notin> set d"
  shows "\<forall>l \<in> set (bump_lines c spl). CHR 0x0A \<notin> set l"
  using assms graph_no_newline [OF Itoa_graph [of "BumpPortOrDefault c"]] Join_no_newline [of "map (\<lambda>d. ''.'' @ d) spl"]
  by (auto simp: bump_lines_def BumpCACert_def BumpCAKey_def)

text \<open>
  C30. The proxy drop-in has exactly the intended lines whatever the operator entered: no value
  breaks a line. The port of the filter and, with interception on, the port of the
  interception are in range, and the latter is neither the proxy's nor the filter's.
\<close>

theorem squid_dropin_lines:
  assumes "sq_Enabled c" "GenerateSquidDropIn c = Inr t"
  shows "Split (CHR 0x0A) t = dropin_lines c @ [[]] \<and> 1 \<le> FilterPortOrDefault c \<and> FilterPortOrDefault c \<le> 65535
    \<and> (sq_SSLBump c \<longrightarrow> 1 \<le> BumpPortOrDefault c \<and> BumpPortOrDefault c \<le> 65535
         \<and> BumpPortOrDefault c \<noteq> SquidPort \<and> BumpPortOrDefault c \<noteq> FilterPortOrDefault c)"
proof -
  have v: "sq_Validate c = None" and t: "t = unlines (dropin_lines c)"
    using assms(2) by (auto simp: GenerateSquidDropIn_def split: option.splits)
  have n: "list_all is_graph (TrimSpace (sq_AllowedNetwork c))"
    using v assms(1) by (intro ParseCIDR_graph) (auto simp: sq_Validate_def sq_validCIDR4_def split: option.splits)
  have s: "\<forall>d \<in> set (case normDomains (sq_SpliceSites c) of Inr ds \<Rightarrow> ds | Inl _ \<Rightarrow> []). CHR 0x0A \<notin> set d"
  proof (cases "normDomains (sq_SpliceSites c)")
    case (Inr ds)
    then have "\<forall>d \<in> set ds. sq_domainRe d"
      unfolding normDomains_Inr by auto
    with Inr show ?thesis
      using sq_domain_graph graph_no_newline by simp
  qed simp
  have "\<forall>l \<in> set (dropin_lines c). CHR 0x0A \<notin> set l"
    using graph_no_newline [OF n] bump_lines_ok [OF s] by (auto simp: dropin_lines_def managed_line_def)
  then show ?thesis
    using v assms(1) unfolding t by (auto simp: Split_unlines sq_Validate_def bump_check_def Let_def split: if_splits)
qed

section \<open>Limits\<close>

text \<open>The filter may be put on the proxy's own port, which both daemons then want.\<close>

definition ex_squid :: SquidConfig where
  "ex_squid = \<lparr> sq_Enabled = True, sq_FilterPort = 3128, sq_AllowedNetwork = ''10.0.0.0/8'', sq_Filtering = True,
     sq_BannedSites = [''Example.ORG '', ''facebook.com''], sq_ExceptionSites = [], sq_SSLBump = True, sq_SSLBumpPort = 0,
     sq_SpliceSites = [''bank.example''], sq_Categories = [''social''],
     sq_URLGroups = [\<lparr> ug_Name = ''guests'', ug_Action = ''allow'', ug_Domains = [''wiki.example''] \<rparr>] \<rparr>"

lemma ex_net: "sq_validCIDR4 ''10.0.0.0/8''"
  by (simp add: sq_validCIDR4_def net_eval)

lemma ex_norm: "norm_domain ''Example.ORG '' = ''example.org''" "norm_domain ''facebook.com'' = ''facebook.com''"
  "norm_domain ''bank.example'' = ''bank.example''" "norm_domain ''wiki.example'' = ''wiki.example''"
  by (simp_all add: norm_domain_def TrimSpace_def go_std ascii_space_def space2_def space3_def lower_char_def is_upper_def char_le_of_char char_of_def bit_Suc_0_iff)

lemma ex_domains: "sq_domainRe ''example.org''" "sq_domainRe ''facebook.com''" "sq_domainRe ''bank.example''" "sq_domainRe ''wiki.example''"
  by (simp_all add: sq_domainRe_def re_ends_def sq_alnum_def char_class_defs)

lemma ex_squid_valid: "sq_Validate ex_squid = None"
proof -
  have "urlGroupNameRe ''guests''"
    by (simp add: urlGroupNameRe_def re_head_tail_def char_class_defs)
  then have "seen_err group_check ug_Name {} (sq_URLGroups ex_squid) = None"
    unfolding group_loop.loop_from_empty using ex_norm ex_domains by (simp add: ex_squid_def norm_err_None)
  moreover have "categoryDomains ''social'' \<noteq> []"
    by (simp add: categoryDomains_def builtinCategories_def)
  ultimately show ?thesis
    using ex_net ex_norm ex_domains
    by (simp add: ex_squid_def sq_Validate_def norm_err_None bump_check_def FilterPortOrDefault_def BumpPortOrDefault_def
        SquidPort_def DefaultBumpPort_def)
qed

theorem squid_filter_port_clash: "sq_Validate ex_squid = None \<and> sq_Filtering ex_squid \<and> FilterPortOrDefault ex_squid = SquidPort"
  using ex_squid_valid by (simp add: ex_squid_def FilterPortOrDefault_def SquidPort_def)

theorem squid_filter_lists_witness:
  "\<exists>t ds. GenerateBanned ex_squid = Inr t \<and> Split (CHR 0x0A) t = managed_line # ds @ [[]]
     \<and> ''example.org'' \<in> set ds \<and> ''reddit.com'' \<in> set ds"
proof -
  have "''example.org'' \<in> asked (sq_BannedSites ex_squid) (sq_Categories ex_squid) ''block'' (sq_URLGroups ex_squid)"
    "''reddit.com'' \<in> asked (sq_BannedSites ex_squid) (sq_Categories ex_squid) ''block'' (sq_URLGroups ex_squid)"
    using ex_norm by (simp_all add: asked_def ex_squid_def categoryDomains_def builtinCategories_def)
  moreover have "sq_Enabled ex_squid"
    by (simp add: ex_squid_def)
  ultimately show ?thesis
    using squid_filter_lists [OF _ ex_squid_valid] by auto
qed

theorem squid_dropin_lines_witness: "\<exists>t. GenerateSquidDropIn ex_squid = Inr t \<and> Split (CHR 0x0A) t = dropin_lines ex_squid @ [[]]"
proof -
  have e: "sq_Enabled ex_squid" "GenerateSquidDropIn ex_squid = Inr (unlines (dropin_lines ex_squid))"
    using ex_squid_valid by (simp_all add: ex_squid_def GenerateSquidDropIn_def)
  from squid_dropin_lines [OF this] e(2) show ?thesis by blast
qed

end
