(* ===== verification/Nginx.thy ===== *)
theory Nginx
  imports DnsZones
begin

text \<open>
  \<open>internal/adapters/nginxgen\<close>: one generated file with a virtual server per published
  service. After the generator, the access rules of a server block are given the meaning
  nginx documents for them: the first rule that matches the client decides, and a client no
  rule matches is let in.
\<close>

section \<open>Published services\<close>

definition TLSAppliance :: string where "TLSAppliance = ''appliance''"
definition TLSCustom :: string where "TLSCustom = ''custom''"
definition TLSManaged :: string where "TLSManaged = ''managed''"
definition TLSNone :: string where "TLSNone = ''none''"

lemmas tls_defs = TLSAppliance_def TLSCustom_def TLSManaged_def TLSNone_def

definition managedCertDir :: string where "managedCertDir = ''/etc/saguaro/certs''"
definition applianceCert :: string where "applianceCert = ''/etc/saguaro/bootstrap-tls.crt''"
definition applianceKey :: string where "applianceKey = ''/etc/saguaro/bootstrap-tls.key''"

record App =
  pa_Name :: string
  pa_Hostname :: string
  pa_UpstreamIP :: string
  pa_UpstreamPort :: int
  pa_TLS :: string
  pa_CertPath :: string
  pa_KeyPath :: string
  pa_CertName :: string
  pa_AllowCIDRs :: "string list"
  pa_WebSocket :: bool

definition ngx_nameRe :: "string \<Rightarrow> bool" where
  "ngx_nameRe = re_ends host_alnum (\<lambda>c. host_alnum c \<or> c = CHR ''-'') 30"

text \<open>Labels with a final dot each, then a top-level name of letters.\<close>

definition ngx_hostRe :: "string \<Rightarrow> bool" where
  "ngx_hostRe s \<longleftrightarrow>
     (let ls = Split (CHR ''.'') s
      in length ls \<ge> 2 \<and> list_all (re_ends host_alnum (\<lambda>c. host_alnum c \<or> c = CHR ''-'') 61) (butlast ls)
         \<and> list_all is_lower (last ls) \<and> length (last ls) \<ge> 2)"

datatype NgxError = NgxName string | NgxHost string | NgxUpstream string | NgxPort | NgxCertName | NgxPaths | NgxPathChars | NgxTls
  | NgxCidr string | NgxDupName string | NgxDupHost string

text \<open>\<open>strings.ContainsAny\<close> with the characters of the source.\<close>

definition ngx_bad_char :: "char \<Rightarrow> bool" where
  "ngx_bad_char c \<longleftrightarrow> c \<in> {CHR '' '', CHR '';'', CHR 0x22, CHR 0x27, CHR 0x0A, CHR 0x09}"

definition tls_check :: "App \<Rightarrow> NgxError option" where
  "tls_check a =
     (if pa_TLS a = TLSAppliance \<or> pa_TLS a = TLSNone then None
      else if pa_TLS a = TLSManaged then fail_if (\<not> ngx_nameRe (pa_CertName a)) NgxCertName
      else if pa_TLS a = TLSCustom then
        err_then (fail_if (\<not> HasPrefix (pa_CertPath a) ''/'' \<or> \<not> HasPrefix (pa_KeyPath a) ''/'') NgxPaths)
                 (fail_if (list_ex ngx_bad_char (pa_CertPath a @ pa_KeyPath a)) NgxPathChars)
      else Some NgxTls)"

definition ngx_Validate :: "App \<Rightarrow> NgxError option" where
  "ngx_Validate a =
     err_then (fail_if (\<not> ngx_nameRe (pa_Name a)) (NgxName (pa_Name a)))
    (err_then (fail_if (\<not> ngx_hostRe (ToLower (pa_Hostname a))) (NgxHost (pa_Hostname a)))
    (err_then (fail_if (ParseIP (pa_UpstreamIP a) = None) (NgxUpstream (pa_UpstreamIP a)))
    (err_then (fail_if (pa_UpstreamPort a < 1 \<or> pa_UpstreamPort a > 65535) NgxPort)
    (err_then (tls_check a)
       (first_err (\<lambda>c. fail_if (ParseCIDR (TrimSpace c) = None) (NgxCidr c)) (pa_AllowCIDRs a))))))"

section \<open>The file\<close>

text \<open>\<open>net.JoinHostPort\<close>.\<close>

definition JoinHostPort :: "string \<Rightarrow> string \<Rightarrow> string" where
  "JoinHostPort host port = (if CHR '':'' \<in> set host then ''['' @ host @ '']:'' @ port else host @ '':'' @ port)"

definition upstream_addr :: "App \<Rightarrow> string" where
  "upstream_addr a = JoinHostPort (pa_UpstreamIP a) (Itoa (pa_UpstreamPort a))"

definition cert_paths :: "App \<Rightarrow> string \<times> string" where
  "cert_paths a =
     (if pa_TLS a = TLSAppliance then (applianceCert, applianceKey)
      else if pa_TLS a = TLSManaged then
        (managedCertDir @ ''/'' @ pa_CertName a @ ''.crt'', managedCertDir @ ''/'' @ pa_CertName a @ ''.key'')
      else (pa_CertPath a, pa_KeyPath a))"

definition listen_lines :: "App \<Rightarrow> string list" where
  "listen_lines a =
     (if pa_TLS a = TLSNone then [''    listen 80;'']
      else [''    listen 443 ssl;'', ''    ssl_certificate '' @ fst (cert_paths a) @ '';'',
            ''    ssl_certificate_key '' @ snd (cert_paths a) @ '';''])"

definition ngx_access_lines :: "App \<Rightarrow> string list" where
  "ngx_access_lines a =
     map (\<lambda>c. ''    allow '' @ TrimSpace c @ '';'') (pa_AllowCIDRs a) @ only_if (pa_AllowCIDRs a \<noteq> []) [''    deny all;'']"

definition location_lines :: "App \<Rightarrow> string list" where
  "location_lines a =
     [''    location / {'',
      ''        proxy_pass http://'' @ upstream_addr a @ '';'',
      ''        proxy_set_header Host $host;'',
      ''        proxy_set_header X-Real-IP $remote_addr;'',
      ''        proxy_set_header X-Forwarded-For $proxy_add_x_forwarded_for;'',
      ''        proxy_set_header X-Forwarded-Proto $scheme;'']
   @ only_if (pa_WebSocket a)
     [''        proxy_http_version 1.1;'',
      ''        proxy_set_header Upgrade $http_upgrade;'',
      ''        proxy_set_header Connection '' @ [CHR 0x22] @ ''upgrade'' @ [CHR 0x22] @ '';'']
   @ [''    }'', ''}'']"

definition vhost_lines :: "App \<Rightarrow> string list" where
  "vhost_lines a =
     [[], ''# service: '' @ pa_Name a, ''server {''] @ listen_lines a
   @ [''    server_name '' @ ToLower (pa_Hostname a) @ '';''] @ ngx_access_lines a @ location_lines a"

fun servers :: "string set \<Rightarrow> string set \<Rightarrow> App list \<Rightarrow> NgxError + string list" where
  "servers seenName seenHost [] = Inr []"
| "servers seenName seenHost (a # apps) =
     (case ngx_Validate a of
        Some e \<Rightarrow> Inl e
      | None \<Rightarrow>
          let host = ToLower (pa_Hostname a)
          in if pa_Name a \<in> seenName then Inl (NgxDupName (pa_Name a))
             else if host \<in> seenHost then Inl (NgxDupHost host)
             else map_sum id (\<lambda>rest. vhost_lines a @ rest) (servers (insert (pa_Name a) seenName) (insert host seenHost) apps))"

definition ngx_header :: string where
  "ngx_header = ''# Managed by Saguaro (generated). Manual edits are overwritten on apply.''"

definition ngx_Generate :: "App list \<Rightarrow> NgxError + string" where
  "ngx_Generate apps = map_sum id (\<lambda>ls. unlines (ngx_header # ls)) (servers {} {} apps)"

section \<open>Reading the file\<close>

text \<open>
  The meaning of the access rules in a server block: an \<open>allow\<close> rule with a network matches
  the clients in it, \<open>deny all\<close> matches every client, other lines are no rules.
\<close>

fun rule_of :: "string \<Rightarrow> (bytes \<Rightarrow> bool option)" where
  "rule_of l = (\<lambda>ip.
     if HasPrefix l ''    allow '' then
       (case ParseCIDR (butlast (TrimPrefix l ''    allow '')) of
          Some (_, n) \<Rightarrow> if Contains n ip then Some True else None
        | None \<Rightarrow> None)
     else if l = ''    deny all;'' then Some False
     else None)"

fun admits :: "string list \<Rightarrow> bytes \<Rightarrow> bool" where
  "admits [] ip = True"
| "admits (l # ls) ip = (case rule_of l ip of Some b \<Rightarrow> b | None \<Rightarrow> admits ls ip)"

text \<open>The lines of the block of one service: from its comment to the next blank line.\<close>

definition block_of :: "string \<Rightarrow> string list \<Rightarrow> string list" where
  "block_of name ls = takeWhile (\<lambda>l. l \<noteq> []) (dropWhile (\<lambda>l. l \<noteq> ''# service: '' @ name) ls)"

section \<open>The generated file\<close>

lemma servers_Inr:
  "servers N H apps = Inr ls \<longleftrightarrow>
     (\<forall>a \<in> set apps. ngx_Validate a = None \<and> pa_Name a \<notin> N \<and> ToLower (pa_Hostname a) \<notin> H)
   \<and> distinct (map pa_Name apps) \<and> distinct (map (\<lambda>a. ToLower (pa_Hostname a)) apps)
   \<and> ls = concat (map vhost_lines apps)"
  by (induction apps arbitrary: N H ls) (auto simp: Let_def map_sum_Inr_iff image_iff split: option.splits)

lemma ngx_hostRe_graph: "ngx_hostRe s \<Longrightarrow> list_all is_graph s"
proof -
  assume h: "ngx_hostRe s"
  define ls where "ls = Split (CHR ''.'') s"
  have b: "list_all (re_ends host_alnum (\<lambda>c. host_alnum c \<or> c = CHR ''-'') 61) (butlast ls)"
    and t: "list_all is_lower (last ls)" "2 \<le> length (last ls)" and n: "2 \<le> length ls"
    using h unfolding ngx_hostRe_def ls_def by (simp_all add: Let_def)
  have n': "ls \<noteq> []" using n by auto
  have t': "last ls \<noteq> []" using t(2) by auto
  have "list_all host_label (butlast ls)"
    using b by (auto simp: list_all_iff host_label_def re_ends_def)
  moreover have "host_label (last ls)"
    using t(1) t' by (simp add: host_label_def host_alnum_def list_all_iff)
  ultimately have "list_all host_label (butlast ls @ [last ls])" by simp
  then show ?thesis using labels_graph n' unfolding ls_def by simp
qed

lemma ngx_nameRe_graph: "ngx_nameRe s \<Longrightarrow> list_all is_graph s"
  using host_char_graph by (auto simp: ngx_nameRe_def re_ends_def list_all_iff)

lemma ngx_Validate_None:
  "ngx_Validate a = None \<longleftrightarrow>
     ngx_nameRe (pa_Name a) \<and> ngx_hostRe (ToLower (pa_Hostname a)) \<and> ParseIP (pa_UpstreamIP a) \<noteq> None
   \<and> 1 \<le> pa_UpstreamPort a \<and> pa_UpstreamPort a \<le> 65535 \<and> tls_check a = None
   \<and> (\<forall>c \<in> set (pa_AllowCIDRs a). ParseCIDR (TrimSpace c) \<noteq> None)"
  by (auto simp: ngx_Validate_def)

lemma cert_paths_ok:
  assumes "tls_check a = None" "pa_TLS a \<noteq> TLSNone"
  shows "CHR 0x0A \<notin> set (fst (cert_paths a)) \<and> CHR 0x0A \<notin> set (snd (cert_paths a))"
  using assms graph_no_newline [OF ngx_nameRe_graph]
  by (auto simp: tls_check_def cert_paths_def applianceCert_def applianceKey_def managedCertDir_def ngx_bad_char_def list_ex_iff
      split: if_splits)

lemma vhost_lines_ok:
  assumes "ngx_Validate a = None"
  shows "\<forall>l \<in> set (vhost_lines a). CHR 0x0A \<notin> set l"
proof -
  from assms have g: "list_all is_graph (pa_Name a)" "list_all is_graph (ToLower (pa_Hostname a))" "list_all is_graph (pa_UpstreamIP a)"
    "\<forall>c \<in> set (pa_AllowCIDRs a). list_all is_graph (TrimSpace c)"
    using ngx_nameRe_graph ngx_hostRe_graph ParseIP_graph ParseCIDR_graph unfolding ngx_Validate_None by blast+
  have "CHR 0x0A \<notin> set (upstream_addr a)"
    using graph_no_newline [OF g(3)] graph_no_newline [OF Itoa_graph] by (simp add: upstream_addr_def JoinHostPort_def)
  moreover have "\<forall>l \<in> set (listen_lines a). CHR 0x0A \<notin> set l"
    using cert_paths_ok [of a] assms by (auto simp: listen_lines_def ngx_Validate_None)
  moreover have "\<forall>l \<in> set (ngx_access_lines a). CHR 0x0A \<notin> set l"
    using g(4) graph_no_newline by (auto simp: ngx_access_lines_def)
  ultimately show ?thesis
    using graph_no_newline [OF g(1)] graph_no_newline [OF g(2)] by (auto simp: vhost_lines_def location_lines_def)
qed

lemma ngx_lines:
  assumes "ngx_Generate apps = Inr t"
  shows "Split (CHR 0x0A) t = ngx_header # concat (map vhost_lines apps) @ [[]]"
proof -
  from assms have v: "\<forall>a \<in> set apps. ngx_Validate a = None" and t: "t = unlines (ngx_header # concat (map vhost_lines apps))"
    by (auto simp: ngx_Generate_def map_sum_Inr_iff servers_Inr)
  have "\<forall>l \<in> set (ngx_header # concat (map vhost_lines apps)). CHR 0x0A \<notin> set l"
    using v vhost_lines_ok by (auto simp: ngx_header_def)
  from Split_unlines [OF this] show ?thesis by (simp add: t)
qed

text \<open>
  The file is generated exactly when every service is valid and no two share a name or,
  up to case, a host name; it then has exactly the intended lines, one server block per
  service in the order of the list.
\<close>

theorem proxy_file_generated:
  "((\<exists>t. ngx_Generate apps = Inr t) \<longleftrightarrow>
      (\<forall>a \<in> set apps. ngx_Validate a = None) \<and> distinct (map pa_Name apps) \<and> distinct (map (\<lambda>a. ToLower (pa_Hostname a)) apps))
   \<and> (\<forall>t. ngx_Generate apps = Inr t \<longrightarrow> Split (CHR 0x0A) t = ngx_header # concat (map vhost_lines apps) @ [[]])"
  using ngx_lines by (simp add: ngx_Generate_def map_sum_Inr_iff servers_Inr)

section \<open>Access\<close>

definition body_lines :: "App \<Rightarrow> string list" where
  "body_lines a = ''server {'' # listen_lines a @ [''    server_name '' @ ToLower (pa_Hostname a) @ '';''] @ ngx_access_lines a @ location_lines a"

lemma vhost_lines_body: "vhost_lines a = [] # (''# service: '' @ pa_Name a) # body_lines a"
  by (simp add: vhost_lines_def body_lines_def)

lemma body_lines_marks: "l \<in> set (body_lines a) \<Longrightarrow> l \<noteq> [] \<and> hd l \<noteq> CHR ''#''"
  by (auto simp: body_lines_def listen_lines_def ngx_access_lines_def location_lines_def only_if_def split: if_splits)

lemma body_lines_skip: "l \<in> set (body_lines a) \<Longrightarrow> l \<noteq> ''# service: '' @ n"
  using body_lines_marks by fastforce

lemma block_of_blank: "block_of n ([] # ls) = block_of n ls"
  by (simp add: block_of_def)

lemma block_of_skip: "\<forall>l \<in> set xs. l \<noteq> ''# service: '' @ n \<Longrightarrow> block_of n (xs @ ls) = block_of n ls"
  by (simp add: block_of_def dropWhile_append2)

lemma block_of_apps:
  assumes "a \<in> set apps" "distinct (map pa_Name apps)"
  shows "block_of (pa_Name a) (concat (map vhost_lines apps) @ [[]]) = (''# service: '' @ pa_Name a) # body_lines a"
  using assms
proof (induction apps)
  case (Cons b apps)
  let ?rest = "concat (map vhost_lines apps) @ [[]]"
  have r: "takeWhile (\<lambda>l. l \<noteq> []) ?rest = []"
    by (cases apps) (simp_all add: vhost_lines_body)
  show ?case
  proof (cases "pa_Name b = pa_Name a")
    case True
    then have "b = a" using Cons.prems by (auto simp: image_iff)
    moreover have "takeWhile (\<lambda>l. l \<noteq> []) (body_lines a @ ?rest) = body_lines a"
      using body_lines_marks r by (simp add: takeWhile_append2)
    ultimately show ?thesis
      by (simp add: vhost_lines_body [of a] block_of_def)
  next
    case False
    have "block_of (pa_Name a) (vhost_lines b @ ?rest) = block_of (pa_Name a) ?rest"
      using False body_lines_skip by (intro block_of_skip) (auto simp: vhost_lines_body)
    with False Cons show ?thesis by auto
  qed
qed simp

lemma admits_skip: "\<forall>l \<in> set xs. rule_of l ip = None \<Longrightarrow> admits (xs @ ls) ip = admits ls ip"
  by (induction xs) (simp_all del: rule_of.simps)

lemma allow_rule: "rule_of (''    allow '' @ c @ '';'') ip =
    (case ParseCIDR c of Some (_, n) \<Rightarrow> if Contains n ip then Some True else None | None \<Rightarrow> None)"
  by (simp add: HasPrefix_def TrimPrefix_def butlast_append)

lemma rule_starts:
  assumes "rule_of l ip \<noteq> None"
  shows "take 5 l = ''    a'' \<or> take 5 l = ''    d''"
proof -
  from assms consider "HasPrefix l ''    allow ''" | "l = ''    deny all;''"
    by (auto split: if_splits)
  then show ?thesis
  proof cases
    case 1
    then have "take 5 (take 10 l) = take 5 ''    allow ''"
      by (simp add: HasPrefix_def numeral_eq_Suc)
    then show ?thesis by simp
  qed simp
qed

lemma plain_rules:
  assumes "l \<in> set (listen_lines a) \<union> set (location_lines a) \<union> {''server {'', ''    server_name '' @ h @ '';'', ''# service: '' @ n}"
  shows "rule_of l ip = None"
proof -
  have "take 5 l \<notin> {''    a'', ''    d''}"
    using assms by (auto simp: listen_lines_def location_lines_def only_if_def split: if_splits)
  then show ?thesis using rule_starts by blast
qed

definition in_network :: "bytes \<Rightarrow> string \<Rightarrow> bool" where
  "in_network ip c = (case ParseCIDR (TrimSpace c) of Some (_, n) \<Rightarrow> Contains n ip | None \<Rightarrow> False)"

lemma admits_access:
  assumes "\<forall>l \<in> set ls. rule_of l ip = None"
  shows "admits (ngx_access_lines a @ ls) ip \<longleftrightarrow> pa_AllowCIDRs a = [] \<or> (\<exists>c \<in> set (pa_AllowCIDRs a). in_network ip c)"
proof -
  have d: "admits (map (\<lambda>c. ''    allow '' @ TrimSpace c @ '';'') cs @ ''    deny all;'' # ls) ip \<longleftrightarrow> (\<exists>c \<in> set cs. in_network ip c)" for cs
  proof (induction cs)
    case Nil
    show ?case by (simp add: HasPrefix_def)
  next
    case (Cons c cs)
    show ?case
      using Cons.IH allow_rule [of "TrimSpace c" ip] by (auto simp del: rule_of.simps simp: in_network_def split: option.splits)
  qed
  have "admits ls ip" using admits_skip [OF assms, of "[]"] by simp
  with d show ?thesis by (cases "pa_AllowCIDRs a = []") (simp_all add: ngx_access_lines_def only_if_def del: admits.simps)
qed

text \<open>
  The access list of a published service is enforced: in the block of a service of the
  generated file, the rules admit a client exactly when the service has no access list or one
  of the networks of the list contains the client's address.
\<close>

theorem proxy_access_enforced:
  assumes "ngx_Generate apps = Inr t" "a \<in> set apps"
  shows "admits (block_of (pa_Name a) (Split (CHR 0x0A) t)) ip \<longleftrightarrow>
    pa_AllowCIDRs a = [] \<or> (\<exists>c \<in> set (pa_AllowCIDRs a). in_network ip c)"
proof -
  have d: "distinct (map pa_Name apps)"
    using assms(1) by (auto simp: ngx_Generate_def map_sum_Inr_iff servers_Inr)
  have h: "\<forall>l \<in> set [ngx_header]. l \<noteq> ''# service: '' @ pa_Name a"
    by (simp add: ngx_header_def)
  have b: "block_of (pa_Name a) (Split (CHR 0x0A) t) = (''# service: '' @ pa_Name a) # body_lines a"
    using ngx_lines [OF assms(1)] block_of_skip [OF h] block_of_apps [OF assms(2) d] by simp
  let ?pre = "(''# service: '' @ pa_Name a) # ''server {'' # listen_lines a @ [''    server_name '' @ ToLower (pa_Hostname a) @ '';'']"
  have "admits (?pre @ ngx_access_lines a @ location_lines a) ip = admits (ngx_access_lines a @ location_lines a) ip"
    by (rule admits_skip, rule ballI, rule plain_rules [where a = a and n = "pa_Name a" and h = "ToLower (pa_Hostname a)"]) auto
  moreover have "\<forall>l \<in> set (location_lines a). rule_of l ip = None"
    using plain_rules by blast
  ultimately show ?thesis
    using admits_access [of "location_lines a" ip a] b by (simp add: body_lines_def del: rule_of.simps admits.simps)
qed

section \<open>An example\<close>

definition ex_published :: App where
  "ex_published = \<lparr> pa_Name = ''wiki'', pa_Hostname = ''Wiki.example.org'', pa_UpstreamIP = ''10.0.0.5'', pa_UpstreamPort = 8080,
     pa_TLS = TLSManaged, pa_CertPath = [], pa_KeyPath = [], pa_CertName = ''wiki-cert'', pa_AllowCIDRs = ['' 10.0.0.0/8''], pa_WebSocket = False \<rparr>"

lemma ex_published_valid: "ngx_Validate ex_published = None"
proof -
  have "ToLower ''Wiki.example.org'' = ''wiki.example.org''"
    by (simp add: go_std lower_char_def is_upper_def char_le_of_char char_of_def bit_Suc_0_iff)
  moreover have "ngx_hostRe ''wiki.example.org''" "ngx_nameRe ''wiki''" "ngx_nameRe ''wiki-cert''"
    by (simp_all add: ngx_hostRe_def ngx_nameRe_def re_ends_def host_alnum_def char_class_defs)
  moreover have "TrimSpace '' 10.0.0.0/8'' = ''10.0.0.0/8''"
    by (simp add: TrimSpace_def go_std ascii_space_def space2_def space3_def)
  moreover have "ParseIP ''10.0.0.5'' \<noteq> None" "ParseCIDR ''10.0.0.0/8'' \<noteq> None"
    by (simp_all add: net_eval)
  ultimately show ?thesis
    unfolding ngx_Validate_None by (simp add: ex_published_def tls_check_def tls_defs)
qed

lemma ex_published_outside: "\<not> in_network [192, 168, 0, 1] '' 10.0.0.0/8''"
proof -
  have "TrimSpace '' 10.0.0.0/8'' = ''10.0.0.0/8''"
    by (simp add: TrimSpace_def go_std ascii_space_def space2_def space3_def)
  moreover have "case ParseCIDR ''10.0.0.0/8'' of Some (_, n) \<Rightarrow> \<not> Contains n [192, 168, 0, 1] | None \<Rightarrow> True"
    by (simp add: net_eval Contains_def)
  ultimately show ?thesis
    by (auto simp: in_network_def split: option.splits)
qed

theorem proxy_file_generated_witness: "\<exists>t. ngx_Generate [ex_published] = Inr t"
  using proxy_file_generated [of "[ex_published]"] ex_published_valid by simp

end
