(* ===== verification/ServiceApis.thy ===== *)
theory ServiceApis
  imports VpnApi Squid Nginx NetSpecs
begin

text \<open>
  The handlers of three more services that stage a generated file and run a root adapter:
  static routes (\<open>cmd/saguaro/routes.go\<close>), the reverse proxy (\<open>proxy.go\<close>) and the web proxy
  (\<open>webproxy.go\<close>). They have the state of the tunnels in \<open>VpnApi\<close> and are further
  interpretations of its locale \<open>apply_service\<close>. Parameters beside those of \<open>svc_io\<close>: the
  answer of the upstream probe, the outcome of the preparation of the interception CA, and
  which of the three files of the web proxy can be written.
\<close>

section \<open>Shared steps\<close>

definition logged :: "'f svc_io \<Rightarrow> string \<Rightarrow> string \<Rightarrow> string \<Rightarrow> string \<Rightarrow> ('c, 'f) service \<Rightarrow> ('c, 'f) service" where
  "logged io action target result severity s =
     s \<lparr> sv_audit := recordSev (vi_rq io) (actor (vi_rq io)) action target result severity (sv_audit s) \<rparr>"

text \<open>An adapter call that puts the service into the given state or fails.\<close>

definition adapter_run :: "'f svc_io \<Rightarrow> 'f running \<Rightarrow> ('c, 'f) service \<Rightarrow> bool \<times> ('c, 'f) service" where
  "adapter_run io x s =
     (case vi_adapter io of None \<Rightarrow> (True, s \<lparr> sv_running := x \<rparr>) | Some r \<Rightarrow> (False, s \<lparr> sv_running := r \<rparr>))"

text \<open>Store, then record: a failed write is answered before the record is made.\<close>

definition store_and_log :: "'f svc_io \<Rightarrow> string \<Rightarrow> string \<Rightarrow> string \<Rightarrow> 'c \<Rightarrow> ('c, 'f) service \<Rightarrow> reply \<times> ('c, 'f) service" where
  "store_and_log io action target severity c s =
     (case persist io c s of
        (Done, s') \<Rightarrow> (Done, logged io action target ''success'' severity s')
      | (r, s') \<Rightarrow> (r, s'))"

text \<open>The common end: the adapter runs, on success the configuration is stored and recorded.\<close>

definition run_and_store ::
  "'f svc_io \<Rightarrow> 'f running \<Rightarrow> (('c, 'f) service \<Rightarrow> ('c, 'f) service) \<Rightarrow> string \<Rightarrow> string \<Rightarrow> string \<Rightarrow> 'c \<Rightarrow> ('c, 'f) service
    \<Rightarrow> reply \<times> ('c, 'f) service" where
  "run_and_store io x onfail action target severity c s =
     (case adapter_run io x s of
        (False, s1) \<Rightarrow> (Refused 502, onfail s1)
      | (True, s1) \<Rightarrow> store_and_log io action target severity c s1)"

section \<open>Static routes\<close>

type_synonym routes_service = "(Route list, string) service"

definition getRoutes :: "routes_service \<Rightarrow> Route list" where
  "getRoutes s = (case sv_stored s of None \<Rightarrow> [] | Some c \<Rightarrow> c)"

definition apiRoutesPut :: "string svc_io \<Rightarrow> Route list \<Rightarrow> routes_service \<Rightarrow> reply \<times> routes_service" where
  "apiRoutesPut io rs s =
     (if routes_Validate rs \<noteq> None then (Refused 400, s)
      else if rs = [] then
        run_and_store io Off (\<lambda>s. s) ''routes-apply'' ''routing'' ''warning'' rs s
      else case routes_GenerateSpec rs of
             Inl _ \<Rightarrow> (Refused 400, s)
           | Inr spec \<Rightarrow>
               if \<not> vi_stage io then (Refused 500, s)
               else run_and_store io (Serving spec) (logged io ''routes-apply'' ''routing'' ''failed'' ''security'')
                      ''routes-apply'' ''routing'' ''security'' rs (s \<lparr> sv_staged := Some spec \<rparr>))"

section \<open>Reverse proxy\<close>

type_synonym proxy_service = "(App list, string) service"

definition getProxyApps :: "proxy_service \<Rightarrow> App list" where
  "getProxyApps s = (case sv_stored s of None \<Rightarrow> [] | Some c \<Rightarrow> c)"

definition apiProxyApply :: "string svc_io \<Rightarrow> (string \<Rightarrow> bool) \<Rightarrow> bool \<Rightarrow> App list \<Rightarrow> proxy_service \<Rightarrow> reply \<times> proxy_service" where
  "apiProxyApply io answers force apps s =
     (case ngx_Generate apps of
        Inl _ \<Rightarrow> (Refused 400, s)
      | Inr text' \<Rightarrow>
          if \<not> force \<and> list_ex (\<lambda>a. \<not> answers (upstream_addr a)) apps then (Refused 409, s)
          else if apps = [] then
            run_and_store io Off (\<lambda>s. s) ''proxy-apply'' ''nginx'' ''info'' apps s
          else if \<not> vi_stage io then (Refused 500, s)
          else run_and_store io (Serving text') (logged io ''proxy-apply'' ''nginx'' ''failed'' ''info'')
                 ''proxy-apply'' ''nginx'' ''info'' apps (s \<lparr> sv_staged := Some text' \<rparr>))"

section \<open>Web proxy\<close>

text \<open>The three staged files and, for a running proxy, the arguments of the adapter.\<close>

record web_files =
  wf_squid :: "string option"
  wf_banned :: "string option"
  wf_exceptions :: "string option"
  wf_args :: "(string \<times> string) option"

definition no_web_files :: web_files where
  "no_web_files = \<lparr> wf_squid = None, wf_banned = None, wf_exceptions = None, wf_args = None \<rparr>"

type_synonym web_service = "(SquidConfig, web_files) service"

definition getWebProxy :: "web_service \<Rightarrow> SquidConfig" where
  "getWebProxy s =
     (case sv_stored s of
        Some c \<Rightarrow> c
      | None \<Rightarrow> \<lparr> sq_Enabled = False, sq_FilterPort = DefaultFilterPort, sq_AllowedNetwork = [], sq_Filtering = False, sq_BannedSites = [],
                  sq_ExceptionSites = [], sq_SSLBump = False, sq_SSLBumpPort = 0, sq_SpliceSites = [], sq_Categories = [], sq_URLGroups = [] \<rparr>)"

definition apiWebProxyGet :: "web_service \<Rightarrow> SquidConfig \<times> (string \<times> string \<times> nat) list" where
  "apiWebProxyGet s = (getWebProxy s, Categories)"

text \<open>The files are written one after the other; the first that cannot be written ends the request.\<close>

definition stage_web :: "bool \<times> bool \<times> bool \<Rightarrow> string \<Rightarrow> string \<Rightarrow> string \<Rightarrow> web_files \<Rightarrow> bool \<times> web_files" where
  "stage_web writable d b e f =
     (case writable of (wd, wb, we) \<Rightarrow>
        if \<not> wd then (False, f)
        else let f1 = f \<lparr> wf_squid := Some d \<rparr>
             in if \<not> wb then (False, f1)
                else let f2 = f1 \<lparr> wf_banned := Some b \<rparr>
                     in if \<not> we then (False, f2) else (True, f2 \<lparr> wf_exceptions := Some e \<rparr>))"

definition apply_args :: "SquidConfig \<Rightarrow> string \<times> string" where
  "apply_args c = (Itoa (FilterPortOrDefault c), if sq_Filtering c then ''1'' else ''0'')"

definition web_generate :: "SquidConfig \<Rightarrow> SquidError + string \<times> string \<times> string" where
  "web_generate c =
     try_then (GenerateSquidDropIn c) (\<lambda>d. try_then (GenerateBanned c) (\<lambda>b. map_sum id (\<lambda>e. (d, b, e)) (GenerateExceptions c)))"

definition applyWebProxy ::
  "web_files svc_io \<Rightarrow> bool \<Rightarrow> bool \<times> bool \<times> bool \<Rightarrow> SquidConfig \<Rightarrow> web_service \<Rightarrow> bool \<times> web_service" where
  "applyWebProxy io bumpca writable c s =
     (if \<not> sq_Enabled c then adapter_run io Off s
      else if sq_SSLBump c \<and> \<not> bumpca then (False, s)
      else case web_generate c of
             Inl _ \<Rightarrow> (False, s)
           | Inr (d, b, e) \<Rightarrow>
               (case stage_web writable d b e (case sv_staged s of None \<Rightarrow> no_web_files | Some f \<Rightarrow> f) of
                  (False, f) \<Rightarrow> (False, s \<lparr> sv_staged := Some f \<rparr>)
                | (True, f) \<Rightarrow> adapter_run io (Serving (f \<lparr> wf_args := Some (apply_args c) \<rparr>)) (s \<lparr> sv_staged := Some f \<rparr>)))"

definition apiWebProxyPut ::
  "web_files svc_io \<Rightarrow> bool \<Rightarrow> bool \<times> bool \<times> bool \<Rightarrow> SquidConfig \<Rightarrow> web_service \<Rightarrow> reply \<times> web_service" where
  "apiWebProxyPut io bumpca writable c s =
     (if sq_Validate c \<noteq> None then (Refused 400, s)
      else case applyWebProxy io bumpca writable c s of
             (False, s1) \<Rightarrow> (Refused 502, logged io ''webproxy-apply'' ''squid'' ''failed'' ''warning'' s1)
           | (True, s1) \<Rightarrow> store_and_log io ''webproxy-apply'' ''squid'' ''warning'' c s1)"

section \<open>Stored and running configuration\<close>

definition routes_renders :: "Route list \<Rightarrow> string running \<Rightarrow> bool" where
  "routes_renders rs x \<longleftrightarrow> (if rs = [] then x = Off else \<exists>t. routes_GenerateSpec rs = Inr t \<and> x = Serving t)"

definition proxy_renders :: "App list \<Rightarrow> string running \<Rightarrow> bool" where
  "proxy_renders apps x \<longleftrightarrow> (if apps = [] then x = Off else \<exists>t. ngx_Generate apps = Inr t \<and> x = Serving t)"

definition web_renders :: "SquidConfig \<Rightarrow> web_files running \<Rightarrow> bool" where
  "web_renders c x \<longleftrightarrow>
     (if sq_Enabled c
      then \<exists>d b e. web_generate c = Inr (d, b, e)
             \<and> x = Serving \<lparr> wf_squid = Some d, wf_banned = Some b, wf_exceptions = Some e, wf_args = Some (apply_args c) \<rparr>
      else x = Off)"

lemma adapter_run_cases:
  "adapter_run io x s = (b, s1) \<Longrightarrow> sv_stored s1 = sv_stored s \<and> sv_audit s1 = sv_audit s \<and> (b \<longrightarrow> sv_running s1 = x)"
  by (auto simp: adapter_run_def split: option.splits)

lemma logged_same [simp]: "sv_stored (logged io a t r sv s) = sv_stored s" "sv_running (logged io a t r sv s) = sv_running s"
  by (simp_all add: logged_def)

lemma store_and_log_cases:
  "store_and_log io a t sv c s = (r, s') \<Longrightarrow>
     sv_stored s' = Some c \<and> sv_running s' = sv_running s
   \<and> (r = Done \<and> sv_audit s' = recordSev (vi_rq io) (actor (vi_rq io)) a t ''success'' sv (sv_audit s) \<or> r = Refused 500)"
  by (auto simp: store_and_log_def persist_def logged_def split: if_splits)

lemma run_and_store_effect:
  assumes "run_and_store io x onfail a t sv c s = (r, s')" "renders c x" "\<And>s. sv_stored (onfail s) = sv_stored s"
  shows "svc_effect en renders on r s s' \<and> (sv_stored s' = sv_stored s \<or> sv_stored s' = Some c)
    \<and> (r = Done \<longrightarrow> sv_stored s' = Some c \<and> sv_audit s' = recordSev (vi_rq io) (actor (vi_rq io)) a t ''success'' sv (sv_audit s))"
proof (cases "adapter_run io x s")
  case (Pair b s1)
  note a = adapter_run_cases [OF Pair]
  show ?thesis
  proof (cases b)
    case True
    with assms(1) Pair have "store_and_log io a t sv c s1 = (r, s')" by (simp add: run_and_store_def)
    from store_and_log_cases [OF this] a True assms(2) show ?thesis
      by (auto intro: svc_effect.applied)
  next
    case False
    with assms(1) Pair have "r = Refused 502" "s' = onfail s1" by (simp_all add: run_and_store_def)
    with a assms(3) show ?thesis by (auto intro: svc_effect.failed)
  qed
qed

lemma svc_effect_staged:
  "svc_effect en renders on r (s \<lparr> sv_staged := x \<rparr>) s' \<Longrightarrow> (\<And>s. on (s \<lparr> sv_staged := x \<rparr>) = on s) \<Longrightarrow> svc_effect en renders on r s s'"
  by (erule svc_effect.cases) (auto simp: unchanged_def intro: svc_effect.intros)

abbreviation routes_on :: "routes_service \<Rightarrow> bool" where "routes_on s \<equiv> getRoutes s \<noteq> []"
abbreviation proxy_on :: "proxy_service \<Rightarrow> bool" where "proxy_on s \<equiv> getProxyApps s \<noteq> []"
abbreviation web_on :: "web_service \<Rightarrow> bool" where "web_on s \<equiv> sq_Enabled (getWebProxy s)"

lemma apiRoutesPut_cases:
  assumes "apiRoutesPut io rs s = (r, s')"
  shows "svc_effect (\<lambda>c. c \<noteq> []) routes_renders routes_on r s s' \<and> (sv_stored s' = sv_stored s \<or> sv_stored s' = Some rs \<and> routes_Validate rs = None)"
proof -
  consider "r \<noteq> Done" "s' = s"
    | "routes_Validate rs = None" "rs = []" "run_and_store io Off (\<lambda>s. s) ''routes-apply'' ''routing'' ''warning'' rs s = (r, s')"
    | spec where "routes_Validate rs = None" "rs \<noteq> []" "routes_GenerateSpec rs = Inr spec"
        "run_and_store io (Serving spec) (logged io ''routes-apply'' ''routing'' ''failed'' ''security'') ''routes-apply'' ''routing'' ''security'' rs
           (s \<lparr> sv_staged := Some spec \<rparr>) = (r, s')"
    using assms by (auto simp: apiRoutesPut_def split: if_splits sum.splits)
  then show ?thesis
  proof cases
    case 1
    then show ?thesis by (simp add: quiet_refl)
  next
    case 2
    with run_and_store_effect [OF 2(3), of routes_renders] show ?thesis by (simp add: routes_renders_def)
  next
    case 3
    with run_and_store_effect [OF 3(4), of routes_renders "\<lambda>c. c \<noteq> []" routes_on] show ?thesis
      by (auto simp: routes_renders_def getRoutes_def dest!: svc_effect_staged)
  qed
qed

lemma apiProxyApply_cases:
  assumes "apiProxyApply io answers force apps s = (r, s')"
  shows "svc_effect (\<lambda>c. c \<noteq> []) proxy_renders proxy_on r s s'
    \<and> (sv_stored s' = sv_stored s \<or> sv_stored s' = Some apps \<and> (\<exists>t. ngx_Generate apps = Inr t))
    \<and> (r = Done \<longrightarrow> sv_stored s' = Some apps \<and> (\<exists>t. ngx_Generate apps = Inr t) \<and> (force \<or> (\<forall>a \<in> set apps. answers (upstream_addr a)))
         \<and> sv_audit s' = recordSev (vi_rq io) (actor (vi_rq io)) ''proxy-apply'' ''nginx'' ''success'' ''info'' (sv_audit s))"
proof -
  consider "r \<noteq> Done" "s' = s"
    | t where "ngx_Generate apps = Inr t" "force \<or> (\<forall>a \<in> set apps. answers (upstream_addr a))" "apps = []"
        "run_and_store io Off (\<lambda>s. s) ''proxy-apply'' ''nginx'' ''info'' apps s = (r, s')"
    | t where "ngx_Generate apps = Inr t" "force \<or> (\<forall>a \<in> set apps. answers (upstream_addr a))" "apps \<noteq> []"
        "run_and_store io (Serving t) (logged io ''proxy-apply'' ''nginx'' ''failed'' ''info'') ''proxy-apply'' ''nginx'' ''info'' apps
           (s \<lparr> sv_staged := Some t \<rparr>) = (r, s')"
    using assms by (auto simp: apiProxyApply_def list_ex_iff split: if_splits sum.splits)
  then show ?thesis
  proof cases
    case 1
    then show ?thesis by (simp add: quiet_refl)
  next
    case 2
    with run_and_store_effect [OF 2(4), of proxy_renders] show ?thesis by (simp add: proxy_renders_def)
  next
    case 3
    with run_and_store_effect [OF 3(4), of proxy_renders "\<lambda>c. c \<noteq> []" proxy_on] show ?thesis
      by (auto simp: proxy_renders_def getProxyApps_def dest!: svc_effect_staged)
  qed
qed

lemma stage_web_True:
  "stage_web w d b e f = (True, f') \<Longrightarrow> f' = f \<lparr> wf_squid := Some d, wf_banned := Some b, wf_exceptions := Some e \<rparr>"
  by (auto simp: stage_web_def Let_def split: prod.splits if_splits)

lemma applyWebProxy_cases:
  assumes "applyWebProxy io bumpca w c s = (ok, s1)"
  shows "sv_stored s1 = sv_stored s \<and> (ok \<longrightarrow> web_renders c (sv_running s1))"
proof -
  consider "\<not> ok" "sv_stored s1 = sv_stored s" | "\<not> sq_Enabled c" "adapter_run io Off s = (ok, s1)"
    | d b e f f' where "sq_Enabled c" "web_generate c = Inr (d, b, e)" "stage_web w d b e f = (True, f')"
        "adapter_run io (Serving (f' \<lparr> wf_args := Some (apply_args c) \<rparr>)) (s \<lparr> sv_staged := Some f' \<rparr>) = (ok, s1)"
    using assms unfolding applyWebProxy_def by (fastforce split: if_splits sum.splits prod.splits bool.splits)
  then show ?thesis
  proof cases
    case 2
    then show ?thesis using adapter_run_cases [OF 2(2)] by (simp add: web_renders_def)
  next
    case 3
    from adapter_run_cases [OF 3(4)] 3(1,2) stage_web_True [OF 3(3)] show ?thesis
      by (auto simp: web_renders_def)
  qed simp
qed

lemma apiWebProxyPut_cases:
  assumes "apiWebProxyPut io bumpca w c s = (r, s')"
  shows "svc_effect sq_Enabled web_renders web_on r s s' \<and> (sv_stored s' = sv_stored s \<or> sv_stored s' = Some c \<and> sq_Validate c = None)"
proof (cases "applyWebProxy io bumpca w c s")
  case (Pair ok s1)
  note a = applyWebProxy_cases [OF Pair]
  consider "r \<noteq> Done" "s' = s" | "r = Refused 502" "sv_stored s' = sv_stored s"
    | "ok" "sq_Validate c = None" "store_and_log io ''webproxy-apply'' ''squid'' ''warning'' c s1 = (r, s')"
    using assms Pair a by (auto simp: apiWebProxyPut_def split: if_splits bool.splits)
  then show ?thesis
  proof cases
    case 1
    then show ?thesis by (simp add: quiet_refl)
  next
    case 2
    then show ?thesis by (auto intro: svc_effect.failed)
  next
    case 3
    with store_and_log_cases [OF 3(3)] a show ?thesis by (auto intro: svc_effect.applied)
  qed
qed

fun routes_handle :: "string svc_io \<times> Route list \<Rightarrow> routes_service \<Rightarrow> reply \<times> routes_service" where
  "routes_handle (io, rs) s = apiRoutesPut io rs s"

fun proxy_handle :: "string svc_io \<times> (string \<Rightarrow> bool) \<times> bool \<times> App list \<Rightarrow> proxy_service \<Rightarrow> reply \<times> proxy_service" where
  "proxy_handle (io, answers, force, apps) s = apiProxyApply io answers force apps s"

fun web_handle :: "web_files svc_io \<times> bool \<times> (bool \<times> bool \<times> bool) \<times> SquidConfig \<Rightarrow> web_service \<Rightarrow> reply \<times> web_service" where
  "web_handle (io, bumpca, w, c) s = apiWebProxyPut io bumpca w c s"

interpretation static_routes: apply_service routes_handle "\<lambda>c. c \<noteq> []" routes_renders routes_on "\<lambda>rs. routes_Validate rs = None"
proof
  fix q s r s' assume "routes_handle q s = (r, s')"
  then show "svc_effect (\<lambda>c. c \<noteq> []) routes_renders routes_on r s s'" by (cases q) (simp add: apiRoutesPut_cases)
next
  fix q s r s' c' assume "routes_handle q s = (r, s')" "\<And>c. sv_stored s = Some c \<Longrightarrow> routes_Validate c = None" "sv_stored s' = Some c'"
  then show "routes_Validate c' = None" by (cases q) (auto dest!: apiRoutesPut_cases)
qed (auto simp: routes_renders_def getRoutes_def split: option.splits)

interpretation published: apply_service proxy_handle "\<lambda>c. c \<noteq> []" proxy_renders proxy_on "\<lambda>apps. \<exists>t. ngx_Generate apps = Inr t"
proof
  fix q s r s' assume "proxy_handle q s = (r, s')"
  then show "svc_effect (\<lambda>c. c \<noteq> []) proxy_renders proxy_on r s s'" by (cases q) (auto dest!: apiProxyApply_cases)
next
  fix q s r s' c' assume "proxy_handle q s = (r, s')" "\<And>c. sv_stored s = Some c \<Longrightarrow> \<exists>t. ngx_Generate c = Inr t" "sv_stored s' = Some c'"
  then show "\<exists>t. ngx_Generate c' = Inr t" by (cases q) (auto dest!: apiProxyApply_cases)
qed (auto simp: proxy_renders_def getProxyApps_def split: option.splits)

interpretation web: apply_service web_handle sq_Enabled web_renders web_on "\<lambda>c. sq_Validate c = None"
proof
  fix q s r s' assume "web_handle q s = (r, s')"
  then show "svc_effect sq_Enabled web_renders web_on r s s'" by (cases q) (auto dest!: apiWebProxyPut_cases)
next
  fix q s r s' c' assume "web_handle q s = (r, s')" "\<And>c. sv_stored s = Some c \<Longrightarrow> sq_Validate c = None" "sv_stored s' = Some c'"
  then show "sq_Validate c' = None" by (cases q) (auto dest!: apiWebProxyPut_cases)
qed (auto simp: web_renders_def getWebProxy_def split: option.splits)

section \<open>What the services enforce\<close>

text \<open>
  Static routes: after any sequence of requests on a new appliance the stored routes validate,
  and as long as no request was answered 502 the adapter has applied exactly the specification
  of the stored routes, or flushed them when there are none.
\<close>

theorem routes_in_sync:
  assumes "svc_run routes_handle qs fresh_service = (rs, s)"
  shows "(\<forall>c. sv_stored s = Some c \<longrightarrow> routes_Validate c = None) \<and> (Refused 502 \<notin> set rs \<longrightarrow> agrees routes_renders s)"
  using static_routes.run_in_sync [OF assms] by (simp add: fresh_agrees)

text \<open>
  C10. Published services are open only to whom their stored access list names. After any
  sequence of requests on a new appliance, none answered 502, nginx runs a file in which the
  block of every stored service admits a client exactly when the stored service has no access
  list or a network of it contains the client.
\<close>

theorem published_access:
  assumes "svc_run proxy_handle qs fresh_service = (rs, s)" "Refused 502 \<notin> set rs" "sv_stored s = Some apps" "a \<in> set apps"
  shows "\<exists>t. sv_running s = Serving t
    \<and> (\<forall>ip. admits (block_of (pa_Name a) (Split (CHR 0x0A) t)) ip \<longleftrightarrow> pa_AllowCIDRs a = [] \<or> (\<exists>c \<in> set (pa_AllowCIDRs a). in_network ip c))"
proof -
  have "agrees proxy_renders s"
    using published.run_in_sync [OF assms(1)] assms(2) by (simp add: fresh_agrees)
  with assms(3,4) obtain t where "ngx_Generate apps = Inr t" "sv_running s = Serving t"
    by (auto simp: agrees_def proxy_renders_def split: if_splits)
  with proxy_access_enforced [OF _ assms(4)] show ?thesis by blast
qed

text \<open>
  Publishing does what was asked or nothing: a successful request stores the given
  services, which have distinct names and host names, was forced or had an answer from every
  upstream, and is recorded; a request refused with 400 or 409 leaves the service alone.
\<close>

theorem proxy_apply_outcome:
  assumes "apiProxyApply io answers force apps s = (r, s')"
  shows "(r = Done \<longrightarrow> sv_stored s' = Some apps \<and> distinct (map pa_Name apps) \<and> distinct (map (\<lambda>a. ToLower (pa_Hostname a)) apps)
       \<and> (force \<or> (\<forall>a \<in> set apps. answers (upstream_addr a)))
       \<and> sv_audit s' = recordSev (vi_rq io) (actor (vi_rq io)) ''proxy-apply'' ''nginx'' ''success'' ''info'' (sv_audit s))
   \<and> (r = Refused 400 \<or> r = Refused 409 \<longrightarrow> s' = s)"
proof -
  have "s' = s" if "r = Refused 400 \<or> r = Refused 409"
    using assms that by (auto simp: apiProxyApply_def run_and_store_def store_and_log_def persist_def
        split: sum.splits if_splits prod.splits bool.splits)
  moreover have "distinct (map pa_Name apps) \<and> distinct (map (\<lambda>a. ToLower (pa_Hostname a)) apps)" if "ngx_Generate apps = Inr t" for t
    using that by (auto simp: ngx_Generate_def map_sum_Inr_iff servers_Inr)
  ultimately show ?thesis using apiProxyApply_cases [OF assms] by blast
qed


section \<open>Examples\<close>

lemma ex_one_run:
  assumes "h (q :: 'q) fresh_service = (Done, s1)"
  shows "svc_run h [q] fresh_service = ([Done], s1)"
  using assms by simp

lemma ex_publish:
  "\<exists>s t. apiProxyApply ex_svc_io (\<lambda>_. False) True [ex_published] fresh_service = (Done, s) \<and> sv_stored s = Some [ex_published]"
  using ex_published_valid
  by (simp add: apiProxyApply_def ngx_Generate_def ex_svc_io_def run_and_store_def adapter_run_def store_and_log_def persist_def logged_def)

theorem published_access_witness:
  "\<exists>s t. proxy_handle (ex_svc_io, (\<lambda>_. False), True, [ex_published]) fresh_service = (Done, s) \<and> sv_running s = Serving t
     \<and> \<not> admits (block_of ''wiki'' (Split (CHR 0x0A) t)) [192, 168, 0, 1]"
proof -
  obtain s where s: "proxy_handle (ex_svc_io, (\<lambda>_. False), True, [ex_published]) fresh_service = (Done, s)" "sv_stored s = Some [ex_published]"
    using ex_publish by auto
  from published_access [OF ex_one_run [of proxy_handle, OF s(1)] _ s(2), of ex_published] s(1) ex_published_outside show ?thesis
    by (auto simp: ex_published_def)
qed

theorem proxy_apply_outcome_witness:
  "apiProxyApply ex_svc_io (\<lambda>_. False) False [ex_published] fresh_service = (Refused 409, fresh_service)"
proof -
  obtain r s where r: "apiProxyApply ex_svc_io (\<lambda>_. False) False [ex_published] fresh_service = (r, s)" by fastforce
  then have "r = Refused 409" using ex_published_valid by (auto simp: apiProxyApply_def ngx_Generate_def)
  with proxy_apply_outcome [OF r] r show ?thesis by simp
qed


end
