(* ===== verification/Backup.thy ===== *)
theory Backup
  imports VpnApi
begin

text \<open>
  \<open>cmd/saguaro/backup.go\<close>: the backup target and its secret, on-demand runs, the restore
  drill, restoring an archive and importing a decryption key. What the root adapter does is
  outside: the state has the files staged for it and the trace of the calls made to it, and
  its answers are parameters, as are sealing, the clock and the file system. The apply handler
  does not run under the mutation lock, so it is two steps, one that reads the stored
  configuration and one that stores the new one; the handler by itself is their composition.
  The other handlers read the stored configuration only after the adapter has answered and are
  one step each.
\<close>

section \<open>Configuration\<close>

definition safe_char :: "char \<Rightarrow> bool" where
  "safe_char c \<longleftrightarrow> is_upper c \<or> is_lower c \<or> is_digit c \<or> c \<in> set ''._:/@=+-''"

definition backupValueRe :: "string \<Rightarrow> bool" where
  "backupValueRe s = list_all safe_char s"

definition restoreDrillDays :: int where "restoreDrillDays = 90"

text \<open>Sealed secrets are strings; the zero time of the last drill is \<open>None\<close>. Times are in nanoseconds.\<close>

record backupConfig =
  bk_Target :: string
  bk_Schedule :: string
  bk_RetentionDays :: int
  bk_SFTPHost :: string
  bk_SFTPPort :: int
  bk_SFTPUser :: string
  bk_SFTPPath :: string
  bk_S3Bucket :: string
  bk_S3Endpoint :: string
  bk_S3Region :: string
  bk_S3AccessID :: string
  bk_SecretEnc :: string
  bk_LastDrill :: "int option"
  bk_ScheduleOff :: bool

record backup_request =
  br_Target :: string
  br_Schedule :: string
  br_RetentionDays :: int
  br_SFTPHost :: string
  br_SFTPPort :: int
  br_SFTPUser :: string
  br_SFTPPath :: string
  br_SFTPKeyPath :: string
  br_S3Bucket :: string
  br_S3Endpoint :: string
  br_S3Region :: string
  br_S3AccessID :: string
  br_S3Secret :: string

record backup_io =
  bi_key :: bool
  bi_enc :: "string \<Rightarrow> string option"
  bi_dec :: "string \<Rightarrow> string option"
  bi_write_env :: bool
  bi_write_sched :: bool
  bi_adapter :: bool
  bi_output :: string
  bi_save :: bool
  bi_now :: int
  bi_rq :: reqctx

record backup_state =
  bs_store :: "backupConfig option"
  bs_env :: "string option"
  bs_sched :: "string option"
  bs_agekey :: "string option"
  bs_restored :: bool
  bs_calls :: "string list list"
  bs_audit :: "auditEvent list"

definition getBackup :: "backup_state \<Rightarrow> backupConfig" where
  "getBackup s =
     (case bs_store s of
        Some c \<Rightarrow> c
      | None \<Rightarrow> \<lparr> bk_Target = ''local'', bk_Schedule = ''daily'', bk_RetentionDays = 30, bk_SFTPHost = [], bk_SFTPPort = 0, bk_SFTPUser = [],
                  bk_SFTPPath = [], bk_S3Bucket = [], bk_S3Endpoint = [], bk_S3Region = [], bk_S3AccessID = [], bk_SecretEnc = [],
                  bk_LastDrill = None, bk_ScheduleOff = False \<rparr>)"

text \<open>The value in memory is replaced even when the file cannot be written.\<close>

definition setBackup :: "backup_io \<Rightarrow> backupConfig \<Rightarrow> backup_state \<Rightarrow> bool \<times> backup_state" where
  "setBackup io c s = (bi_save io, s \<lparr> bs_store := Some c \<rparr>)"

definition bk_record :: "backup_io \<Rightarrow> string \<Rightarrow> string \<Rightarrow> string \<Rightarrow> string \<Rightarrow> backup_state \<Rightarrow> backup_state" where
  "bk_record io action target result severity s =
     s \<lparr> bs_audit := recordSev (bi_rq io) (actor (bi_rq io)) action target result severity (bs_audit s) \<rparr>"

definition runBackupCfg :: "string list \<Rightarrow> backup_state \<Rightarrow> backup_state" where
  "runBackupCfg args s = s \<lparr> bs_calls := bs_calls s @ [args] \<rparr>"

definition set_and_record :: "backup_io \<Rightarrow> backupConfig \<Rightarrow> string \<Rightarrow> string \<Rightarrow> string \<Rightarrow> backup_state \<Rightarrow> reply \<times> backup_state" where
  "set_and_record io c action target severity s =
     (case setBackup io c s of
        (False, s1) \<Rightarrow> (Refused 500, s1)
      | (True, s1) \<Rightarrow> (Done, bk_record io action target ''success'' severity s1))"

section \<open>The environment file\<close>

definition unseal_secret :: "backup_io \<Rightarrow> backupConfig \<Rightarrow> string option" where
  "unseal_secret io c =
     (if bk_SecretEnc c = [] then Some []
      else if \<not> bi_key io then None
      else bi_dec io (bk_SecretEnc c))"

text \<open>The variables of the file, in order, after its comment line.\<close>

definition env_vars :: "backupConfig \<Rightarrow> string \<Rightarrow> (string \<times> string) list" where
  "env_vars c secret =
     [(''SAGUARO_BACKUP_TARGET'', bk_Target c), (''SAGUARO_BACKUP_RETENTION_DAYS'', Itoa (bk_RetentionDays c))]
   @ (if bk_Target c = ''sftp'' then
        [(''SAGUARO_SFTP_HOST'', bk_SFTPHost c),
         (''SAGUARO_SFTP_PORT'', Itoa (if bk_SFTPPort c = 0 then 22 else bk_SFTPPort c)),
         (''SAGUARO_SFTP_USER'', bk_SFTPUser c),
         (''SAGUARO_SFTP_PATH'', bk_SFTPPath c)]
        @ only_if (secret \<noteq> []) [(''SAGUARO_SFTP_KEY'', secret)]
      else if bk_Target c = ''s3'' then
        [(''SAGUARO_S3_BUCKET'', bk_S3Bucket c)]
        @ only_if (bk_S3Endpoint c \<noteq> []) [(''SAGUARO_S3_ENDPOINT'', bk_S3Endpoint c)]
        @ [(''SAGUARO_S3_REGION'', bk_S3Region c),
           (''SAGUARO_S3_ACCESS_KEY'', bk_S3AccessID c),
           (''SAGUARO_S3_SECRET_KEY'', secret)]
      else [])"

definition env_header :: string where "env_header = ''# Managed by Saguaro (generated).''"

definition buildBackupEnv :: "backup_io \<Rightarrow> backupConfig \<Rightarrow> string option" where
  "buildBackupEnv io c =
     map_option (\<lambda>secret. unlines (env_header # map (\<lambda>(k, v). k @ ''='' @ v) (env_vars c secret))) (unseal_secret io c)"

section \<open>Applying a target\<close>

definition validBackupSchedule :: "string \<Rightarrow> bool" where
  "validBackupSchedule s \<longleftrightarrow>
     s \<in> {''hourly'', ''daily'', ''weekly'', ''monthly''} \<or> \<not> list_ex (\<lambda>c. c \<in> set ([CHR 0x0A, CHR 0x0D] @ '';&|$'' @ [CHR 0x60])) s"

definition request_values :: "backup_request \<Rightarrow> string list" where
  "request_values r =
     [br_SFTPHost r, br_SFTPUser r, br_SFTPPath r, br_SFTPKeyPath r, br_S3Bucket r, br_S3Endpoint r, br_S3Region r, br_S3AccessID r, br_S3Secret r]"

text \<open>The secret a request brings, or the status it is refused with.\<close>

definition request_secret :: "backup_request \<Rightarrow> nat + string" where
  "request_secret r =
     (if br_Target r = ''sftp'' then
        if br_SFTPHost r = [] \<or> br_SFTPUser r = [] \<or> br_SFTPPath r = [] then Inl 400 else Inr (TrimSpace (br_SFTPKeyPath r))
      else if br_Target r = ''s3'' then
        if br_S3Bucket r = [] \<or> br_S3AccessID r = [] then Inl 400 else Inr (br_S3Secret r)
      else Inr [])"

definition sealed_secret :: "backup_io \<Rightarrow> string \<Rightarrow> string \<Rightarrow> nat + string" where
  "sealed_secret io new old =
     (if new = [] then Inr old
      else if \<not> bi_key io then Inl 500
      else case bi_enc io new of None \<Rightarrow> Inl 500 | Some enc \<Rightarrow> Inr enc)"

definition request_schedule :: "backup_request \<Rightarrow> string" where
  "request_schedule r = (if br_Schedule r = [] then ''daily'' else br_Schedule r)"

definition requested :: "backup_request \<Rightarrow> backupConfig \<Rightarrow> string \<Rightarrow> backupConfig" where
  "requested r c enc =
     c \<lparr> bk_Target := br_Target r, bk_Schedule := request_schedule r,
         bk_RetentionDays := (if br_RetentionDays r < 1 then 30 else br_RetentionDays r),
         bk_SFTPHost := br_SFTPHost r, bk_SFTPPort := br_SFTPPort r, bk_SFTPUser := br_SFTPUser r, bk_SFTPPath := br_SFTPPath r,
         bk_S3Bucket := br_S3Bucket r, bk_S3Endpoint := br_S3Endpoint r, bk_S3Region := br_S3Region r, bk_S3AccessID := br_S3AccessID r,
         bk_ScheduleOff := False, bk_SecretEnc := (if br_Target r = ''local'' then [] else enc) \<rparr>"

text \<open>The checks of a request and the configuration it asks for, given the stored one.\<close>

definition backup_request_config :: "backup_io \<Rightarrow> backup_request \<Rightarrow> backupConfig \<Rightarrow> nat + backupConfig" where
  "backup_request_config io r c =
     (if br_Target r \<notin> {''local'', ''sftp'', ''s3''} then Inl 400
      else if \<not> validBackupSchedule (request_schedule r) then Inl 400
      else if \<not> list_all backupValueRe (request_values r) then Inl 400
      else try_then (request_secret r) (\<lambda>new. map_sum id (requested r c) (sealed_secret io new (bk_SecretEnc c))))"

text \<open>
  The first step reads the stored configuration, stages both files and runs the adapter; it
  returns the configuration to store. The second stores it.
\<close>

definition backup_begin :: "backup_io \<Rightarrow> backup_request \<Rightarrow> backup_state \<Rightarrow> (nat + backupConfig) \<times> backup_state" where
  "backup_begin io r s =
     (case backup_request_config io r (getBackup s) of
        Inl st \<Rightarrow> (Inl st, s)
      | Inr c \<Rightarrow>
          (case buildBackupEnv io c of
             None \<Rightarrow> (Inl 500, s)
           | Some env \<Rightarrow>
               if \<not> bi_write_env io then (Inl 500, s)
               else let s1 = s \<lparr> bs_env := Some env \<rparr>
                    in if \<not> bi_write_sched io then (Inl 500, s1)
                       else let s2 = runBackupCfg [''apply''] (s1 \<lparr> bs_sched := Some (bk_Schedule c @ [CHR 0x0A]) \<rparr>)
                            in if bi_adapter io then (Inr c, s2) else (Inl 502, s2)))"

definition backup_finish :: "backup_io \<Rightarrow> backupConfig \<Rightarrow> backup_state \<Rightarrow> reply \<times> backup_state" where
  "backup_finish io c s = set_and_record io c ''backup-config'' (bk_Target c) ''info'' s"

definition apiBackupApply :: "backup_io \<Rightarrow> backup_request \<Rightarrow> backup_state \<Rightarrow> reply \<times> backup_state" where
  "apiBackupApply io r s =
     (case backup_begin io r s of (Inl st, s1) \<Rightarrow> (Refused st, s1) | (Inr c, s1) \<Rightarrow> backup_finish io c s1)"

section \<open>Runs and drills\<close>

definition apiBackupRunNow :: "backup_io \<Rightarrow> backup_state \<Rightarrow> reply \<times> backup_state" where
  "apiBackupRunNow io s =
     (let s1 = runBackupCfg [''run''] s
      in if bi_adapter io then (Done, bk_record io ''backup-run'' ''on-demand'' ''success'' ''info'' s1) else (Refused 502, s1))"

definition apiBackupDisable :: "backup_io \<Rightarrow> backup_state \<Rightarrow> reply \<times> backup_state" where
  "apiBackupDisable io s =
     (let s1 = runBackupCfg [''disable''] s
      in if bi_adapter io then set_and_record io ((getBackup s1) \<lparr> bk_ScheduleOff := True \<rparr>) ''backup-disable'' ''schedule'' ''info'' s1
         else (Refused 502, s1))"

definition apiBackupMarkDrill :: "backup_io \<Rightarrow> backup_state \<Rightarrow> reply \<times> backup_state" where
  "apiBackupMarkDrill io s =
     set_and_record io ((getBackup s) \<lparr> bk_LastDrill := Some (bi_now io) \<rparr>) ''backup-restore-drill'' ''verified'' ''info'' s"

text \<open>\<open>parseKV\<close>: lines \<open>key=value\<close>, the last one of a key wins.\<close>

definition parseKV :: "string \<Rightarrow> (string \<rightharpoonup> string)" where
  "parseKV out =
     foldl (\<lambda>m line. case cut (CHR ''='') (TrimSpace line) of Some (k, v) \<Rightarrow> m(k \<mapsto> v) | None \<Rightarrow> m) Map.empty (Split (CHR 0x0A) out)"

definition field :: "(string \<rightharpoonup> string) \<Rightarrow> string \<Rightarrow> string" where
  "field m k = (case m k of Some v \<Rightarrow> v | None \<Rightarrow> [])"

definition apiBackupVerify :: "backup_io \<Rightarrow> backup_state \<Rightarrow> reply \<times> backup_state" where
  "apiBackupVerify io s =
     (let s1 = runBackupCfg [''verify''] s; archive = field (parseKV (bi_output io)) ''archive''
      in if \<not> bi_adapter io then (Refused 502, bk_record io ''backup-verify'' archive ''failed'' ''warning'' s1)
         else set_and_record io ((getBackup s1) \<lparr> bk_LastDrill := Some (bi_now io) \<rparr>) ''backup-verify'' archive ''security'' s1)"

definition drillDue :: "int \<Rightarrow> backupConfig \<Rightarrow> bool" where
  "drillDue now c = (case bk_LastDrill c of None \<Rightarrow> True | Some t \<Rightarrow> now - t > restoreDrillDays * 24 * 3600 * 1000000000)"

section \<open>Archives and keys\<close>

definition file_char :: "char \<Rightarrow> bool" where
  "file_char c \<longleftrightarrow> is_upper c \<or> is_lower c \<or> is_digit c \<or> c = CHR ''.'' \<or> c = CHR ''_'' \<or> c = CHR ''-''"

text \<open>The fixed start, at least one character, one of the two extensions.\<close>

definition archive_rest :: "string \<Rightarrow> string \<Rightarrow> bool" where
  "archive_rest ext r \<longleftrightarrow> HasSuffix r ext \<and> length r > length ext \<and> list_all file_char (take (length r - length ext) r)"

definition backupFileRe :: "string \<Rightarrow> bool" where
  "backupFileRe s \<longleftrightarrow>
     HasPrefix s ''saguaro-'' \<and> (archive_rest ''.age'' (TrimPrefix s ''saguaro-'') \<or> archive_rest ''.sha256'' (TrimPrefix s ''saguaro-''))"

definition apiBackupDownload :: "backup_io \<Rightarrow> string \<Rightarrow> backup_state \<Rightarrow> reply \<times> backup_state" where
  "apiBackupDownload io name s =
     (if \<not> backupFileRe name then (Refused 400, s)
      else let s1 = runBackupCfg [''get'', name] s
           in if bi_adapter io then (Done, bk_record io ''backup-download'' name ''success'' ''info'' s1) else (Refused 404, s1))"

definition apiBackupRestore :: "backup_io \<Rightarrow> string \<Rightarrow> backup_state \<Rightarrow> reply \<times> backup_state" where
  "apiBackupRestore io name0 s =
     (let name = TrimSpace name0
      in if bs_restored s then (Refused 409, s)
         else if \<not> backupFileRe name \<or> \<not> HasSuffix name ''.tar.gz.age'' then (Refused 400, s)
         else let s1 = runBackupCfg [''restore'', name] s
              in if bi_adapter io
                 then (Done, bk_record io ''backup-restore'' name ''success'' ''security'' (s1 \<lparr> bs_restored := True \<rparr>))
                 else (Refused 502, bk_record io ''backup-restore'' name ''failed'' ''security'' s1))"

definition apiBackupKeyGet :: "backup_io \<Rightarrow> backup_state \<Rightarrow> reply \<times> backup_state" where
  "apiBackupKeyGet io s =
     (let s1 = runBackupCfg [''get-key''] s
      in if bi_adapter io then (Done, bk_record io ''backup-key-download'' ''backup.agekey'' ''success'' ''security'' s1) else (Refused 404, s1))"

text \<open>One line of the key expression; the expression matches a text with such a line.\<close>

definition age_key_line :: "string \<Rightarrow> bool" where
  "age_key_line s \<longleftrightarrow>
     HasPrefix s ''AGE-SECRET-KEY-1'' \<and> length s > 16 \<and> list_all (\<lambda>c. is_digit c \<or> is_upper c) (drop 16 s)"

definition ageSecretKeyRe :: "string \<Rightarrow> bool" where
  "ageSecretKeyRe s = list_ex age_key_line (Split (CHR 0x0A) s)"

definition key_line_ok :: "string \<Rightarrow> bool" where
  "key_line_ok line = (let l = TrimSpace line in l = [] \<or> HasPrefix l ''#'' \<or> ageSecretKeyRe l)"

definition apiBackupKeyImport :: "backup_io \<Rightarrow> string \<Rightarrow> backup_state \<Rightarrow> reply \<times> backup_state" where
  "apiBackupKeyImport io key0 s =
     (let key = TrimSpace key0
      in if \<not> ageSecretKeyRe key then (Refused 400, s)
         else if \<not> list_all key_line_ok (Split (CHR 0x0A) key) then (Refused 400, s)
         else if \<not> bi_write_env io then (Refused 500, s)
         else let s1 = runBackupCfg [''set-key''] (s \<lparr> bs_agekey := Some (key @ [CHR 0x0A]) \<rparr>)
              in if bi_adapter io then (Done, bk_record io ''backup-key-import'' ''backup.agekey'' ''success'' ''security'' s1)
                 else (Refused 502, bk_record io ''backup-key-import'' ''backup.agekey'' ''failed'' ''security'' s1))"

section \<open>Interleavings\<close>

datatype backup_req = BkRun | BkDisable | BkDrill | BkVerify | BkDownload string | BkRestore string | BkKeyGet | BkKeyImport string

fun backup_handle :: "backup_io \<times> backup_req \<Rightarrow> backup_state \<Rightarrow> reply \<times> backup_state" where
  "backup_handle (io, BkRun) s = apiBackupRunNow io s"
| "backup_handle (io, BkDisable) s = apiBackupDisable io s"
| "backup_handle (io, BkDrill) s = apiBackupMarkDrill io s"
| "backup_handle (io, BkVerify) s = apiBackupVerify io s"
| "backup_handle (io, BkDownload name) s = apiBackupDownload io name s"
| "backup_handle (io, BkRestore name) s = apiBackupRestore io name s"
| "backup_handle (io, BkKeyGet) s = apiBackupKeyGet io s"
| "backup_handle (io, BkKeyImport key) s = apiBackupKeyImport io key s"

definition fresh_backup :: backup_state where
  "fresh_backup = \<lparr> bs_store = None, bs_env = None, bs_sched = None, bs_agekey = None, bs_restored = False, bs_calls = [], bs_audit = [] \<rparr>"

text \<open>
  Requests served concurrently on one appliance, with the configurations of the apply requests
  between their two steps. Sealed values are unsealed with the appliance's key.
\<close>

definition seals :: "(string \<Rightarrow> string option) \<Rightarrow> backup_io \<Rightarrow> bool" where
  "seals dec io \<longleftrightarrow> bi_dec io = dec \<and> (\<forall>x y. bi_enc io x = Some y \<longrightarrow> dec y = Some x)"

inductive backup_reach :: "(string \<Rightarrow> string option) \<Rightarrow> backup_state \<Rightarrow> backupConfig list \<Rightarrow> bool" for dec where
  start: "backup_reach dec fresh_backup []"
| serve: "backup_reach dec s p \<Longrightarrow> seals dec io \<Longrightarrow> backup_handle (io, q) s = (r, s') \<Longrightarrow> backup_reach dec s' p"
| rejected: "backup_reach dec s p \<Longrightarrow> seals dec io \<Longrightarrow> backup_begin io q s = (Inl st, s') \<Longrightarrow> backup_reach dec s' p"
| began: "backup_reach dec s p \<Longrightarrow> seals dec io \<Longrightarrow> backup_begin io q s = (Inr c, s') \<Longrightarrow> backup_reach dec s' (c # p)"
| finished: "backup_reach dec s (p1 @ c # p2) \<Longrightarrow> seals dec io \<Longrightarrow> backup_finish io c s = (r, s') \<Longrightarrow> backup_reach dec s' (p1 @ p2)"

section \<open>The environment file is safe to source\<close>

lemma backupValueRe_no_newline: "backupValueRe v \<Longrightarrow> CHR 0x0A \<notin> set v"
  by (auto simp: backupValueRe_def list_all_iff safe_char_def char_class_defs)

lemma Itoa_safe: "backupValueRe (Itoa i)"
  using nat_str_digits by (auto simp: backupValueRe_def Itoa_def list_all_iff safe_char_def)

lemma TrimSpace_safe: "backupValueRe s \<Longrightarrow> backupValueRe (TrimSpace s)"
  using set_TrimSpace [of s] by (auto simp: backupValueRe_def list_all_iff)

lemma backupValueRe_Nil [simp]: "backupValueRe []"
  by (simp add: backupValueRe_def)

definition cfg_ok :: "(string \<Rightarrow> string option) \<Rightarrow> backupConfig \<Rightarrow> bool" where
  "cfg_ok dec c \<longleftrightarrow>
     bk_Target c \<in> {''local'', ''sftp'', ''s3''} \<and> 1 \<le> bk_RetentionDays c \<and> validBackupSchedule (bk_Schedule c)
   \<and> list_all backupValueRe [bk_SFTPHost c, bk_SFTPUser c, bk_SFTPPath c, bk_S3Bucket c, bk_S3Endpoint c, bk_S3Region c, bk_S3AccessID c]
   \<and> (bk_SecretEnc c = [] \<or> (\<exists>v. dec (bk_SecretEnc c) = Some v \<and> backupValueRe v))"

lemma sealed_secret_ok:
  assumes "sealed_secret io new old = Inr enc" "seals dec io" "backupValueRe new" "old = [] \<or> (\<exists>v. dec old = Some v \<and> backupValueRe v)"
  shows "enc = [] \<or> (\<exists>v. dec enc = Some v \<and> backupValueRe v)"
  using assms by (auto simp: sealed_secret_def seals_def split: if_splits option.splits)

lemma request_config_ok:
  assumes "backup_request_config io r c = Inr c'" "seals dec io" "cfg_ok dec c"
  shows "cfg_ok dec c'"
proof -
  have v: "br_Target r \<in> {''local'', ''sftp'', ''s3''}" "validBackupSchedule (request_schedule r)" "list_all backupValueRe (request_values r)"
    and "try_then (request_secret r) (\<lambda>new. map_sum id (requested r c) (sealed_secret io new (bk_SecretEnc c))) = Inr c'"
    using assms(1) unfolding backup_request_config_def by (simp_all only: Inl_Inr_False simp_thms split: if_split_asm)
  then obtain new enc where n: "request_secret r = Inr new" and e: "sealed_secret io new (bk_SecretEnc c) = Inr enc" and c': "c' = requested r c enc"
    by (auto simp only: try_then_Inr_iff map_sum_Inr_iff)
  have "backupValueRe new"
    using n v(3) TrimSpace_safe by (auto simp: request_secret_def request_values_def split: if_split_asm)
  from sealed_secret_ok [OF e assms(2) this] assms(3)
  have "enc = [] \<or> (\<exists>v. dec enc = Some v \<and> backupValueRe v)" by (simp add: cfg_ok_def)
  with v show ?thesis by (simp add: c' cfg_ok_def requested_def request_values_def)
qed

definition env_names :: "string list" where
  "env_names = [''SAGUARO_BACKUP_TARGET'', ''SAGUARO_BACKUP_RETENTION_DAYS'', ''SAGUARO_SFTP_HOST'', ''SAGUARO_SFTP_PORT'', ''SAGUARO_SFTP_USER'',
     ''SAGUARO_SFTP_PATH'', ''SAGUARO_SFTP_KEY'', ''SAGUARO_S3_BUCKET'', ''SAGUARO_S3_ENDPOINT'', ''SAGUARO_S3_REGION'', ''SAGUARO_S3_ACCESS_KEY'',
     ''SAGUARO_S3_SECRET_KEY'']"

definition assignments :: "string \<Rightarrow> (string \<times> string) list \<Rightarrow> bool" where
  "assignments t vars \<longleftrightarrow>
     Split (CHR 0x0A) t = env_header # map (\<lambda>(k, v). k @ ''='' @ v) vars @ [[]]
   \<and> (\<forall>(k, v) \<in> set vars. k \<in> set env_names \<and> backupValueRe v)"

lemma env_names_mem:
  "''SAGUARO_BACKUP_TARGET'' \<in> set env_names" "''SAGUARO_BACKUP_RETENTION_DAYS'' \<in> set env_names"
  "''SAGUARO_SFTP_HOST'' \<in> set env_names" "''SAGUARO_SFTP_PORT'' \<in> set env_names" "''SAGUARO_SFTP_USER'' \<in> set env_names"
  "''SAGUARO_SFTP_PATH'' \<in> set env_names" "''SAGUARO_SFTP_KEY'' \<in> set env_names" "''SAGUARO_S3_BUCKET'' \<in> set env_names"
  "''SAGUARO_S3_ENDPOINT'' \<in> set env_names" "''SAGUARO_S3_REGION'' \<in> set env_names" "''SAGUARO_S3_ACCESS_KEY'' \<in> set env_names"
  "''SAGUARO_S3_SECRET_KEY'' \<in> set env_names"
  unfolding env_names_def list.set by (rule insertI1 | rule insertI2)+

lemma targets_safe: "backupValueRe ''local''" "backupValueRe ''sftp''" "backupValueRe ''s3''"
  by (simp_all add: backupValueRe_def safe_char_def char_class_defs)

lemma env_vars_safe:
  assumes "cfg_ok dec c" "backupValueRe secret"
  shows "\<forall>(k, v) \<in> set (env_vars c secret). k \<in> set env_names \<and> backupValueRe v"
proof -
  have v: "backupValueRe (bk_SFTPHost c)" "backupValueRe (bk_SFTPUser c)" "backupValueRe (bk_SFTPPath c)" "backupValueRe (bk_S3Bucket c)"
    "backupValueRe (bk_S3Endpoint c)" "backupValueRe (bk_S3Region c)" "backupValueRe (bk_S3AccessID c)"
    using assms(1) by (simp_all add: cfg_ok_def)
  from assms(1) consider "bk_Target c = ''local''" | "bk_Target c = ''sftp''" | "bk_Target c = ''s3''"
    by (auto simp: cfg_ok_def)
  then show ?thesis
    by cases (use v assms(2) in \<open>simp_all add: env_vars_def only_if_def env_names_mem targets_safe Itoa_safe\<close>)
qed

lemma build_env_safe:
  assumes "buildBackupEnv io c = Some t" "bi_dec io = dec" "cfg_ok dec c"
  shows "\<exists>vars. assignments t vars"
proof -
  from assms(1) obtain secret where u: "unseal_secret io c = Some secret"
    and t: "t = unlines (env_header # map (\<lambda>(k, v). k @ ''='' @ v) (env_vars c secret))"
    by (auto simp: buildBackupEnv_def)
  have "backupValueRe secret"
    using u assms(2,3) by (auto simp: unseal_secret_def cfg_ok_def split: if_splits)
  from env_vars_safe [OF assms(3) this] have s: "\<forall>(k, v) \<in> set (env_vars c secret). k \<in> set env_names \<and> backupValueRe v" .
  have k: "\<forall>k \<in> set env_names. CHR 0x0A \<notin> set k"
    by (simp add: env_names_def)
  have "\<forall>l \<in> set (env_header # map (\<lambda>(k, v). k @ ''='' @ v) (env_vars c secret)). CHR 0x0A \<notin> set l"
    using s k backupValueRe_no_newline by (fastforce simp: env_header_def)
  from Split_unlines [OF this] s show ?thesis by (auto simp: assignments_def t)
qed

section \<open>What reaches the adapter\<close>

definition key_file_ok :: "string \<Rightarrow> bool" where
  "key_file_ok t \<longleftrightarrow> (\<exists>ls. Split (CHR 0x0A) t = ls @ [[]] \<and> list_ex age_key_line ls \<and> list_all key_line_ok ls)"

lemma HasSuffix_split: "HasSuffix s x \<Longrightarrow> s = take (length s - length x) s @ x"
  by (metis HasSuffix_def append_take_drop_id)

lemma HasPrefix_split: "HasPrefix s x \<Longrightarrow> s = x @ TrimPrefix s x"
  unfolding HasPrefix_def TrimPrefix_def by (metis append_take_drop_id)

lemma archive_rest_chars: "archive_rest ext r \<Longrightarrow> list_all file_char ext \<Longrightarrow> list_all file_char r"
  unfolding archive_rest_def by (metis HasSuffix_split list_all_append)

lemma file_names_chars: "list_all file_char ''saguaro-''" "list_all file_char ''.age''" "list_all file_char ''.sha256''"
  by (simp_all add: file_char_def char_class_defs)

lemma backupFileRe_chars: "backupFileRe s \<Longrightarrow> list_all file_char s"
proof -
  assume "backupFileRe s"
  then have p: "s = ''saguaro-'' @ TrimPrefix s ''saguaro-''" and "list_all file_char (TrimPrefix s ''saguaro-'')"
    unfolding backupFileRe_def using archive_rest_chars file_names_chars HasPrefix_split by blast+
  then have "list_all file_char (''saguaro-'' @ TrimPrefix s ''saguaro-'')"
    unfolding list_all_append using file_names_chars(1) by blast
  with p show ?thesis by (rule ssubst)
qed

definition backup_inv :: "(string \<Rightarrow> string option) \<Rightarrow> backup_state \<Rightarrow> backupConfig list \<Rightarrow> bool" where
  "backup_inv dec s p \<longleftrightarrow>
     (\<forall>c \<in> set p. cfg_ok dec c) \<and> (\<forall>c. bs_store s = Some c \<longrightarrow> cfg_ok dec c)
   \<and> (\<forall>t. bs_env s = Some t \<longrightarrow> (\<exists>vars. assignments t vars))
   \<and> (\<forall>t. bs_agekey s = Some t \<longrightarrow> key_file_ok t)
   \<and> (\<forall>args \<in> set (bs_calls s). list_all (list_all file_char) args)"

lemma getBackup_ok: "backup_inv dec s p \<Longrightarrow> cfg_ok dec (getBackup s)"
  by (auto simp: backup_inv_def getBackup_def cfg_ok_def validBackupSchedule_def split: option.splits)

lemma bk_record_inv [simp]: "backup_inv dec (bk_record io a t r sv s) p = backup_inv dec s p"
  by (simp add: backup_inv_def bk_record_def)

lemma bk_restored_inv [simp]: "backup_inv dec (s \<lparr> bs_restored := b \<rparr>) p = backup_inv dec s p"
  by (simp add: backup_inv_def)

lemma runBackupCfg_inv [simp]: "backup_inv dec (runBackupCfg args s) p \<longleftrightarrow> backup_inv dec s p \<and> list_all (list_all file_char) args"
  by (auto simp: backup_inv_def runBackupCfg_def)

lemma set_and_record_inv:
  assumes "set_and_record io c a t sv s = (r, s')" "backup_inv dec s p" "cfg_ok dec c"
  shows "backup_inv dec s' p"
  using assms by (auto simp: set_and_record_def setBackup_def backup_inv_def bk_record_def split: if_splits prod.splits bool.splits)

lemma calls_chars:
  "list_all file_char ''run''" "list_all file_char ''disable''" "list_all file_char ''verify''" "list_all file_char ''get''"
  "list_all file_char ''restore''" "list_all file_char ''get-key''" "list_all file_char ''set-key''" "list_all file_char ''apply''"
  by (simp_all add: file_char_def char_class_defs)

lemma cfg_ok_upd [simp]:
  "cfg_ok dec (c \<lparr> bk_LastDrill := x \<rparr>) = cfg_ok dec c" "cfg_ok dec (c \<lparr> bk_ScheduleOff := b \<rparr>) = cfg_ok dec c"
  by (simp_all add: cfg_ok_def)

lemma getBackup_call [simp]: "getBackup (runBackupCfg args s) = getBackup s"
  by (simp add: getBackup_def runBackupCfg_def)

lemma key_file_staged:
  assumes "ageSecretKeyRe key" "list_all key_line_ok (Split (CHR 0x0A) key)"
  shows "key_file_ok (key @ [CHR 0x0A])"
  using assms Split_append_ne [of "CHR 0x0A" key "[]"] by (auto simp: key_file_ok_def ageSecretKeyRe_def)

lemma KeyImport_inv:
  assumes "apiBackupKeyImport io key s = (r, s')" "backup_inv dec s p"
  shows "backup_inv dec s' p"
proof (cases "s' = s")
  case False
  let ?k = "TrimSpace key"
  have k: "ageSecretKeyRe ?k" "list_all key_line_ok (Split (CHR 0x0A) ?k)"
    using assms(1) False by (auto simp: apiBackupKeyImport_def Let_def split: if_splits)
  have "backup_inv dec (s \<lparr> bs_agekey := Some (?k @ [CHR 0x0A]) \<rparr>) p"
    using assms(2) key_file_staged [OF k] by (simp add: backup_inv_def)
  with assms(1) False calls_chars show ?thesis
    by (auto simp: apiBackupKeyImport_def Let_def split: if_splits)
qed (use assms in simp)

lemma backup_handle_inv:
  assumes "backup_handle (io, q) s = (r, s')" "backup_inv dec s p"
  shows "backup_inv dec s' p"
proof -
  note ok = getBackup_ok [OF assms(2)]
  show ?thesis
  proof (cases q)
    case BkRun
    with assms calls_chars show ?thesis by (auto simp: apiBackupRunNow_def Let_def split: if_splits)
  next
    case BkDisable
    with assms ok calls_chars show ?thesis by (auto simp: apiBackupDisable_def Let_def split: if_splits elim!: set_and_record_inv)
  next
    case BkDrill
    with assms ok show ?thesis by (auto simp: apiBackupMarkDrill_def elim!: set_and_record_inv)
  next
    case BkVerify
    with assms ok calls_chars show ?thesis by (auto simp: apiBackupVerify_def Let_def split: if_splits elim!: set_and_record_inv)
  next
    case (BkDownload n)
    with assms backupFileRe_chars calls_chars show ?thesis by (auto simp: apiBackupDownload_def Let_def split: if_splits)
  next
    case (BkRestore n)
    with assms backupFileRe_chars calls_chars show ?thesis by (auto simp: apiBackupRestore_def Let_def split: if_splits)
  next
    case BkKeyGet
    with assms calls_chars show ?thesis by (auto simp: apiBackupKeyGet_def Let_def split: if_splits)
  next
    case (BkKeyImport k)
    with assms KeyImport_inv show ?thesis by auto
  qed
qed

lemma backup_begin_inv:
  assumes "backup_begin io q s = (res, s')" "seals dec io" "backup_inv dec s p"
  shows "backup_inv dec s' p \<and> (\<forall>c. res = Inr c \<longrightarrow> cfg_ok dec c)"
proof (cases "backup_request_config io q (getBackup s)")
  case (Inr c)
  have c: "cfg_ok dec c" using request_config_ok [OF Inr assms(2) getBackup_ok [OF assms(3)]] .
  have "backup_inv dec (s \<lparr> bs_env := Some t, bs_sched := x \<rparr>) p" if "buildBackupEnv io c = Some t" for t x
    using build_env_safe [OF that _ c] assms(2,3) by (simp add: backup_inv_def seals_def)
  moreover have "backup_inv dec (s \<lparr> bs_env := Some t \<rparr>) p" if "buildBackupEnv io c = Some t" for t
    using build_env_safe [OF that _ c] assms(2,3) by (simp add: backup_inv_def seals_def)
  ultimately show ?thesis
    using assms(1,3) Inr c calls_chars by (auto simp: backup_begin_def Let_def split: option.splits if_splits)
qed (use assms in \<open>auto simp: backup_begin_def\<close>)

lemma backup_reach_inv: "backup_reach dec s p \<Longrightarrow> backup_inv dec s p"
proof (induction rule: backup_reach.induct)
  case start
  show ?case by (simp add: fresh_backup_def backup_inv_def)
next
  case (began s p io q c s')
  with backup_begin_inv [OF began(3,2,4)] show ?case by (simp add: backup_inv_def)
next
  case (finished s p1 c p2 io r s')
  then have "cfg_ok dec c" "backup_inv dec s (p1 @ p2)" by (auto simp: backup_inv_def)
  with finished show ?case unfolding backup_finish_def by (blast intro: set_and_record_inv)
qed (auto dest: backup_handle_inv backup_begin_inv)

text \<open>
  C3. What the root backup service sources is safe, however requests interleave. In every
  reachable state the staged environment file is a comment and assignments of fixed variable
  names to values free of shell-active characters, the unsealed secret included; every argument
  passed to the adapter consists of letters, digits, dots, dashes and underscores; a staged
  decryption key is an age identity; and the stored retention is at least a day.
\<close>

theorem backup_env_shell_safe:
  assumes "backup_reach dec s p"
  shows "(\<forall>t. bs_env s = Some t \<longrightarrow> (\<exists>vars. assignments t vars)) \<and> (\<forall>args \<in> set (bs_calls s). \<forall>a \<in> set args. list_all file_char a)
    \<and> (\<forall>t. bs_agekey s = Some t \<longrightarrow> key_file_ok t) \<and> 1 \<le> bk_RetentionDays (getBackup s)"
  using backup_reach_inv [OF assms] getBackup_ok [OF backup_reach_inv [OF assms]]
  by (simp add: backup_inv_def cfg_ok_def list_all_iff)

section \<open>One restore per process\<close>

fun is_restore :: "backup_req \<Rightarrow> bool" where
  "is_restore (BkRestore _) = True"
| "is_restore _ = False"

lemma set_and_record_restored [simp]: "set_and_record io c a t sv s = (r, s') \<Longrightarrow> bs_restored s' = bs_restored s"
  by (auto simp: set_and_record_def setBackup_def bk_record_def split: prod.splits bool.splits)

lemma restored_kept:
  assumes "backup_handle q s = (r, s')"
  shows "bs_restored s \<Longrightarrow> bs_restored s' \<and> (is_restore (snd q) \<longrightarrow> r = Refused 409 \<and> s' = s)"
    and "is_restore (snd q) \<Longrightarrow> r = Done \<Longrightarrow> bs_restored s'"
proof -
  obtain io x where q: "q = (io, x)" by fastforce
  have "bs_restored s' = bs_restored s" if "\<not> is_restore x"
    using that assms unfolding q
    by (cases x) (auto simp: apiBackupRunNow_def apiBackupDisable_def apiBackupMarkDrill_def apiBackupVerify_def apiBackupDownload_def
        apiBackupKeyGet_def apiBackupKeyImport_def runBackupCfg_def bk_record_def Let_def split: if_splits)
  then show "bs_restored s \<Longrightarrow> bs_restored s' \<and> (is_restore (snd q) \<longrightarrow> r = Refused 409 \<and> s' = s)"
    using assms unfolding q by (cases x) (auto simp: apiBackupRestore_def Let_def)
  show "is_restore (snd q) \<Longrightarrow> r = Done \<Longrightarrow> bs_restored s'"
    using assms unfolding q by (cases x) (auto simp: apiBackupRestore_def bk_record_def Let_def split: if_splits)
qed

lemma run_restored:
  assumes "svc_run backup_handle qs s = (rs, s')" "bs_restored s"
  shows "j < length qs \<Longrightarrow> is_restore (snd (qs ! j)) \<Longrightarrow> rs ! j = Refused 409"
  using assms
proof (induction qs arbitrary: s rs j)
  case (Cons q qs)
  obtain r s1 rs1 where h: "backup_handle q s = (r, s1)" "svc_run backup_handle qs s1 = (rs1, s')" "rs = r # rs1"
    using Cons.prems(3) by (auto split: prod.splits)
  from restored_kept(1) [OF h(1) Cons.prems(4)] Cons.IH [OF _ _ h(2)] Cons.prems(1,2) h(3) show ?case
    by (cases j) auto
qed simp

text \<open>
  C20. A process restores an archive at most once: in any sequence of requests, once a restore
  has succeeded every later restore is refused until the control plane has been restarted, and
  while the flag is set a restore request neither runs the adapter nor changes anything.
\<close>

theorem restore_at_most_once:
  assumes "svc_run backup_handle qs s = (rs, s')" "i < j" "j < length qs" "is_restore (snd (qs ! i))" "rs ! i = Done" "is_restore (snd (qs ! j))"
  shows "rs ! j = Refused 409"
  using assms
proof (induction qs arbitrary: s rs i j)
  case (Cons q qs)
  obtain r s1 rs1 where h: "backup_handle q s = (r, s1)" "svc_run backup_handle qs s1 = (rs1, s')" "rs = r # rs1"
    using Cons.prems(1) by (auto split: prod.splits)
  obtain j' where j: "j = Suc j'" using Cons.prems(2) by (cases j) auto
  show ?case
  proof (cases i)
    case 0
    with Cons.prems(4,5) h(3) restored_kept(2) [OF h(1)] have "bs_restored s1" by simp
    from run_restored [OF h(2) this, of j'] Cons.prems(3,6) j h(3) show ?thesis by simp
  next
    case (Suc i')
    with Cons.IH [OF h(2), of i' j'] Cons.prems j h(3) show ?thesis by simp
  qed
qed simp

section \<open>Limits\<close>

text \<open>
  A secret outlives its target: when the stored target had a secret, changing to SFTP without a
  key path hands that secret to the backup service as the path of the SFTP key.
\<close>

theorem secret_kept_across_targets:
  assumes "backup_request_config io r c = Inr c'" "br_Target r = ''sftp''" "br_SFTPKeyPath r = []"
    and "bi_key io" "bk_SecretEnc c \<noteq> []" "bi_dec io (bk_SecretEnc c) = Some v" "v \<noteq> []"
  shows "\<exists>secret. unseal_secret io c' = Some secret \<and> (''SAGUARO_SFTP_KEY'', v) \<in> set (env_vars c' secret)"
proof -
  have "try_then (request_secret r) (\<lambda>new. map_sum id (requested r c) (sealed_secret io new (bk_SecretEnc c))) = Inr c'"
    using assms(1) unfolding backup_request_config_def by (simp only: Inl_Inr_False simp_thms split: if_split_asm)
  then have "c' = requested r c (bk_SecretEnc c)"
    using assms(2,3) by (auto simp: try_then_Inr_iff map_sum_Inr_iff request_secret_def sealed_secret_def split: if_split_asm)
  then have "bk_SecretEnc c' = bk_SecretEnc c" "bk_Target c' = ''sftp''"
    using assms(2) by (simp_all add: requested_def)
  with assms(4-7) show ?thesis
    by (simp add: unseal_secret_def env_vars_def only_if_def)
qed

text \<open>
  A drill recorded while an apply request is between its two steps is lost: the request stores
  the time it had read before.
\<close>

theorem drill_lost_in_apply:
  assumes "backup_begin io r s = (Inr c, s1)" "apiBackupVerify io2 s1 = (Done, s2)" "backup_finish io3 c s2 = (Done, s3)"
  shows "bk_LastDrill (getBackup s2) = Some (bi_now io2) \<and> bk_LastDrill (getBackup s3) = bk_LastDrill (getBackup s)"
proof -
  have "backup_request_config io r (getBackup s) = Inr c"
    using assms(1) by (auto simp: backup_begin_def Let_def split: sum.splits option.splits if_split_asm)
  then have "try_then (request_secret r) (\<lambda>new. map_sum id (requested r (getBackup s)) (sealed_secret io new (bk_SecretEnc (getBackup s)))) = Inr c"
    unfolding backup_request_config_def by (simp only: Inl_Inr_False simp_thms split: if_split_asm)
  then have "bk_LastDrill c = bk_LastDrill (getBackup s)"
    by (auto simp: try_then_Inr_iff map_sum_Inr_iff requested_def)
  moreover have "getBackup s3 = c"
    using assms(3) by (auto simp: backup_finish_def set_and_record_def setBackup_def bk_record_def getBackup_def split: prod.splits bool.splits)
  moreover have "bk_LastDrill (getBackup s2) = Some (bi_now io2)"
    using assms(2) by (auto simp: apiBackupVerify_def set_and_record_def setBackup_def bk_record_def getBackup_def Let_def
        split: prod.splits bool.splits if_split_asm)
  ultimately show ?thesis by simp
qed

section \<open>Examples\<close>

definition ex_bk_io :: backup_io where
  "ex_bk_io = \<lparr> bi_key = True, bi_enc = Some, bi_dec = Some, bi_write_env = True, bi_write_sched = True, bi_adapter = True, bi_output = [],
     bi_save = True, bi_now = 7, bi_rq = ex_vpn_rq \<rparr>"

definition ex_bk_req :: backup_request where
  "ex_bk_req = \<lparr> br_Target = ''s3'', br_Schedule = [], br_RetentionDays = 0, br_SFTPHost = [], br_SFTPPort = 0, br_SFTPUser = [],
     br_SFTPPath = [], br_SFTPKeyPath = [], br_S3Bucket = ''b'', br_S3Endpoint = [], br_S3Region = [], br_S3AccessID = ''id'', br_S3Secret = ''s'' \<rparr>"

lemma ex_bk_begin: "\<exists>c s. backup_begin ex_bk_io ex_bk_req fresh_backup = (Inr c, s) \<and> bs_env s \<noteq> None"
  by (simp add: backup_begin_def backup_request_config_def ex_bk_req_def ex_bk_io_def request_schedule_def validBackupSchedule_def request_values_def
      backupValueRe_def safe_char_def char_class_defs request_secret_def sealed_secret_def buildBackupEnv_def unseal_secret_def requested_def
      runBackupCfg_def)

theorem backup_env_shell_safe_witness:
  "\<exists>c s t vars. backup_begin ex_bk_io ex_bk_req fresh_backup = (Inr c, s) \<and> bs_env s = Some t \<and> assignments t vars"
proof -
  obtain c s where b: "backup_begin ex_bk_io ex_bk_req fresh_backup = (Inr c, s)" "bs_env s \<noteq> None"
    using ex_bk_begin by blast
  have "backup_reach Some s [c]"
    using b(1) by (intro backup_reach.began [OF backup_reach.start, of _ ex_bk_io]) (simp_all add: seals_def ex_bk_io_def)
  from backup_env_shell_safe [OF this] b show ?thesis by blast
qed

lemma ex_archive: "TrimSpace ''saguaro-1.tar.gz.age'' = ''saguaro-1.tar.gz.age''" "backupFileRe ''saguaro-1.tar.gz.age''"
    "HasSuffix ''saguaro-1.tar.gz.age'' ''.tar.gz.age''"
proof -
  show "TrimSpace ''saguaro-1.tar.gz.age'' = ''saguaro-1.tar.gz.age''"
    by (rule TrimSpace_all_graph) (simp add: is_graph_def)
  show "HasSuffix ''saguaro-1.tar.gz.age'' ''.tar.gz.age''"
    by (simp add: HasSuffix_def)
  show "backupFileRe ''saguaro-1.tar.gz.age''"
    by (simp add: backupFileRe_def archive_rest_def HasPrefix_def HasSuffix_def TrimPrefix_def file_char_def char_class_defs)
qed

theorem restore_at_most_once_witness:
  "\<exists>r1 r2 s. svc_run backup_handle [(ex_bk_io, BkRestore ''saguaro-1.tar.gz.age''), (ex_bk_io, BkRestore ''saguaro-1.tar.gz.age'')] fresh_backup
     = ([r1, r2], s) \<and> r1 = Done \<and> r2 = Refused 409"
proof -
  let ?q = "(ex_bk_io, BkRestore ''saguaro-1.tar.gz.age'')"
  obtain r1 s1 r2 s where "backup_handle ?q fresh_backup = (r1, s1)" "backup_handle ?q s1 = (r2, s)"
    by fastforce
  then have r: "svc_run backup_handle [?q, ?q] fresh_backup = ([r1, r2], s)"
    by simp
  moreover have "r1 = Done"
    using r ex_archive by (auto simp: apiBackupRestore_def fresh_backup_def ex_bk_io_def Let_def split: prod.splits)
  ultimately show ?thesis
    using restore_at_most_once [OF r, of 0 1] by simp
qed

end
