(* ===== verification/Uplinks.thy ===== *)
theory Uplinks
  imports Gateway
begin

text \<open>
  The handlers of the uplinks and ports: multi-WAN routing (\<open>cmd/saguaro/multiwan.go\<close>), the
  addressing of the WAN interfaces (\<open>wan.go\<close>) and the interface list with its aliases
  (\<open>interfaces.go\<close>). The firewall state is that of \<open>Gateway\<close>. The root adapters are traces of
  the actions run, each with the files staged at that moment; which of them succeed, whether
  files can be written, and what the kernel reports about routes and ports are parameters.
\<close>

section \<open>State\<close>

record upIO =
  ui_gw :: gwIO
  ui_write_spec :: bool
  ui_write_mode :: bool
  ui_write_netplan :: bool
  ui_wan :: "string \<Rightarrow> bool"
  ui_net :: "string list \<Rightarrow> bool"

record upState =
  us_gw :: gwApp
  us_spec :: "string option"
  us_mode :: "string option"
  us_wanruns :: "(string \<times> string option \<times> string option) list"
  us_wans :: "WAN list"
  us_legacy :: "WAN option"
  us_netplan :: "string option"
  us_netruns :: "(string list \<times> string option) list"
  us_labels :: "string \<rightharpoonup> string"

definition up_record :: "reqctx \<Rightarrow> string \<Rightarrow> string \<Rightarrow> string \<Rightarrow> string \<Rightarrow> upState \<Rightarrow> upState" where
  "up_record rq action target result severity s = s \<lparr> us_gw := gw_record rq action target result severity (us_gw s) \<rparr>"

definition runWAN :: "upIO \<Rightarrow> string \<Rightarrow> upState \<Rightarrow> bool \<times> upState" where
  "runWAN io action s = (ui_wan io action, s \<lparr> us_wanruns := us_wanruns s @ [(action, us_spec s, us_mode s)] \<rparr>)"

definition runNet :: "upIO \<Rightarrow> string list \<Rightarrow> upState \<Rightarrow> bool \<times> upState" where
  "runNet io args s = (ui_net io args, s \<lparr> us_netruns := us_netruns s @ [(args, us_netplan s)] \<rparr>)"

section \<open>Multi-WAN\<close>

definition setWAN :: "MwanConfig \<Rightarrow> upState \<Rightarrow> upState" where
  "setWAN c s = s \<lparr> us_gw := (us_gw s) \<lparr> ga_wan := c \<rparr> \<rparr>"

text \<open>The firewall is brought in line, best effort: a failure is recorded and goes no further.\<close>

definition syncFirewallForWAN :: "upIO \<Rightarrow> reqctx \<Rightarrow> upState \<Rightarrow> upState" where
  "syncFirewallForWAN io rq s =
     (if \<not> snd (firewallConfig (ui_gw io) (us_gw s)) then s
      else case applyAndConfirm (ui_gw io) (us_gw s) of
             (None, g) \<Rightarrow> s \<lparr> us_gw := g \<rparr>
           | (Some e, g) \<Rightarrow> up_record rq ''multiwan-fwsync'' ''nftables'' ''failed'' ''warning'' (s \<lparr> us_gw := g \<rparr>))"

definition store_wan :: "upIO \<Rightarrow> reqctx \<Rightarrow> string \<Rightarrow> MwanConfig \<Rightarrow> upState \<Rightarrow> gresponse \<times> upState" where
  "store_wan io rq severity c s =
     (let s1 = setWAN c s
      in if \<not> io_saved (ui_gw io) then (GError 500 ''cannot persist multi-WAN configuration'', s1)
         else (GOk, up_record rq ''multiwan-config'' ''routing'' ''success'' severity (syncFirewallForWAN io rq s1)))"

definition apiWANApply :: "upIO \<Rightarrow> reqctx \<Rightarrow> MwanConfig \<Rightarrow> upState \<Rightarrow> gresponse \<times> upState" where
  "apiWANApply io rq c s =
     (if mwan_Validate c \<noteq> None then (GError 400 ''invalid multi-WAN configuration'', s)
      else if mw_Enabled c \<and> \<not> (snd (getGateway (us_gw s)) \<and> c_GatewayEnabled (fst (getGateway (us_gw s)))) then
        (GError 409 ''multi-WAN requires gateway mode (W8) first'', s)
      else if \<not> mw_Enabled c then
        (case runWAN io ''disable'' s of
           (False, s1) \<Rightarrow> (GError 502 ''disable failed'', s1)
         | (True, s1) \<Rightarrow> store_wan io rq ''warning'' c s1)
      else case mwan_GenerateSpec c of
             Inl _ \<Rightarrow> (GError 400 ''invalid multi-WAN configuration'', s)
           | Inr spec \<Rightarrow>
               if \<not> ui_write_spec io then (GError 500 ''cannot write staged spec'', s)
               else let s1 = s \<lparr> us_spec := Some spec \<rparr>
                    in if \<not> ui_write_mode io then (GError 500 ''cannot write staged mode'', s1)
                       else case runWAN io ''apply'' (s1 \<lparr> us_mode := Some (GenerateMode c @ [CHR 0x0A]) \<rparr>) of
                              (False, s2) \<Rightarrow> (GError 502 ''apply failed'', up_record rq ''multiwan-config'' ''routing'' ''failed'' ''security'' s2)
                            | (True, s2) \<Rightarrow> store_wan io rq ''security'' c s2)"

definition apiWANConfirm :: "upIO \<Rightarrow> reqctx \<Rightarrow> upState \<Rightarrow> gresponse \<times> upState" where
  "apiWANConfirm io rq s =
     (case runWAN io ''confirm'' s of
        (False, s1) \<Rightarrow> (GError 502 ''confirm failed'', s1)
      | (True, s1) \<Rightarrow> (GOk, up_record rq ''multiwan-confirm'' ''routing'' ''success'' ''security'' s1))"

definition apiWANRollback :: "upIO \<Rightarrow> reqctx \<Rightarrow> upState \<Rightarrow> gresponse \<times> upState" where
  "apiWANRollback io rq s =
     (case runWAN io ''disable'' s of
        (False, s1) \<Rightarrow> (GError 502 ''rollback failed'', s1)
      | (True, s1) \<Rightarrow>
          (GOk, up_record rq ''multiwan-rollback'' ''routing'' ''success'' ''security''
                  (setWAN ((ga_wan (us_gw s1)) \<lparr> mw_Enabled := False \<rparr>) s1)))"

section \<open>WAN addressing\<close>

text \<open>Reading the list moves the configuration of older versions into it; a failed save is ignored.\<close>

definition getWANs :: "upState \<Rightarrow> WAN list \<times> upState" where
  "getWANs s =
     (case us_legacy s of
        Some w \<Rightarrow> if us_wans s = [] then ([w], s \<lparr> us_wans := [w], us_legacy := None \<rparr>) else (us_wans s, s)
      | None \<Rightarrow> (us_wans s, s))"

definition setWANs :: "WAN list \<Rightarrow> upState \<Rightarrow> upState" where
  "setWANs ws s = s \<lparr> us_wans := ws, us_legacy := None \<rparr>"

record defaultRoute =
  dr_Dev :: string
  dr_Gateway :: string
  dr_Protocol :: string
  dr_Metric :: int

record nicInfo =
  ni_Name :: string
  ni_Addresses :: "string list"
  ni_SysName :: string
  ni_Role :: string
  ni_Label :: string

definition nic_addrs :: "nicInfo list \<Rightarrow> (string \<rightharpoonup> string list)" where
  "nic_addrs nics = foldl (\<lambda>m n. m(ni_Name n \<mapsto> ni_Addresses n)) Map.empty nics"

definition detected :: "(string \<rightharpoonup> string list) \<Rightarrow> defaultRoute \<Rightarrow> WAN" where
  "detected addrs r =
     (let w = \<lparr> w_Interface = dr_Dev r, w_Mode = ''dhcp'', w_Address = [], w_Gateway = [], w_DNS = [], w_Aliases = [], w_Metric = dr_Metric r \<rparr>
      in if dr_Protocol r = ''dhcp'' then w
         else w \<lparr> w_Mode := ''static'', w_Gateway := dr_Gateway r,
                  w_Address := (case addrs (dr_Dev r) of Some (a # _) \<Rightarrow> a | _ \<Rightarrow> []) \<rparr>)"

fun detect_loop :: "(string \<rightharpoonup> string list) \<Rightarrow> string set \<Rightarrow> defaultRoute list \<Rightarrow> WAN list" where
  "detect_loop addrs seen [] = []"
| "detect_loop addrs seen (r # rs) =
     (if dr_Dev r = [] \<or> dr_Gateway r = [] \<or> dr_Dev r \<in> seen then detect_loop addrs seen rs
      else let rest = detect_loop addrs (insert (dr_Dev r) seen) rs
           in if wan_Validate (detected addrs r) \<noteq> None then rest else detected addrs r # rest)"

text \<open>
  Routes that cannot be read give no uplinks, ports that cannot be read no addresses. The
  library sort keeps the order of equal metrics on the short lists of a routing table.
\<close>

definition detectWANs :: "defaultRoute list option \<Rightarrow> nicInfo list option \<Rightarrow> WAN list" where
  "detectWANs routes nics =
     (case routes of
        None \<Rightarrow> []
      | Some rs \<Rightarrow> sort_key w_Metric (detect_loop (case nics of None \<Rightarrow> Map.empty | Some ns \<Rightarrow> nic_addrs ns) {} rs))"

definition apiWANConfigGet :: "defaultRoute list option \<Rightarrow> nicInfo list option \<Rightarrow> upState \<Rightarrow> WAN list \<times> upState" where
  "apiWANConfigGet routes nics s =
     (let (wans, s1) = getWANs s;
          wans1 = (if wans = [] then detectWANs routes nics else wans);
          fallback = \<lparr> w_Interface = (if snd (getGateway (us_gw s1)) then c_WANInterface (fst (getGateway (us_gw s1))) else []),
                       w_Mode = ''dhcp'', w_Address = [], w_Gateway = [], w_DNS = [], w_Aliases = [], w_Metric = 100 \<rparr>
      in (if wans1 = [] then [fallback] else wans1, s1))"

definition apiWANConfigApply :: "upIO \<Rightarrow> reqctx \<Rightarrow> WAN list \<Rightarrow> upState \<Rightarrow> gresponse \<times> upState" where
  "apiWANConfigApply io rq ws s =
     (if ws = [] then (GError 400 ''at least one WAN interface is required'', s)
      else case GenerateNetplanMulti ws of
             Inl _ \<Rightarrow> (GError 400 ''invalid WAN configuration'', s)
           | Inr yaml \<Rightarrow>
               if \<not> ui_write_netplan io then (GError 500 ''cannot write staged WAN netplan'', s)
               else case runNet io [''wan-apply''] (s \<lparr> us_netplan := Some yaml \<rparr>) of
                      (False, s1) \<Rightarrow> (GError 502 ''apply failed'', up_record rq ''wan-config'' ''netplan'' ''failed'' ''security'' s1)
                    | (True, s1) \<Rightarrow>
                        let s2 = setWANs ws s1
                        in if \<not> io_saved (ui_gw io) then (GError 500 ''cannot persist WAN configuration'', s2)
                           else (GOk, up_record rq ''wan-config'' ''netplan'' ''success'' ''security'' s2))"

definition apiNetConfirm :: "upIO \<Rightarrow> reqctx \<Rightarrow> string \<Rightarrow> upState \<Rightarrow> gresponse \<times> upState" where
  "apiNetConfirm io rq kind s =
     (case runNet io [kind @ ''-confirm''] s of
        (False, s1) \<Rightarrow> (GError 502 ''confirm failed'', s1)
      | (True, s1) \<Rightarrow> (GOk, up_record rq (kind @ ''-netplan-confirm'') ''netplan'' ''success'' ''security'' s1))"

definition apiNetRollback :: "upIO \<Rightarrow> reqctx \<Rightarrow> string \<Rightarrow> upState \<Rightarrow> gresponse \<times> upState" where
  "apiNetRollback io rq kind s =
     (case runNet io [kind @ ''-rollback''] s of
        (False, s1) \<Rightarrow> (GError 502 ''rollback failed'', s1)
      | (True, s1) \<Rightarrow> (GOk, up_record rq (kind @ ''-netplan-rollback'') ''netplan'' ''success'' ''security'' s1))"

section \<open>Ports\<close>

definition nicNameRe :: "string \<Rightarrow> bool" where
  "nicNameRe = re_rep iface_char 1 15"

definition nicLabelRe :: "string \<Rightarrow> bool" where
  "nicLabelRe = re_rep (\<lambda>c. iface_char c \<or> c = CHR '' '') 0 24"

definition setNICLabel :: "string \<Rightarrow> string \<Rightarrow> upState \<Rightarrow> upState" where
  "setNICLabel name label s =
     s \<lparr> us_labels := (if label = [] then (us_labels s)(name := None) else (us_labels s)(name \<mapsto> label)) \<rparr>"

fun migrate_loop :: "nicInfo list \<Rightarrow> (string \<rightharpoonup> string) \<Rightarrow> (string \<rightharpoonup> string)" where
  "migrate_loop [] labels = labels"
| "migrate_loop (n # ns) labels =
     (if ni_SysName n = [] \<or> ni_SysName n = ni_Name n then migrate_loop ns labels
      else case labels (ni_SysName n) of
             None \<Rightarrow> migrate_loop ns labels
           | Some old \<Rightarrow>
               migrate_loop ns ((if labels (ni_Name n) = None then labels(ni_Name n \<mapsto> old) else labels)(ni_SysName n := None)))"

definition migrateNICLabels :: "nicInfo list \<Rightarrow> upState \<Rightarrow> upState" where
  "migrateNICLabels nics s = s \<lparr> us_labels := migrate_loop nics (us_labels s) \<rparr>"

definition apiInterfaceLabel :: "upIO \<Rightarrow> reqctx \<Rightarrow> string \<Rightarrow> string \<Rightarrow> upState \<Rightarrow> gresponse \<times> upState" where
  "apiInterfaceLabel io rq name label0 s =
     (let label = TrimSpace label0
      in if \<not> nicNameRe name then (GError 400 ''invalid interface name'', s)
         else if \<not> nicLabelRe label then (GError 400 ''label may be up to 24 chars (letters, digits, space . _ -)'', s)
         else let s1 = setNICLabel name label s
              in if \<not> io_saved (ui_gw io) then (GError 500 ''cannot persist interface label'', s1)
                 else (GOk, up_record rq ''nic-label'' name ''success'' ''info'' s1))"

definition gateway_role :: "gwApp \<Rightarrow> string \<Rightarrow> string" where
  "gateway_role g name =
     (let (c, ok) = getGateway g
      in if \<not> ok then []
         else if c_GatewayEnabled c \<and> name = c_WANInterface c then ''WAN''
         else if c_GatewayEnabled c \<and> name = c_LANInterface c then ''LAN''
         else if c_DHCPInterface c = name \<and> name \<noteq> [] then ''LAN''
         else [])"

definition nicRole :: "string \<Rightarrow> upState \<Rightarrow> string \<times> upState" where
  "nicRole name s =
     (let role = gateway_role (us_gw s) name
      in if role \<noteq> [] then (role, s)
         else case getWANs s of
                (ws, s1) \<Rightarrow> (if name \<noteq> [] \<and> name \<in> w_Interface ` set ws then ''WAN'' else [], s1))"

fun list_ports :: "nicInfo list \<Rightarrow> upState \<Rightarrow> nicInfo list \<times> upState" where
  "list_ports [] s = ([], s)"
| "list_ports (n # ns) s =
     (case nicRole (ni_Name n) s of
        (role, s1) \<Rightarrow>
          case list_ports ns s1 of
            (rest, s2) \<Rightarrow>
              (n \<lparr> ni_Role := role, ni_Label := (case us_labels s (ni_Name n) of Some l \<Rightarrow> l | None \<Rightarrow> []) \<rparr> # rest, s2))"

definition apiInterfacesList :: "nicInfo list option \<Rightarrow> upState \<Rightarrow> nicInfo list option \<times> upState" where
  "apiInterfacesList nics s =
     (case nics of
        None \<Rightarrow> (None, s)
      | Some ns \<Rightarrow> (case list_ports ns (migrateNICLabels ns s) of (out, s1) \<Rightarrow> (Some out, s1)))"

definition identify_seconds :: "int \<Rightarrow> int" where
  "identify_seconds secs = (if secs < 1 \<or> secs > 30 then 10 else secs)"

definition apiInterfaceIdentify :: "upIO \<Rightarrow> reqctx \<Rightarrow> string \<Rightarrow> int \<Rightarrow> upState \<Rightarrow> gresponse \<times> upState" where
  "apiInterfaceIdentify io rq name secs s =
     (if \<not> nicNameRe name then (GError 400 ''invalid interface name'', s)
      else case runNet io [''identify'', name, Itoa (identify_seconds secs)] s of
             (False, s1) \<Rightarrow> (GError 502 ''identify failed'', s1)
           | (True, s1) \<Rightarrow> (GOk, up_record rq ''nic-identify'' name ''success'' ''info'' s1))"

section \<open>Multi-WAN and the firewall\<close>

lemma applyAndConfirm_audit: "applyAndConfirm io a = (e, a') \<Longrightarrow> ga_audit a' = ga_audit a"
  by (auto simp: applyAndConfirm_def stage_run_def run_action_def Let_def split: prod.splits outcome.splits if_splits)

lemma firewallConfig_same:
  assumes "ga_gw a' = ga_gw a" "ga_s2s a' = ga_s2s a" "ga_ipsec a' = ga_ipsec a" "ga_wan a' = ga_wan a" "ga_vpn a' = ga_vpn a" "ga_ovpn a' = ga_ovpn a"
  shows "firewallConfig io a' = firewallConfig io a"
  using assms by (simp add: firewallConfig_def getGateway_def tunnelNets_def pbrUplinks_def openvpnFirewall_def vpnPorts_def)

lemma snd_firewallConfig: "snd (firewallConfig io a) = snd (getGateway a)"
  by (simp add: firewallConfig_def Let_def split: prod.split)

lemma pbr_interfaces:
  "map pb_Interface (c_PBRUplinks (fst (firewallConfig io a))) = (if mw_Enabled (ga_wan a) then map u_Interface (mw_Uplinks (ga_wan a)) else [])"
  "map pb_Mark (c_PBRUplinks (fst (firewallConfig io a))) = (if mw_Enabled (ga_wan a) then map (\<lambda>i. int i + 1) [0..<length (mw_Uplinks (ga_wan a))] else [])"
proof -
  have p: "c_PBRUplinks (fst (firewallConfig io a)) = pbrUplinks a"
    by (simp add: firewallConfig_def Let_def split: prod.split)
  have e: "map (\<lambda>x. f (snd x)) (enumerate n us) = map f us" "map (\<lambda>x. g (fst x)) (enumerate n us) = map g [n..<n + length us]"
    for f :: "'x \<Rightarrow> string" and g :: "nat \<Rightarrow> int" and n and us :: "'x list"
    by (induction us arbitrary: n) (simp_all add: upt_conv_Cons del: upt_Suc)
  have "map (\<lambda>x. u_Interface (snd x)) (enumerate 0 us) = map u_Interface us" "map (\<lambda>x. int (fst x) + 1) (enumerate 0 us) = map (\<lambda>i. int i + 1) [0..<length us]" for us :: "Uplink list"
    using e(1) [of u_Interface 0 us] e(2) [of "\<lambda>i. int i + 1" 0 us] by simp_all
  then show "map pb_Interface (c_PBRUplinks (fst (firewallConfig io a))) = (if mw_Enabled (ga_wan a) then map u_Interface (mw_Uplinks (ga_wan a)) else [])"
    "map pb_Mark (c_PBRUplinks (fst (firewallConfig io a))) = (if mw_Enabled (ga_wan a) then map (\<lambda>i. int i + 1) [0..<length (mw_Uplinks (ga_wan a))] else [])"
    unfolding p by (simp_all add: pbrUplinks_def only_if_def case_prod_beta comp_def)
qed

text \<open>The state after a sync: the firewall runs what the state renders to, or the failure is on record.\<close>

definition fw_synced :: "upIO \<Rightarrow> reqctx \<Rightarrow> gwApp \<Rightarrow> gwApp \<Rightarrow> bool" where
  "fw_synced io rq g g' \<longleftrightarrow>
     (\<exists>t. Generate (fst (firewallConfig (ui_gw io) g')) = Return t \<and> ga_runs g' = ga_runs g @ [(''apply'', t), (''confirm'', t)] \<and> ga_audit g' = ga_audit g)
   \<or> ga_audit g' = recordSev rq (actor rq) ''multiwan-fwsync'' ''nftables'' ''failed'' ''warning'' (ga_audit g)"

lemma syncFirewall_cases:
  shows "us_wanruns (syncFirewallForWAN io rq s) = us_wanruns s \<and> ga_wan (us_gw (syncFirewallForWAN io rq s)) = ga_wan (us_gw s)
    \<and> ga_gw (us_gw (syncFirewallForWAN io rq s)) = ga_gw (us_gw s)
    \<and> (if snd (getGateway (us_gw s)) then fw_synced io rq (us_gw s) (us_gw (syncFirewallForWAN io rq s)) else syncFirewallForWAN io rq s = s)"
proof (cases "snd (getGateway (us_gw s))")
  case False
  then show ?thesis by (simp add: syncFirewallForWAN_def snd_firewallConfig)
next
  case True
  obtain e g where a: "applyAndConfirm (ui_gw io) (us_gw s) = (e, g)" by fastforce
  note f = applyAndConfirm_frame [OF a]
  have c: "firewallConfig (ui_gw io) g = firewallConfig (ui_gw io) (us_gw s)"
    using f by (intro firewallConfig_same) simp_all
  show ?thesis
  proof (cases e)
    case None
    with a applyAndConfirm_None [of "ui_gw io" "us_gw s" g] applyAndConfirm_audit [OF a] f c True show ?thesis
      by (simp add: syncFirewallForWAN_def snd_firewallConfig fw_synced_def)
  next
    case (Some x)
    with a f True applyAndConfirm_audit [OF a] show ?thesis
      by (simp add: syncFirewallForWAN_def snd_firewallConfig fw_synced_def up_record_def gw_record_def)
  qed
qed

lemma store_wan_GOk:
  assumes "store_wan io rq sev c s = (GOk, s')"
  shows "ga_wan (us_gw s') = c \<and> us_wanruns s' = us_wanruns s \<and> ga_gw (us_gw s') = ga_gw (us_gw s)
    \<and> (\<exists>g. us_gw s' = gw_record rq ''multiwan-config'' ''routing'' ''success'' sev g
         \<and> (snd (getGateway (us_gw s)) \<longrightarrow> fw_synced io rq ((us_gw s) \<lparr> ga_wan := c \<rparr>) g))"
proof -
  let ?t = "syncFirewallForWAN io rq (setWAN c s)"
  have s': "s' = up_record rq ''multiwan-config'' ''routing'' ''success'' sev ?t"
    using assms by (auto simp: store_wan_def Let_def split: if_splits)
  have "us_gw (setWAN c s) = (us_gw s) \<lparr> ga_wan := c \<rparr>" "us_wanruns (setWAN c s) = us_wanruns s"
    by (simp_all add: setWAN_def)
  with syncFirewall_cases [of io rq "setWAN c s"] show ?thesis
    unfolding s' by (intro conjI exI [of _ "us_gw ?t"]) (auto simp: up_record_def gw_record_def getGateway_def split: if_splits)
qed

lemma apiWANApply_GOk:
  assumes "apiWANApply io rq c s = (GOk, s')"
  shows "\<exists>sev s1. store_wan io rq sev c s1 = (GOk, s') \<and> us_gw s1 = us_gw s
    \<and> (mw_Enabled c \<longrightarrow> snd (getGateway (us_gw s)) \<and> c_GatewayEnabled (fst (getGateway (us_gw s))))
    \<and> (\<exists>sp m. us_wanruns s1 = us_wanruns s @ [(if mw_Enabled c then ''apply'' else ''disable'', sp, m)]
         \<and> (mw_Enabled c \<longrightarrow> (\<exists>t. mwan_GenerateSpec c = Inr t \<and> sp = Some t \<and> m = Some (GenerateMode c @ [CHR 0x0A]))))"
proof (cases "mw_Enabled c")
  case True
  then show ?thesis
    using assms by (auto simp: apiWANApply_def runWAN_def Let_def split: if_splits sum.splits prod.splits bool.splits) fastforce
next
  case False
  then show ?thesis
    using assms by (auto simp: apiWANApply_def runWAN_def split: if_splits prod.splits bool.splits) fastforce
qed

text \<open>
  C14. Multi-WAN routing and the firewall change together. A successful request has stored the
  configuration and run the routing adapter on its specification (or switched it off), only
  on a device in gateway mode when it enables multi-WAN; and on a device with a gateway
  configuration the ruleset of the new state, which marks the interface of uplink \<open>i\<close> with
  \<open>i + 1\<close> exactly when multi-WAN is on, was applied and confirmed, or the failure is recorded.
\<close>

theorem multiwan_firewall_synced:
  assumes "apiWANApply io rq c s = (GOk, s')"
  shows "ga_wan (us_gw s') = c
    \<and> (\<exists>sp m. us_wanruns s' = us_wanruns s @ [(if mw_Enabled c then ''apply'' else ''disable'', sp, m)]
         \<and> (mw_Enabled c \<longrightarrow> (\<exists>t. mwan_GenerateSpec c = Inr t \<and> sp = Some t \<and> m = Some (GenerateMode c @ [CHR 0x0A]))))
    \<and> (mw_Enabled c \<longrightarrow> snd (getGateway (us_gw s')) \<and> c_GatewayEnabled (fst (getGateway (us_gw s'))))
    \<and> map pb_Interface (c_PBRUplinks (fst (firewallConfig (ui_gw io) (us_gw s')))) = (if mw_Enabled c then map u_Interface (mw_Uplinks c) else [])
    \<and> map pb_Mark (c_PBRUplinks (fst (firewallConfig (ui_gw io) (us_gw s')))) = (if mw_Enabled c then map (\<lambda>i. int i + 1) [0..<length (mw_Uplinks c)] else [])
    \<and> (snd (getGateway (us_gw s')) \<longrightarrow>
         (\<exists>t. Generate (fst (firewallConfig (ui_gw io) (us_gw s'))) = Return t \<and> ga_runs (us_gw s') = ga_runs (us_gw s) @ [(''apply'', t), (''confirm'', t)])
       \<or> (\<exists>sev. ga_audit (us_gw s') = recordSev rq (actor rq) ''multiwan-config'' ''routing'' ''success'' sev
                (recordSev rq (actor rq) ''multiwan-fwsync'' ''nftables'' ''failed'' ''warning'' (ga_audit (us_gw s)))))"
proof -
  from apiWANApply_GOk [OF assms] obtain sev s1 sp m where
    st: "store_wan io rq sev c s1 = (GOk, s')" and g1: "us_gw s1 = us_gw s"
    and on: "mw_Enabled c \<longrightarrow> snd (getGateway (us_gw s)) \<and> c_GatewayEnabled (fst (getGateway (us_gw s)))"
    and runs: "us_wanruns s1 = us_wanruns s @ [(if mw_Enabled c then ''apply'' else ''disable'', sp, m)]"
      "mw_Enabled c \<longrightarrow> (\<exists>t. mwan_GenerateSpec c = Inr t \<and> sp = Some t \<and> m = Some (GenerateMode c @ [CHR 0x0A]))"
    by blast
  from store_wan_GOk [OF st] obtain g where w: "ga_wan (us_gw s') = c" "us_wanruns s' = us_wanruns s1" "ga_gw (us_gw s') = ga_gw (us_gw s)"
    and g: "us_gw s' = gw_record rq ''multiwan-config'' ''routing'' ''success'' sev g"
    and sync: "snd (getGateway (us_gw s)) \<longrightarrow> fw_synced io rq ((us_gw s) \<lparr> ga_wan := c \<rparr>) g"
    unfolding g1 by blast
  have gw: "getGateway (us_gw s') = getGateway (us_gw s)" using w(3) by (simp add: getGateway_def)
  have f: "firewallConfig (ui_gw io) (us_gw s') = firewallConfig (ui_gw io) g"
    unfolding g by (rule firewallConfig_same) (simp_all add: gw_record_def)
  have "snd (getGateway (us_gw s')) \<longrightarrow>
         (\<exists>t. Generate (fst (firewallConfig (ui_gw io) (us_gw s'))) = Return t \<and> ga_runs (us_gw s') = ga_runs (us_gw s) @ [(''apply'', t), (''confirm'', t)])
       \<or> (\<exists>sev. ga_audit (us_gw s') = recordSev rq (actor rq) ''multiwan-config'' ''routing'' ''success'' sev
                (recordSev rq (actor rq) ''multiwan-fwsync'' ''nftables'' ''failed'' ''warning'' (ga_audit (us_gw s))))"
    using sync unfolding gw f by (auto simp: fw_synced_def g gw_record_def)
  with runs on w(1,2) gw pbr_interfaces [of "ui_gw io" "us_gw s'"] show ?thesis by simp
qed

section \<open>WAN addressing\<close>

lemma detect_loop_ok:
  "(\<forall>w \<in> set (detect_loop addrs seen rs). wan_Validate w = None \<and> w_Interface w \<notin> seen
      \<and> (\<exists>r \<in> set rs. dr_Gateway r \<noteq> [] \<and> w = detected addrs r))
   \<and> distinct (map w_Interface (detect_loop addrs seen rs))"
proof (induction addrs seen rs rule: detect_loop.induct)
  case (2 addrs seen r rs)
  have i: "w_Interface (detected addrs r) = dr_Dev r" by (simp add: detected_def Let_def)
  show ?case
  proof (cases "dr_Dev r = [] \<or> dr_Gateway r = [] \<or> dr_Dev r \<in> seen")
    case True
    with 2(1) show ?thesis by auto
  next
    case False
    with 2(2) i show ?thesis by (auto simp: Let_def)
  qed
qed simp

lemma generate_iff: "(\<exists>y. GenerateNetplanMulti ws = Inr y) \<longleftrightarrow> (\<forall>w \<in> set ws. wan_Validate w = None) \<and> distinct (map w_Interface ws)"
  by (auto simp: GenerateNetplanMulti_def map_sum_Inr_iff wan_loop_Inr)

lemma detectWANs_ok:
  "(\<forall>w \<in> set (detectWANs routes nics). wan_Validate w = None) \<and> distinct (map w_Interface (detectWANs routes nics))
   \<and> sorted (map w_Metric (detectWANs routes nics))"
proof (cases routes)
  case (Some rs)
  let ?l = "detect_loop (case nics of None \<Rightarrow> Map.empty | Some ns \<Rightarrow> nic_addrs ns) {} rs"
  have "distinct (map w_Interface ?l)" "\<forall>w \<in> set ?l. wan_Validate w = None"
    using detect_loop_ok [of "case nics of None \<Rightarrow> Map.empty | Some ns \<Rightarrow> nic_addrs ns" "{}" rs] by blast+
  moreover from this(1) have "distinct (map w_Interface (sort_key w_Metric ?l))"
    by (simp add: distinct_map)
  ultimately show ?thesis by (simp add: detectWANs_def Some)
qed (simp add: detectWANs_def)

text \<open>
  The addressing form opens on what the box runs. It is never empty; a stored list is shown
  as it is, a configuration of an older version is moved into the list; with nothing stored the
  uplinks detected from the routing table are shown, ordered by metric, and applying what is
  shown is accepted by the generator.
\<close>

theorem wan_form_applies:
  assumes "apiWANConfigGet routes nics s = (ws, s')"
  shows "ws \<noteq> []
    \<and> (us_wans s \<noteq> [] \<longrightarrow> ws = us_wans s \<and> s' = s)
    \<and> (us_wans s = [] \<longrightarrow> (\<forall>w. us_legacy s = Some w \<longrightarrow> ws = [w] \<and> us_wans s' = [w] \<and> us_legacy s' = None))
    \<and> (us_wans s = [] \<and> us_legacy s = None \<and> detectWANs routes nics \<noteq> [] \<longrightarrow>
         ws = detectWANs routes nics \<and> sorted (map w_Metric ws) \<and> (\<exists>y. GenerateNetplanMulti ws = Inr y))"
proof -
  have "detectWANs routes nics \<noteq> [] \<longrightarrow> sorted (map w_Metric (detectWANs routes nics)) \<and> (\<exists>y. GenerateNetplanMulti (detectWANs routes nics) = Inr y)"
    using detectWANs_ok [of routes nics] unfolding generate_iff by blast
  then show ?thesis
    using assms by (auto simp: apiWANConfigGet_def getWANs_def Let_def split: option.splits if_splits)
qed

text \<open>A rolled back change stays stored: the list that was reverted is what the store keeps.\<close>

theorem rollback_keeps_stored_wans:
  assumes "apiWANConfigApply io rq ws s = (GOk, s1)" "apiNetRollback io2 rq2 ''wan'' s1 = (GOk, s2)"
  shows "us_wans s2 = ws \<and> last (us_netruns s2) = ([''wan-rollback''], us_netplan s1)"
  using assms
  by (auto simp: apiWANConfigApply_def apiNetRollback_def runNet_def setWANs_def up_record_def Let_def split: sum.splits if_splits prod.splits bool.splits)

text \<open>The rollback of multi-WAN stores it as off without bringing the firewall in line.\<close>

theorem multiwan_rollback_unsynced:
  assumes "apiWANRollback io rq s = (GOk, s')"
  shows "\<not> mw_Enabled (ga_wan (us_gw s')) \<and> ga_runs (us_gw s') = ga_runs (us_gw s)"
  using assms by (auto simp: apiWANRollback_def runWAN_def setWAN_def up_record_def gw_record_def split: prod.splits bool.splits)

section \<open>Aliases of ports\<close>

definition renamed :: "nicInfo \<Rightarrow> bool" where
  "renamed n \<longleftrightarrow> ni_SysName n \<noteq> [] \<and> ni_SysName n \<noteq> ni_Name n"

text \<open>What the migration is for: an alias follows its port, one written on the new name wins.\<close>

definition followed :: "nicInfo list \<Rightarrow> (string \<rightharpoonup> string) \<Rightarrow> (string \<rightharpoonup> string)" where
  "followed nics labels k =
     (if k \<in> ni_SysName ` set (filter renamed nics) then None
      else case labels k of
             Some v \<Rightarrow> Some v
           | None \<Rightarrow> (case find (\<lambda>n. renamed n \<and> ni_Name n = k) nics of None \<Rightarrow> None | Some n \<Rightarrow> labels (ni_SysName n)))"

definition ports_apart :: "nicInfo list \<Rightarrow> bool" where
  "ports_apart nics \<longleftrightarrow>
     distinct (map ni_SysName (filter renamed nics)) \<and> distinct (map ni_Name (filter renamed nics))
   \<and> set (map ni_Name (filter renamed nics)) \<inter> set (map ni_SysName (filter renamed nics)) = {}"

lemma find_renamed_None: "k \<notin> ni_Name ` set (filter renamed ns) \<Longrightarrow> find (\<lambda>n. renamed n \<and> ni_Name n = k) ns = None"
  by (auto simp: find_None_iff)

lemma find_renamed_cong:
  "find (\<lambda>n. renamed n \<and> ni_Name n = k) ns = Some m \<Longrightarrow> renamed m \<and> m \<in> set ns \<and> ni_Name m = k"
  by (auto simp: find_Some_iff)

lemma migrate_followed: "ports_apart nics \<Longrightarrow> migrate_loop nics labels = followed nics labels"
proof (induction nics arbitrary: labels)
  case Nil
  show ?case by (auto simp: followed_def split: option.splits)
next
  case (Cons n ns)
  have apart: "ports_apart ns" using Cons.prems by (auto simp: ports_apart_def split: if_splits)
  show ?case
  proof (cases "renamed n")
    case False
    then have "followed (n # ns) labels = followed ns labels" by (intro ext) (simp add: followed_def split: option.split)
    with False Cons.IH [OF apart] show ?thesis by (auto simp: renamed_def)
  next
    case True
    define l where "l = (case labels (ni_SysName n) of None \<Rightarrow> labels
      | Some old \<Rightarrow> (if labels (ni_Name n) = None then labels(ni_Name n \<mapsto> old) else labels)(ni_SysName n := None))"
    have m: "migrate_loop (n # ns) labels = followed ns l"
      using True Cons.IH [OF apart] by (cases "labels (ni_SysName n)"; cases "labels (ni_Name n)") (simp_all add: l_def renamed_def fun_upd_def)
    have new: "ni_SysName n \<notin> ni_SysName ` set (filter renamed ns)" "ni_Name n \<notin> ni_Name ` set (filter renamed ns)"
      "ni_Name n \<notin> ni_SysName ` set (filter renamed ns)" "ni_SysName n \<notin> ni_Name ` set (filter renamed ns)" "ni_Name n \<noteq> ni_SysName n"
      using Cons.prems True by (auto simp: ports_apart_def)
    have l: "l (ni_SysName n) = None" "l (ni_Name n) = (case labels (ni_Name n) of Some v \<Rightarrow> Some v | None \<Rightarrow> labels (ni_SysName n))"
      "\<And>k. k \<noteq> ni_SysName n \<Longrightarrow> k \<noteq> ni_Name n \<Longrightarrow> l k = labels k"
      using new(5) by (auto simp: l_def split: option.splits)
    have "followed ns l k = followed (n # ns) labels k" for k
    proof -
      consider "k = ni_SysName n" | "k = ni_Name n" | "k \<noteq> ni_SysName n" "k \<noteq> ni_Name n" by blast
      then show ?thesis
      proof cases
        case 1
        with True l(1) new find_renamed_None [of k ns] show ?thesis by (simp add: followed_def)
      next
        case 2
        with True l(2) new find_renamed_None [of k ns] show ?thesis by (simp add: followed_def split: option.split)
      next
        case 3
        have "l (ni_SysName m) = labels (ni_SysName m)" if "find (\<lambda>n. renamed n \<and> ni_Name n = k) ns = Some m" for m
        proof -
          have "ni_SysName m \<in> ni_SysName ` set (filter renamed ns)" using find_renamed_cong [OF that] by simp
          with new(1,3) show ?thesis by (metis l(3))
        qed
        with 3 l(3) show ?thesis by (simp add: followed_def split: option.split)
      qed
    qed
    with m show ?thesis by (simp add: fun_eq_iff)
  qed
qed

text \<open>
  C28. Renaming the ports loses no alias. When no port carries the kernel's name of another,
  listing the interfaces moves every alias from the kernel's name of a renamed port to its new
  name, where an alias written on the new name wins, and leaves all others; listing again
  changes nothing more.
\<close>

theorem aliases_follow_ports:
  assumes "ports_apart nics"
  shows "us_labels (migrateNICLabels nics s) = followed nics (us_labels s)
    \<and> migrateNICLabels nics (migrateNICLabels nics s) = migrateNICLabels nics s"
proof -
  have "followed nics (followed nics labels) k = followed nics labels k" for labels k
  proof (cases "k \<in> ni_SysName ` set (filter renamed nics)")
    case True
    then show ?thesis by (simp add: followed_def)
  next
    case False
    have "followed nics labels (ni_SysName m) = None" if "find (\<lambda>n. renamed n \<and> ni_Name n = k) nics = Some m" for m
      using find_renamed_cong [OF that] by (simp add: followed_def)
    with False show ?thesis by (auto simp: followed_def [of nics "followed nics labels"] split: option.splits)
  qed
  then have "followed nics (followed nics labels) = followed nics labels" for labels by blast
  then show ?thesis by (simp add: migrateNICLabels_def migrate_followed [OF assms])
qed

text \<open>
  Where a port carries the kernel's name of another port, every listing takes an alias away
  from the port it was written on.
\<close>

definition ex_nic :: "string \<Rightarrow> string \<Rightarrow> nicInfo" where
  "ex_nic name sys = \<lparr> ni_Name = name, ni_Addresses = [], ni_SysName = sys, ni_Role = [], ni_Label = [] \<rparr>"

theorem alias_taken_away:
  "migrate_loop [ex_nic ''eth1'' ''eth0'', ex_nic ''eth0'' ''eth2''] [''eth0'' \<mapsto> ''office''] = [''eth1'' \<mapsto> ''office'']"
  by (auto simp: ex_nic_def fun_eq_iff)

section \<open>Examples\<close>

definition ex_uplinks :: upState where
  "ex_uplinks = \<lparr> us_gw = ex_app, us_spec = None, us_mode = None, us_wanruns = [], us_wans = [], us_legacy = None, us_netplan = None, us_netruns = [],
     us_labels = [''enp2s0'' \<mapsto> ''office''] \<rparr>"

theorem aliases_follow_ports_witness:
  "us_labels (migrateNICLabels [ex_nic ''lan0'' ''enp2s0''] ex_uplinks) ''lan0'' = Some ''office''"
proof -
  have "ports_apart [ex_nic ''lan0'' ''enp2s0'']"
    by (simp add: ports_apart_def renamed_def ex_nic_def)
  from aliases_follow_ports [OF this, of ex_uplinks] show ?thesis
    by (simp add: followed_def renamed_def ex_nic_def ex_uplinks_def)
qed

definition ex_default_route :: defaultRoute where
  "ex_default_route = \<lparr> dr_Dev = ''wan0'', dr_Gateway = ''192.0.2.1'', dr_Protocol = ''dhcp'', dr_Metric = 100 \<rparr>"

theorem wan_form_applies_witness:
  "\<exists>ws y. apiWANConfigGet (Some [ex_default_route]) None ex_uplinks = (ws, ex_uplinks) \<and> map w_Interface ws = [''wan0''] \<and> GenerateNetplanMulti ws = Inr y"
proof -
  have d: "detectWANs (Some [ex_default_route]) None = [detected Map.empty ex_default_route]"
    by (simp add: detectWANs_def ex_default_route_def detected_def wan_Validate_def wan_ifaceRe_def re_rep_def iface_char_def char_class_defs)
  have w: "apiWANConfigGet (Some [ex_default_route]) None ex_uplinks = ([detected Map.empty ex_default_route], ex_uplinks)"
    unfolding apiWANConfigGet_def d by (simp add: getWANs_def ex_uplinks_def)
  have e: "us_wans ex_uplinks = []" "us_legacy ex_uplinks = None" by (simp_all add: ex_uplinks_def)
  have n: "map w_Interface [detected Map.empty ex_default_route] = [''wan0'']" by (simp add: detected_def ex_default_route_def)
  have "detectWANs (Some [ex_default_route]) None \<noteq> []" unfolding d by simp
  with wan_form_applies [OF w] e obtain y where y: "GenerateNetplanMulti [detected Map.empty ex_default_route] = Inr y" by blast
  show ?thesis by (intro exI conjI) (rule w, rule n, rule y)
qed

definition ex_up_io :: upIO where
  "ex_up_io = \<lparr> ui_gw = ex_io, ui_write_spec = True, ui_write_mode = True, ui_write_netplan = True, ui_wan = (\<lambda>_. True), ui_net = (\<lambda>_. True) \<rparr>"

theorem multiwan_firewall_synced_witness:
  "\<exists>s sp m. apiWANApply ex_up_io ex_gw_rq (ga_wan ex_app) ex_uplinks = (GOk, s) \<and> us_wanruns s = us_wanruns ex_uplinks @ [(''disable'', sp, m)]
     \<and> c_PBRUplinks (fst (firewallConfig (ui_gw ex_up_io) (us_gw s))) = []"
proof -
  have w: "\<not> mw_Enabled (ga_wan ex_app)" by (simp add: ex_app_def)
  obtain s where s: "apiWANApply ex_up_io ex_gw_rq (ga_wan ex_app) ex_uplinks = (GOk, s)"
    using w by (simp add: apiWANApply_def mwan_Validate_def runWAN_def store_wan_def ex_up_io_def ex_io_def)
  from multiwan_firewall_synced [OF s] w show ?thesis using s by auto
qed

end
