(* ===== verification/Siem.thy ===== *)
theory Siem
  imports VpnApi
begin

text \<open>
  \<open>internal/siem\<close> and \<open>cmd/saguaro/siem.go\<close>: the formats of forwarded events, the bounded queue
  in front of the worker that sends them, and the handlers of its configuration. Rendering a
  time as RFC 3339 and as milliseconds, and the JSON encoder, are parameters; so are the
  outcomes of dialling and writing. The lines written to the collector are part of the state.
\<close>

section \<open>Formats\<close>

record siem_event =
  se_Time :: int
  se_Host :: string
  se_Severity :: string
  se_Actor :: string
  se_Action :: string
  se_Target :: string
  se_Result :: string
  se_Message :: string

record siem_render =
  sr_rfc3339 :: "int \<Rightarrow> string"
  sr_millis :: "int \<Rightarrow> int"
  sr_json :: "siem_event \<Rightarrow> string"

text \<open>A severity the map does not have reads as zero.\<close>

definition severityRank :: "string \<Rightarrow> nat" where
  "severityRank s =
     (if s = ''notice'' then 1 else if s = ''warning'' then 2 else if s = ''error'' then 3
      else if s = ''critical'' then 4 else if s = ''security'' then 5 else 0)"

definition AtLeast :: "string \<Rightarrow> string \<Rightarrow> bool" where
  "AtLeast sev mn \<longleftrightarrow> severityRank sev \<ge> severityRank mn"

definition syslogSeverity :: "string \<Rightarrow> int" where
  "syslogSeverity s =
     (if s = ''security'' \<or> s = ''critical'' then 2 else if s = ''error'' then 3 else if s = ''warning'' then 4
      else if s = ''notice'' then 5 else 6)"

definition cefSeverity :: "string \<Rightarrow> int" where
  "cefSeverity s =
     (if s = ''security'' then 10 else if s = ''critical'' then 9 else if s = ''error'' then 7 else if s = ''warning'' then 5
      else if s = ''notice'' then 3 else 2)"

definition nonEmpty :: "string \<Rightarrow> string \<Rightarrow> string" where
  "nonEmpty s def = (if TrimSpace s = [] then def else s)"

definition FormatRFC5424 :: "siem_render \<Rightarrow> siem_event \<Rightarrow> string \<Rightarrow> int \<Rightarrow> string" where
  "FormatRFC5424 rn e app facility =
     ''<'' @ Itoa (facility * 8 + syslogSeverity (se_Severity e)) @ ''>1 '' @ sr_rfc3339 rn (se_Time e) @ '' '' @ nonEmpty (se_Host e) ''-''
   @ '' '' @ app @ '' - audit - actor='' @ nonEmpty (se_Actor e) ''-'' @ '' action='' @ nonEmpty (se_Action e) ''-''
   @ '' target='' @ nonEmpty (se_Target e) ''-'' @ '' result='' @ nonEmpty (se_Result e) ''-'' @ '' severity='' @ se_Severity e
   @ '' msg='' @ Quote (se_Message e)"

definition bslash :: char where "bslash = CHR 0x5C"

definition cefEscapeHeader :: "string \<Rightarrow> string" where
  "cefEscapeHeader s = ReplaceAllChar (CHR ''|'') [bslash, CHR ''|''] (ReplaceAllChar bslash [bslash, bslash] s)"

definition cefEscapeExt :: "string \<Rightarrow> string" where
  "cefEscapeExt s = ReplaceAllChar (CHR 0x0A) '' '' (ReplaceAllChar (CHR ''='') [bslash, CHR ''=''] (ReplaceAllChar bslash [bslash, bslash] s))"

definition cef_ext :: "siem_render \<Rightarrow> siem_event \<Rightarrow> string" where
  "cef_ext rn e =
     ''rt='' @ Itoa (sr_millis rn (se_Time e)) @ '' suser='' @ cefEscapeExt (nonEmpty (se_Actor e) ''-'')
   @ '' act='' @ cefEscapeExt (nonEmpty (se_Action e) ''-'') @ '' outcome='' @ cefEscapeExt (nonEmpty (se_Result e) ''-'')
   @ '' cs1Label=target cs1='' @ cefEscapeExt (nonEmpty (se_Target e) ''-'') @ '' msg='' @ cefEscapeExt (se_Message e)"

definition FormatCEF :: "siem_render \<Rightarrow> siem_event \<Rightarrow> string \<Rightarrow> string" where
  "FormatCEF rn e version =
     ''CEF:0|Saguaro|SNA|'' @ cefEscapeHeader version @ ''|'' @ cefEscapeHeader (nonEmpty (se_Action e) ''event'') @ ''|''
   @ cefEscapeHeader (nonEmpty (se_Message e) (se_Action e)) @ ''|'' @ Itoa (cefSeverity (se_Severity e)) @ ''|'' @ cef_ext rn e"

definition Format :: "siem_render \<Rightarrow> string \<Rightarrow> siem_event \<Rightarrow> string \<Rightarrow> string \<Rightarrow> string" where
  "Format rn format e app version =
     (if format = ''cef'' then FormatCEF rn e version
      else if format = ''json'' then sr_json rn e
      else FormatRFC5424 rn e app 16)"

section \<open>Forwarding\<close>

record siemConfig =
  sc_Enabled :: bool
  sc_Protocol :: string
  sc_Host :: string
  sc_Port :: int
  sc_Format :: string
  sc_MinSeverity :: string
  sc_SkipVerify :: bool

definition siem_validate :: "siemConfig \<Rightarrow> bool" where
  "siem_validate c \<longleftrightarrow>
     sc_Protocol c \<in> {''udp'', ''tcp'', ''tls''} \<and> sc_Host c \<noteq> [] \<and> 1 \<le> sc_Port c \<and> sc_Port c \<le> 65535
   \<and> sc_Format c \<in> {''rfc5424'', ''cef'', ''json''}
   \<and> sc_MinSeverity c \<in> {''info'', ''notice'', ''warning'', ''error'', ''critical'', ''security''}"

text \<open>The forwarder and the stored configuration; \<open>sf_wire\<close> are the lines written so far.\<close>

record siem_state =
  sf_cfg :: siemConfig
  sf_conn :: bool
  sf_queue :: "siem_event list"
  sf_wire :: "string list"
  sf_store :: "siemConfig option"
  sf_audit :: "auditEvent list"

record siem_env =
  sv_render :: siem_render
  sv_host :: string
  sv_version :: string

definition zero_siem :: siemConfig where
  "zero_siem = \<lparr> sc_Enabled = False, sc_Protocol = [], sc_Host = [], sc_Port = 0, sc_Format = [], sc_MinSeverity = [], sc_SkipVerify = False \<rparr>"

definition setConfig :: "siemConfig \<Rightarrow> siem_state \<Rightarrow> siem_state" where
  "setConfig c s = s \<lparr> sf_cfg := c, sf_conn := False \<rparr>"

text \<open>\<open>send\<close> with the outcomes of dialling and of writing.\<close>

definition siem_send :: "siem_env \<Rightarrow> bool \<Rightarrow> bool \<Rightarrow> siem_event \<Rightarrow> siem_state \<Rightarrow> bool \<times> siem_state" where
  "siem_send env dials writes e s =
     (if sc_Host (sf_cfg s) = [] then (False, s)
      else if \<not> sf_conn s \<and> \<not> dials then (False, s)
      else let s1 = s \<lparr> sf_conn := True \<rparr>;
               line = Format (sv_render env) (sc_Format (sf_cfg s)) e ''saguaro'' (sv_version env) @ [CHR 0x0A]
           in if writes then (True, s1 \<lparr> sf_wire := sf_wire s @ [line] \<rparr>) else (False, s1))"

text \<open>A failure closes the connection, so that the next event dials again.\<close>

definition close_on_error :: "bool \<times> siem_state \<Rightarrow> bool \<times> siem_state" where
  "close_on_error r = (case r of (ok, s) \<Rightarrow> if ok then (True, s) else (False, s \<lparr> sf_conn := False \<rparr>))"

definition worker :: "siem_env \<Rightarrow> bool \<Rightarrow> bool \<Rightarrow> siem_state \<Rightarrow> siem_state" where
  "worker env dials writes s =
     (case sf_queue s of [] \<Rightarrow> s | e # q \<Rightarrow> snd (close_on_error (siem_send env dials writes e (s \<lparr> sf_queue := q \<rparr>))))"

definition siem_queue_cap :: nat where "siem_queue_cap = 512"

definition event_of_audit :: "siem_env \<Rightarrow> auditEvent \<Rightarrow> siem_event" where
  "event_of_audit env e =
     \<lparr> se_Time = ae_Time e, se_Host = sv_host env, se_Severity = ae_Severity e, se_Actor = ae_Actor e, se_Action = ae_Action e,
       se_Target = ae_Target e, se_Result = ae_Result e, se_Message = ae_Action e @ '' '' @ ae_Target e \<rparr>"

definition siemForward :: "siem_env \<Rightarrow> auditEvent \<Rightarrow> siem_state \<Rightarrow> siem_state" where
  "siemForward env e s =
     (if \<not> sc_Enabled (sf_cfg s) \<or> \<not> AtLeast (ae_Severity e) (sc_MinSeverity (sf_cfg s)) then s
      else if length (sf_queue s) < siem_queue_cap then s \<lparr> sf_queue := sf_queue s @ [event_of_audit env e] \<rparr>
      else s)"

section \<open>Handlers\<close>

text \<open>A record is forwarded after it has been added to the log.\<close>

definition siem_record :: "siem_env \<Rightarrow> auditEvent \<Rightarrow> siem_state \<Rightarrow> siem_state" where
  "siem_record env e s = siemForward env e (s \<lparr> sf_audit := addAudit e (sf_audit s) \<rparr>)"

definition getSIEM :: "siem_state \<Rightarrow> siemConfig" where
  "getSIEM s =
     (case sf_store s of
        Some c \<Rightarrow> c
      | None \<Rightarrow> zero_siem \<lparr> sc_Protocol := ''udp'', sc_Port := 514, sc_Format := ''rfc5424'', sc_MinSeverity := ''warning'' \<rparr>)"

definition setSIEM :: "siemConfig \<Rightarrow> siem_state \<Rightarrow> siem_state" where
  "setSIEM c s = setConfig c (s \<lparr> sf_store := Some c \<rparr>)"

definition put_event :: "reqctx \<Rightarrow> siemConfig \<Rightarrow> auditEvent" where
  "put_event rq c = \<lparr> ae_Time = rq_now rq, ae_Severity = ''warning'', ae_Actor = actor rq, ae_Action = ''siem-config'', ae_Target = sc_Host c,
     ae_Result = ''success'', ae_RemoteIP = rq_ip rq \<rparr>"

definition apiSIEMPut :: "siem_env \<Rightarrow> bool \<Rightarrow> reqctx \<Rightarrow> siemConfig \<Rightarrow> siem_state \<Rightarrow> reply \<times> siem_state" where
  "apiSIEMPut env saved rq c s =
     (if sc_Enabled c \<and> \<not> siem_validate c then (Refused 400, s)
      else let s1 = setSIEM c s
           in if \<not> saved then (Refused 500, s1) else (Done, siem_record env (put_event rq c) s1))"

definition test_event :: "siem_env \<Rightarrow> reqctx \<Rightarrow> siem_event" where
  "test_event env rq =
     \<lparr> se_Time = rq_now rq, se_Host = sv_host env, se_Severity = ''notice'', se_Actor = actor rq, se_Action = ''siem-test'',
       se_Target = ''connectivity'', se_Result = ''test'', se_Message = ''Saguaro SIEM connectivity test'' \<rparr>"

definition apiSIEMTest :: "siem_env \<Rightarrow> bool \<Rightarrow> bool \<Rightarrow> reqctx \<Rightarrow> siem_state \<Rightarrow> reply \<times> siem_state" where
  "apiSIEMTest env dials writes rq s =
     (if \<not> siem_validate (getSIEM s) then (Refused 400, s)
      else case close_on_error (siem_send env dials writes (test_event env rq) (setConfig (getSIEM s) s)) of
             (ok, s1) \<Rightarrow> (if ok then Done else Refused 502, s1))"

section \<open>Reading a CEF record\<close>

text \<open>
  A header field ends at the next bar that is not escaped; a backslash takes the next
  character literally.
\<close>

fun take_field :: "string \<Rightarrow> string \<times> string" where
  "take_field [] = ([], [])"
| "take_field [c] = (if c = CHR ''|'' then ([], []) else ([c], []))"
| "take_field (c # d # s) =
     (if c = bslash then map_prod (\<lambda>f. d # f) id (take_field s)
      else if c = CHR ''|'' then ([], d # s)
      else map_prod (\<lambda>f. c # f) id (take_field (d # s)))"

text \<open>The first fields of a record, and what follows them.\<close>

fun cef_fields :: "nat \<Rightarrow> string \<Rightarrow> string list \<times> string" where
  "cef_fields 0 s = ([], s)"
| "cef_fields (Suc n) s = (case take_field s of (f, r) \<Rightarrow> map_prod (\<lambda>fs. f # fs) id (cef_fields n r))"

text \<open>The key signs of an extension: equality signs that are not escaped.\<close>

fun key_signs :: "string \<Rightarrow> nat" where
  "key_signs [] = 0"
| "key_signs [c] = (if c = CHR ''='' then 1 else 0)"
| "key_signs (c # d # s) =
     (if c = bslash then key_signs s else (if c = CHR ''='' then 1 else 0) + key_signs (d # s))"

lemma ReplaceAllChar_Nil [simp]: "ReplaceAllChar c new [] = []"
  by (simp add: ReplaceAllChar_def)

lemma ReplaceAllChar_append: "ReplaceAllChar c new (a @ b) = ReplaceAllChar c new a @ ReplaceAllChar c new b"
  by (simp add: ReplaceAllChar_def)

lemma escape_header_Cons:
  "cefEscapeHeader (c # s) = (if c = bslash then [bslash, bslash] else if c = CHR ''|'' then [bslash, CHR ''|''] else [c]) @ cefEscapeHeader s"
  by (simp add: cefEscapeHeader_def ReplaceAllChar_def bslash_def)

lemma escape_ext_Cons:
  "cefEscapeExt (c # s) = (if c = bslash then [bslash, bslash] else if c = CHR ''='' then [bslash, CHR ''='']
     else if c = CHR 0x0A then '' '' else [c]) @ cefEscapeExt s"
  by (simp add: cefEscapeExt_def ReplaceAllChar_def bslash_def)

lemma escape_Nil [simp]: "cefEscapeHeader [] = []" "cefEscapeExt [] = []"
  by (simp_all add: cefEscapeHeader_def cefEscapeExt_def)

lemma take_field_plain: "c \<noteq> bslash \<Longrightarrow> c \<noteq> CHR ''|'' \<Longrightarrow> take_field (c # s) = map_prod (\<lambda>f. c # f) id (take_field s)"
  by (cases s) simp_all

lemma take_field_bar: "take_field (CHR ''|'' # s) = ([], s)"
  by (cases s) (simp_all add: bslash_def)

lemma take_field_escaped: "take_field (cefEscapeHeader x @ CHR ''|'' # r) = (x, r)"
  by (induction x) (simp_all add: take_field_bar escape_header_Cons take_field_plain)

lemma take_field_nospecial: "bslash \<notin> set x \<Longrightarrow> CHR ''|'' \<notin> set x \<Longrightarrow> take_field (x @ CHR ''|'' # r) = (x, r)"
  by (induction x) (auto simp: take_field_bar take_field_plain)

lemma key_signs_plain: "c \<noteq> bslash \<Longrightarrow> key_signs (c # s) = (if c = CHR ''='' then 1 else 0) + key_signs s"
  by (cases s) simp_all

lemma key_signs_escaped: "key_signs (cefEscapeExt x @ r) = key_signs r"
  by (induction x) (auto simp: escape_ext_Cons key_signs_plain bslash_def)

lemma key_signs_none: "bslash \<notin> set x \<Longrightarrow> CHR ''='' \<notin> set x \<Longrightarrow> key_signs (x @ r) = key_signs r"
  by (induction x) (auto simp: key_signs_plain)

lemma Itoa_special: "bslash \<notin> set (Itoa i)" "CHR ''='' \<notin> set (Itoa i)" "CHR ''|'' \<notin> set (Itoa i)"
proof -
  have "c \<notin> set (Itoa i)" if "\<not> is_digit c" "c \<noteq> CHR ''-''" for c
    using that nat_str_digits by (auto simp: Itoa_def list_all_iff)
  then show "bslash \<notin> set (Itoa i)" "CHR ''='' \<notin> set (Itoa i)" "CHR ''|'' \<notin> set (Itoa i)"
    by (simp_all add: bslash_def is_digit_def char_le_of_char)
qed

lemma key_signs_literal: "key_signs (CHR ''='' # s) = Suc (key_signs s)"
  by (simp add: key_signs_plain bslash_def)

lemma cef_ext_signs: "key_signs (cef_ext rn e) = 7"
proof -
  have k: "key_signs (k @ CHR ''='' # r) = Suc (key_signs r)" if "bslash \<notin> set k" "CHR ''='' \<notin> set k" for k r
    using key_signs_none [OF that] by (simp add: key_signs_literal)
  have m: "cef_ext rn e = ''rt'' @ CHR ''='' # Itoa (sr_millis rn (se_Time e)) @ '' suser'' @ CHR ''='' # cefEscapeExt (nonEmpty (se_Actor e) ''-'')
     @ '' act'' @ CHR ''='' # cefEscapeExt (nonEmpty (se_Action e) ''-'') @ '' outcome'' @ CHR ''='' # cefEscapeExt (nonEmpty (se_Result e) ''-'')
     @ '' cs1Label'' @ CHR ''='' # ''target cs1'' @ CHR ''='' # cefEscapeExt (nonEmpty (se_Target e) ''-'') @ '' msg'' @ CHR ''='' # cefEscapeExt (se_Message e) @ []"
    by (simp add: cef_ext_def)
  have l: "bslash \<notin> set ''rt''" "CHR ''='' \<notin> set ''rt''" "bslash \<notin> set '' suser''" "CHR ''='' \<notin> set '' suser''" "bslash \<notin> set '' act''" "CHR ''='' \<notin> set '' act''"
    "bslash \<notin> set '' outcome''" "CHR ''='' \<notin> set '' outcome''" "bslash \<notin> set '' cs1Label''" "CHR ''='' \<notin> set '' cs1Label''"
    "bslash \<notin> set ''target cs1''" "CHR ''='' \<notin> set ''target cs1''" "bslash \<notin> set '' msg''" "CHR ''='' \<notin> set '' msg''"
    by (simp_all add: bslash_def)
  show ?thesis
    unfolding m k [OF l(1,2)] key_signs_none [OF Itoa_special(1,2)] k [OF l(3,4)] key_signs_escaped k [OF l(5,6)] k [OF l(7,8)] k [OF l(9,10)]
      k [OF l(11,12)] k [OF l(13,14)] by simp
qed

text \<open>
  C26. A CEF record cannot be forged through its values. Read field by field, the record of an
  event has exactly the header the event and the version give, whatever bars and backslashes
  they contain, then the extension; and the extension has exactly its seven keys, because no
  value contributes a key sign.
\<close>

theorem cef_fields_read_back:
  "cef_fields 7 (FormatCEF rn e version) =
     ([''CEF:0'', ''Saguaro'', ''SNA'', version, nonEmpty (se_Action e) ''event'', nonEmpty (se_Message e) (se_Action e),
       Itoa (cefSeverity (se_Severity e))], cef_ext rn e)
   \<and> key_signs (cef_ext rn e) = 7"
proof -
  have f: "FormatCEF rn e version = ''CEF:0'' @ CHR ''|'' # ''Saguaro'' @ CHR ''|'' # ''SNA'' @ CHR ''|'' # cefEscapeHeader version @ CHR ''|'' #
      cefEscapeHeader (nonEmpty (se_Action e) ''event'') @ CHR ''|'' # cefEscapeHeader (nonEmpty (se_Message e) (se_Action e)) @ CHR ''|'' #
      Itoa (cefSeverity (se_Severity e)) @ CHR ''|'' # cef_ext rn e"
    by (simp add: FormatCEF_def)
  have l: "bslash \<notin> set ''CEF:0''" "CHR ''|'' \<notin> set ''CEF:0''" "bslash \<notin> set ''Saguaro''" "CHR ''|'' \<notin> set ''Saguaro''"
    "bslash \<notin> set ''SNA''" "CHR ''|'' \<notin> set ''SNA''"
    by (simp_all add: bslash_def)
  have seven: "(7 :: nat) = Suc (Suc (Suc (Suc (Suc (Suc (Suc 0))))))" by simp
  show ?thesis
    unfolding f seven cef_fields.simps take_field_nospecial [OF l(1,2)] prod.case take_field_nospecial [OF l(3,4)] take_field_nospecial [OF l(5,6)]
      take_field_escaped take_field_nospecial [OF Itoa_special(1,3)]
    using cef_ext_signs [of rn e] by simp
qed

section \<open>The queue\<close>

inductive siem_step :: "siem_env \<Rightarrow> siem_state \<Rightarrow> siem_state \<Rightarrow> bool" for env where
  recorded: "siem_step env s (siem_record env e s)"
| worked: "siem_step env s (worker env dials writes s)"
| put: "apiSIEMPut env saved rq c s = (r, s') \<Longrightarrow> siem_step env s s'"
| tested: "apiSIEMTest env dials writes rq s = (r, s') \<Longrightarrow> siem_step env s s'"

text \<open>At the start the forwarder has the stored configuration, or the zero one.\<close>

definition siem_start :: "siemConfig option \<Rightarrow> auditEvent list \<Rightarrow> siem_state" where
  "siem_start stored log =
     \<lparr> sf_cfg = (case stored of Some c \<Rightarrow> c | None \<Rightarrow> zero_siem), sf_conn = False, sf_queue = [], sf_wire = [], sf_store = stored, sf_audit = log \<rparr>"

inductive siem_reach :: "siem_env \<Rightarrow> siem_state \<Rightarrow> bool" for env where
  start: "siem_reach env (siem_start stored log)"
| step: "siem_reach env s \<Longrightarrow> siem_step env s s' \<Longrightarrow> siem_reach env s'"

definition siem_inv :: "siem_state \<Rightarrow> bool" where
  "siem_inv s \<longleftrightarrow> length (sf_queue s) \<le> siem_queue_cap \<and> (\<forall>c. sf_store s = Some c \<longrightarrow> sf_cfg s = c)"

lemma siem_send_same:
  assumes "close_on_error (siem_send env d w e s) = (ok, s')"
  shows "sf_queue s' = sf_queue s \<and> sf_cfg s' = sf_cfg s \<and> sf_store s' = sf_store s"
  using assms by (auto simp: siem_send_def close_on_error_def Let_def split: if_splits)

lemma siemForward_inv: "siem_inv s \<Longrightarrow> siem_inv (siemForward env e s)"
  by (simp add: siem_inv_def siemForward_def)

lemma siem_send_inv: "close_on_error (siem_send env d w e s) = (ok, s') \<Longrightarrow> siem_inv s \<Longrightarrow> siem_inv s'"
  using siem_send_same by (fastforce simp: siem_inv_def)

lemma siem_step_inv: "siem_step env s s' \<Longrightarrow> siem_inv s \<Longrightarrow> siem_inv s'"
proof (induction rule: siem_step.induct)
  case (recorded s e)
  then have "siem_inv (s \<lparr> sf_audit := addAudit e (sf_audit s) \<rparr>)" by (simp add: siem_inv_def)
  then show ?case by (simp add: siem_record_def siemForward_inv)
next
  case (worked s d w)
  show ?case
  proof (cases "sf_queue s")
    case (Cons e q)
    have "siem_inv (s \<lparr> sf_queue := q \<rparr>)" using worked Cons by (simp add: siem_inv_def)
    with siem_send_inv [of env d w e "s \<lparr> sf_queue := q \<rparr>"] Cons show ?thesis
      by (cases "close_on_error (siem_send env d w e (s \<lparr> sf_queue := q \<rparr>))") (auto simp: worker_def)
  qed (use worked in \<open>simp add: worker_def\<close>)
next
  case (put saved rq c s r s')
  have "siem_inv (setSIEM c s)" using put(2) by (simp add: siem_inv_def setSIEM_def setConfig_def)
  moreover from this have "siem_inv (setSIEM c s \<lparr> sf_audit := x \<rparr>)" for x by (simp add: siem_inv_def)
  ultimately show ?case
    using put siemForward_inv by (auto simp: apiSIEMPut_def siem_record_def Let_def split: if_splits)
next
  case (tested d w rq s r s')
  have "siem_inv (setConfig (getSIEM s) s)" using tested(2) by (auto simp: siem_inv_def setConfig_def getSIEM_def split: option.splits)
  with tested siem_send_inv show ?case
    by (auto simp: apiSIEMTest_def split: if_splits prod.splits)
qed

definition siem_line :: "siem_env \<Rightarrow> siem_state \<Rightarrow> siem_event \<Rightarrow> string" where
  "siem_line env s e = Format (sv_render env) (sc_Format (sf_cfg s)) e ''saguaro'' (sv_version env) @ [CHR 0x0A]"

lemma worker_drains:
  assumes "sc_Host (sf_cfg s) \<noteq> []"
  shows "sf_queue ((worker env True True ^^ length (sf_queue s)) s) = []
    \<and> sf_wire ((worker env True True ^^ length (sf_queue s)) s) = sf_wire s @ map (siem_line env s) (sf_queue s)"
proof -
  have "sf_queue s = q \<Longrightarrow> sc_Host (sf_cfg s) \<noteq> [] \<Longrightarrow> sf_queue ((worker env True True ^^ length q) s) = []
      \<and> sf_wire ((worker env True True ^^ length q) s) = sf_wire s @ map (siem_line env s) q" for q s
  proof (induction q arbitrary: s)
    case (Cons e q)
    let ?t = "worker env True True s"
    have t: "sf_queue ?t = q" "sf_cfg ?t = sf_cfg s" "sf_wire ?t = sf_wire s @ [siem_line env s e]"
      using Cons.prems by (simp_all add: worker_def siem_send_def close_on_error_def siem_line_def Let_def)
    have l: "siem_line env ?t = siem_line env s" by (simp add: fun_eq_iff siem_line_def t(2))
    have "(worker env True True ^^ length (e # q)) s = (worker env True True ^^ length q) ?t"
      by (simp add: funpow_swap1)
    with Cons.IH [of ?t] t l Cons.prems show ?case by simp
  qed simp
  from this [OF refl assms] show ?thesis .
qed


section \<open>Limits\<close>

text \<open>
  The header escaping keeps line breaks, and the configured host is only checked not to be
  empty: configuring a host with a line break writes a record that the collector reads as two.
\<close>

definition ex_siem :: siemConfig where
  "ex_siem = \<lparr> sc_Enabled = True, sc_Protocol = ''tcp'', sc_Host = ''h'' @ [CHR 0x0A] @ ''CEF:0|x'', sc_Port = 514, sc_Format = ''cef'',
     sc_MinSeverity = ''info'', sc_SkipVerify = False \<rparr>"

theorem siem_record_split:
  "\<exists>s e. apiSIEMPut env True rq ex_siem (siem_start None []) = (Done, s) \<and> sf_queue s = [e] \<and> CHR 0x0A \<in> set (FormatCEF rn e version)"
proof -
  let ?e = "event_of_audit env (put_event rq ex_siem)"
  have "siem_validate ex_siem" by (simp add: siem_validate_def ex_siem_def)
  then have p: "\<exists>s. apiSIEMPut env True rq ex_siem (siem_start None []) = (Done, s) \<and> sf_queue s = [?e]"
    by (simp add: apiSIEMPut_def siem_record_def siemForward_def setSIEM_def setConfig_def siem_start_def siem_queue_cap_def
        AtLeast_def severityRank_def put_event_def ex_siem_def)
  have "set s \<subseteq> set (cefEscapeHeader s)" for s
    by (induction s) (auto simp: escape_header_Cons)
  moreover have "CHR 0x0A \<in> set (se_Message ?e)"
    by (simp add: event_of_audit_def put_event_def ex_siem_def)
  ultimately have "CHR 0x0A \<in> set (cefEscapeHeader (se_Message ?e))" by blast
  moreover have "nonEmpty (se_Message ?e) (se_Action ?e) = se_Message ?e"
    using TrimSpace_graph [of "se_Message ?e"] by (simp add: nonEmpty_def event_of_audit_def put_event_def ex_siem_def is_graph_def)
  ultimately have "CHR 0x0A \<in> set (FormatCEF rn ?e version)"
    by (simp add: FormatCEF_def)
  with p show ?thesis by blast
qed

definition ex_siem_env :: siem_env where
  "ex_siem_env = \<lparr> sv_render = \<lparr> sr_rfc3339 = (\<lambda>_. ''2026-01-01T00:00:00Z''), sr_millis = (\<lambda>t. t), sr_json = (\<lambda>_. []) \<rparr>, sv_host = ''gw'', sv_version = ''1'' \<rparr>"


end
