(* ===== verification/Spec2Isabelle.thy ===== *)
theory Spec2Isabelle
  imports PortMap DnsZones Auth Conflicts DeviceAccess Partitions Alerts OvpnApi ConfigVersions Ids ServiceApis Backup Uplinks Siem
begin

text \<open>
  Verification of the Saguaro network appliance manager (\<open>cmd/saguaro\<close>, \<open>cmd/saguaro-eventd\<close> and
  \<open>internal/\<close>, Go).

  \<^bold>\<open>The program.\<close> The control plane \<open>saguaro\<close> is one process that keeps the appliance's
  configuration in a JSON state file, serves it over an HTTP API behind sessions and API tokens,
  renders service configurations as text (nftables, netplan, Unbound, WireGuard, strongSwan,
  OpenVPN, Kea), stages the text and lets small root scripts install it. The collector daemon
  \<open>saguaro-eventd\<close> reads journald and Suricata and writes events to PostgreSQL, from which the
  control plane mails alerts. Most mutating handlers hold one lock, so requests act one after
  another and a run is a sequence of handler calls; the handlers without it (users, backups, log
  forwarding) are steps that interleave.

  \<^bold>\<open>Foundations.\<close> \<^verbatim>\<open>Prelude\<close>: results, first-error loops, the \<open>seen\<close> loops of the validators as
  the locale \<open>seen_loop\<close>, lists. \<^verbatim>\<open>GoStrings\<close>, \<^verbatim>\<open>GoFmt\<close>, \<^verbatim>\<open>GoNet\<close>: the parts of Go's \<open>strings\<close>,
  \<open>strconv\<close>, \<open>fmt\<close> and \<open>net\<close> that the sources use, on byte strings, with 32-bit addresses as words;
  round trips of printing and parsing, and that no rendered value breaks out of its line.

  \<^bold>\<open>Firewall\<close> (\<open>internal/adapters/nftgen\<close>, \<open>gateway.go\<close>, \<open>firewall_objects.go\<close>, \<open>firewall_block.go\<close>,
  \<open>systemprofile.go\<close>, \<open>deviceaccess.go\<close>). \<^verbatim>\<open>NftTypes\<close>: objects and their validation, equivalent to
  a declarative description. \<^verbatim>\<open>NftGen\<close>: the ruleset generator, which returns for every validated
  configuration and never locks the administrator out. \<^verbatim>\<open>NftTester\<close> and \<^verbatim>\<open>NftPolicy\<close>: the rule tester
  agrees with a reading of the generated ruleset, zones follow their trust order, aliases are
  declared before use. \<^verbatim>\<open>Gateway\<close>: the handlers on the application state, with the firewall adapter
  as a parameter; stored objects stay valid, a blocked address is dropped, the router profile
  excludes gateway mode. \<^verbatim>\<open>DeviceAccess\<close>: the service access matrix.

  \<^bold>\<open>Networks\<close> (\<open>vlangen\<close>, \<open>wancfg\<close>, \<open>portmap\<close>, \<open>routes\<close>, \<open>multiwan\<close>, \<open>dnszones\<close>). \<^verbatim>\<open>Netplan\<close>, \<^verbatim>\<open>PortMap\<close>,
  \<^verbatim>\<open>NetSpecs\<close>, \<^verbatim>\<open>DnsZones\<close>: when a file is rendered, its exact lines, and that the resolver and the
  firewall use the same networks.

  \<^bold>\<open>Uplinks and ports\<close> (\<open>multiwan.go\<close>, \<open>wan.go\<close>, \<open>interfaces.go\<close>). \<^verbatim>\<open>Uplinks\<close>: the handlers over the
  gateway state; multi-WAN and the firewall change together, the addressing form can be applied as
  it is shown, and aliases follow renamed ports.

  \<^bold>\<open>Proxies and other services\<close> (\<open>squidcfg\<close>, \<open>nginxgen\<close>, \<open>webproxy.go\<close>, \<open>proxy.go\<close>, \<open>routes.go\<close>). \<^verbatim>\<open>Squid\<close> and
  \<^verbatim>\<open>Nginx\<close>: validation and the generated files, with a reading of nginx's access rules. \<^verbatim>\<open>ServiceApis\<close>:
  three more interpretations of \<open>apply_service\<close>; what runs enforces the stored access lists and the
  stored domain lists.

  \<^bold>\<open>Intrusion detection\<close> (\<open>suricata\<close>, \<open>ids.go\<close>). \<^verbatim>\<open>Ids\<close>: the configuration text and the handlers over the
  gateway state; prevention only after observation, and a stop that takes the queue rule away.

  \<^bold>\<open>State and recovery\<close> (\<open>config_versions.go\<close>, the store of \<open>main.go\<close>, \<open>backup.go\<close>). \<^verbatim>\<open>ConfigVersions\<close>: the
  state file with its directory of versions refines an abstract history of the last forty states.
  \<^verbatim>\<open>Backup\<close>: targets, drills, restore and keys as interleaved steps; what is handed to the root service
  is safe to source, and a process restores at most once.

  \<^bold>\<open>DHCP\<close> (\<open>internal/adapters/kea\<close>, \<open>dhcp.go\<close>, \<open>dhcp_block.go\<close>, \<open>conflicts.go\<close>). \<^verbatim>\<open>Kea\<close>: the JSON
  configuration, subnets, MACs. \<^verbatim>\<open>Dhcp\<close>: the configuration transaction over a DHCP server given by
  its contract (a locale), atomic with rollback; subnets stay disjoint and the block list stays in
  force. \<^verbatim>\<open>Conflicts\<close>: reservations and the address plan report.

  \<^bold>\<open>Access\<close> (\<open>users.go\<close>, \<open>authz.go\<close>, \<open>sessions.go\<close>, \<open>apitokens.go\<close>, \<open>ratelimit.go\<close>, \<open>main.go\<close>).
  \<^verbatim>\<open>Users\<close>, \<^verbatim>\<open>Sessions\<close>, \<^verbatim>\<open>RateLimit\<close>, \<^verbatim>\<open>Auth\<close>: the stores are locales interpreted by the file-backed
  stores, the session store refines an abstract table, the last administrator stays, a logged-out
  session is refused for ever, and login decides by password, account and both limiters. Password
  hashing and SHA-256 are parameters.

  \<^bold>\<open>Tunnels\<close> (\<open>wireguard\<close>, \<open>s2s\<close>, \<open>ipsec\<close>, \<open>openvpn\<close>, \<open>vpn.go\<close>, \<open>s2s.go\<close>, \<open>ipsec.go\<close>, \<open>openvpn.go\<close>).
  \<^verbatim>\<open>WireGuard\<close>, \<^verbatim>\<open>SiteToSite\<close>, \<^verbatim>\<open>Ipsec\<close>, \<^verbatim>\<open>OpenVpn\<close>: validation, address allocation, files line by
  line. \<^verbatim>\<open>VpnApi\<close>: the handlers of three services, all interpretations of the locale \<open>apply_service\<close>:
  stored configurations stay valid, and what runs is what is stored unless an adapter failed.
  \<^verbatim>\<open>OvpnApi\<close>: OpenVPN accounts over the gateway state. Sealing of secrets, key and certificate
  generation, the adapters and the file system are parameters; an adapter that fails may leave
  the service in any state.

  \<^bold>\<open>Events and alerts\<close> (\<open>internal/events\<close>, \<open>internal/mail\<close>, \<open>mail.go\<close>, \<open>saguaro-eventd\<close>). \<^verbatim>\<open>Events\<close>: severities
  and the translation of journal and Suricata records. \<^verbatim>\<open>Partitions\<close>: monthly partitions on the
  Gregorian calendar, creation and retention. \<^verbatim>\<open>Collector\<close>: the event table and the daemon as steps
  of its goroutines over a channel of 1024 and batches of 100; the batcher works over any store that
  satisfies the locale \<open>batch_store\<close>. \<^verbatim>\<open>Alerts\<close>: mail settings, aggregation as an instance of the
  locale \<open>alert_window\<close>, and the alert loop over its cursor. The database is the list of its rows;
  whether a statement succeeds is a parameter, and insertions are taken to become visible in the
  order of their numbers. \<^verbatim>\<open>Siem\<close> (\<open>internal/siem\<close>, \<open>siem.go\<close>): the formats of forwarded records, which
  values cannot forge, and the bounded queue.

  \<^bold>\<open>Bounds.\<close> Every loop of the sources that is modelled is a total function; none needs fuel. Times
  are integers of one unit per theory. Machine integers are words where they wrap (addresses) and
  integers elsewhere, since the validators bound them far below 64 bits. JSON decoding is a
  parameter: a handler starts from the decoded request or the decoding error.

  \<^bold>\<open>Not modelled\<close>: file, database and process I/O and the goroutines around it, HTTP routing and
  the JSON views that only copy fields; cryptography and certificates (standard library and ACME
  calls); the PowerDNS client and the DNS forwarders, whose handlers only pass values to another
  service; the RPZ feeds, which rest on \<open>net/url\<close> and downloads; package management, system reports,
  metrics, service control and network tools, which run commands and reformat their output.
\<close>

end
